(* ===== verification/Prelude.thy ===== *)
theory Prelude
  imports Complex_Main "HOL-Library.Monad_Syntax" "HOL-Library.Sublist"
begin

text \<open>
  Shared vocabulary of the development: the theorem collections every component feeds, the type
  names, and the generic facts on lists, options and Python-style slices that more than one
  component uses.  Nothing in this theory is specific to one source file.

  A Python \<open>float\<close> is modelled by \<^typ>\<open>real\<close> (no rounding, NaN or infinity; where the code uses
  \<open>-float('inf')\<close> as a marker the model has \<^term>\<open>None\<close>), a Python \<open>int\<close> by \<^typ>\<open>int\<close> (or
  \<^typ>\<open>nat\<close> where the code can only produce a count), and a Python \<open>str\<close> by \<^typ>\<open>string\<close>, whose
  characters are the code points 0 to 255.
\<close>

named_theorems roundtrip_facts "facts of the form: what was split, stored or encoded comes back"
named_theorems bound_facts "size and count bounds"
named_theorems preserve_facts "invariant preservation, one fact per operation"

type_synonym pyfloat = real

section \<open>Slices\<close>

text \<open>
  \<open>xs[i:j]\<close>: a negative index counts from the end, both are clamped to the length, and an empty
  range gives the empty list.
\<close>

definition py_clamp :: "nat \<Rightarrow> int \<Rightarrow> nat" where
  "py_clamp n i = (if i < 0 then nat (max 0 (int n + i)) else nat (min i (int n)))"

definition py_slice :: "'a list \<Rightarrow> int \<Rightarrow> int \<Rightarrow> 'a list" where
  "py_slice xs i j =
     (let a = py_clamp (length xs) i; b = py_clamp (length xs) j in take (b - a) (drop a xs))"

lemma py_clamp_le [simp]: "py_clamp n i \<le> n"
  by (auto simp: py_clamp_def)

lemma py_clamp_nat [simp]: "py_clamp n (int k) = min k n"
  by (auto simp: py_clamp_def)

lemma py_clamp_0 [simp]: "py_clamp n 0 = 0"
  by (simp add: py_clamp_def)

lemma py_slice_nat: "a \<le> b \<Longrightarrow> b \<le> length xs \<Longrightarrow> py_slice xs (int a) (int b) = take (b - a) (drop a xs)"
  by (simp add: py_slice_def Let_def)

lemma py_slice_whole [simp]: "py_slice xs 0 (int (length xs)) = xs"
  by (simp add: py_slice_def)

lemma take_drop_append:
  "a \<le> b \<Longrightarrow> b \<le> c \<Longrightarrow> take (b - a) (drop a xs) @ take (c - b) (drop b xs) = take (c - a) (drop a xs)"
proof -
  assume "a \<le> b" and "b \<le> c"
  then obtain m n where "b = a + m" and "c = a + (m + n)"
    by (metis add.assoc nat_le_iff_add)
  then show ?thesis by (simp add: take_add add.commute)
qed

lemma py_slice_prefix_append:
  "a \<le> b \<Longrightarrow> b \<le> length xs \<Longrightarrow> py_slice xs 0 (int a) @ py_slice xs (int a) (int b) = py_slice xs 0 (int b)"
  using take_drop_append [of 0 a b xs] by (simp add: py_slice_def)

section \<open>Lists\<close>

lemma concat_snoc [simp]: "concat (xs @ [x]) = concat xs @ x"
  by simp

lemma sum_list_le_mult:
  fixes f :: "'a \<Rightarrow> nat"
  shows "(\<And>x. x \<in> set xs \<Longrightarrow> f x \<le> k) \<Longrightarrow> (\<Sum>x\<leftarrow>xs. f x) \<le> length xs * k"
  by (induction xs) (auto intro: add_mono)

lemma int_sum_list: "int (\<Sum>x\<leftarrow>xs. f x) = (\<Sum>x\<leftarrow>xs. int (f x))"
  by (induction xs) auto

lemma filter_empty_iff: "filter P xs = [] \<longleftrightarrow> (\<forall>x\<in>set xs. \<not> P x)"
  by (induction xs) auto

lemma map_filter_mem: "y \<in> set (List.map_filter f xs) \<longleftrightarrow> (\<exists>x\<in>set xs. f x = Some y)"
  by (induction xs) (auto simp: List.map_filter_simps split: option.splits)

lemma sorted_wrt_map_filter:
  assumes "sorted_wrt P xs" and "\<And>x y u v. P x y \<Longrightarrow> f x = Some u \<Longrightarrow> f y = Some v \<Longrightarrow> Q u v"
  shows "sorted_wrt Q (List.map_filter f xs)"
  using assms(1)
proof (induction xs)
  case (Cons x xs)
  have "\<forall>v\<in>set (List.map_filter f xs). Q u v" if "f x = Some u" for u
  proof
    fix v assume "v \<in> set (List.map_filter f xs)"
    then obtain y where "y \<in> set xs" "f y = Some v" by (auto simp: map_filter_mem)
    then show "Q u v" using Cons.prems that by (auto intro: assms(2))
  qed
  then show ?case using Cons by (auto simp: List.map_filter_simps split: option.splits)
qed (simp add: List.map_filter_simps)

end
