(* ===== verification/PyText.thy ===== *)
theory PyText
  imports Prelude
begin

text \<open>
  The string methods of the Python standard library that the modelled code calls, over the code
  points 0 to 255: white space, \<open>strip\<close>, \<open>split()\<close>, \<open>find\<close>, \<open>rfind\<close>, \<open>startswith\<close>.
  They are executable and carry the lemmas the components need (concatenation, counts).
\<close>

section \<open>White space\<close>

text \<open>The characters below 256 for which \<open>str.isspace\<close> holds.\<close>

definition py_spaces :: string where
  "py_spaces = [CHR 0x09, CHR 0x0A, CHR 0x0B, CHR 0x0C, CHR 0x0D, CHR 0x1C, CHR 0x1D, CHR 0x1E,
     CHR 0x1F, CHR 0x20, CHR 0x85, CHR 0xA0]"

definition py_isspace :: "char \<Rightarrow> bool" where
  "py_isspace c \<longleftrightarrow> c \<in> set py_spaces"

definition py_lstrip :: "string \<Rightarrow> string" where
  "py_lstrip s = dropWhile py_isspace s"

definition py_rstrip :: "string \<Rightarrow> string" where
  "py_rstrip s = rev (dropWhile py_isspace (rev s))"

definition py_strip :: "string \<Rightarrow> string" where
  "py_strip s = py_rstrip (py_lstrip s)"

definition py_blank :: "string \<Rightarrow> bool" where
  "py_blank s \<longleftrightarrow> py_strip s = []"

lemma py_rstrip_Nil_iff: "py_rstrip s = [] \<longleftrightarrow> (\<forall>c\<in>set s. py_isspace c)"
  by (simp add: py_rstrip_def dropWhile_eq_Nil_conv)

lemma py_blank_iff: "py_blank s \<longleftrightarrow> (\<forall>c\<in>set s. py_isspace c)"
proof -
  have "py_blank s \<longleftrightarrow> (\<forall>c\<in>set (dropWhile py_isspace s). py_isspace c)"
    by (simp add: py_blank_def py_strip_def py_lstrip_def py_rstrip_Nil_iff)
  also have "\<dots> \<longleftrightarrow> (\<forall>c\<in>set s. py_isspace c)"
    by (metis dropWhile_eq_Nil_conv hd_dropWhile hd_in_set set_dropWhileD)
  finally show ?thesis .
qed

lemma py_blank_Nil [simp]: "py_blank []"
  by (simp add: py_blank_iff)

lemma py_blank_strip [simp]: "py_blank (py_strip s) \<longleftrightarrow> py_blank s"
proof -
  have l: "py_blank (py_lstrip t) \<longleftrightarrow> py_blank t" for t
    unfolding py_blank_iff py_lstrip_def
    by (metis dropWhile_eq_Nil_conv hd_dropWhile hd_in_set set_dropWhileD)
  have "py_blank (py_rstrip t) \<longleftrightarrow> py_blank (rev t)" for t
    using l [of "rev t"] unfolding py_blank_iff py_rstrip_def py_lstrip_def by simp
  then show ?thesis using l by (simp add: py_strip_def py_blank_iff)
qed

section \<open>Words: \<open>str.split()\<close>\<close>

text \<open>\<open>words_from cur s\<close> is the split of the rest \<open>s\<close> when the word \<open>cur\<close> has been read so far.\<close>

fun words_from :: "string \<Rightarrow> string \<Rightarrow> string list" where
  "words_from cur [] = (if cur = [] then [] else [cur])"
| "words_from cur (c # cs) =
     (if py_isspace c then (if cur = [] then words_from [] cs else cur # words_from [] cs)
      else words_from (cur @ [c]) cs)"

definition py_split_ws :: "string \<Rightarrow> string list" where
  "py_split_ws s = words_from [] s"

text \<open>\<open>len(text.split())\<close>, the token proxy the chunking service uses.\<close>

definition word_count :: "string \<Rightarrow> nat" where
  "word_count s = length (py_split_ws s)"

lemma words_from_carry:
  "length (words_from cur s) \<le> (if cur = [] then 0 else 1) + length (words_from [] s)"
proof (induction s arbitrary: cur)
  case Nil
  then show ?case by simp
next
  case (Cons c s)
  show ?case
  proof (cases "py_isspace c")
    case True
    then show ?thesis by simp
  next
    case False
    have "length (words_from (cur @ [c]) s) \<le> 1 + length (words_from [] s)"
      using Cons.IH [of "cur @ [c]"] by simp
    moreover have "length (words_from (cur @ [c]) s) = length (words_from [c] s)"
      by (induction s arbitrary: cur c) (auto, metis append.assoc append_Cons append_Nil)
    ultimately show ?thesis using False by simp
  qed
qed

lemma words_from_append:
  "length (words_from cur (a @ b)) \<le> length (words_from cur a) + length (words_from [] b)"
proof (induction a arbitrary: cur)
  case Nil
  then show ?case using words_from_carry [of cur b] by (simp split: if_splits)
next
  case (Cons c a)
  then show ?case by auto
qed

lemma words_from_nonempty: "cur \<noteq> [] \<Longrightarrow> words_from cur s \<noteq> []"
  by (induction s arbitrary: cur) auto

lemma words_from_Nil_iff: "words_from [] s = [] \<longleftrightarrow> (\<forall>c\<in>set s. py_isspace c)"
  by (induction s) (auto simp: words_from_nonempty)

lemma word_count_Nil [simp]: "word_count [] = 0"
  by (simp add: word_count_def py_split_ws_def)

lemma word_count_append: "word_count (a @ b) \<le> word_count a + word_count b"
  by (simp add: word_count_def py_split_ws_def words_from_append)

lemma word_count_single: "word_count [c] \<le> 1"
  by (simp add: word_count_def py_split_ws_def)

lemma word_count_0_iff: "word_count s = 0 \<longleftrightarrow> py_blank s"
  by (simp add: word_count_def py_split_ws_def words_from_Nil_iff py_blank_iff)

section \<open>Searching\<close>

text \<open>\<open>s.startswith(p)\<close> and \<open>p in s\<close>.\<close>

definition py_startswith :: "string \<Rightarrow> string \<Rightarrow> bool" where
  "py_startswith s p \<longleftrightarrow> take (length p) s = p"

fun py_contains :: "string \<Rightarrow> string \<Rightarrow> bool" where
  "py_contains p [] \<longleftrightarrow> p = []"
| "py_contains p (c # s) \<longleftrightarrow> py_startswith (c # s) p \<or> py_contains p s"

text \<open>
  \<open>s.find(p, start)\<close> for a start position inside the string: the least position from \<open>start\<close> on
  where \<open>p\<close> occurs, \<open>None\<close> for Python's -1.
\<close>

fun py_find_at :: "string \<Rightarrow> string \<Rightarrow> nat \<Rightarrow> nat option" where
  "py_find_at p [] k = (if p = [] then Some k else None)"
| "py_find_at p (c # s) k =
     (if py_startswith (c # s) p then Some k else py_find_at p s (Suc k))"

definition py_find :: "string \<Rightarrow> string \<Rightarrow> nat \<Rightarrow> nat option" where
  "py_find s p start = (if start \<le> length s then py_find_at p (drop start s) start else None)"

text \<open>\<open>s.rfind(' ', i, j)\<close>: the greatest position of a space in the slice, or -1.\<close>

definition py_rfind_space :: "string \<Rightarrow> int \<Rightarrow> int \<Rightarrow> int" where
  "py_rfind_space s i j =
     (let a = py_clamp (length s) i; b = py_clamp (length s) j;
          hits = filter (\<lambda>k. s ! k = CHR '' '') [a..<b]
      in if hits = [] then -1 else int (last hits))"

lemma py_find_at_bounds:
  "py_find_at p s k = Some i \<Longrightarrow> k \<le> i \<and> i + length p \<le> k + length s \<and> take (length p) (drop (i - k) s) = p"
proof (induction s arbitrary: k)
  case Nil
  then show ?case by (auto split: if_splits)
next
  case (Cons c s)
  show ?case
  proof (cases "py_startswith (c # s) p")
    case True
    then have "length p \<le> Suc (length s)"
      by (metis length_Cons length_take min.cobounded1 py_startswith_def)
    then show ?thesis using True Cons.prems by (simp add: py_startswith_def)
  next
    case False
    then have "py_find_at p s (Suc k) = Some i" using Cons.prems by simp
    from Cons.IH [OF this] show ?thesis
      by (auto simp: Suc_diff_Suc [symmetric] Suc_le_eq)
  qed
qed

lemma py_find_bounds:
  assumes "py_find s p start = Some i"
  shows "start \<le> i" and "i + length p \<le> length s" and "take (length p) (drop i s) = p"
  using assms py_find_at_bounds [of p "drop start s" start i]
  by (auto simp: py_find_def split: if_splits)

lemma py_rfind_space_less:
  assumes "0 \<le> i" and "i < py_rfind_space s i j"
  shows "py_rfind_space s i j < j \<or> j < 0" and "py_rfind_space s i j < int (length s)"
proof -
  let ?a = "py_clamp (length s) i" and ?b = "py_clamp (length s) j"
  let ?h = "filter (\<lambda>k. s ! k = CHR '' '') [?a..<?b]"
  have ne: "?h \<noteq> []" using assms by (auto simp: py_rfind_space_def Let_def split: if_splits)
  then have "last ?h \<in> set ?h" by (rule last_in_set)
  then have lt: "last ?h < ?b" by simp
  have eq: "py_rfind_space s i j = int (last ?h)"
    using ne by (simp only: py_rfind_space_def Let_def if_False)
  from lt have "last ?h < length s" using py_clamp_le [of "length s" j] by linarith
  then show "py_rfind_space s i j < int (length s)" using eq by simp
  show "py_rfind_space s i j < j \<or> j < 0"
  proof (cases "j < 0")
    case False
    then have "int ?b \<le> j" by (simp add: py_clamp_def)
    then show ?thesis using lt eq by linarith
  qed simp
qed

end
