(* ===== verification/Recursive_Splitter.thy ===== *)
theory Recursive_Splitter
  imports PyText
begin

text \<open>
  \<open>semantic-chunking-service/chunking/recursive_splitter.py\<close>: the splitter that cuts a document into
  segments of at most \<open>chunk_size\<close> tokens along a hierarchy of separators.

  The record \<open>splitter\<close> is the object's state, one definition per method.  A method that loops forever
  is \<^term>\<open>None\<close>: \<open>_force_split_by_size\<close> does so when \<open>chunk_size\<close> is 0, and everything that
  calls it inherits the \<^typ>\<open>'a option\<close>.  The laws of the token counter that the size bound needs are
  the locale \<open>token_length\<close>, interpreted on the word count the service uses.
\<close>

section \<open>State and operations\<close>

record splitter =
  chunk_size :: int
  chunk_overlap :: int
  separators :: "string list"
  length_function :: "string \<Rightarrow> nat"

definition default_separators :: "string list" where
  "default_separators =
     [[CHR 0x0A, CHR 0x0A], [CHR 0x0A], ''. '', ''! '', ''? '', ''; '', '', '', '' '', []]"

text \<open>The constructor: an absent or empty separator list is replaced by the default one.\<close>

definition make_splitter ::
  "int \<Rightarrow> int \<Rightarrow> string list option \<Rightarrow> (string \<Rightarrow> nat) option \<Rightarrow> splitter" where
  "make_splitter sz overlap seps len =
     \<lparr>chunk_size = sz, chunk_overlap = overlap,
      separators = (case seps of None \<Rightarrow> default_separators
                    | Some ss \<Rightarrow> if ss = [] then default_separators else ss),
      length_function = (case len of None \<Rightarrow> word_count | Some f \<Rightarrow> f)\<rparr>"

fun find_best_loop :: "string \<Rightarrow> string \<Rightarrow> string list \<Rightarrow> string \<times> string list" where
  "find_best_loop tx dflt [] = (dflt, [])"
| "find_best_loop tx dflt (sep # seps) =
     (if sep = [] then (sep, [])
      else if py_contains sep tx then (sep, seps)
      else find_best_loop tx dflt seps)"

definition find_best_separator :: "string \<Rightarrow> string list \<Rightarrow> string \<times> string list" where
  "find_best_separator tx seps =
     find_best_loop tx (if seps = [] then [] else last seps) seps"

text \<open>
  \<open>re.split\<close> with the escaped separator as a group: the pieces between the occurrences of the
  separator, read from the left and not overlapping, with the separators between them.
\<close>

function re_split_keep :: "string \<Rightarrow> string \<Rightarrow> string \<Rightarrow> string list" where
  "re_split_keep sep cur [] = [cur]"
| "re_split_keep sep cur (c # cs) =
     (if sep \<noteq> [] \<and> py_startswith (c # cs) sep
      then cur # sep # re_split_keep sep [] (drop (length sep) (c # cs))
      else re_split_keep sep (cur @ [c]) cs)"
  by pat_completeness auto
termination
  by (relation "measure (\<lambda>(sep, cur, tx). length tx)") auto

fun rejoin_parts :: "string list \<Rightarrow> string list" where
  "rejoin_parts [] = []"
| "rejoin_parts [p] = (if p = [] then [] else [p])"
| "rejoin_parts (p # s # ps) = (if p @ s = [] then [] else [p @ s]) @ rejoin_parts ps"

definition split_with_separator :: "string \<Rightarrow> string \<Rightarrow> string list" where
  "split_with_separator tx sep =
     (if sep = [] then [tx] else rejoin_parts (re_split_keep sep [] tx))"

fun overlap_loop :: "splitter \<Rightarrow> string list \<Rightarrow> string list \<Rightarrow> int \<Rightarrow> string list" where
  "overlap_loop s [] pieces used = pieces"
| "overlap_loop s (c # cs) pieces used =
     (if used + int (length_function s c) \<le> chunk_overlap s
      then overlap_loop s cs (c # pieces) (used + int (length_function s c))
      else pieces)"

definition get_overlap :: "splitter \<Rightarrow> string list \<Rightarrow> string list" where
  "get_overlap s chunks =
     (if chunks = [] \<or> chunk_overlap s \<le> 0 then [] else overlap_loop s (rev chunks) [] 0)"

fun merge_loop ::
  "splitter \<Rightarrow> string list \<Rightarrow> string list \<Rightarrow> string list \<Rightarrow> int \<Rightarrow> string list" where
  "merge_loop s [] merged cur used = (if cur = [] then merged else merged @ [concat cur])"
| "merge_loop s (p # ps) merged cur used =
     (let plen = int (length_function s p) in
      if used + plen > chunk_size s \<and> cur \<noteq> [] then
        (let kept = (if chunk_overlap s > 0 then get_overlap s cur else []);
             kept_len = (if chunk_overlap s > 0
                         then (\<Sum>c\<leftarrow>kept. int (length_function s c)) else 0)
         in merge_loop s ps (merged @ [concat cur]) (kept @ [p]) (kept_len + plen))
      else merge_loop s ps merged (cur @ [p]) (used + plen))"

definition merge_splits :: "splitter \<Rightarrow> string list \<Rightarrow> string list" where
  "merge_splits s splits = (if splits = [] then [] else merge_loop s splits [] [] 0)"

text \<open>
  The \<open>while start < len(text)\<close> loop of \<open>_force_split_by_size\<close>; it need not end, so its result is
  an option.
\<close>

partial_function (option) force_loop :: "string \<Rightarrow> int \<Rightarrow> int \<Rightarrow> string list \<Rightarrow> string list option" where
  "force_loop tx target start acc =
     (if start < int (length tx) then
        (let end0 = min (start + target) (int (length tx));
             sp = py_rfind_space tx start end0;
             stop = (if end0 < int (length tx) \<and> sp > start then sp + 1 else end0)
         in force_loop tx target stop (acc @ [py_slice tx start stop]))
      else Some acc)"

definition chars_per_token :: "splitter \<Rightarrow> string \<Rightarrow> int" where
  "chars_per_token s tx = max 1 (int (length tx) div max 1 (int (length_function s tx)))"

definition force_split_by_size :: "splitter \<Rightarrow> string \<Rightarrow> string list option" where
  "force_split_by_size s tx =
     force_loop tx (chunk_size s * chars_per_token s tx) 0 []"

text \<open>
  The body of the \<open>for split in splits\<close> loop of \<open>_split_text_recursive\<close>; \<open>sub\<close> is what is done
  with a piece that is still too long.
\<close>

fun split_loop ::
  "splitter \<Rightarrow> (string \<Rightarrow> string list option) \<Rightarrow> string list \<Rightarrow> string list \<Rightarrow> string list
   \<Rightarrow> string list option" where
  "split_loop s sub [] good final =
     Some (final @ (if good = [] then [] else merge_splits s good))"
| "split_loop s sub (p # ps) good final =
     (if p = [] then split_loop s sub ps good final
      else if int (length_function s p) \<le> chunk_size s
      then split_loop s sub ps (good @ [p]) final
      else (case sub p of
              None \<Rightarrow> None
            | Some pieces \<Rightarrow>
                split_loop s sub ps []
                  (final @ (if good = [] then [] else merge_splits s good) @ pieces)))"

lemma find_best_loop_shorter:
  "snd (find_best_loop tx dflt seps) \<noteq> [] \<Longrightarrow>
   length (snd (find_best_loop tx dflt seps)) < length seps"
  by (induction tx dflt seps rule: find_best_loop.induct) auto

lemma find_best_separator_shorter:
  "find_best_separator tx seps = (sep, rest) \<Longrightarrow> rest \<noteq> [] \<Longrightarrow> length rest < length seps"
  using find_best_loop_shorter [of tx "if seps = [] then [] else last seps" seps]
  by (simp add: find_best_separator_def)

function split_text_recursive :: "splitter \<Rightarrow> string \<Rightarrow> string list \<Rightarrow> string list option" where
  "split_text_recursive s tx seps =
     (case find_best_separator tx seps of
        (sep, rest) \<Rightarrow>
          split_loop s
            (\<lambda>p. if rest \<noteq> [] then split_text_recursive s p rest else force_split_by_size s p)
            (if sep \<noteq> [] then split_with_separator tx sep else map (\<lambda>c. [c]) tx) [] [])"
  by pat_completeness auto
termination
  by (relation "measure (\<lambda>(s, tx, seps). length seps)") (auto simp: find_best_separator_shorter [OF sym])

declare split_text_recursive.simps [simp del]

definition split_text :: "splitter \<Rightarrow> string \<Rightarrow> string list option" where
  "split_text s tx =
     (if tx = [] \<or> py_blank tx then Some [] else split_text_recursive s tx (separators s))"

text \<open>
  \<open>split_text_with_spans\<close>: \<^term>\<open>Some (Inl e)\<close> is the \<open>ValueError\<close> with its message.
\<close>

fun span_loop ::
  "string \<Rightarrow> string list \<Rightarrow> nat \<Rightarrow> (string \<times> nat \<times> nat) list \<Rightarrow> string + (string \<times> nat \<times> nat) list" where
  "span_loop tx [] offset spans =
     (if offset \<noteq> length tx then Inl ''splitter did not preserve the complete source''
      else Inr spans)"
| "span_loop tx (seg # segs) offset spans =
     (if py_slice tx (int offset) (int (offset + length seg)) \<noteq> seg
      then Inl ''splitter produced a non-contiguous segment''
      else span_loop tx segs (offset + length seg)
             (spans @ [(seg, offset, offset + length seg)]))"

definition split_text_with_spans ::
  "splitter \<Rightarrow> string \<Rightarrow> (string + (string \<times> nat \<times> nat) list) option" where
  "split_text_with_spans s tx =
     map_option (\<lambda>segs. span_loop tx segs 0 []) (split_text s tx)"

section \<open>Nothing is lost: concatenation lemmas\<close>

lemma py_startswith_drop: "py_startswith s p \<Longrightarrow> p @ drop (length p) s = s"
  by (metis append_take_drop_id py_startswith_def)

lemma concat_re_split_keep: "concat (re_split_keep sep cur tx) = cur @ tx"
proof (induction sep cur tx rule: re_split_keep.induct)
  case (2 sep cur c cs)
  then show ?case using py_startswith_drop [of "c # cs" sep] by auto
qed simp

lemma concat_rejoin_parts: "concat (rejoin_parts ps) = concat ps"
  by (induction ps rule: rejoin_parts.induct) auto

lemma concat_split_with_separator [roundtrip_facts]:
  "concat (split_with_separator tx sep) = tx"
  by (simp add: split_with_separator_def concat_rejoin_parts concat_re_split_keep)

lemma concat_singletons: "concat (map (\<lambda>c. [c]) tx) = tx"
  by (induction tx) auto

lemma concat_merge_loop:
  "chunk_overlap s \<le> 0 \<Longrightarrow>
   concat (merge_loop s ps merged cur used) = concat merged @ concat cur @ concat ps"
  by (induction s ps merged cur used rule: merge_loop.induct) (auto simp: Let_def)

lemma concat_merge_splits [roundtrip_facts]:
  "chunk_overlap s \<le> 0 \<Longrightarrow> concat (merge_splits s ps) = concat ps"
  by (simp add: merge_splits_def concat_merge_loop)

text \<open>With a positive step the forced split ends, and it only cuts.\<close>

lemma force_loop_returns:
  assumes "0 < target" and "0 \<le> start" and "start \<le> int (length tx)"
  shows "\<exists>out. force_loop tx target start acc = Some out \<and>
           concat out = concat acc @ drop (nat start) tx"
  using assms(2,3)
proof (induction "nat (int (length tx) - start)" arbitrary: start acc rule: less_induct)
  case less
  show ?case
  proof (cases "start < int (length tx)")
    case False
    then show ?thesis using less.prems by (simp add: force_loop.simps)
  next
    case True
    define end0 where "end0 = min (start + target) (int (length tx))"
    define sp where "sp = py_rfind_space tx start end0"
    define stop where "stop = (if end0 < int (length tx) \<and> sp > start then sp + 1 else end0)"
    have end0: "start < end0" "end0 \<le> int (length tx)"
      using True assms(1) by (auto simp: end0_def)
    have stop: "start < stop" "stop \<le> int (length tx)"
      using end0 py_rfind_space_less [of start tx end0] less.prems
      by (auto simp: stop_def sp_def)
    have cut: "py_slice tx start stop @ drop (nat stop) tx = drop (nat start) tx"
    proof -
      have "py_slice tx start stop = take (nat stop - nat start) (drop (nat start) tx)"
        using stop less.prems py_slice_nat [of "nat start" "nat stop" tx] by simp
      then show ?thesis
        using stop append_take_drop_id [of "nat stop - nat start" "drop (nat start) tx"] by simp
    qed
    have "\<exists>out. force_loop tx target stop (acc @ [py_slice tx start stop]) = Some out \<and>
            concat out = concat (acc @ [py_slice tx start stop]) @ drop (nat stop) tx"
      using stop less.prems True by (intro less.hyps) auto
    moreover have "force_loop tx target start acc =
        force_loop tx target stop (acc @ [py_slice tx start stop])"
      using True by (subst force_loop.simps) (simp only: Let_def stop_def sp_def end0_def if_True)
    ultimately show ?thesis using cut by auto
  qed
qed

lemma force_split_returns:
  assumes "1 \<le> chunk_size s"
  shows "\<exists>out. force_split_by_size s tx = Some out \<and> concat out = tx"
proof -
  have "0 < chunk_size s * chars_per_token s tx"
    using assms by (simp add: chars_per_token_def)
  from force_loop_returns [OF this, of 0 tx "[]"] show ?thesis
    by (simp add: force_split_by_size_def)
qed

lemma split_loop_returns:
  assumes "chunk_overlap s \<le> 0"
    and "\<And>p. p \<in> set ps \<Longrightarrow> \<exists>out. sub p = Some out \<and> concat out = p"
  shows "\<exists>out. split_loop s sub ps good final = Some out \<and>
           concat out = concat final @ concat good @ concat ps"
  using assms(2)
proof (induction ps arbitrary: good final)
  case Nil
  then show ?case using assms(1) by (simp add: concat_merge_splits)
next
  case (Cons p ps)
  obtain pieces where p: "sub p = Some pieces" "concat pieces = p"
    using Cons.prems by auto
  have IH: "\<exists>out. split_loop s sub ps good final = Some out \<and>
      concat out = concat final @ concat good @ concat ps" for good final
    by (rule Cons.IH) (use Cons.prems in auto)
  show ?case
    using IH [of good final] IH [of "good @ [p]" final] p assms(1)
      IH [of "[]" "final @ (if good = [] then [] else merge_splits s good) @ pieces"]
    by (auto simp: concat_merge_splits)
qed

lemma split_text_recursive_returns:
  assumes "1 \<le> chunk_size s" and "chunk_overlap s \<le> 0"
  shows "\<exists>out. split_text_recursive s tx seps = Some out \<and> concat out = tx"
  using assms
proof (induction s tx seps rule: split_text_recursive.induct)
  case (1 s tx seps)
  obtain sep rest where best: "find_best_separator tx seps = (sep, rest)"
    by fastforce
  let ?sub = "\<lambda>p. if rest \<noteq> [] then split_text_recursive s p rest else force_split_by_size s p"
  let ?ps = "if sep \<noteq> [] then split_with_separator tx sep else map (\<lambda>c. [c]) tx"
  have "\<exists>out. ?sub p = Some out \<and> concat out = p" for p
    using "1.IH" [OF best [symmetric] _ "1.prems"] force_split_returns "1.prems"(1)
    by (cases "rest = []") auto
  then have "\<exists>out. split_loop s ?sub ?ps [] [] = Some out \<and> concat out = concat [] @ concat [] @ concat ?ps"
    using "1.prems"(2) by (intro split_loop_returns) auto
  moreover have "concat ?ps = tx"
    by (simp add: concat_split_with_separator concat_singletons)
  ultimately show ?case
    by (subst split_text_recursive.simps) (simp add: best)
qed

section \<open>Spans\<close>

fun contiguous :: "string \<Rightarrow> nat \<Rightarrow> (string \<times> nat \<times> nat) list \<Rightarrow> bool" where
  "contiguous tx off [] \<longleftrightarrow> off = length tx"
| "contiguous tx off ((seg, a, b) # spans) \<longleftrightarrow>
     a = off \<and> a \<le> b \<and> py_slice tx (int a) (int b) = seg \<and> contiguous tx b spans"

lemma span_loop_ok:
  assumes "concat segs = drop off tx" and "off \<le> length tx"
  shows "\<exists>spans. span_loop tx segs off acc = Inr (acc @ spans) \<and> map fst spans = segs \<and>
           contiguous tx off spans"
  using assms
proof (induction segs arbitrary: off acc)
  case Nil
  then show ?case by simp
next
  case (Cons seg segs)
  let ?stop = "off + length seg"
  have split: "drop off tx = seg @ concat segs" using Cons.prems(1) by simp
  then have len: "?stop \<le> length tx"
    using Cons.prems(2) by (metis add_le_cancel_left le_add1 le_add_diff_inverse length_append length_drop)
  have slice: "py_slice tx (int off) (int ?stop) = seg"
    using len split py_slice_nat [of off ?stop tx] by simp
  have "concat segs = drop ?stop tx"
    using split by (metis add.commute append_eq_conv_conj drop_drop)
  from Cons.IH [OF this len, of "acc @ [(seg, off, ?stop)]"] obtain spans where
    "span_loop tx segs ?stop (acc @ [(seg, off, ?stop)]) = Inr ((acc @ [(seg, off, ?stop)]) @ spans)"
    "map fst spans = segs" "contiguous tx ?stop spans"
    by blast
  then show ?case using slice
    by (intro exI [of _ "(seg, off, ?stop) # spans"]) simp
qed

section \<open>The size bound, from the laws of the token counter\<close>

text \<open>
  What the splitter and the chunker rely on when they add up token counts instead of counting the
  joined text: the counter is subadditive, and one character is at most one token.
\<close>

locale token_length =
  fixes len :: "string \<Rightarrow> nat"
  assumes len_Nil: "len [] = 0"
    and len_append: "len (a @ b) \<le> len a + len b"
    and len_single: "len [c] \<le> 1"
begin

lemma len_concat: "len (concat ps) \<le> (\<Sum>p\<leftarrow>ps. len p)"
  by (induction ps) (auto simp: len_Nil intro: order_trans [OF len_append])

lemma merge_loop_bound:
  assumes "length_function s = len" and "chunk_overlap s \<le> 0"
    and "used = (\<Sum>c\<leftarrow>cur. int (len c))" and "cur \<noteq> [] \<Longrightarrow> used \<le> chunk_size s"
    and "\<forall>m\<in>set merged. int (len m) \<le> chunk_size s" and "\<forall>p\<in>set ps. int (len p) \<le> chunk_size s"
  shows "\<forall>m\<in>set (merge_loop s ps merged cur used). int (len m) \<le> chunk_size s"
  using assms
proof (induction s ps merged cur used rule: merge_loop.induct)
  case (1 s merged cur used)
  have "int (len (concat cur)) \<le> (\<Sum>c\<leftarrow>cur. int (len c))"
    using len_concat [of cur] by (simp flip: int_sum_list)
  then show ?case using "1.prems" by auto
next
  case (2 s p ps merged cur used)
  have cat: "int (len (concat cur)) \<le> (\<Sum>c\<leftarrow>cur. int (len c))"
    using len_concat [of cur] by (simp flip: int_sum_list)
  show ?case
  proof (cases "used + int (len p) > chunk_size s \<and> cur \<noteq> []")
    case True
    then show ?thesis
      using "2.IH"(1) [OF refl _ refl refl] "2.prems" cat by (auto simp: Let_def)
  next
    case False
    then show ?thesis
      using "2.IH"(2) [OF refl _] "2.prems" by (auto simp: Let_def)
  qed
qed

lemma merge_splits_bound:
  assumes "length_function s = len" and "chunk_overlap s \<le> 0"
    and "\<forall>p\<in>set ps. int (len p) \<le> chunk_size s"
  shows "\<forall>m\<in>set (merge_splits s ps). int (len m) \<le> chunk_size s"
proof -
  have "\<forall>m\<in>set (merge_loop s ps [] [] 0). int (len m) \<le> chunk_size s"
    by (rule merge_loop_bound [OF assms(1,2)]) (use assms(3) in simp_all)
  then show ?thesis by (simp add: merge_splits_def)
qed

lemma split_loop_bound:
  assumes "length_function s = len" and "chunk_overlap s \<le> 0"
    and "\<And>p out. p \<in> set ps \<Longrightarrow> int (len p) > chunk_size s \<Longrightarrow> sub p = Some out \<Longrightarrow>
           \<forall>m\<in>set out. int (len m) \<le> chunk_size s"
    and "\<forall>m\<in>set final. int (len m) \<le> chunk_size s" and "\<forall>p\<in>set good. int (len p) \<le> chunk_size s"
    and "split_loop s sub ps good final = Some out"
  shows "\<forall>m\<in>set out. int (len m) \<le> chunk_size s"
  using assms(3-6)
proof (induction ps arbitrary: good final)
  case Nil
  then have "\<forall>m\<in>set (merge_splits s good). int (len m) \<le> chunk_size s"
    using merge_splits_bound [OF assms(1,2)] by blast
  then show ?case using Nil.prems(2,4) by (auto split: if_splits)
next
  case (Cons p ps)
  show ?case
  proof (cases "p = [] \<or> int (len p) \<le> chunk_size s")
    case True
    then have "split_loop s sub ps (if p = [] then good else good @ [p]) final = Some out"
      using Cons.prems(4) assms(1) by auto
    then show ?thesis
      by (rule Cons.IH [rotated 3]) (use Cons.prems True in auto)
  next
    case False
    then obtain pieces where sub: "sub p = Some pieces"
      and rest: "split_loop s sub ps [] (final @ (if good = [] then [] else merge_splits s good) @ pieces)
        = Some out"
      using Cons.prems(4) assms(1) by (auto split: option.splits)
    have "\<forall>m\<in>set pieces. int (len m) \<le> chunk_size s"
      using Cons.prems(1) [of p pieces] sub False by auto
    moreover have "\<forall>m\<in>set (merge_splits s good). int (len m) \<le> chunk_size s"
      using merge_splits_bound [OF assms(1,2)] Cons.prems(3) by blast
    ultimately have fin: "\<forall>m\<in>set (final @ (if good = [] then [] else merge_splits s good) @ pieces).
        int (len m) \<le> chunk_size s"
      using Cons.prems(2) by (simp add: ball_Un)
    show ?thesis
      by (rule Cons.IH [OF _ fin _ rest]) (use Cons.prems(1) in auto)
  qed
qed

lemma find_best_separator_char:
  assumes "[] \<in> set seps" and "find_best_separator tx seps = (sep, rest)"
  shows "(sep = [] \<and> rest = []) \<or> (sep \<noteq> [] \<and> [] \<in> set rest)"
proof -
  have "[] \<in> set seps \<Longrightarrow> find_best_loop tx dflt seps = (sep, rest) \<Longrightarrow>
      (sep = [] \<and> rest = []) \<or> (sep \<noteq> [] \<and> [] \<in> set rest)" for dflt
    by (induction tx dflt seps rule: find_best_loop.induct) (auto split: if_splits)
  then show ?thesis using assms by (simp add: find_best_separator_def)
qed

lemma split_text_recursive_bound:
  assumes "length_function s = len" and "chunk_overlap s \<le> 0" and "1 \<le> chunk_size s"
    and "[] \<in> set seps" and "split_text_recursive s tx seps = Some out"
  shows "\<forall>m\<in>set out. int (len m) \<le> chunk_size s"
  using assms
proof (induction s tx seps arbitrary: out rule: split_text_recursive.induct)
  case (1 s tx seps)
  obtain sep rest where best: "find_best_separator tx seps = (sep, rest)"
    by fastforce
  let ?sub = "\<lambda>p. if rest \<noteq> [] then split_text_recursive s p rest else force_split_by_size s p"
  let ?ps = "if sep \<noteq> [] then split_with_separator tx sep else map (\<lambda>c. [c]) tx"
  have run: "split_loop s ?sub ?ps [] [] = Some out"
    using "1.prems"(5) by (subst (asm) split_text_recursive.simps) (simp add: best)
  have shape: "(sep = [] \<and> rest = []) \<or> (sep \<noteq> [] \<and> [] \<in> set rest)"
    by (rule find_best_separator_char [OF "1.prems"(4) best])
  have single: "int (len [c]) \<le> chunk_size s" for c
    using len_single [of c] "1.prems"(3) by linarith
  have "\<forall>m\<in>set o'. int (len m) \<le> chunk_size s"
    if p: "p \<in> set ?ps" "int (len p) > chunk_size s" "?sub p = Some o'" for p o'
  proof (cases "sep = []")
    case True
    then obtain c where "p = [c]" using p(1) by auto
    then show ?thesis using single [of c] p(2) by simp
  next
    case False
    then have "[] \<in> set rest" and "rest \<noteq> []" using shape by auto
    then show ?thesis
      using "1.IH" [OF best [symmetric] _ "1.prems"(1-3)] p(3) by auto
  qed
  from split_loop_bound [OF "1.prems"(1,2) this _ _ run] show ?case by simp
qed

end

interpretation words: token_length word_count
  by unfold_locales (rule word_count_Nil, rule word_count_append, rule word_count_single)

section \<open>When the forced split does not return\<close>

lemma force_loop_stuck: "tx \<noteq> [] \<Longrightarrow> force_loop tx 0 0 acc = None"
proof (rule ccontr)
  assume ne: "tx \<noteq> []" and "force_loop tx 0 0 acc \<noteq> None"
  then obtain out where ret: "force_loop tx 0 0 acc = Some out" by blast
  have "\<not> (tx \<noteq> [] \<and> (0::int) = 0 \<and> (0::int) = 0)"
  proof (rule force_loop.raw_induct
      [where P = "\<lambda>tx target start acc out. \<not> (tx \<noteq> [] \<and> target = 0 \<and> start = 0)", OF _ ret])
    fix f tx target start acc out
    assume IH: "\<And>tx target start acc out. f tx target start acc = Some out \<Longrightarrow>
        \<not> (tx \<noteq> [] \<and> target = 0 \<and> start = (0::int))"
      and eq: "(if start < int (length tx) then
          (let end0 = min (start + target) (int (length tx));
             sp = py_rfind_space tx start end0;
             stop = (if end0 < int (length tx) \<and> sp > start then sp + 1 else end0)
           in f tx target stop (acc @ [py_slice tx start stop]))
        else Some acc) = Some out"
    show "\<not> (tx \<noteq> [] \<and> target = 0 \<and> start = 0)"
    proof
      assume h: "tx \<noteq> [] \<and> target = 0 \<and> start = 0"
      then have "f tx 0 0 (acc @ [py_slice tx 0 0]) = Some out"
        using eq by (simp add: py_rfind_space_def Let_def)
      with IH h show False by blast
    qed
  qed
  then show False using ne by simp
qed

lemma split_loop_stuck:
  assumes "p \<in> set ps" and "p \<noteq> []" and "int (length_function s p) > chunk_size s" and "sub p = None"
  shows "split_loop s sub ps good final = None"
  using assms by (induction ps arbitrary: good final) (auto split: option.splits)

lemma nonblank_piece:
  assumes "concat ps = tx" and "\<not> py_blank tx"
  shows "\<exists>p\<in>set ps. \<not> py_blank p"
  using assms by (fastforce simp: py_blank_iff)

lemma split_text_recursive_stuck:
  assumes "chunk_size s = 0" and "length_function s = word_count" and "[] \<in> set seps"
    and "\<not> py_blank tx"
  shows "split_text_recursive s tx seps = None"
  using assms
proof (induction s tx seps rule: split_text_recursive.induct)
  case (1 s tx seps)
  obtain sep rest where best: "find_best_separator tx seps = (sep, rest)"
    by fastforce
  let ?sub = "\<lambda>p. if rest \<noteq> [] then split_text_recursive s p rest else force_split_by_size s p"
  let ?ps = "if sep \<noteq> [] then split_with_separator tx sep else map (\<lambda>c. [c]) tx"
  have "concat ?ps = tx"
    by (simp add: concat_split_with_separator concat_singletons)
  with "1.prems"(4) obtain p where p: "p \<in> set ?ps" "\<not> py_blank p"
    using nonblank_piece by blast
  then have "p \<noteq> []" and "int (length_function s p) > chunk_size s"
    using "1.prems"(1,2) word_count_0_iff [of p] by auto
  moreover have "?sub p = None"
  proof (cases "rest = []")
    case True
    then show ?thesis
      using \<open>p \<noteq> []\<close> "1.prems"(1) by (simp add: force_split_by_size_def force_loop_stuck)
  next
    case False
    then have "[] \<in> set rest"
      using words.find_best_separator_char [OF "1.prems"(3) best] by blast
    then show ?thesis using "1.IH" [OF best [symmetric] False "1.prems"(1,2) _ p(2)] False by simp
  qed
  ultimately have "split_loop s ?sub ?ps [] [] = None"
    using p(1) by (intro split_loop_stuck)
  then show ?case by (subst split_text_recursive.simps) (simp add: best)
qed

section \<open>Properties\<close>



text \<open>
  With the default separators, the word count as token counter and no overlap, no segment that
  \<open>split_text\<close> returns has more than \<open>chunk_size\<close> tokens: the character level always cuts far
  enough, and adding up counts while merging never underestimates the joined text.
\<close>

theorem split_text_size_bound:
  assumes "1 \<le> n" and "split_text (make_splitter n 0 None None) tx = Some segs" and "seg \<in> set segs"
  shows "int (word_count seg) \<le> n"
proof -
  let ?s = "make_splitter n 0 None None"
  have "[] \<in> set (separators ?s)" by (simp add: make_splitter_def default_separators_def)
  then have "split_text_recursive ?s tx (separators ?s) = Some segs \<Longrightarrow> ?thesis"
    using words.split_text_recursive_bound [of ?s "separators ?s" tx segs] assms(1,3)
    by (simp add: make_splitter_def)
  then show ?thesis using assms(2,3) by (auto simp: split_text_def split: if_splits)
qed

theorem split_text_size_bound_witness: "int (word_count ''ab '') \<le> 1"
proof -
  have run: "split_text (make_splitter 1 0 None None) ''ab cd'' = Some [''ab '', ''cd'']"
    by code_simp
  show ?thesis
    using split_text_size_bound [OF _ run, of "''ab ''"] by simp
qed

lemma zero_size_diverges:
  assumes "\<not> py_blank tx"
  shows "split_text (make_splitter 0 overlap None None) tx = None"
proof -
  let ?s = "make_splitter 0 overlap None None"
  have "split_text_recursive ?s tx (separators ?s) = None"
    using assms by (intro split_text_recursive_stuck)
      (simp_all add: make_splitter_def default_separators_def)
  then show ?thesis using assms by (auto simp: split_text_def)
qed

text \<open>
  With \<open>chunk_size\<close> 0, which \<open>initial_segment_tokens = 0\<close> selects, the splitter does not return
  on any document with visible text: the forced split at character level never advances.
\<close>

theorem split_text_zero_diverges:
  assumes "\<not> py_blank tx"
  shows "split_text (make_splitter 0 overlap None None) tx = None"
  using assms by (rule zero_size_diverges)

theorem split_text_zero_diverges_witness:
  "split_text (make_splitter 0 0 None None) ''a'' = None"
  by (rule split_text_zero_diverges) (simp add: py_blank_iff py_isspace_def py_spaces_def)

end
