(* ===== verification/Cluster_Semantic.thy ===== *)
theory Cluster_Semantic
  imports Recursive_Splitter
begin

text \<open>
  \<open>semantic-chunking-service/chunking/cluster_semantic.py\<close>: the chunker that groups segments so that
  the sum of pairwise similarities inside the chunks is maximal, by dynamic programming, with greedy
  fallbacks.  The record \<open>chunker\<close> is the object's state, \<open>chunk_result\<close> the dataclass of
  \<open>chunking/base.py\<close>.

  The embedding endpoint is the field \<open>embedding_function\<close> (\<^term>\<open>None\<close> stands for a raised
  exception); \<open>np.percentile(sims, 25)\<close> is the argument \<open>pct\<close>; \<open>np.sum\<close>, \<open>np.trace\<close>, \<open>np.dot\<close> and
  the norm are written out over the reals.  The value \<open>-inf\<close> of the table is \<^term>\<open>None\<close>.  Log lines
  and the progress callback have no effect on the result and are left out, and so is the LRU cache in
  front of the reward function.
\<close>

section \<open>State\<close>

record chunk_result =
  chunk_text :: string
  start_index :: nat
  end_index :: nat
  token_count :: nat
  segment_indices :: "nat list"
  chunk_strategy :: string
  embedding_degraded :: bool
  verbatim :: bool

record chunker =
  embedding_function :: "string list \<Rightarrow> real list list option"
  max_chunk_size :: int
  min_chunk_size :: int
  initial_segment_size :: int
  chunk_length_function :: "string \<Rightarrow> nat"
  max_segments_for_dp :: nat

definition make_chunker ::
  "(string list \<Rightarrow> real list list option) \<Rightarrow> int \<Rightarrow> int \<Rightarrow> int \<Rightarrow> (string \<Rightarrow> nat) option \<Rightarrow> nat \<Rightarrow> chunker" where
  "make_chunker emb max_size min_size initial len max_dp =
     \<lparr>embedding_function = emb, max_chunk_size = max_size, min_chunk_size = min_size,
      initial_segment_size = initial,
      chunk_length_function = (case len of None \<Rightarrow> word_count | Some f \<Rightarrow> f),
      max_segments_for_dp = max_dp\<rparr>"

section \<open>Similarities and rewards\<close>

definition dot_product :: "real list \<Rightarrow> real list \<Rightarrow> real" where
  "dot_product u v = (\<Sum>(x, y)\<leftarrow>zip u v. x * y)"

text \<open>In-place normalisation: a zero row has its norm replaced by 1.\<close>

definition normalise_row :: "real list \<Rightarrow> real list" where
  "normalise_row u =
     (let norm = sqrt (dot_product u u); d = (if norm = 0 then 1 else norm) in map (\<lambda>x. x / d) u)"

definition compute_similarity_matrix :: "real list list \<Rightarrow> real list list" where
  "compute_similarity_matrix embeddings =
     (let e = map normalise_row embeddings in map (\<lambda>u. map (\<lambda>v. dot_product u v) e) e)"

definition adjacent_similarities :: "real list list \<Rightarrow> real list" where
  "adjacent_similarities embeddings =
     (let e = map normalise_row embeddings in map (\<lambda>(u, v). dot_product u v) (zip (butlast e) (tl e)))"

definition matrix_sum :: "real list list \<Rightarrow> real" where
  "matrix_sum m = (\<Sum>row\<leftarrow>m. sum_list row)"

definition matrix_trace :: "real list list \<Rightarrow> real" where
  "matrix_trace m = (\<Sum>i\<leftarrow>[0..<length m]. m ! i ! i)"

definition calculate_chunk_reward :: "real list list \<Rightarrow> nat \<Rightarrow> nat \<Rightarrow> real" where
  "calculate_chunk_reward m start stop =
     (if stop \<le> start + 1 then 0
      else (let sub = map (\<lambda>row. take (stop - start) (drop start row)) (take (stop - start) (drop start m))
            in (matrix_sum sub - matrix_trace sub) / 2))"

text \<open>\<open>None\<close> on an exception, an empty answer or a count that does not match.\<close>

definition generate_embeddings_for_segments :: "chunker \<Rightarrow> string list \<Rightarrow> real list list option" where
  "generate_embeddings_for_segments c segs =
     (case embedding_function c segs of
        None \<Rightarrow> None
      | Some e \<Rightarrow> if e = [] \<or> length e \<noteq> length segs then None else Some e)"

section \<open>Dynamic programming\<close>

record dp_table =
  dp_reward :: "real option list"
  dp_parent :: "int list"

fun reward_greater :: "real option \<Rightarrow> real option \<Rightarrow> bool" where
  "reward_greater None _ = False"
| "reward_greater (Some a) None = True"
| "reward_greater (Some a) (Some b) = (a > b)"

definition evaluate_chunk_candidate ::
  "chunker \<Rightarrow> (nat \<Rightarrow> nat \<Rightarrow> int) \<Rightarrow> (nat \<Rightarrow> nat \<Rightarrow> real) \<Rightarrow> nat \<Rightarrow> nat \<Rightarrow> nat \<Rightarrow> dp_table \<Rightarrow> bool \<times> dp_table" where
  "evaluate_chunk_candidate c tok rew n i j t =
     (if tok j i > max_chunk_size c then (True, t)
      else if tok j i < min_chunk_size c \<and> i < n \<and> dp_reward t ! j \<noteq> None then (False, t)
      else
        (let total = map_option (\<lambda>d. d + rew j i) (dp_reward t ! j) in
         if reward_greater total (dp_reward t ! i)
         then (False, \<lparr>dp_reward = (dp_reward t)[i := total], dp_parent = (dp_parent t)[i := int j]\<rparr>)
         else (False, t)))"

fun fill_dp_column ::
  "chunker \<Rightarrow> (nat \<Rightarrow> nat \<Rightarrow> int) \<Rightarrow> (nat \<Rightarrow> nat \<Rightarrow> real) \<Rightarrow> nat \<Rightarrow> nat \<Rightarrow> nat list \<Rightarrow> dp_table \<Rightarrow> dp_table" where
  "fill_dp_column c tok rew n i [] t = t"
| "fill_dp_column c tok rew n i (j # js) t =
     (case evaluate_chunk_candidate c tok rew n i j t of
        (should_break, t') \<Rightarrow> if should_break then t' else fill_dp_column c tok rew n i js t')"

definition fill_dp_table ::
  "chunker \<Rightarrow> (nat \<Rightarrow> nat \<Rightarrow> int) \<Rightarrow> (nat \<Rightarrow> nat \<Rightarrow> real) \<Rightarrow> nat \<Rightarrow> dp_table \<Rightarrow> dp_table" where
  "fill_dp_table c tok rew n t =
     fold (\<lambda>i t. fill_dp_column c tok rew n i (rev [0..<i]) t) [1..<n + 1] t"

text \<open>The \<open>while current > 0\<close> loop that reads the groups back from the parent array.\<close>

partial_function (option) read_groupings ::
  "int list \<Rightarrow> nat \<Rightarrow> (nat \<times> nat) list \<Rightarrow> (nat \<times> nat) list option" where
  "read_groupings par current acc =
     (if current > 0 then
        (let prev = (if par ! current = -1 then 0 else nat (par ! current))
         in read_groupings par prev (acc @ [(prev, current)]))
      else Some acc)"

fun cumulative :: "int \<Rightarrow> nat list \<Rightarrow> int list" where
  "cumulative a [] = [a]"
| "cumulative a (x # xs) = a # cumulative (a + int x) xs"

definition group_tokens :: "nat list \<Rightarrow> nat \<Rightarrow> nat \<Rightarrow> int" where
  "group_tokens lens start stop = cumulative 0 lens ! stop - cumulative 0 lens ! start"

fun greedy_loop ::
  "chunker \<Rightarrow> nat \<Rightarrow> nat list \<Rightarrow> nat \<Rightarrow> int \<Rightarrow> (nat \<times> nat) list \<Rightarrow> (nat \<times> nat) list" where
  "greedy_loop c i [] start tokens acc = (if start < i then acc @ [(start, i)] else acc)"
| "greedy_loop c i (l # ls) start tokens acc =
     (if tokens + int l > max_chunk_size c \<and> start < i
      then greedy_loop c (Suc i) ls i (int l) (acc @ [(start, i)])
      else greedy_loop c (Suc i) ls start (tokens + int l) acc)"

definition greedy_fallback_chunking :: "chunker \<Rightarrow> nat list \<Rightarrow> (nat \<times> nat) list" where
  "greedy_fallback_chunking c lens = greedy_loop c 0 lens 0 0 []"

definition dynamic_programming_chunking ::
  "chunker \<Rightarrow> string list \<Rightarrow> real list list \<Rightarrow> nat list \<Rightarrow> (nat \<times> nat) list option" where
  "dynamic_programming_chunking c segs m lens =
     (let n = length segs in
      if n = 0 then Some []
      else if n = 1 then Some [(0, 1)]
      else
        (let t0 = \<lparr>dp_reward = (replicate (n + 1) None)[0 := Some 0], dp_parent = replicate (n + 1) (-1)\<rparr>;
             t = fill_dp_table c (group_tokens lens) (calculate_chunk_reward m) n t0
         in if dp_reward t ! n = None then Some (greedy_fallback_chunking c lens)
            else map_option rev (read_groupings (dp_parent t) n [])))"

section \<open>Greedy merging and results\<close>

text \<open>\<open>merge_similar_loop c thr sims i ls\<close>: the loop of \<open>_greedy_merge_by_similarity\<close> at index \<open>i\<close>.\<close>

fun merge_similar_loop ::
  "chunker \<Rightarrow> real \<Rightarrow> real list \<Rightarrow> nat \<Rightarrow> nat list \<Rightarrow> nat \<Rightarrow> int \<Rightarrow> (nat \<times> nat) list \<Rightarrow> (nat \<times> nat) list" where
  "merge_similar_loop c thr sims i [] start tokens acc =
     (if start < i then acc @ [(start, i)] else acc)"
| "merge_similar_loop c thr sims i (l # ls) start tokens acc =
     (let tokens_if_merged = tokens + int l;
          is_low_similarity = sims ! (i - 1) < thr;
          exceeds_max = tokens_if_merged > max_chunk_size c;
          should_break = exceeds_max \<or> (is_low_similarity \<and> tokens \<ge> min_chunk_size c)
      in if should_break \<and> start < i
         then merge_similar_loop c thr sims (Suc i) ls i (int l) (acc @ [(start, i)])
         else merge_similar_loop c thr sims (Suc i) ls start tokens_if_merged acc)"

definition greedy_merge_by_similarity ::
  "chunker \<Rightarrow> nat list \<Rightarrow> real list \<Rightarrow> real \<Rightarrow> (nat \<times> nat) list" where
  "greedy_merge_by_similarity c lens sims thr =
     merge_similar_loop c thr sims 1 (tl lens) 0 (int (hd lens)) []"

fun join_with :: "string \<Rightarrow> string list \<Rightarrow> string" where
  "join_with sep [] = []"
| "join_with sep [x] = x"
| "join_with sep (x # y # xs) = x @ sep @ join_with sep (y # xs)"

definition build_chunk_result ::
  "chunker \<Rightarrow> string list \<Rightarrow> (nat \<times> nat) list \<Rightarrow> nat list \<Rightarrow> string option \<Rightarrow> nat \<times> nat
   \<Rightarrow> chunk_result option" where
  "build_chunk_result c segs positions lens source g =
     (case g of (s, e) \<Rightarrow>
        let char_start = (if positions \<noteq> [] then fst (positions ! s) else 0);
            group = take (e - s) (drop s segs);
            fallback_text = join_with '' '' (filter (\<lambda>x. x \<noteq> []) (map py_strip group));
            char_end = (if positions \<noteq> [] then snd (positions ! (e - 1)) else length fallback_text);
            merged = (case source of Some tx \<Rightarrow> py_slice tx (int char_start) (int char_end)
                      | None \<Rightarrow> fallback_text)
        in if py_blank merged then None
           else Some \<lparr>chunk_text = merged, start_index = char_start, end_index = char_end,
             token_count = (case source of Some _ \<Rightarrow> chunk_length_function c merged
                            | None \<Rightarrow> sum_list (take (e - s) (drop s lens))),
             segment_indices = [s..<e], chunk_strategy = ''cluster-semantic-dp'',
             embedding_degraded = False, verbatim = (source \<noteq> None)\<rparr>)"

definition build_chunk_results ::
  "chunker \<Rightarrow> string list \<Rightarrow> (nat \<times> nat) list \<Rightarrow> (nat \<times> nat) list \<Rightarrow> nat list \<Rightarrow> string option
   \<Rightarrow> chunk_result list" where
  "build_chunk_results c segs groupings positions lens source =
     List.map_filter (build_chunk_result c segs positions lens source) groupings"

fun segment_positions_loop :: "string \<Rightarrow> string list \<Rightarrow> nat \<Rightarrow> (nat \<times> nat) list" where
  "segment_positions_loop tx [] cur = []"
| "segment_positions_loop tx (seg # segs) cur =
     (let stripped = py_strip seg in
      if stripped = [] then (cur, cur) # segment_positions_loop tx segs cur
      else (case py_find tx stripped cur of
              None \<Rightarrow> (let stop = min (cur + length seg) (length tx)
                       in (cur, stop) # segment_positions_loop tx segs stop)
            | Some idx \<Rightarrow> (let stop = idx + length stripped
                           in (idx, stop) # segment_positions_loop tx segs stop)))"

definition calculate_segment_positions :: "string \<Rightarrow> string list \<Rightarrow> (nat \<times> nat) list" where
  "calculate_segment_positions tx segs = segment_positions_loop tx segs 0"

definition fallback_chunking ::
  "chunker \<Rightarrow> string list \<Rightarrow> (nat \<times> nat) list \<Rightarrow> nat list \<Rightarrow> string option \<Rightarrow> chunk_result list" where
  "fallback_chunking c segs positions lens source =
     map (\<lambda>r. r\<lparr>chunk_strategy := ''cluster-semantic-greedy-token'', embedding_degraded := True\<rparr>)
       (build_chunk_results c segs (greedy_fallback_chunking c lens) positions lens source)"

definition greedy_semantic_chunking ::
  "(real list \<Rightarrow> real \<Rightarrow> real) \<Rightarrow> chunker \<Rightarrow> string list \<Rightarrow> (nat \<times> nat) list \<Rightarrow> nat list \<Rightarrow> string option
   \<Rightarrow> chunk_result list" where
  "greedy_semantic_chunking pct c segs positions lens source =
     (if segs = [] then []
      else if length segs = 1 then
        [\<lparr>chunk_text = (case source of
             Some tx \<Rightarrow> py_slice tx (int (fst (positions ! 0))) (int (snd (positions ! 0)))
           | None \<Rightarrow> segs ! 0),
          start_index = (if positions \<noteq> [] then fst (positions ! 0) else 0),
          end_index = (if positions \<noteq> [] then snd (positions ! 0) else length (segs ! 0)),
          token_count = lens ! 0, segment_indices = [0],
          chunk_strategy = ''cluster-semantic-greedy-semantic'',
          embedding_degraded = False, verbatim = (source \<noteq> None)\<rparr>]
      else (case generate_embeddings_for_segments c segs of
              None \<Rightarrow> fallback_chunking c segs positions lens source
            | Some embeddings \<Rightarrow>
                (let sims = adjacent_similarities embeddings;
                     thr = pct sims 25;
                     groupings = greedy_merge_by_similarity c lens sims thr
                 in map (\<lambda>r. r\<lparr>chunk_strategy := ''cluster-semantic-greedy-semantic''\<rparr>)
                      (build_chunk_results c segs groupings positions lens source))))"

section \<open>The operation\<close>

definition segment_text ::
  "chunker \<Rightarrow> string \<Rightarrow> bool \<Rightarrow> (string list \<times> (nat \<times> nat) list \<times> bool) option" where
  "segment_text c tx preserve =
     (let sp = make_splitter (initial_segment_size c) 0 None (Some (chunk_length_function c)) in
      if preserve then
        (case split_text_with_spans sp tx of
           None \<Rightarrow> None
         | Some (Inl _) \<Rightarrow> map_option (\<lambda>segs. (segs, [], False)) (split_text sp tx)
         | Some (Inr spans) \<Rightarrow> Some (map fst spans, map snd spans, True))
      else map_option (\<lambda>segs. (segs, [], False)) (split_text sp tx))"

definition single_segment_result ::
  "chunker \<Rightarrow> string \<Rightarrow> string \<Rightarrow> (nat \<times> nat) list \<Rightarrow> bool \<Rightarrow> chunk_result list" where
  "single_segment_result c tx seg positions preserve =
     (case (if positions \<noteq> [] then positions ! 0 else (0, length seg)) of
        (s, e) \<Rightarrow>
          [\<lparr>chunk_text = (if preserve then py_slice tx (int s) (int e) else seg),
            start_index = s, end_index = e, token_count = chunk_length_function c seg,
            segment_indices = [0], chunk_strategy = ''cluster-semantic-single'',
            embedding_degraded = False, verbatim = preserve\<rparr>])"

definition large_document_result ::
  "(real list \<Rightarrow> real \<Rightarrow> real) \<Rightarrow> chunker \<Rightarrow> string \<Rightarrow> string list \<Rightarrow> (nat \<times> nat) list \<Rightarrow> bool
   \<Rightarrow> chunk_result list option" where
  "large_document_result pct c tx segs positions preserve =
     (if length segs \<le> max_segments_for_dp c then None
      else Some (greedy_semantic_chunking pct c segs
             (if preserve then positions else calculate_segment_positions tx segs)
             (map (chunk_length_function c) segs) (if preserve then Some tx else None)))"

definition split_text_with_metadata ::
  "(real list \<Rightarrow> real \<Rightarrow> real) \<Rightarrow> chunker \<Rightarrow> string \<Rightarrow> bool \<Rightarrow> chunk_result list option" where
  "split_text_with_metadata pct c tx preserve0 =
     (if tx = [] \<or> py_blank tx then Some []
      else (case segment_text c tx preserve0 of
        None \<Rightarrow> None
      | Some (segs, positions0, preserve) \<Rightarrow>
          if segs = [] then Some []
          else if length segs = 1 then Some (single_segment_result c tx (segs ! 0) positions0 preserve)
          else (case large_document_result pct c tx segs positions0 preserve of
            Some r \<Rightarrow> Some r
          | None \<Rightarrow>
              (let positions = (if preserve then positions0 else calculate_segment_positions tx segs);
                   lens = map (chunk_length_function c) segs;
                   source = (if preserve then Some tx else None)
               in case generate_embeddings_for_segments c segs of
                    None \<Rightarrow> Some (fallback_chunking c segs positions lens source)
                  | Some embeddings \<Rightarrow>
                      map_option (\<lambda>gs. build_chunk_results c segs gs positions lens source)
                        (dynamic_programming_chunking c segs (compute_similarity_matrix embeddings) lens)))))"

section \<open>Segmentations\<close>

text \<open>
  A segmentation of the first \<open>b\<close> segments: groups that lie edge to edge from \<open>a\<close> to \<open>b\<close>.  It is
  feasible when every group has at most \<open>max_chunk_size\<close> tokens and every group but the one that ends
  at the last segment has at least \<open>min_chunk_size\<close>.  Its reward is the sum over its groups.
\<close>

fun chained :: "nat \<Rightarrow> (nat \<times> nat) list \<Rightarrow> nat \<Rightarrow> bool" where
  "chained a [] b \<longleftrightarrow> a = b"
| "chained a ((s, e) # gs) b \<longleftrightarrow> s = a \<and> s < e \<and> chained e gs b"

definition admissible :: "chunker \<Rightarrow> (nat \<Rightarrow> nat \<Rightarrow> int) \<Rightarrow> nat \<Rightarrow> nat \<Rightarrow> nat \<Rightarrow> bool" where
  "admissible c tok n s e \<longleftrightarrow>
     s < e \<and> tok s e \<le> max_chunk_size c \<and> (e < n \<longrightarrow> min_chunk_size c \<le> tok s e)"

definition feasible ::
  "chunker \<Rightarrow> (nat \<Rightarrow> nat \<Rightarrow> int) \<Rightarrow> nat \<Rightarrow> nat \<Rightarrow> (nat \<times> nat) list \<Rightarrow> bool" where
  "feasible c tok n b gs \<longleftrightarrow> chained 0 gs b \<and> (\<forall>(s, e)\<in>set gs. admissible c tok n s e)"

definition total_reward :: "(nat \<Rightarrow> nat \<Rightarrow> real) \<Rightarrow> (nat \<times> nat) list \<Rightarrow> real" where
  "total_reward rew gs = (\<Sum>(s, e)\<leftarrow>gs. rew s e)"

lemma chained_snoc: "chained a (gs @ [(s, e)]) b \<longleftrightarrow> chained a gs s \<and> s < e \<and> e = b"
  by (induction gs arbitrary: a) auto

lemma chained_le: "chained a gs b \<Longrightarrow> a \<le> b"
  by (induction a gs b rule: chained.induct) auto

lemma chained_mem: "chained a gs b \<Longrightarrow> (s, e) \<in> set gs \<Longrightarrow> a \<le> s \<and> s < e \<and> e \<le> b"
  by (induction a gs b rule: chained.induct) (fastforce dest: chained_le)+

lemma total_reward_simps [simp]:
  "total_reward rew [] = 0" "total_reward rew ((s, e) # gs) = rew s e + total_reward rew gs"
  "total_reward rew (gs @ hs) = total_reward rew gs + total_reward rew hs"
  by (simp_all add: total_reward_def)

lemma feasible_Nil [simp]: "feasible c tok n 0 []"
  by (simp add: feasible_def)

lemma feasible_snoc:
  "feasible c tok n b (gs @ [(s, e)]) \<longleftrightarrow> feasible c tok n s gs \<and> admissible c tok n s e \<and> e = b"
  by (auto simp: feasible_def chained_snoc admissible_def)

lemma feasible_last:
  assumes "feasible c tok n b gs" and "0 < b"
  obtains hs s where "gs = hs @ [(s, b)]" and "feasible c tok n s hs" and "admissible c tok n s b"
proof (cases gs rule: rev_cases)
  case Nil
  then show ?thesis using assms by (simp add: feasible_def)
next
  case (snoc hs g)
  then obtain s e where gs: "gs = hs @ [(s, e)]" by (cases g) auto
  then have "feasible c tok n s hs" and "admissible c tok n s e" and "e = b"
    using assms(1) by (auto simp: feasible_snoc)
  then show ?thesis by (intro that [of hs s]) (simp_all add: gs)
qed

section \<open>The table is optimal\<close>

text \<open>
  After the column of \<open>i\<close> has been tried from \<open>i - 1\<close> down to \<open>lo\<close>: nothing else has changed
  (\<open>column_frame\<close>), the entry comes from an admissible \<open>j\<close> that the parent names (\<open>column_sound\<close>), and
  it is at least \<open>dp[j] + reward(j, i)\<close> for each admissible \<open>j\<close> tried (\<open>column_complete\<close>).
\<close>

definition column_frame :: "nat \<Rightarrow> dp_table \<Rightarrow> dp_table \<Rightarrow> bool" where
  "column_frame i t0 t \<longleftrightarrow>
     length (dp_reward t) = length (dp_reward t0) \<and> length (dp_parent t) = length (dp_parent t0) \<and>
     (\<forall>k. k \<noteq> i \<longrightarrow> dp_reward t ! k = dp_reward t0 ! k \<and> dp_parent t ! k = dp_parent t0 ! k)"

definition column_sound ::
  "chunker \<Rightarrow> (nat \<Rightarrow> nat \<Rightarrow> int) \<Rightarrow> (nat \<Rightarrow> nat \<Rightarrow> real) \<Rightarrow> nat \<Rightarrow> nat \<Rightarrow> dp_table \<Rightarrow> bool" where
  "column_sound c tok rew n i t \<longleftrightarrow>
     (\<forall>v. dp_reward t ! i = Some v \<longrightarrow>
        (\<exists>j u. admissible c tok n j i \<and> dp_reward t ! j = Some u \<and> v = u + rew j i \<and>
               dp_parent t ! i = int j))"

definition column_complete ::
  "chunker \<Rightarrow> (nat \<Rightarrow> nat \<Rightarrow> int) \<Rightarrow> (nat \<Rightarrow> nat \<Rightarrow> real) \<Rightarrow> nat \<Rightarrow> nat \<Rightarrow> nat \<Rightarrow> dp_table \<Rightarrow> bool" where
  "column_complete c tok rew n i lo t \<longleftrightarrow>
     (\<forall>j u. lo \<le> j \<longrightarrow> admissible c tok n j i \<longrightarrow> dp_reward t ! j = Some u \<longrightarrow>
        (\<exists>v. dp_reward t ! i = Some v \<and> u + rew j i \<le> v))"

lemma column_complete_top: "column_complete c tok rew n i i t"
  by (auto simp: column_complete_def admissible_def)

lemma column_complete_down:
  assumes "column_complete c tok rew n i (Suc j) t"
    and "\<And>u. admissible c tok n j i \<Longrightarrow> dp_reward t ! j = Some u \<Longrightarrow>
           \<exists>v. dp_reward t ! i = Some v \<and> u + rew j i \<le> v"
  shows "column_complete c tok rew n i j t"
  unfolding column_complete_def
proof (intro allI impI)
  fix k u
  assume k: "j \<le> k" "admissible c tok n k i" "dp_reward t ! k = Some u"
  show "\<exists>v. dp_reward t ! i = Some v \<and> u + rew k i \<le> v"
  proof (cases "k = j")
    case True
    then show ?thesis using assms(2) k by blast
  next
    case False
    then have "Suc j \<le> k" using k(1) by simp
    then show ?thesis using assms(1) k unfolding column_complete_def by blast
  qed
qed

lemma column_frame_refl [simp]: "column_frame i t t"
  by (simp add: column_frame_def)

lemma column_frame_trans: "column_frame i t0 t \<Longrightarrow> column_frame i t t' \<Longrightarrow> column_frame i t0 t'"
  by (simp add: column_frame_def)

text \<open>One candidate either changes nothing or installs a strictly better entry.\<close>

lemma evaluate_chunk_candidate_cases:
  assumes "evaluate_chunk_candidate c tok rew n i j t = (False, t')"
  obtains (keep) "t' = t" and "\<And>u. admissible c tok n j i \<Longrightarrow> dp_reward t ! j = Some u \<Longrightarrow>
                    \<exists>v. dp_reward t ! i = Some v \<and> u + rew j i \<le> v"
  | (better) u where "j < i \<Longrightarrow> admissible c tok n j i" and "dp_reward t ! j = Some u"
      and "\<And>v. dp_reward t ! i = Some v \<Longrightarrow> v < u + rew j i"
      and "t' = \<lparr>dp_reward = (dp_reward t)[i := Some (u + rew j i)],
                 dp_parent = (dp_parent t)[i := int j]\<rparr>"
proof (cases "dp_reward t ! j")
  case None
  then have "t' = t"
    using assms by (auto simp: evaluate_chunk_candidate_def split: if_splits)
  then show ?thesis using keep None by simp
next
  case (Some u)
  show ?thesis
  proof (cases "tok j i < min_chunk_size c \<and> i < n")
    case True
    then have "t' = t" using assms Some by (auto simp: evaluate_chunk_candidate_def split: if_splits)
    then show ?thesis using keep True by (auto simp: admissible_def)
  next
    case big: False
    then have adm: "j < i \<Longrightarrow> admissible c tok n j i"
      using assms by (auto simp: evaluate_chunk_candidate_def admissible_def split: if_splits)
    show ?thesis
    proof (cases "reward_greater (Some (u + rew j i)) (dp_reward t ! i)")
      case True
      then have "v < u + rew j i" if "dp_reward t ! i = Some v" for v using that by simp
      moreover have "t' = \<lparr>dp_reward = (dp_reward t)[i := Some (u + rew j i)],
          dp_parent = (dp_parent t)[i := int j]\<rparr>"
        using assms Some big True by (auto simp: evaluate_chunk_candidate_def split: if_splits)
      ultimately show ?thesis using better adm Some by blast
    next
      case False
      then have "\<exists>v. dp_reward t ! i = Some v \<and> u + rew j i \<le> v"
        by (cases "dp_reward t ! i") auto
      moreover have "t' = t"
        using assms Some big False by (auto simp: evaluate_chunk_candidate_def split: if_splits)
      ultimately show ?thesis using keep Some by auto
    qed
  qed
qed

lemma column_step:
  assumes "column_sound c tok rew n i t" and "column_complete c tok rew n i (Suc j) t"
    and "j < i" and "i < length (dp_reward t)" and "i < length (dp_parent t)"
    and run: "evaluate_chunk_candidate c tok rew n i j t = (False, t')"
  shows "column_frame i t t' \<and> column_sound c tok rew n i t' \<and> column_complete c tok rew n i j t'"
  using run
proof (cases rule: evaluate_chunk_candidate_cases)
  case keep
  then show ?thesis using assms(1,2) column_complete_down by simp
next
  case (better u)
  have "column_frame i t t'" by (simp add: better(4) column_frame_def)
  have "column_sound c tok rew n i t'"
    using better(1,2) assms(3-5) by (auto simp: better(4) column_sound_def)
  have "column_complete c tok rew n i (Suc j) t'"
    unfolding column_complete_def
  proof (intro allI impI)
    fix k w
    assume k: "Suc j \<le> k" "admissible c tok n k i" "dp_reward t' ! k = Some w"
    then have "dp_reward t ! k = Some w" by (simp add: better(4) admissible_def)
    then obtain v where "dp_reward t ! i = Some v" "w + rew k i \<le> v"
      using assms(2) k unfolding column_complete_def by blast
    then show "\<exists>v. dp_reward t' ! i = Some v \<and> w + rew k i \<le> v"
      using better(3) assms(4) by (fastforce simp: better(4))
  qed
  have "dp_reward t' ! i = Some (u + rew j i)" and "dp_reward t' ! j = Some u"
    using better(2) assms(3,4) by (simp_all add: better(4))
  then have "column_complete c tok rew n i j t'"
    by (intro column_complete_down [OF \<open>column_complete c tok rew n i (Suc j) t'\<close>]) auto
  with \<open>column_frame i t t'\<close> \<open>column_sound c tok rew n i t'\<close> show ?thesis by simp
qed

lemma column_break:
  assumes "column_complete c tok rew n i (Suc j) t" and "tok j i > max_chunk_size c"
    and mono: "\<And>k. k \<le> j \<Longrightarrow> tok j i \<le> tok k i"
  shows "column_complete c tok rew n i 0 t"
  unfolding column_complete_def
proof (intro allI impI)
  fix k u
  assume k: "admissible c tok n k i" "dp_reward t ! k = Some u"
  then have "\<not> k \<le> j" using mono [of k] assms(2) by (auto simp: admissible_def)
  then show "\<exists>v. dp_reward t ! i = Some v \<and> u + rew k i \<le> v"
    using assms(1) k unfolding column_complete_def by (simp add: Suc_le_eq)
qed

lemma fill_dp_column_correct:
  assumes "column_sound c tok rew n i t" and "column_complete c tok rew n i m t" and "m \<le> i"
    and "i < length (dp_reward t)" and "i < length (dp_parent t)"
    and mono: "\<And>j k. k \<le> j \<Longrightarrow> j \<le> i \<Longrightarrow> tok j i \<le> tok k i"
  defines "t' \<equiv> fill_dp_column c tok rew n i (rev [0..<m]) t"
  shows "column_frame i t t' \<and> column_sound c tok rew n i t' \<and> column_complete c tok rew n i 0 t'"
  using assms(1-5) unfolding t'_def
proof (induction m arbitrary: t)
  case 0
  then show ?case by simp
next
  case (Suc j)
  obtain brk t1 where run: "evaluate_chunk_candidate c tok rew n i j t = (brk, t1)"
    by fastforce
  show ?case
  proof (cases brk)
    case True
    then have "t1 = t" and "tok j i > max_chunk_size c"
      using run by (auto simp: evaluate_chunk_candidate_def Let_def split: if_splits)
    moreover have "column_complete c tok rew n i 0 t"
      using Suc.prems(2,3) calculation(2) mono by (intro column_break [of c tok rew n i j]) auto
    ultimately show ?thesis using Suc.prems(1) run True by simp
  next
    case False
    then have step: "column_frame i t t1 \<and> column_sound c tok rew n i t1 \<and> column_complete c tok rew n i j t1"
      using Suc.prems run by (intro column_step) auto
    then have "column_frame i t1 (fill_dp_column c tok rew n i (rev [0..<j]) t1) \<and>
        column_sound c tok rew n i (fill_dp_column c tok rew n i (rev [0..<j]) t1) \<and>
        column_complete c tok rew n i 0 (fill_dp_column c tok rew n i (rev [0..<j]) t1)"
      using Suc.prems(3-5) by (intro Suc.IH) (auto simp: column_frame_def)
    then show ?thesis using run False step column_frame_trans by auto
  qed
qed

text \<open>
  The table up to \<open>b\<close>: the entry at 0 is 0, every later entry is sound and complete, and the entries
  beyond \<open>b\<close> are still \<open>-inf\<close>.
\<close>

definition table_upto ::
  "chunker \<Rightarrow> (nat \<Rightarrow> nat \<Rightarrow> int) \<Rightarrow> (nat \<Rightarrow> nat \<Rightarrow> real) \<Rightarrow> nat \<Rightarrow> nat \<Rightarrow> dp_table \<Rightarrow> bool" where
  "table_upto c tok rew n b t \<longleftrightarrow>
     length (dp_reward t) = n + 1 \<and> length (dp_parent t) = n + 1 \<and> dp_reward t ! 0 = Some 0 \<and>
     (\<forall>i. 0 < i \<longrightarrow> i \<le> b \<longrightarrow> column_sound c tok rew n i t \<and> column_complete c tok rew n i 0 t) \<and>
     (\<forall>i. b < i \<longrightarrow> i \<le> n \<longrightarrow> dp_reward t ! i = None)"

lemma column_frame_other:
  assumes "column_frame i t t'" and "k < i"
  shows "column_sound c tok rew n k t' = column_sound c tok rew n k t"
    and "column_complete c tok rew n k 0 t' = column_complete c tok rew n k 0 t"
proof -
  have "dp_reward t' ! j = dp_reward t ! j" "dp_parent t' ! j = dp_parent t ! j" if "j < i" for j
    using assms(1) that by (auto simp: column_frame_def)
  then have "\<And>j. j < k \<Longrightarrow> dp_reward t' ! j = dp_reward t ! j"
    "dp_reward t' ! k = dp_reward t ! k" "dp_parent t' ! k = dp_parent t ! k"
    using assms(2) by auto
  then show "column_sound c tok rew n k t' = column_sound c tok rew n k t"
    and "column_complete c tok rew n k 0 t' = column_complete c tok rew n k 0 t"
    unfolding column_sound_def column_complete_def admissible_def by (simp_all cong: conj_cong)
qed

lemma fill_dp_table_upto:
  assumes "table_upto c tok rew n 0 t" and "b \<le> n"
    and mono: "\<And>i j k. k \<le> j \<Longrightarrow> j \<le> i \<Longrightarrow> i \<le> n \<Longrightarrow> tok j i \<le> tok k i"
  shows "table_upto c tok rew n b
           (fold (\<lambda>i t. fill_dp_column c tok rew n i (rev [0..<i]) t) [1..<b + 1] t)"
  using assms(2)
proof (induction b)
  case 0
  then show ?case using assms(1) by simp
next
  case (Suc b)
  define t1 where "t1 = fold (\<lambda>i t. fill_dp_column c tok rew n i (rev [0..<i]) t) [1..<b + 1] t"
  define t2 where "t2 = fill_dp_column c tok rew n (Suc b) (rev [0..<Suc b]) t1"
  have t1: "table_upto c tok rew n b t1" using Suc by (simp add: t1_def)
  then have "dp_reward t1 ! Suc b = None" using Suc.prems by (simp add: table_upto_def)
  then have "column_sound c tok rew n (Suc b) t1" by (simp add: column_sound_def)
  moreover have "Suc b < length (dp_reward t1)" "Suc b < length (dp_parent t1)"
    using t1 Suc.prems by (simp_all add: table_upto_def)
  ultimately have t2: "column_frame (Suc b) t1 t2 \<and> column_sound c tok rew n (Suc b) t2 \<and>
      column_complete c tok rew n (Suc b) 0 t2"
    unfolding t2_def using mono Suc.prems column_complete_top
    by (intro fill_dp_column_correct) auto
  have "table_upto c tok rew n (Suc b) t2"
    unfolding table_upto_def
  proof (intro conjI allI impI)
    fix i
    assume "0 < i" "i \<le> Suc b"
    then show "column_sound c tok rew n i t2" "column_complete c tok rew n i 0 t2"
      using t1 t2 column_frame_other [of "Suc b" t1 t2 i] by (auto simp: table_upto_def le_Suc_eq)
  qed (use t1 t2 in \<open>auto simp: table_upto_def column_frame_def\<close>)
  then show ?case by (simp add: t2_def t1_def)
qed

lemma table_upper_bound:
  assumes "table_upto c tok rew n n t" and "feasible c tok n b gs" and "b \<le> n"
  shows "\<exists>v. dp_reward t ! b = Some v \<and> total_reward rew gs \<le> v"
  using assms(2,3)
proof (induction b arbitrary: gs rule: less_induct)
  case (less b)
  show ?case
  proof (cases "b = 0")
    case True
    then have "gs = []"
      using less.prems(1) chained_mem [of 0 gs 0] by (cases gs) (auto simp: feasible_def)
    then show ?thesis using assms(1) True by (simp add: table_upto_def)
  next
    case False
    then obtain hs s where gs: "gs = hs @ [(s, b)]" and hs: "feasible c tok n s hs"
      and adm: "admissible c tok n s b"
      using feasible_last [OF less.prems(1)] by auto
    then have "s < b" by (simp add: admissible_def)
    then obtain u where u: "dp_reward t ! s = Some u" "total_reward rew hs \<le> u"
      using less.IH [OF _ hs] less.prems(2) by auto
    have "column_complete c tok rew n b 0 t"
      using assms(1) False less.prems(2) by (simp add: table_upto_def)
    then obtain v where "dp_reward t ! b = Some v" "u + rew s b \<le> v"
      using adm u(1) unfolding column_complete_def by blast
    then show ?thesis using u(2) by (auto simp: gs)
  qed
qed

lemma table_attained:
  assumes "table_upto c tok rew n n t" and "dp_reward t ! b = Some v" and "b \<le> n"
  shows "\<exists>gs. (\<forall>acc. read_groupings (dp_parent t) b acc = Some (acc @ rev gs)) \<and>
           feasible c tok n b gs \<and> total_reward rew gs = v"
  using assms(2,3)
proof (induction b arbitrary: v rule: less_induct)
  case (less b)
  show ?case
  proof (cases "b = 0")
    case True
    then have "v = 0" using assms(1) less.prems(1) by (simp add: table_upto_def)
    then show ?thesis
      using True by (intro exI [of _ "[]"]) (simp add: read_groupings.simps)
  next
    case False
    then have "column_sound c tok rew n b t"
      using assms(1) less.prems(2) by (simp add: table_upto_def)
    then obtain j u where j: "admissible c tok n j b" "dp_reward t ! j = Some u" "v = u + rew j b"
      "dp_parent t ! b = int j"
      using less.prems(1) unfolding column_sound_def by blast
    then have "j < b" by (simp add: admissible_def)
    then obtain gs where gs: "\<And>acc. read_groupings (dp_parent t) j acc = Some (acc @ rev gs)"
      "feasible c tok n j gs" "total_reward rew gs = u"
      using less.IH [OF _ j(2)] less.prems(2) by auto
    have "read_groupings (dp_parent t) b acc = Some (acc @ rev (gs @ [(j, b)]))" for acc
      using False gs(1) [of "acc @ [(j, b)]"] j(4) by (subst read_groupings.simps) simp
    moreover have "feasible c tok n b (gs @ [(j, b)])"
      using gs(2) j(1) by (simp add: feasible_snoc)
    moreover have "total_reward rew (gs @ [(j, b)]) = v" using gs(3) j(3) by simp
    ultimately show ?thesis by blast
  qed
qed

section \<open>Token counts of groups\<close>

lemma cumulative_nth: "k \<le> length xs \<Longrightarrow> cumulative a xs ! k = a + int (sum_list (take k xs))"
  by (induction a xs arbitrary: k rule: cumulative.induct) (auto simp: nth_Cons' take_Cons')

lemma group_tokens_eq:
  assumes "s \<le> e" and "e \<le> length lens"
  shows "group_tokens lens s e = int (sum_list (take (e - s) (drop s lens)))"
proof -
  obtain d where "e = s + d" using assms(1) by (metis le_iff_add)
  then show ?thesis using assms by (simp add: group_tokens_def cumulative_nth take_add)
qed

lemma group_tokens_mono:
  assumes "k \<le> j" and "j \<le> i" and "i \<le> length lens"
  shows "group_tokens lens j i \<le> group_tokens lens k i"
proof -
  obtain d where "j = k + d" using assms(1) by (metis le_iff_add)
  then show ?thesis using assms by (simp add: group_tokens_def cumulative_nth take_add)
qed

lemma group_tokens_Suc:
  "s \<le> i \<Longrightarrow> i < length lens \<Longrightarrow> group_tokens lens s (Suc i) = group_tokens lens s i + int (lens ! i)"
  by (simp add: group_tokens_def cumulative_nth take_Suc_conv_app_nth)

lemma group_tokens_self [simp]: "group_tokens lens s s = 0"
  by (simp add: group_tokens_def)

section \<open>The dynamic program returns an optimal partition\<close>

lemma dp_start_table:
  assumes "0 < n"
  shows "table_upto c tok rew n 0
    \<lparr>dp_reward = (replicate (n + 1) None)[0 := Some 0], dp_parent = replicate (n + 1) (-1)\<rparr>"
  using assms by (simp add: table_upto_def nth_Cons')

lemma dp_returns:
  fixes m :: "real list list"
  assumes "length segs = length lens" and "2 \<le> length segs"
  defines "n \<equiv> length segs" and "tok \<equiv> group_tokens lens" and "rew \<equiv> calculate_chunk_reward m"
  shows "\<exists>gs. dynamic_programming_chunking c segs m lens = Some gs \<and>
           (if \<exists>hs. feasible c tok n n hs
            then feasible c tok n n gs \<and> (\<forall>hs. feasible c tok n n hs \<longrightarrow> total_reward rew hs \<le> total_reward rew gs)
            else gs = greedy_fallback_chunking c lens)"
proof -
  define t0 where "t0 = \<lparr>dp_reward = (replicate (n + 1) None)[0 := Some (0::real)],
    dp_parent = replicate (n + 1) (-1)\<rparr>"
  define t where "t = fill_dp_table c tok rew n t0"
  have run: "dynamic_programming_chunking c segs m lens =
      (if dp_reward t ! n = None then Some (greedy_fallback_chunking c lens)
       else map_option rev (read_groupings (dp_parent t) n []))"
  proof -
    have "length segs \<noteq> 0" and "length segs \<noteq> 1" using assms(2) by linarith+
    then show ?thesis
      unfolding dynamic_programming_chunking_def Let_def t_def t0_def n_def tok_def rew_def
      by (simp only: if_False)
  qed
  have tab: "table_upto c tok rew n n t"
    unfolding t_def fill_dp_table_def
  proof (rule fill_dp_table_upto)
    show "table_upto c tok rew n 0 t0"
      unfolding t0_def using assms(2) by (intro dp_start_table) (auto simp: n_def)
    show "tok j i \<le> tok k i" if "k \<le> j" "j \<le> i" "i \<le> n" for i j k
      using that assms(1) by (simp add: tok_def n_def group_tokens_mono)
  qed simp
  show ?thesis
  proof (cases "dp_reward t ! n")
    case None
    then have "\<not> (\<exists>hs. feasible c tok n n hs)" using table_upper_bound [OF tab] by fastforce
    then show ?thesis using run None by simp
  next
    case (Some v)
    obtain gs where gs: "read_groupings (dp_parent t) n [] = Some (rev gs)" "feasible c tok n n gs"
      "total_reward rew gs = v"
      using table_attained [OF tab Some] by auto
    then have "total_reward rew hs \<le> total_reward rew gs" if "feasible c tok n n hs" for hs
      using table_upper_bound [OF tab that] Some by auto
    then show ?thesis using run Some gs by auto
  qed
qed

section \<open>Every path groups all segments within the size limit\<close>

definition groups_within :: "chunker \<Rightarrow> nat list \<Rightarrow> (nat \<times> nat) list \<Rightarrow> bool" where
  "groups_within c lens gs \<longleftrightarrow>
     chained 0 gs (length lens) \<and> (\<forall>(s, e)\<in>set gs. group_tokens lens s e \<le> max_chunk_size c)"

lemma drop_Cons_nth: "drop i lens = l # ls \<Longrightarrow> i < length lens \<and> lens ! i = l \<and> drop (Suc i) lens = ls"
  by (metis Cons_nth_drop_Suc drop_eq_Nil2 linorder_not_less list.distinct(1) list.inject)

text \<open>The state of both greedy loops at index \<open>i\<close>: the groups closed so far and the open one.\<close>

definition greedy_state ::
  "chunker \<Rightarrow> nat list \<Rightarrow> nat \<Rightarrow> nat \<Rightarrow> int \<Rightarrow> (nat \<times> nat) list \<Rightarrow> bool" where
  "greedy_state c lens i start tokens acc \<longleftrightarrow>
     chained 0 acc start \<and> (\<forall>(s, e)\<in>set acc. group_tokens lens s e \<le> max_chunk_size c) \<and>
     start \<le> i \<and> i \<le> length lens \<and> tokens = group_tokens lens start i \<and>
     (start < i \<longrightarrow> tokens \<le> max_chunk_size c)"

lemma greedy_state_close:
  assumes "greedy_state c lens i start tokens acc" and "start < i" and "i < length lens"
    and "int (lens ! i) \<le> max_chunk_size c"
  shows "greedy_state c lens (Suc i) i (int (lens ! i)) (acc @ [(start, i)])"
  using assms by (auto simp: greedy_state_def chained_snoc group_tokens_Suc)

lemma greedy_state_extend:
  assumes "greedy_state c lens i start tokens acc" and "i < length lens"
    and "tokens + int (lens ! i) \<le> max_chunk_size c \<or> start = i"
    and "int (lens ! i) \<le> max_chunk_size c"
  shows "greedy_state c lens (Suc i) start (tokens + int (lens ! i)) acc"
  using assms by (auto simp: greedy_state_def group_tokens_Suc)

lemma greedy_state_end:
  assumes "greedy_state c lens (length lens) start tokens acc"
  shows "groups_within c lens (if start < length lens then acc @ [(start, length lens)] else acc)"
  using assms by (auto simp: greedy_state_def groups_within_def chained_snoc)

lemma greedy_loop_within:
  assumes "greedy_state c lens i start tokens acc" and "drop i lens = ls"
    and small: "\<forall>l\<in>set lens. int l \<le> max_chunk_size c"
  shows "groups_within c lens (greedy_loop c i ls start tokens acc)"
  using assms(1,2)
proof (induction ls arbitrary: i start tokens acc)
  case Nil
  then have "i = length lens" by (simp add: greedy_state_def)
  then show ?case using greedy_state_end Nil.prems(1) by simp
next
  case (Cons l ls)
  note l = drop_Cons_nth [OF Cons.prems(2)]
  then have "int (lens ! i) \<le> max_chunk_size c" using small nth_mem by blast
  then show ?case
    using l Cons.IH [OF greedy_state_close [OF Cons.prems(1)]]
      Cons.IH [OF greedy_state_extend [OF Cons.prems(1)]] Cons.prems(1)
    by (auto simp: greedy_state_def)
qed

lemma merge_similar_loop_within:
  assumes "greedy_state c lens i start tokens acc" and "drop i lens = ls"
    and small: "\<forall>l\<in>set lens. int l \<le> max_chunk_size c"
  shows "groups_within c lens (merge_similar_loop c thr sims i ls start tokens acc)"
  using assms(1,2)
proof (induction ls arbitrary: i start tokens acc)
  case Nil
  then have "i = length lens" by (simp add: greedy_state_def)
  then show ?case using greedy_state_end Nil.prems(1) by simp
next
  case (Cons l ls)
  note l = drop_Cons_nth [OF Cons.prems(2)]
  then have "int (lens ! i) \<le> max_chunk_size c" using small nth_mem by blast
  then show ?case
    using l Cons.IH [OF greedy_state_close [OF Cons.prems(1)]]
      Cons.IH [OF greedy_state_extend [OF Cons.prems(1)]] Cons.prems(1)
    by (auto simp: greedy_state_def Let_def)
qed

lemma greedy_fallback_within [bound_facts]:
  assumes "\<forall>l\<in>set lens. int l \<le> max_chunk_size c"
  shows "groups_within c lens (greedy_fallback_chunking c lens)"
  unfolding greedy_fallback_chunking_def
  by (rule greedy_loop_within) (use assms in \<open>auto simp: greedy_state_def\<close>)

lemma greedy_merge_within [bound_facts]:
  assumes "\<forall>l\<in>set lens. int l \<le> max_chunk_size c" and "lens \<noteq> []"
  shows "groups_within c lens (greedy_merge_by_similarity c lens sims thr)"
proof -
  obtain l ls where lens: "lens = l # ls" using assms(2) by (cases lens) auto
  then have "greedy_state c lens 1 0 (int l) []"
    using assms(1) by (simp add: greedy_state_def group_tokens_def cumulative_nth)
  from merge_similar_loop_within [OF this _ assms(1)] show ?thesis
    by (simp add: greedy_merge_by_similarity_def lens)
qed

lemma dp_within [bound_facts]:
  assumes "length segs = length lens" and "2 \<le> length segs"
    and "\<forall>l\<in>set lens. int l \<le> max_chunk_size c"
  shows "\<exists>gs. dynamic_programming_chunking c segs m lens = Some gs \<and> groups_within c lens gs"
proof -
  obtain gs where gs: "dynamic_programming_chunking c segs m lens = Some gs"
    and "feasible c (group_tokens lens) (length segs) (length segs) gs \<or> gs = greedy_fallback_chunking c lens"
    using dp_returns [OF assms(1,2), of c m] by (auto split: if_splits)
  then have "groups_within c lens gs"
    using greedy_fallback_within [OF assms(3)] assms(1)
    by (auto simp: groups_within_def feasible_def admissible_def)
  then show ?thesis using gs by blast
qed

section \<open>Results against the source text\<close>

text \<open>The positions of contiguous spans are the running lengths of the segments.\<close>

lemma contiguous_concat: "contiguous tx off spans \<Longrightarrow> concat (map fst spans) = drop off tx"
proof (induction tx off spans rule: contiguous.induct)
  case (2 tx off seg a b spans)
  then have ab: "a = off" "a \<le> b" "py_slice tx (int a) (int b) = seg" "contiguous tx b spans"
    by auto
  have b: "b \<le> length tx" using ab(4)
    by (induction tx b spans rule: contiguous.induct) auto
  then have "seg = take (b - off) (drop off tx)" using ab py_slice_nat [of a b tx] by simp
  then show ?case using 2 ab append_take_drop_id [of "b - off" "drop off tx"] by simp
qed simp

lemma contiguous_length: "contiguous tx off spans \<Longrightarrow> off + length (concat (map fst spans)) = length tx"
proof (induction tx off spans rule: contiguous.induct)
  case (2 tx off seg a b spans)
  then have ab: "a = off" "a \<le> b" "py_slice tx (int a) (int b) = seg" "contiguous tx b spans"
    by auto
  then have rest: "b + length (concat (map fst spans)) = length tx" using 2 by simp
  then have "b \<le> length tx" by linarith
  then have "length seg = b - off" using ab py_slice_nat [of a b tx] by auto
  then show ?case using ab(1,2) rest by simp
qed simp

lemma contiguous_positions:
  assumes "contiguous tx off spans" and "k < length spans"
  shows "snd (spans ! k) = (off + length (concat (take k (map fst spans))),
           off + length (concat (take (Suc k) (map fst spans))))"
  using assms
proof (induction tx off spans arbitrary: k rule: contiguous.induct)
  case (2 tx off seg a b spans)
  then have ab: "a = off" "a \<le> b" "py_slice tx (int a) (int b) = seg" "contiguous tx b spans"
    by auto
  have "b \<le> length tx" using contiguous_length [OF ab(4)] by simp
  then have len: "b = off + length seg" using ab py_slice_nat [of a b tx] by (auto simp: min_def)
  show ?case
  proof (cases k)
    case 0
    then show ?thesis using ab len by simp
  next
    case (Suc k')
    then show ?thesis using 2 ab(4) len by simp
  qed
qed simp

lemma take_concat: "concat (take k xs) = take (length (concat (take k xs))) (concat xs)"
  by (metis append_eq_conv_conj append_take_drop_id concat_append)

lemma group_slice:
  assumes "contiguous tx 0 spans" and "s < e" and "e \<le> length spans"
  defines "segs \<equiv> map fst spans" and "positions \<equiv> map snd spans"
  shows "py_slice tx (int (fst (positions ! s))) (int (snd (positions ! (e - 1)))) =
           concat (take (e - s) (drop s segs))"
    and "fst (positions ! s) = length (concat (take s segs))"
    and "snd (positions ! (e - 1)) = length (concat (take e segs))"
proof -
  have tx: "concat segs = tx" using contiguous_concat [OF assms(1)] by (simp add: segs_def)
  show s: "fst (positions ! s) = length (concat (take s segs))"
    using contiguous_positions [OF assms(1), of s] assms(2,3) by (simp add: segs_def positions_def)
  show e: "snd (positions ! (e - 1)) = length (concat (take e segs))"
    using contiguous_positions [OF assms(1), of "e - 1"] assms(2,3) by (simp add: segs_def positions_def)
  have cut: "concat (take e segs) = concat (take s segs) @ concat (take (e - s) (drop s segs))"
    using assms(2) by (metis concat_append less_imp_le ordered_cancel_comm_monoid_diff_class.add_diff_inverse take_add)
  have "length (concat (take e segs)) \<le> length tx"
    using tx take_concat [of e segs] by (metis length_take min.cobounded1)
  moreover have "take (length (concat (take e segs))) tx = concat (take e segs)"
    using tx take_concat [of e segs] by simp
  ultimately have "take (length (concat (take e segs)) - length (concat (take s segs)))
      (drop (length (concat (take s segs))) tx) = concat (take (e - s) (drop s segs))"
    using cut by (metis append_eq_conv_conj drop_take)
  then show "py_slice tx (int (fst (positions ! s))) (int (snd (positions ! (e - 1)))) =
           concat (take (e - s) (drop s segs))"
    using cut \<open>length (concat (take e segs)) \<le> length tx\<close>
      py_slice_nat [of "length (concat (take s segs))" "length (concat (take e segs))" tx]
    by (simp only: s e length_append)
qed

section \<open>The shape of every answer\<close>

lemma segment_text_ok:
  assumes len: "chunk_length_function c = word_count" and "1 \<le> initial_segment_size c" and "\<not> py_blank tx"
  shows "\<exists>segs positions. segment_text c tx preserve = Some (segs, positions, preserve) \<and>
           concat segs = tx \<and> (\<forall>seg\<in>set segs. int (word_count seg) \<le> initial_segment_size c) \<and>
           (preserve \<longrightarrow> (\<exists>spans. contiguous tx 0 spans \<and> segs = map fst spans \<and> positions = map snd spans)) \<and>
           (\<not> preserve \<longrightarrow> positions = [])"
proof -
  define sp where "sp = make_splitter (initial_segment_size c) 0 None (Some (chunk_length_function c))"
  have sp: "chunk_size sp = initial_segment_size c" "chunk_overlap sp = 0"
    "separators sp = default_separators" "length_function sp = word_count"
    by (simp_all add: sp_def make_splitter_def len)
  obtain segs where run: "split_text_recursive sp tx (separators sp) = Some segs" "concat segs = tx"
    using split_text_recursive_returns [of sp tx "separators sp"] assms(2) sp by auto
  have small: "\<forall>seg\<in>set segs. int (word_count seg) \<le> initial_segment_size c"
    using words.split_text_recursive_bound [of sp "separators sp" tx segs] run(1) assms(2) sp
    by (simp add: default_separators_def)
  have split: "split_text sp tx = Some segs"
    using run(1) assms(3) by (auto simp: split_text_def)
  obtain spans where spans: "span_loop tx segs 0 [] = Inr spans" "map fst spans = segs"
    "contiguous tx 0 spans"
    using span_loop_ok [of segs 0 tx "[]"] run(2) by auto
  show ?thesis
  proof (cases preserve)
    case True
    then have "segment_text c tx preserve = Some (segs, map snd spans, preserve)"
      by (simp add: segment_text_def sp_def [symmetric] split_text_with_spans_def split spans)
    then show ?thesis using True spans run(2) small by blast
  next
    case False
    then have "segment_text c tx preserve = Some (segs, [], preserve)"
      by (simp add: segment_text_def sp_def [symmetric] split)
    then show ?thesis using False run(2) small by blast
  qed
qed

definition relabels :: "(chunk_result \<Rightarrow> chunk_result) \<Rightarrow> bool" where
  "relabels f \<longleftrightarrow> (\<forall>r. chunk_text (f r) = chunk_text r \<and> start_index (f r) = start_index r \<and>
     end_index (f r) = end_index r \<and> token_count (f r) = token_count r \<and> verbatim (f r) = verbatim r)"

lemma relabels_simps [simp]:
  "relabels id" "relabels (\<lambda>r. r\<lparr>chunk_strategy := x\<rparr>)"
  "relabels (\<lambda>r. r\<lparr>chunk_strategy := x, embedding_degraded := y\<rparr>)"
  by (simp_all add: relabels_def)

text \<open>The chunks of one grouping, up to the strategy label.\<close>

definition grouped ::
  "chunker \<Rightarrow> string list \<Rightarrow> (nat \<times> nat) list \<Rightarrow> string option \<Rightarrow> chunk_result list \<Rightarrow> bool" where
  "grouped c segs positions source rs \<longleftrightarrow>
     (\<exists>f gs. relabels f \<and> groups_within c (map word_count segs) gs \<and>
        rs = map f (build_chunk_results c segs gs positions (map word_count segs) source))"

lemma fallback_grouped:
  assumes "\<forall>l\<in>set (map word_count segs). int l \<le> max_chunk_size c"
  shows "grouped c segs positions source
           (fallback_chunking c segs positions (map word_count segs) source)"
  using greedy_fallback_within [OF assms] relabels_simps(3)
  unfolding grouped_def fallback_chunking_def by blast

lemma greedy_semantic_grouped:
  assumes "\<forall>l\<in>set (map word_count segs). int l \<le> max_chunk_size c" and "2 \<le> length segs"
  shows "grouped c segs positions source
           (greedy_semantic_chunking pct c segs positions (map word_count segs) source)"
proof (cases "generate_embeddings_for_segments c segs")
  case None
  then show ?thesis using assms fallback_grouped by (auto simp: greedy_semantic_chunking_def)
next
  case (Some emb)
  let ?sims = "adjacent_similarities emb"
  have "groups_within c (map word_count segs)
      (greedy_merge_by_similarity c (map word_count segs) ?sims (pct ?sims 25))"
    using assms by (intro greedy_merge_within) auto
  then show ?thesis
    unfolding grouped_def
    by (intro exI [of _ "\<lambda>r. r\<lparr>chunk_strategy := ''cluster-semantic-greedy-semantic''\<rparr>"]
          exI [of _ "greedy_merge_by_similarity c (map word_count segs) ?sims (pct ?sims 25)"])
      (use Some assms(2) in \<open>auto simp: greedy_semantic_chunking_def Let_def\<close>)
qed

lemma dp_grouped:
  assumes "\<forall>l\<in>set (map word_count segs). int l \<le> max_chunk_size c" and "2 \<le> length segs"
  shows "\<exists>rs. grouped c segs positions source rs \<and>
    (case generate_embeddings_for_segments c segs of
       None \<Rightarrow> Some (fallback_chunking c segs positions (map word_count segs) source)
     | Some emb \<Rightarrow>
         map_option (\<lambda>gs. build_chunk_results c segs gs positions (map word_count segs) source)
           (dynamic_programming_chunking c segs (compute_similarity_matrix emb) (map word_count segs)))
    = Some rs"
proof (cases "generate_embeddings_for_segments c segs")
  case None
  then show ?thesis using assms fallback_grouped by auto
next
  case (Some emb)
  obtain gs where gs: "dynamic_programming_chunking c segs (compute_similarity_matrix emb)
      (map word_count segs) = Some gs" "groups_within c (map word_count segs) gs"
    using dp_within [OF _ assms(2,1)] by auto
  then have "grouped c segs positions source
      (build_chunk_results c segs gs positions (map word_count segs) source)"
    unfolding grouped_def by (intro exI [of _ id] exI [of _ gs]) simp
  then show ?thesis using gs(1) Some by simp
qed

text \<open>The sizes under which the chunker's answer is characterised, for a document with visible text.\<close>

definition well_configured :: "chunker \<Rightarrow> bool" where
  "well_configured c \<longleftrightarrow> chunk_length_function c = word_count \<and> 1 \<le> initial_segment_size c \<and>
     initial_segment_size c \<le> max_chunk_size c"

lemma metadata_shape:
  assumes wf: "well_configured c" and vis: "\<not> py_blank tx"
  obtains (single) "int (word_count tx) \<le> max_chunk_size c"
      and "split_text_with_metadata pct c tx preserve = Some (single_segment_result c tx tx
             (if preserve then [(0, length tx)] else []) preserve)"
  | (groups) segs positions rs where
      "split_text_with_metadata pct c tx preserve = Some rs"
      and "grouped c segs positions (if preserve then Some tx else None) rs" and "concat segs = tx"
      and "preserve \<longrightarrow> (\<exists>spans. contiguous tx 0 spans \<and> segs = map fst spans \<and> positions = map snd spans)"
proof -
  have len: "chunk_length_function c = word_count" and size: "1 \<le> initial_segment_size c"
    "initial_segment_size c \<le> max_chunk_size c"
    using wf by (simp_all add: well_configured_def)
  obtain segs positions0 where seg: "segment_text c tx preserve = Some (segs, positions0, preserve)"
    and cat: "concat segs = tx" and small: "\<forall>s\<in>set segs. int (word_count s) \<le> initial_segment_size c"
    and spans: "preserve \<longrightarrow> (\<exists>spans. contiguous tx 0 spans \<and> segs = map fst spans \<and> positions0 = map snd spans)"
    and nopos: "\<not> preserve \<longrightarrow> positions0 = []"
    using segment_text_ok [OF len size(1) vis, of preserve] by blast
  have ne: "tx \<noteq> []" "segs \<noteq> []" using vis cat by auto
  have lens: "\<forall>l\<in>set (map word_count segs). int l \<le> max_chunk_size c" using small size(2) by auto
  show ?thesis
  proof (cases "length segs = 1")
    case True
    then have segs: "segs = [tx]" using cat by (cases segs) auto
    have "positions0 = (if preserve then [(0, length tx)] else [])"
      using spans nopos segs by (auto simp: map_eq_Cons_conv)
    then show ?thesis
      using single seg ne vis segs lens by (simp add: split_text_with_metadata_def)
  next
    case False
    then have two: "2 \<le> length segs" using ne(2) by (cases segs) (auto simp: Suc_le_eq)
    define positions where "positions = (if preserve then positions0 else calculate_segment_positions tx segs)"
    let ?source = "if preserve then Some tx else None"
    have pos: "preserve \<longrightarrow> (\<exists>spans. contiguous tx 0 spans \<and> segs = map fst spans \<and> positions = map snd spans)"
      using spans by (simp add: positions_def)
    have "\<exists>rs. split_text_with_metadata pct c tx preserve = Some rs \<and> grouped c segs positions ?source rs"
    proof (cases "length segs \<le> max_segments_for_dp c")
      case large: False
      then show ?thesis
        using seg ne vis False greedy_semantic_grouped [OF lens two, of positions ?source pct]
        by (simp add: split_text_with_metadata_def large_document_result_def positions_def len)
    next
      case small: True
      obtain rs where rs: "grouped c segs positions ?source rs"
        "(case generate_embeddings_for_segments c segs of
            None \<Rightarrow> Some (fallback_chunking c segs positions (map word_count segs) ?source)
          | Some emb \<Rightarrow>
              map_option (\<lambda>gs. build_chunk_results c segs gs positions (map word_count segs) ?source)
                (dynamic_programming_chunking c segs (compute_similarity_matrix emb) (map word_count segs)))
         = Some rs"
        using dp_grouped [OF lens two] by blast
      have "split_text_with_metadata pct c tx preserve = Some rs"
        unfolding split_text_with_metadata_def large_document_result_def rs(2) [symmetric] len
          positions_def
        using seg ne vis False small by (simp add: Let_def)
      then show ?thesis using rs(1) by blast
    qed
    then show ?thesis using groups cat pos by blast
  qed
qed

text \<open>A chunk cut from the source: its text is the concatenation of the segments of its group.\<close>

lemma source_chunk:
  assumes "contiguous tx 0 spans" and segs: "segs = map fst spans" and pos: "positions = map snd spans"
    and g: "s < e" "e \<le> length segs"
  shows "build_chunk_result c segs positions lens (Some tx) (s, e) =
     (let merged = concat (take (e - s) (drop s segs)) in
      if py_blank merged then None
      else Some \<lparr>chunk_text = merged, start_index = length (concat (take s segs)),
             end_index = length (concat (take e segs)),
             token_count = chunk_length_function c merged, segment_indices = [s..<e],
             chunk_strategy = ''cluster-semantic-dp'', embedding_degraded = False, verbatim = True\<rparr>)"
proof -
  have "positions \<noteq> []" using g by (auto simp: segs pos)
  then show ?thesis
    using group_slice [OF assms(1) g(1)] g(2)
    by (simp add: build_chunk_result_def Let_def segs pos)
qed

lemma build_token_bound:
  assumes "chunk_length_function c = word_count" and within: "groups_within c (map word_count segs) gs"
    and "(s, e) \<in> set gs"
    and src: "source = Some tx \<Longrightarrow> \<exists>spans. contiguous tx 0 spans \<and> segs = map fst spans \<and> positions = map snd spans"
    and "source = Some tx \<or> source = None"
    and r: "build_chunk_result c segs positions (map word_count segs) source (s, e) = Some r"
  shows "int (token_count r) \<le> max_chunk_size c"
proof -
  have g: "s < e" "e \<le> length segs"
    using within chained_mem [of 0 gs "length segs" s e] assms(3) by (auto simp: groups_within_def)
  have "group_tokens (map word_count segs) s e \<le> max_chunk_size c"
    using within assms(3) by (auto simp: groups_within_def)
  then have sum: "int (\<Sum>p\<leftarrow>take (e - s) (drop s segs). word_count p) \<le> max_chunk_size c"
    using g by (simp add: group_tokens_eq take_map drop_map)
  show ?thesis
  proof (cases "source = None")
    case True
    then show ?thesis
      using r sum by (auto simp: build_chunk_result_def Let_def take_map drop_map split: if_splits)
  next
    case False
    then have "source = Some tx" using assms(5) by blast
    then obtain spans where "contiguous tx 0 spans" "segs = map fst spans" "positions = map snd spans"
      using src by blast
    from source_chunk [OF this g, of c "map word_count segs"]
    have "token_count r = word_count (concat (take (e - s) (drop s segs)))"
      using r \<open>source = Some tx\<close> assms(1) by (auto simp: Let_def split: if_splits)
    then show ?thesis
      using sum words.len_concat [of "take (e - s) (drop s segs)"] by linarith
  qed
qed

lemma build_chunk_results_mem:
  "r \<in> set (build_chunk_results c segs gs positions lens source) \<longleftrightarrow>
     (\<exists>g\<in>set gs. build_chunk_result c segs positions lens source g = Some r)"
  by (induction gs) (auto simp: build_chunk_results_def List.map_filter_simps split: option.splits)

section \<open>Properties\<close>

text \<open>
  C2. \<open>_dynamic_programming_chunking\<close> is globally optimal: it always returns, and whenever the size
  constraints can be met at all (every chunk at most \<open>max_chunk_size\<close> tokens, every chunk but the last
  at least \<open>min_chunk_size\<close>) the groups it returns meet them, cover all segments in order, and no
  other segmentation that meets them has a larger total reward.
\<close>

theorem dp_optimal:
  assumes "length segs = length lens" and "2 \<le> length segs"
    and "feasible c (group_tokens lens) (length segs) (length segs) hs"
  shows "\<exists>gs. dynamic_programming_chunking c segs m lens = Some gs \<and>
           feasible c (group_tokens lens) (length segs) (length segs) gs \<and>
           total_reward (calculate_chunk_reward m) hs \<le> total_reward (calculate_chunk_reward m) gs"
  using dp_returns [OF assms(1,2), of c m] assms(3) by (auto split: if_splits)

theorem dp_optimal_witness:
  "\<exists>gs. dynamic_programming_chunking (make_chunker (\<lambda>_. None) 2 1 1 None 9) [''a'', ''b'', ''c'']
          [[1, 1, 0], [1, 1, 1], [0, 1, 1]] [1, 1, 1] = Some gs \<and>
     feasible (make_chunker (\<lambda>_. None) 2 1 1 None 9) (group_tokens [1, 1, 1]) 3 3 gs \<and>
     1 \<le> total_reward (calculate_chunk_reward [[1, 1, 0], [1, 1, 1], [0, 1, 1]]) gs"
proof -
  let ?m = "[[1, 1, 0], [1, 1, 1], [0, 1, 1]] :: real list list"
  have "feasible (make_chunker (\<lambda>_. None) 2 1 1 None 9) (group_tokens [1, 1, 1]) 3 3 [(0, 2), (2, 3)]"
    by code_simp
  moreover have "total_reward (calculate_chunk_reward ?m) [(0, 2), (2, 3)] = 1"
    by (simp add: calculate_chunk_reward_def matrix_sum_def matrix_trace_def)
  ultimately show ?thesis
    using dp_optimal [of "[''a'', ''b'', ''c'']" "[1, 1, 1]"
        "make_chunker (\<lambda>_. None) 2 1 1 None 9" "[(0, 2), (2, 3)]" ?m]
    by (simp add: numeral_3_eq_3)
qed

lemma metadata_token_bound:
  assumes "well_configured c"
  shows "\<exists>rs. split_text_with_metadata pct c tx preserve = Some rs \<and>
           (\<forall>r\<in>set rs. int (token_count r) \<le> max_chunk_size c)"
proof (cases "py_blank tx")
  case True
  then show ?thesis by (simp add: split_text_with_metadata_def)
next
  case False
  have len: "chunk_length_function c = word_count" using assms by (simp add: well_configured_def)
  from assms False show ?thesis
  proof (cases rule: metadata_shape [where pct = pct and preserve = preserve])
    case single
    then show ?thesis using len by (auto simp: single_segment_result_def)
  next
    case (groups segs positions rs)
    have "int (token_count r) \<le> max_chunk_size c" if r: "r \<in> set rs" for r
    proof -
      let ?source = "if preserve then Some tx else None"
      obtain f gs where "relabels f" and within: "groups_within c (map word_count segs) gs"
        and "rs = map f (build_chunk_results c segs gs positions (map word_count segs) ?source)"
        using groups(2) unfolding grouped_def by blast
      then obtain r' s e where "token_count r = token_count r'" "(s, e) \<in> set gs"
        "build_chunk_result c segs positions (map word_count segs) ?source (s, e) = Some r'"
        using r by (auto simp: build_chunk_results_mem relabels_def)
      moreover have "\<exists>spans. contiguous tx 0 spans \<and> segs = map fst spans \<and> positions = map snd spans"
        if "?source = Some tx" using that groups(4) by (simp split: if_splits)
      ultimately show ?thesis
        using build_token_bound [OF len within, of s e ?source tx positions r'] by simp
    qed
    then show ?thesis using groups(1) by blast
  qed
qed

text \<open>
  C3. Whatever the embedding endpoint answers (vectors, the wrong number of them, or an exception), and
  on every path (single segment, dynamic programming, either greedy fallback), a chunker whose initial
  segment size is positive and at most \<open>max_chunk_size\<close> returns, and no chunk of its answer is counted
  at more than \<open>max_chunk_size\<close> tokens.
\<close>

theorem chunk_token_bound:
  assumes "well_configured c"
  shows "\<exists>rs. split_text_with_metadata pct c tx preserve = Some rs \<and>
           (\<forall>r\<in>set rs. int (token_count r) \<le> max_chunk_size c)"
  using assms by (rule metadata_token_bound)

theorem chunk_token_bound_witness:
  "\<exists>rs. split_text_with_metadata (\<lambda>_ _. 0) (make_chunker (\<lambda>_. None) 2 1 1 None 9) ''a b c'' True = Some rs \<and>
     (\<forall>r\<in>set rs. int (token_count r) \<le> 2)"
  using chunk_token_bound [of "make_chunker (\<lambda>_. None) 2 1 1 None 9"]
  by (simp add: make_chunker_def well_configured_def)

lemma concat_take_mono: "i \<le> j \<Longrightarrow> length (concat (take i xs)) \<le> length (concat (take j xs))"
  by (metis concat_append le_add1 length_append le_add_diff_inverse take_add)

lemma chained_covers:
  fixes B :: "nat \<Rightarrow> nat"
  shows "chained a gs b \<Longrightarrow> B a \<le> k \<Longrightarrow> k < B b \<Longrightarrow> \<exists>(s, e)\<in>set gs. B s \<le> k \<and> k < B e"
proof (induction a gs b rule: chained.induct)
  case (2 a s e gs b)
  then show ?case by (cases "k < B e") auto
qed auto

lemma chained_sorted: "chained a gs b \<Longrightarrow> sorted_wrt (\<lambda>(s, e) (s', e'). e \<le> s') gs"
proof (induction a gs b rule: chained.induct)
  case (2 a s e gs b)
  then show ?case using chained_mem [of e gs b] by fastforce
qed simp

text \<open>The chunks of a grouping of contiguous segments, as slices of the document.\<close>

definition verbatim_cover :: "string \<Rightarrow> chunk_result list \<Rightarrow> bool" where
  "verbatim_cover tx rs \<longleftrightarrow>
     (\<forall>r\<in>set rs. verbatim r \<and> start_index r < end_index r \<and> end_index r \<le> length tx \<and>
        chunk_text r = py_slice tx (int (start_index r)) (int (end_index r))) \<and>
     sorted_wrt (\<lambda>r r'. end_index r \<le> start_index r') rs \<and>
     (\<forall>k<length tx. \<not> py_isspace (tx ! k) \<longrightarrow> (\<exists>r\<in>set rs. start_index r \<le> k \<and> k < end_index r))"

lemma verbatim_cover_relabel: "relabels f \<Longrightarrow> verbatim_cover tx rs \<Longrightarrow> verbatim_cover tx (map f rs)"
  by (simp add: verbatim_cover_def relabels_def sorted_wrt_map)

text \<open>The offset of segment \<open>k\<close> in the joined text.\<close>

definition seg_offset :: "string list \<Rightarrow> nat \<Rightarrow> nat" where
  "seg_offset segs k = length (concat (take k segs))"

lemma source_chunk_fields:
  assumes "contiguous tx 0 spans" and "segs = map fst spans" and "positions = map snd spans"
    and g: "s < e" "e \<le> length segs"
    and r: "build_chunk_result c segs positions lens (Some tx) (s, e) = Some r"
  shows "start_index r = seg_offset segs s" and "end_index r = seg_offset segs e" and "verbatim r"
    and "chunk_text r = py_slice tx (int (start_index r)) (int (end_index r))"
    and "start_index r < end_index r"
proof -
  let ?piece = "concat (take (e - s) (drop s segs))"
  have cut: "seg_offset segs e = seg_offset segs s + length ?piece"
    using g(1) unfolding seg_offset_def
    by (metis concat_append length_append less_imp_le ordered_cancel_comm_monoid_diff_class.add_diff_inverse take_add)
  have nb: "\<not> py_blank ?piece" and "chunk_text r = ?piece" and idx: "start_index r = seg_offset segs s"
    "end_index r = seg_offset segs e" and "verbatim r"
    using source_chunk [OF assms(1-5), of c lens] r by (auto simp: Let_def seg_offset_def split: if_splits)
  then show "start_index r = seg_offset segs s" "end_index r = seg_offset segs e" "verbatim r"
    by simp_all
  have "?piece \<noteq> []" using nb by (metis py_blank_iff empty_iff list.set(1))
  then show "start_index r < end_index r" using idx cut by simp
  show "chunk_text r = py_slice tx (int (start_index r)) (int (end_index r))"
    using group_slice [OF assms(1) g(1)] g(2) \<open>chunk_text r = ?piece\<close> idx assms(2)
    by (simp add: seg_offset_def)
qed

lemma source_chunk_covers:
  assumes "contiguous tx 0 spans" and segs: "segs = map fst spans" and "positions = map snd spans"
    and g: "s < e" "e \<le> length segs"
    and k: "seg_offset segs s \<le> k" "k < seg_offset segs e" "\<not> py_isspace (tx ! k)"
  shows "\<exists>r. build_chunk_result c segs positions lens (Some tx) (s, e) = Some r"
proof -
  let ?a = "seg_offset segs s" and ?b = "seg_offset segs e"
  have "?b \<le> length tx"
    using concat_take_mono [OF g(2), of segs] contiguous_concat [OF assms(1)] segs
    by (simp add: seg_offset_def)
  then have piece: "concat (take (e - s) (drop s segs)) = take (?b - ?a) (drop ?a tx)"
    using group_slice [OF assms(1) g(1)] g(2) segs py_slice_nat [of ?a ?b tx] k(1,2)
    by (simp add: seg_offset_def)
  moreover have "tx ! k = take (?b - ?a) (drop ?a tx) ! (k - ?a)"
    and "k - ?a < length (take (?b - ?a) (drop ?a tx))"
    using k(1,2) \<open>?b \<le> length tx\<close> by auto
  ultimately have "\<not> py_blank (concat (take (e - s) (drop s segs)))"
    using k(3) nth_mem unfolding py_blank_iff by metis
  then show ?thesis using source_chunk [OF assms(1-5), of c lens] by (simp add: Let_def)
qed

lemma grouping_verbatim_cover:
  assumes cont: "contiguous tx 0 spans" and segs: "segs = map fst spans" and pos: "positions = map snd spans"
    and chain: "chained 0 gs (length segs)"
  shows "verbatim_cover tx (build_chunk_results c segs gs positions lens (Some tx))"
proof -
  define b where "b = build_chunk_result c segs positions lens (Some tx)"
  have tx: "concat segs = tx" using contiguous_concat [OF cont] segs by simp
  have mem: "s < e" "e \<le> length segs" if "(s, e) \<in> set gs" for s e
    using chained_mem [OF chain that] by simp_all
  have fields: "start_index r = seg_offset segs s" "end_index r = seg_offset segs e" "verbatim r"
      "chunk_text r = py_slice tx (int (start_index r)) (int (end_index r))" "start_index r < end_index r"
    if "(s, e) \<in> set gs" "b (s, e) = Some r" for s e r
    using source_chunk_fields [OF cont segs pos mem [OF that(1)] that(2) [unfolded b_def]] by simp_all
  have mono: "seg_offset segs i \<le> seg_offset segs j" if "i \<le> j" for i j
    using concat_take_mono [OF that] by (simp add: seg_offset_def)
  have "seg_offset segs e \<le> length tx" if "e \<le> length segs" for e
    using mono [OF that] tx by (simp add: seg_offset_def)
  then have each: "verbatim r \<and> start_index r < end_index r \<and> end_index r \<le> length tx \<and>
      chunk_text r = py_slice tx (int (start_index r)) (int (end_index r))"
    if "(s, e) \<in> set gs" "b (s, e) = Some r" for s e r
    using fields [OF that] mem(2) [OF that(1)] by metis
  have "sorted_wrt (\<lambda>(s, e) (s', e'). e \<le> s' \<and> (s, e) \<in> set gs \<and> (s', e') \<in> set gs) gs"
    by (rule sorted_wrt_mono_rel [OF _ chained_sorted [OF chain]]) auto
  then have order: "sorted_wrt (\<lambda>r r'. end_index r \<le> start_index r') (List.map_filter b gs)"
  proof (rule sorted_wrt_map_filter)
    fix x y u v
    assume "(\<lambda>(s, e) (s', e'). e \<le> s' \<and> (s, e) \<in> set gs \<and> (s', e') \<in> set gs) x y"
      and uv: "b x = Some u" "b y = Some v"
    then obtain s e s' e' where xy: "x = (s, e)" "y = (s', e')" and le: "e \<le> s'"
      and "(s, e) \<in> set gs" "(s', e') \<in> set gs" by (cases x; cases y) simp
    then show "end_index u \<le> start_index v"
      using fields(2) [of s e u] fields(1) [of s' e' v] uv mono [OF le] by simp
  qed
  have "\<exists>r\<in>set (List.map_filter b gs). start_index r \<le> k \<and> k < end_index r"
    if k: "k < length tx" "\<not> py_isspace (tx ! k)" for k
  proof -
    obtain s e where g: "(s, e) \<in> set gs" "seg_offset segs s \<le> k" "k < seg_offset segs e"
      using chained_covers [OF chain, of "seg_offset segs" k] k(1) tx by (auto simp: seg_offset_def)
    then obtain r where r: "b (s, e) = Some r"
      using source_chunk_covers [OF cont segs pos mem [OF g(1)] g(2,3) k(2)] b_def by metis
    then show ?thesis using fields(1,2) [OF g(1) r] g by (auto simp: map_filter_mem intro!: bexI [of _ r])
  qed
  then show ?thesis
    unfolding verbatim_cover_def build_chunk_results_def b_def [symmetric]
    using each order by (auto simp: map_filter_mem)
qed

lemma metadata_verbatim_cover:
  assumes "well_configured c"
  shows "\<exists>rs. split_text_with_metadata pct c tx True = Some rs \<and> verbatim_cover tx rs"
proof (cases "py_blank tx")
  case True
  then show ?thesis
    by (auto simp: split_text_with_metadata_def verbatim_cover_def py_blank_iff)
next
  case False
  from assms False show ?thesis
  proof (cases rule: metadata_shape [where pct = pct and preserve = True])
    case single
    moreover have "tx \<noteq> []" using False by auto
    ultimately show ?thesis by (auto simp: single_segment_result_def verbatim_cover_def)
  next
    case (groups segs positions rs)
    obtain f gs where "relabels f" and "groups_within c (map word_count segs) gs"
      and "rs = map f (build_chunk_results c segs gs positions (map word_count segs) (Some tx))"
      using groups(2) unfolding grouped_def by auto
    moreover obtain spans where "contiguous tx 0 spans" "segs = map fst spans" "positions = map snd spans"
      using groups(4) by blast
    ultimately have "verbatim_cover tx rs"
      using grouping_verbatim_cover verbatim_cover_relabel by (simp add: groups_within_def)
    then show ?thesis using groups(1) by blast
  qed
qed

text \<open>
  C4. With \<open>preserve_offsets\<close> every chunk of the answer is an exact, non-empty slice of the document
  at the offsets it reports and is marked verbatim; the chunks come in document order without
  overlapping; and every character that is not white space lies in one of them.
\<close>

theorem chunks_verbatim_cover:
  assumes "well_configured c"
  shows "\<exists>rs. split_text_with_metadata pct c tx True = Some rs \<and> verbatim_cover tx rs"
  using assms by (rule metadata_verbatim_cover)

theorem chunks_verbatim_cover_witness:
  "\<exists>rs. split_text_with_metadata (\<lambda>_ _. 0) (make_chunker (\<lambda>_. None) 2 1 1 None 9) ''a b c'' True = Some rs \<and>
     verbatim_cover ''a b c'' rs"
  by (rule chunks_verbatim_cover) (simp add: make_chunker_def well_configured_def)

end
