(* ===== verification/Json.thy ===== *)
theory Json
  imports PyText "HOL-Library.Char_ord" "HOL-Library.List_Lexorder"
begin

text \<open>
  JSON values as the code sees them after \<open>json.loads\<close> or pydantic parsing, and what the code asks of
  them: \<open>dict.get\<close>, truthiness, Python equality, and the compact text of \<open>json.dumps\<close> with
  \<open>ensure_ascii=False\<close> and \<open>separators=(",", ":")\<close>.  An object is the list of its members in insertion
  order.  A float is a real, so NaN and the infinities are not values of the model; its decimal text
  is the parameter \<open>fl\<close> of \<open>json_dumps\<close>.
\<close>

datatype json =
    JNull
  | JBool bool
  | JInt int
  | JFloat real
  | JStr string
  | JList "json list"
  | JObj "(string \<times> json) list"

type_synonym json_object = "(string \<times> json) list"

text \<open>\<open>d.get(k)\<close>: a missing member and a member that is null read the same.\<close>

definition jget :: "json_object \<Rightarrow> string \<Rightarrow> json" where
  "jget d k = (case map_of d k of None \<Rightarrow> JNull | Some v \<Rightarrow> v)"

text \<open>\<open>d[k] = v\<close>: a member keeps its place, a new one goes to the end.\<close>

fun jset :: "json_object \<Rightarrow> string \<Rightarrow> json \<Rightarrow> json_object" where
  "jset [] k v = [(k, v)]"
| "jset ((k', v') # d) k v = (if k' = k then (k, v) # d else (k', v') # jset d k v)"

lemma jget_jset [simp]: "jget (jset d k v) k' = (if k' = k then v else jget d k')"
  by (induction d k v rule: jset.induct) (auto simp: jget_def)

fun py_truthy :: "json \<Rightarrow> bool" where
  "py_truthy JNull = False"
| "py_truthy (JBool b) = b"
| "py_truthy (JInt i) = (i \<noteq> 0)"
| "py_truthy (JFloat x) = (x \<noteq> 0)"
| "py_truthy (JStr s) = (s \<noteq> [])"
| "py_truthy (JList xs) = (xs \<noteq> [])"
| "py_truthy (JObj d) = (d \<noteq> [])"

text \<open>The number a value counts as in Python's \<open>==\<close>; \<open>True\<close> is 1 and \<open>False\<close> is 0.\<close>

fun py_number :: "json \<Rightarrow> real option" where
  "py_number (JBool b) = Some (if b then 1 else 0)"
| "py_number (JInt i) = Some (real_of_int i)"
| "py_number (JFloat x) = Some x"
| "py_number _ = None"

lemma size_member: "(k, v) \<in> set d \<Longrightarrow> size v < size (JObj d)"
  by (induction d) auto

lemma size_element: "v \<in> set xs \<Longrightarrow> size v < size (JList xs)"
  by (induction xs) auto

lemma size_jget: "map_of d k = Some v \<Longrightarrow> size v < size (JObj d)"
  by (drule map_of_SomeD) (rule size_member)

function (sequential) py_eq :: "json \<Rightarrow> json \<Rightarrow> bool" where
  "py_eq JNull JNull = True"
| "py_eq (JStr s) (JStr t) = (s = t)"
| "py_eq (JList xs) (JList ys) =
     (length xs = length ys \<and> (\<forall>i<length xs. py_eq (xs ! i) (ys ! i)))"
| "py_eq (JObj d) (JObj e) =
     (length d = length e \<and>
      (\<forall>i<length d. case map_of e (fst (d ! i)) of None \<Rightarrow> False | Some w \<Rightarrow> py_eq (snd (d ! i)) w))"
| "py_eq a b = (case (py_number a, py_number b) of (Some x, Some y) \<Rightarrow> x = y | _ \<Rightarrow> False)"
  by pat_completeness auto
termination
proof (relation "measure (\<lambda>(a, b). size a)", goal_cases)
  case (2 xs ys i)
  then show ?case using size_element [of "xs ! i" xs] by simp
next
  case (3 d e i w)
  then show ?case using size_member [of "fst (d ! i)" "snd (d ! i)" d] by simp
qed simp

section \<open>Text\<close>

text \<open>Decimal digits, \<open>str(n)\<close>.\<close>

fun py_str_nat :: "nat \<Rightarrow> string" where
  "py_str_nat n = (if n < 10 then [char_of (48 + n)] else py_str_nat (n div 10) @ [char_of (48 + n mod 10)])"

declare py_str_nat.simps [simp del]

definition py_str_int :: "int \<Rightarrow> string" where
  "py_str_int i = (if i < 0 then ''-'' @ py_str_nat (nat (- i)) else py_str_nat (nat i))"

definition hex_digit :: "nat \<Rightarrow> char" where
  "hex_digit n = ''0123456789abcdef'' ! n"

definition json_escape :: "char \<Rightarrow> string" where
  "json_escape c =
     (if c = CHR 0x22 then [CHR 0x5C, CHR 0x22]
      else if c = CHR 0x5C then [CHR 0x5C, CHR 0x5C]
      else if c = CHR 0x0A then [CHR 0x5C, CHR 0x6E]
      else if c = CHR 0x0D then [CHR 0x5C, CHR 0x72]
      else if c = CHR 0x09 then [CHR 0x5C, CHR 0x74]
      else if c = CHR 0x0C then [CHR 0x5C, CHR 0x66]
      else if c = CHR 0x08 then [CHR 0x5C, CHR 0x62]
      else if of_char c < (32::nat)
      then [CHR 0x5C, CHR 0x75, CHR 0x30, CHR 0x30, hex_digit (of_char c div 16), hex_digit (of_char c mod 16)]
      else [c])"

definition json_string :: "string \<Rightarrow> string" where
  "json_string s = [CHR 0x22] @ concat (map json_escape s) @ [CHR 0x22]"

fun commas :: "string list \<Rightarrow> string" where
  "commas [] = []"
| "commas [s] = s"
| "commas (s # t # ts) = s @ '','' @ commas (t # ts)"

fun json_dumps :: "(real \<Rightarrow> string) \<Rightarrow> json \<Rightarrow> string" where
  "json_dumps fl JNull = ''null''"
| "json_dumps fl (JBool b) = (if b then ''true'' else ''false'')"
| "json_dumps fl (JInt i) = py_str_int i"
| "json_dumps fl (JFloat x) = fl x"
| "json_dumps fl (JStr s) = json_string s"
| "json_dumps fl (JList xs) = ''['' @ commas (map (json_dumps fl) xs) @ '']''"
| "json_dumps fl (JObj d) =
     ''{'' @ commas (map (\<lambda>(k, v). json_string k @ '':'' @ json_dumps fl v) d) @ ''}''"

text \<open>Length in UTF-8: the code points from 128 to 255 take two bytes.\<close>

definition utf8_length :: "string \<Rightarrow> nat" where
  "utf8_length s = (\<Sum>c\<leftarrow>s. if of_char c < (128::nat) then 1 else 2)"

lemma utf8_length_append [simp]: "utf8_length (s @ t) = utf8_length s + utf8_length t"
  by (simp add: utf8_length_def)

lemma length_le_utf8: "length s \<le> utf8_length s"
  by (induction s) (auto simp: utf8_length_def)

section \<open>Decimal digits are injective\<close>

fun undigits :: "string \<Rightarrow> nat" where
  "undigits s = foldl (\<lambda>n c. n * 10 + (of_char c - 48)) 0 s"

lemma undigits_py_str_nat: "undigits (py_str_nat n) = n"
proof (induction n rule: py_str_nat.induct)
  case (1 n)
  then show ?case by (subst py_str_nat.simps) (auto simp: of_char_of)
qed

lemma py_str_nat_inject [simp]: "py_str_nat m = py_str_nat n \<longleftrightarrow> m = n"
  by (metis undigits_py_str_nat)

lemma py_str_nat_digits: "c \<in> set (py_str_nat n) \<Longrightarrow> \<exists>k<10::nat. c = char_of (48 + k)"
proof (induction n rule: py_str_nat.induct)
  case (1 n)
  show ?case
  proof (cases "n < 10")
    case True
    then show ?thesis using 1(2) by (auto simp: py_str_nat.simps [of n])
  next
    case False
    then have "c \<in> set (py_str_nat (n div 10)) \<or> c = char_of (48 + n mod 10)"
      using 1(2) by (auto simp: py_str_nat.simps [of n])
    then show ?thesis using 1(1) [OF False] by (auto intro: exI [of _ "n mod 10"])
  qed
qed

end
