(* ===== verification/Schema_Contract.thy ===== *)
theory Schema_Contract
  imports Json
begin

text \<open>
  \<open>orchestrator/schema_contract.py\<close>: the bounded JSON Schema dialect a caller may send for structured
  extraction, the validator of such a schema, the validator of a model's answer against it, and the
  enumeration of the answer's scalar fields with their JSON pointers.  A raised
  \<open>SchemaContractError\<close> is \<^term>\<open>Inl\<close> of its message; the \<open>KeyError\<close> that the answer validator would
  raise on an unvalidated schema is \<^term>\<open>None\<close>.  The fields \<open>_property_count\<close> and \<open>_failures\<close> of the two
  validator classes are threaded through the recursion.
\<close>

section \<open>Limits and keywords\<close>

definition max_extraction_schema_bytes :: nat where "max_extraction_schema_bytes = 16384"
definition max_extraction_schema_depth :: nat where "max_extraction_schema_depth = 5"
definition max_extraction_schema_properties :: nat where "max_extraction_schema_properties = 32"
definition max_extraction_schema_enum_values :: nat where "max_extraction_schema_enum_values = 32"
definition max_extraction_schema_description_bytes :: nat where
  "max_extraction_schema_description_bytes = 1024"
definition max_extraction_schema_name_chars :: nat where "max_extraction_schema_name_chars = 128"
definition max_extraction_validation_failures :: nat where "max_extraction_validation_failures = 32"
definition max_extraction_fields :: nat where "max_extraction_fields = 32"
definition max_extraction_urls :: nat where "max_extraction_urls = 4"

definition schema_types :: "string list" where
  "schema_types = [''object'', ''array'', ''string'', ''number'', ''integer'', ''boolean'']"

definition schema_keywords :: "string list" where
  "schema_keywords = [''type'', ''properties'', ''required'', ''items'', ''description'', ''enum'']"

section \<open>Helpers\<close>

definition json_bytes :: "(real \<Rightarrow> string) \<Rightarrow> json \<Rightarrow> nat" where
  "json_bytes fl v = utf8_length (json_dumps fl v)"

text \<open>\<open>value.replace("~", "~0").replace("/", "~1")\<close>.\<close>

definition replace_char :: "char \<Rightarrow> string \<Rightarrow> string \<Rightarrow> string" where
  "replace_char c r s = concat (map (\<lambda>x. if x = c then r else [x]) s)"

definition pointer_token :: "string \<Rightarrow> string" where
  "pointer_token s = replace_char (CHR ''/'') ''~1'' (replace_char (CHR ''~'') ''~0'' s)"

definition same_json_scalar :: "json \<Rightarrow> json \<Rightarrow> bool" where
  "same_json_scalar left right =
     (case left of
        JNull \<Rightarrow> right = JNull
      | JBool a \<Rightarrow> right = JBool a
      | JInt a \<Rightarrow> right = JInt a
      | JFloat a \<Rightarrow> right = JFloat a
      | JStr a \<Rightarrow> right = JStr a
      | JList a \<Rightarrow> (case right of JList b \<Rightarrow> py_eq left right | _ \<Rightarrow> False)
      | JObj a \<Rightarrow> (case right of JObj b \<Rightarrow> py_eq left right | _ \<Rightarrow> False))"

definition instance_type_matches :: "string \<Rightarrow> json \<Rightarrow> bool" where
  "instance_type_matches t v =
     (if t = ''object'' then (case v of JObj _ \<Rightarrow> True | _ \<Rightarrow> False)
      else if t = ''array'' then (case v of JList _ \<Rightarrow> True | _ \<Rightarrow> False)
      else if t = ''string'' then (case v of JStr _ \<Rightarrow> True | _ \<Rightarrow> False)
      else if t = ''boolean'' then (case v of JBool _ \<Rightarrow> True | _ \<Rightarrow> False)
      else if t = ''integer'' then (case v of JInt _ \<Rightarrow> True | _ \<Rightarrow> False)
      else if t = ''number'' then (case v of JInt _ \<Rightarrow> True | JFloat _ \<Rightarrow> True | _ \<Rightarrow> False)
      else False)"

definition property_name_ok :: "string \<Rightarrow> bool" where
  "property_name_ok s \<longleftrightarrow> 1 \<le> length s \<and> length s \<le> max_extraction_schema_name_chars \<and>
     (\<forall>c\<in>set s. 32 \<le> (of_char c :: nat))"

section \<open>The schema validator\<close>

text \<open>A check returns the message of the error it raises, if any.\<close>

definition validate_description :: "json_object \<Rightarrow> string \<Rightarrow> string option" where
  "validate_description node path =
     (case jget node ''description'' of
        JNull \<Rightarrow> None
      | JStr s \<Rightarrow>
          if utf8_length s > max_extraction_schema_description_bytes
          then Some (''schema description at '' @ path @ '' exceeds its byte limit'') else None
      | _ \<Rightarrow> Some (''schema description at '' @ path @ '' exceeds its byte limit''))"

definition is_container :: "json \<Rightarrow> bool" where
  "is_container v = (case v of JObj _ \<Rightarrow> True | JList _ \<Rightarrow> True | _ \<Rightarrow> False)"

definition validate_enum :: "json_object \<Rightarrow> string \<Rightarrow> string \<Rightarrow> string option" where
  "validate_enum node t path =
     (case jget node ''enum'' of
        JNull \<Rightarrow> None
      | JList vs \<Rightarrow>
          if vs = [] \<or> length vs > max_extraction_schema_enum_values
          then Some (''schema enum at '' @ path @ '' is invalid'')
          else if list_ex is_container vs
          then Some (''schema enum at '' @ path @ '' must contain scalar values'')
          else if t \<in> {''object'', ''array''} \<or> list_ex (\<lambda>v. \<not> instance_type_matches t v) vs
          then Some (''schema enum at '' @ path @ '' does not match its type'')
          else None
      | _ \<Rightarrow> Some (''schema enum at '' @ path @ '' is invalid''))"

definition jstrings :: "json list \<Rightarrow> string list option" where
  "jstrings vs = those (map (\<lambda>v. case v of JStr s \<Rightarrow> Some s | _ \<Rightarrow> None) vs)"

text \<open>The test on \<open>required\<close>: a list of different strings, each the name of a property.\<close>

definition required_ok :: "json \<Rightarrow> json_object \<Rightarrow> bool" where
  "required_ok required properties =
     (case required of
        JList vs \<Rightarrow> (case jstrings vs of
            None \<Rightarrow> False
          | Some names \<Rightarrow> distinct names \<and> list_all (\<lambda>n. n \<in> set (map fst properties)) names)
      | _ \<Rightarrow> False)"

text \<open>\<open>node.get("required", [])\<close>.\<close>

definition get_required :: "json_object \<Rightarrow> json" where
  "get_required node = (case map_of node ''required'' of None \<Rightarrow> JList [] | Some v \<Rightarrow> v)"

text \<open>The keyword, type, description and enum checks of \<open>_visit\<close>: the declared type, or the error.\<close>

definition check_node :: "json_object \<Rightarrow> string \<Rightarrow> string + string" where
  "check_node node path =
     (let unknown = sort (remdups (filter (\<lambda>k. k \<notin> set schema_keywords) (map fst node))) in
      if unknown \<noteq> [] then Inl (''unsupported schema keyword at '' @ path @ '': '' @ hd unknown)
      else (case jget node ''type'' of
          JStr t \<Rightarrow>
            if t \<notin> set schema_types
            then Inl (''schema at '' @ path @ '' requires one supported type'')
            else (case validate_description node path of
                Some e \<Rightarrow> Inl e
              | None \<Rightarrow> (case validate_enum node t path of Some e \<Rightarrow> Inl e | None \<Rightarrow> Inr t))
        | _ \<Rightarrow> Inl (''schema at '' @ path @ '' requires one supported type'')))"

text \<open>
  \<open>_visit\<close> with \<open>_visit_children\<close> and \<open>_visit_object\<close>, and the loop over the properties; the last
  argument and the result are \<open>_property_count\<close>.
\<close>

function (sequential) schema_visit :: "json \<Rightarrow> nat \<Rightarrow> string \<Rightarrow> nat \<Rightarrow> string + nat"
  and schema_props :: "json_object \<Rightarrow> nat \<Rightarrow> string \<Rightarrow> nat \<Rightarrow> string + nat" where
  "schema_visit (JObj node) depth path count =
     (if depth > max_extraction_schema_depth
      then Inl (''extraction_schema must not exceed depth '' @ py_str_nat max_extraction_schema_depth)
      else (case check_node node path of
          Inl e \<Rightarrow> Inl e
        | Inr t \<Rightarrow>
            if t = ''object'' then
              (case jget node ''properties'' of
                 JObj properties \<Rightarrow>
                   if count + length properties > max_extraction_schema_properties
                   then Inl (''extraction_schema must not exceed '' @
                          py_str_nat max_extraction_schema_properties @ '' properties'')
                   else if \<not> required_ok (get_required node) properties
                   then Inl (''required fields at '' @ path @ '' are invalid'')
                   else (case schema_props properties depth path (count + length properties) of
                       Inl e \<Rightarrow> Inl e
                     | Inr count' \<Rightarrow>
                         if jget node ''items'' \<noteq> JNull
                         then Inl (''non-array schema at '' @ path @ '' cannot define items'')
                         else Inr count')
               | _ \<Rightarrow> Inl (''object schema at '' @ path @ '' requires properties''))
            else if jget node ''properties'' \<noteq> JNull \<or> py_truthy (get_required node)
            then Inl (''non-object schema at '' @ path @ '' cannot define properties'')
            else if t = ''array'' then
              (case map_of node ''items'' of
                 None \<Rightarrow> Inl (''array schema at '' @ path @ '' requires items'')
               | Some items \<Rightarrow>
                   if items = JNull then Inl (''array schema at '' @ path @ '' requires items'')
                   else schema_visit items (Suc depth) (path @ ''/*'') count)
            else if jget node ''items'' \<noteq> JNull
            then Inl (''non-array schema at '' @ path @ '' cannot define items'')
            else Inr count))"
| "schema_visit node depth path count =
     (if depth > max_extraction_schema_depth
      then Inl (''extraction_schema must not exceed depth '' @ py_str_nat max_extraction_schema_depth)
      else Inl (''schema at '' @ path @ '' must be an object''))"
| "schema_props [] depth path count = Inr count"
| "schema_props ((name, child) # rest) depth path count =
     (if \<not> property_name_ok name then Inl (''property name at '' @ path @ '' is invalid'')
      else (case schema_visit child (Suc depth) (path @ ''/'' @ pointer_token name) count of
          Inl e \<Rightarrow> Inl e
        | Inr count' \<Rightarrow> schema_props rest depth path count'))"
  by pat_completeness auto
termination
proof (relation "measure (\<lambda>x. case x of Inl (node, _) \<Rightarrow> size node | Inr (ps, _) \<Rightarrow> size (JObj ps))", goal_cases)
  case (2 node depth path count t properties)
  then show ?case
    using size_jget [of node "''properties''" "JObj properties"] by (auto simp: jget_def split: option.splits)
next
  case (3 node depth path count t items)
  then show ?case using size_jget [of node "''items''" items] by simp
qed auto

definition validate_extraction_schema :: "(real \<Rightarrow> string) \<Rightarrow> json \<Rightarrow> string + json_object" where
  "validate_extraction_schema fl schema =
     (case schema of
        JObj d \<Rightarrow>
          if json_bytes fl schema > max_extraction_schema_bytes
          then Inl (''extraction_schema must not exceed '' @ py_str_nat max_extraction_schema_bytes @ '' UTF-8 bytes'')
          else (case schema_visit schema 1 ''$'' 0 of
              Inl e \<Rightarrow> Inl e
            | Inr _ \<Rightarrow>
                if jget d ''type'' \<noteq> JStr ''object''
                then Inl ''extraction_schema root type must be object''
                else Inr d)
      | _ \<Rightarrow> Inl ''extraction_schema must be a JSON object'')"

section \<open>The answer validator\<close>

type_synonym failures = "(string \<times> string) list"

definition fail_at :: "string \<Rightarrow> string \<Rightarrow> failures \<Rightarrow> failures" where
  "fail_at path code fs = (if length fs < max_extraction_validation_failures then fs @ [(path, code)] else fs)"

text \<open>\<open>str(name)\<close> of a \<open>required\<close> entry; entries of a validated schema are strings.\<close>

definition required_names :: "json_object \<Rightarrow> string list" where
  "required_names node =
     (case get_required node of
        JList vs \<Rightarrow> List.map_filter (\<lambda>v. case v of JStr s \<Rightarrow> Some s | _ \<Rightarrow> None) vs
      | _ \<Rightarrow> [])"

definition missing_failures :: "string \<Rightarrow> string list \<Rightarrow> json_object \<Rightarrow> failures \<Rightarrow> failures" where
  "missing_failures path names current fs =
     fold (\<lambda>n fs. if n \<notin> set (map fst current)
        then fail_at (path @ ''/'' @ pointer_token n) ''required_missing'' fs else fs) names fs"

definition additional_failures :: "string \<Rightarrow> json_object \<Rightarrow> json_object \<Rightarrow> failures \<Rightarrow> failures" where
  "additional_failures path properties current fs =
     fold (\<lambda>n fs. if n \<notin> set (map fst properties)
        then fail_at (path @ ''/'' @ pointer_token n) ''additional_property'' fs else fs) (map fst current) fs"

definition enum_failures :: "string \<Rightarrow> json_object \<Rightarrow> json \<Rightarrow> failures \<Rightarrow> failures" where
  "enum_failures path node current fs =
     (case jget node ''enum'' of
        JList vs \<Rightarrow> if list_ex (same_json_scalar current) vs then fs else fail_at path ''enum_mismatch'' fs
      | _ \<Rightarrow> fs)"

function (sequential) value_visit :: "json_object \<Rightarrow> json \<Rightarrow> string \<Rightarrow> failures \<Rightarrow> failures option"
  and value_props :: "json_object \<Rightarrow> json_object \<Rightarrow> string \<Rightarrow> failures \<Rightarrow> failures option"
  and value_items :: "json_object \<Rightarrow> json list \<Rightarrow> nat \<Rightarrow> string \<Rightarrow> failures \<Rightarrow> failures option" where
  "value_visit node current path fs =
     (case map_of node ''type'' of
        None \<Rightarrow> None
      | Some t0 \<Rightarrow>
          let t = (case t0 of JStr t \<Rightarrow> t | _ \<Rightarrow> []) in
          if \<not> instance_type_matches t current then Some (fail_at path ''type_mismatch'' fs)
          else
            let fs = enum_failures path node current fs in
            if t = ''object'' then
              (case map_of node ''properties'' of
                 None \<Rightarrow> None
               | Some (JObj properties) \<Rightarrow>
                   (case current of
                      JObj members \<Rightarrow>
                        value_props properties members path
                          (additional_failures path properties members
                             (missing_failures path (required_names node) members fs))
                    | _ \<Rightarrow> Some fs)
               | Some _ \<Rightarrow> Some fs)
            else if t = ''array'' then
              (case current of
                 JList elems \<Rightarrow>
                   (case map_of node ''items'' of
                      Some (JObj child) \<Rightarrow> value_items child elems 0 path fs
                    | _ \<Rightarrow> Some fs)
               | _ \<Rightarrow> Some fs)
            else Some fs)"
| "value_props [] members path fs = Some fs"
| "value_props ((name, child) # rest) members path fs =
     (case (map_of members name, child) of
        (Some v, JObj c) \<Rightarrow>
          (case value_visit c v (path @ ''/'' @ pointer_token name) fs of
             None \<Rightarrow> None
           | Some fs' \<Rightarrow> value_props rest members path fs')
      | _ \<Rightarrow> value_props rest members path fs)"
| "value_items child [] i path fs = Some fs"
| "value_items child (x # xs) i path fs =
     (case value_visit child x (path @ ''/'' @ py_str_nat i) fs of
        None \<Rightarrow> None
      | Some fs' \<Rightarrow> value_items child xs (Suc i) path fs')"
  by pat_completeness auto
termination
proof (relation "inv_image (less_than <*lex*> less_than) (\<lambda>x. case x of
    Inl (node, _) \<Rightarrow> (size (JObj node), 0)
  | Inr (Inl (ps, _)) \<Rightarrow> (size (JObj ps), 1)
  | Inr (Inr (child, xs, _)) \<Rightarrow> (size (JObj child), Suc (length xs)))", goal_cases)
  case (2 node current path fs t0 t fs' pv properties members)
  then show ?case using size_jget [of node "''properties''" "JObj properties"] by simp
next
  case (3 node current path fs t0 t fs' elems iv child)
  then show ?case using size_jget [of node "''items''" "JObj child"] by simp
qed auto

declare value_visit.simps [simp del]

definition validate_extracted_value :: "json_object \<Rightarrow> json \<Rightarrow> failures option" where
  "validate_extracted_value schema v = value_visit schema v [] []"

section \<open>Scalar fields\<close>

definition stack_size :: "(string \<times> json) list \<Rightarrow> nat" where
  "stack_size stack = (\<Sum>(p, v)\<leftarrow>stack. Suc (size v))"

lemma stack_size_simps [simp]:
  "stack_size [] = 0" "stack_size ((p, v) # st) = Suc (size v) + stack_size st"
  "stack_size (st @ st') = stack_size st + stack_size st'"
  by (simp_all add: stack_size_def)

lemma stack_size_members: "stack_size (map (\<lambda>(n, c). (f n, c)) d) \<le> size (JObj d)"
  by (induction d) auto

lemma stack_size_elements: "stack_size (map (\<lambda>(i, c). (g i, c)) (enumerate k xs)) \<le> size (JList xs)"
proof (induction xs arbitrary: k)
  case (Cons x xs)
  then show ?case using Cons.IH [of "Suc k"] by simp
qed simp

text \<open>
  The loop \<open>while stack and len(fields) < max_fields\<close>.  The head of the list is the top of the stack,
  so the children, which the code pushes in reverse, stand in their own order.
\<close>

function (sequential) scalar_loop ::
  "int \<Rightarrow> (string \<times> json) list \<Rightarrow> (string \<times> json) list \<Rightarrow> (string \<times> json) list" where
  "scalar_loop limit [] fields = fields"
| "scalar_loop limit ((path, JObj d) # stack) fields =
     (if int (length fields) \<ge> limit then fields
      else scalar_loop limit (map (\<lambda>(n, c). (path @ ''/'' @ pointer_token n, c)) d @ stack) fields)"
| "scalar_loop limit ((path, JList xs) # stack) fields =
     (if int (length fields) \<ge> limit then fields
      else scalar_loop limit
             (map (\<lambda>(i, c). (path @ ''/'' @ py_str_nat i, c)) (enumerate 0 xs) @ stack) fields)"
| "scalar_loop limit ((path, v) # stack) fields =
     (if int (length fields) \<ge> limit then fields
      else scalar_loop limit stack (fields @ [(path, v)]))"
  by pat_completeness auto
termination
proof (relation "measure (\<lambda>(limit, stack, fields). stack_size stack)", goal_cases)
  case (2 limit path d stack fields)
  then show ?case using stack_size_members [of "\<lambda>n. path @ ''/'' @ pointer_token n" d] by simp
next
  case (3 limit path xs stack fields)
  then show ?case using stack_size_elements [of "\<lambda>i. path @ ''/'' @ py_str_nat i" 0 xs] by simp
qed simp_all

definition scalar_fields :: "json \<Rightarrow> string \<Rightarrow> int \<Rightarrow> (string \<times> json) list" where
  "scalar_fields v path max_fields = scalar_loop max_fields [(path, v)] []"

section \<open>What an accepted schema is\<close>

definition description_fits :: "json_object \<Rightarrow> bool" where
  "description_fits node \<longleftrightarrow> jget node ''description'' = JNull \<or>
     (\<exists>s. jget node ''description'' = JStr s \<and> utf8_length s \<le> 1024)"

definition enum_fits :: "json_object \<Rightarrow> string \<Rightarrow> bool" where
  "enum_fits node t \<longleftrightarrow> jget node ''enum'' = JNull \<or>
     (\<exists>vs. jget node ''enum'' = JList vs \<and> vs \<noteq> [] \<and> length vs \<le> 32 \<and>
        t \<noteq> ''object'' \<and> t \<noteq> ''array'' \<and> (\<forall>v\<in>set vs. \<not> is_container v \<and> instance_type_matches t v))"

definition node_fits :: "json_object \<Rightarrow> string \<Rightarrow> bool" where
  "node_fits node t \<longleftrightarrow> fst ` set node \<subseteq> set schema_keywords \<and> jget node ''type'' = JStr t \<and>
     t \<in> set schema_types \<and> description_fits node \<and> enum_fits node t"

text \<open>A schema with at most \<open>k\<close> levels, and the number of properties it declares.\<close>

primrec schema_within :: "nat \<Rightarrow> json \<Rightarrow> bool" where
  "schema_within 0 v = False"
| "schema_within (Suc k) v = (\<exists>node t. v = JObj node \<and> node_fits node t \<and>
     (if t = ''object'' then
        jget node ''items'' = JNull \<and>
        (\<exists>ps. jget node ''properties'' = JObj ps \<and> required_ok (get_required node) ps \<and>
           (\<forall>(n, c)\<in>set ps. property_name_ok n \<and> schema_within k c))
      else jget node ''properties'' = JNull \<and> \<not> py_truthy (get_required node) \<and>
        (if t = ''array'' then schema_within k (jget node ''items'') else jget node ''items'' = JNull)))"

primrec schema_properties :: "nat \<Rightarrow> json \<Rightarrow> nat" where
  "schema_properties 0 v = 0"
| "schema_properties (Suc k) v =
     (case v of
        JObj node \<Rightarrow>
          if jget node ''type'' = JStr ''object'' then
            (case jget node ''properties'' of
               JObj ps \<Rightarrow> length ps + (\<Sum>(n, c)\<leftarrow>ps. schema_properties k c)
             | _ \<Rightarrow> 0)
          else if jget node ''type'' = JStr ''array'' then schema_properties k (jget node ''items'')
          else 0
      | _ \<Rightarrow> 0)"

lemma schema_within_object: "schema_within k v \<Longrightarrow> \<exists>node. v = JObj node"
  by (cases k) auto

lemma schema_within_not_null [simp]: "\<not> schema_within k JNull"
  using schema_within_object by blast

lemma validate_description_iff: "validate_description node path = None \<longleftrightarrow> description_fits node"
  by (auto simp: validate_description_def description_fits_def max_extraction_schema_description_bytes_def
      split: json.splits)

lemma validate_enum_iff: "validate_enum node t path = None \<longleftrightarrow> enum_fits node t"
  by (auto simp: validate_enum_def enum_fits_def max_extraction_schema_enum_values_def list_ex_iff
      split: json.splits)

lemma sort_remdups_Nil: "sort (remdups xs) = [] \<longleftrightarrow> xs = []"
  by (metis remdups_eq_nil_iff set_empty set_sort)

lemma check_node_iff: "check_node node path = Inr t \<longleftrightarrow> node_fits node t"
proof (cases "fst ` set node \<subseteq> set schema_keywords")
  case True
  then have none: "filter (\<lambda>k. k \<notin> set schema_keywords) (map fst node) = []"
    by (auto simp: filter_empty_iff)
  show ?thesis
    unfolding check_node_def node_fits_def Let_def none
    using True
    by (auto simp: validate_description_iff [of node path, symmetric]
        validate_enum_iff [of node _ path, symmetric] split: json.splits option.splits)
next
  case False
  then have "filter (\<lambda>k. k \<notin> set schema_keywords) (map fst node) \<noteq> []"
    by (auto simp: filter_empty_iff)
  then show ?thesis
    using False by (simp add: check_node_def node_fits_def Let_def sort_remdups_Nil)
qed

lemma node_fits_type: "node_fits node t \<Longrightarrow> jget node ''type'' = JStr t"
  by (simp add: node_fits_def)

lemma schema_props_step:
  "schema_props ((n, c) # ps) depth path count = Inr m \<longleftrightarrow> property_name_ok n \<and>
     (\<exists>j. schema_visit c (Suc depth) (path @ ''/'' @ pointer_token n) count = Inr j \<and>
          schema_props ps depth path j = Inr m)"
  by (auto split: sum.splits)

lemma schema_visit_step:
  assumes "depth \<le> 5"
  shows "schema_visit (JObj node) depth path count = Inr m \<longleftrightarrow> (\<exists>t. node_fits node t \<and>
     (if t = ''object'' then
        jget node ''items'' = JNull \<and>
        (\<exists>ps. jget node ''properties'' = JObj ps \<and> count + length ps \<le> 32 \<and>
           required_ok (get_required node) ps \<and>
           schema_props ps depth path (count + length ps) = Inr m)
      else jget node ''properties'' = JNull \<and> \<not> py_truthy (get_required node) \<and>
        (if t = ''array'' then jget node ''items'' \<noteq> JNull \<and>
           schema_visit (jget node ''items'') (Suc depth) (path @ ''/*'') count = Inr m
         else jget node ''items'' = JNull \<and> m = count)))"
proof (cases "check_node node path")
  case (Inl e)
  then have "\<not> node_fits node t" for t using check_node_iff [of node path t] by simp
  then show ?thesis using assms Inl by (simp add: max_extraction_schema_depth_def)
next
  case (Inr t)
  then have fits: "node_fits node t" using check_node_iff [of node path t] by simp
  then have only: "node_fits node t' \<longleftrightarrow> t' = t" for t'
    using node_fits_type [of node t] node_fits_type [of node t'] by auto
  have depth: "\<not> max_extraction_schema_depth < depth" using assms by (simp add: max_extraction_schema_depth_def)
  show ?thesis
  proof (cases "t = ''object''")
    case True
    then show ?thesis
      using Inr depth
      by (auto simp: only max_extraction_schema_properties_def split: json.splits sum.splits)
  next
    case False
    then show ?thesis
      using Inr depth by (auto simp: only jget_def split: option.splits)
  qed
qed

text \<open>The recursion succeeds exactly on the schemas within the limits.\<close>

lemma schema_props_iff:
  assumes child: "\<And>c path count m. count \<le> 32 \<Longrightarrow> schema_visit c (Suc depth) path count = Inr m \<longleftrightarrow>
      schema_within k c \<and> m = count + schema_properties k c \<and> m \<le> 32"
    and "count \<le> 32"
  shows "schema_props ps depth path count = Inr m \<longleftrightarrow>
     (\<forall>(n, c)\<in>set ps. property_name_ok n \<and> schema_within k c) \<and>
     m = count + (\<Sum>(n, c)\<leftarrow>ps. schema_properties k c) \<and> m \<le> 32"
  using assms(2)
proof (induction ps arbitrary: count)
  case Nil
  then show ?case by auto
next
  case (Cons p ps)
  obtain n c where p: "p = (n, c)" by (cases p)
  show ?case
  proof (cases "schema_within k c \<and> count + schema_properties k c \<le> 32")
    case True
    then show ?thesis
      using Cons.IH [of "count + schema_properties k c"] child [OF Cons.prems]
      by (auto simp: p schema_props_step simp del: schema_props.simps)
  next
    case False
    then show ?thesis
      using child [OF Cons.prems] by (auto simp: p schema_props_step simp del: schema_props.simps)
  qed
qed

lemma schema_visit_iff:
  "depth + k = 6 \<Longrightarrow> count \<le> 32 \<Longrightarrow> schema_visit v depth path count = Inr m \<longleftrightarrow>
     schema_within k v \<and> m = count + schema_properties k v \<and> m \<le> 32"
proof (induction k arbitrary: v depth path count m)
  case 0
  then show ?case by (cases v) (simp_all add: max_extraction_schema_depth_def)
next
  case (Suc k)
  have child: "schema_visit c (Suc depth) path count = Inr m \<longleftrightarrow>
      schema_within k c \<and> m = count + schema_properties k c \<and> m \<le> 32" if "count \<le> 32" for c path count m
    using Suc.IH [of "Suc depth"] Suc.prems(1) that by simp
  show ?case
  proof (cases "\<exists>node t. v = JObj node \<and> node_fits node t")
    case True
    then obtain node t where v: "v = JObj node" and fits: "node_fits node t" by blast
    have only: "node_fits node t' \<longleftrightarrow> t' = t" for t'
      using node_fits_type [OF fits] node_fits_type [of node t'] fits by auto
    have step: "schema_visit v depth path count = Inr m \<longleftrightarrow>
     (if t = ''object'' then
        jget node ''items'' = JNull \<and>
        (\<exists>ps. jget node ''properties'' = JObj ps \<and> count + length ps \<le> 32 \<and>
           required_ok (get_required node) ps \<and>
           schema_props ps depth path (count + length ps) = Inr m)
      else jget node ''properties'' = JNull \<and> \<not> py_truthy (get_required node) \<and>
        (if t = ''array'' then jget node ''items'' \<noteq> JNull \<and>
           schema_visit (jget node ''items'') (Suc depth) (path @ ''/*'') count = Inr m
         else jget node ''items'' = JNull \<and> m = count))"
      using schema_visit_step [of depth node path count m] Suc.prems(1) by (simp add: v only)
    show ?thesis
    proof (cases "t = ''object''")
      case True
      then show ?thesis
        unfolding step
        by (auto simp: v only node_fits_type [OF fits] schema_props_iff [OF child])
    next
      case False
      then show ?thesis
        unfolding step using Suc.prems(2)
        by (auto simp: v only node_fits_type [OF fits] child)
    qed
  next
    case False
    then have "schema_visit v depth path count \<noteq> Inr m"
      using schema_visit_step [of depth _ path count m] Suc.prems(1)
      by (cases v) (auto simp del: schema_visit.simps(1))
    then show ?thesis using False by auto
  qed
qed

section \<open>What an accepted answer is\<close>

definition enum_admits :: "json_object \<Rightarrow> json \<Rightarrow> bool" where
  "enum_admits node v \<longleftrightarrow> (\<forall>vs. jget node ''enum'' = JList vs \<longrightarrow> (\<exists>w\<in>set vs. same_json_scalar v w))"

text \<open>
  \<open>conforms node v\<close>: the value has the declared type, is one of the enumerated values if there are
  any, an object has every required member, no member that is not declared, and each declared member
  it has conforms; every element of an array conforms.
\<close>

inductive conforms :: "json_object \<Rightarrow> json \<Rightarrow> bool" where
  conforms_node: "jget node ''type'' = JStr t \<Longrightarrow> instance_type_matches t v \<Longrightarrow> enum_admits node v \<Longrightarrow>
     (\<And>members properties. v = JObj members \<Longrightarrow> jget node ''properties'' = JObj properties \<Longrightarrow>
        set (required_names node) \<subseteq> fst ` set members \<and> fst ` set members \<subseteq> fst ` set properties \<and>
        (\<forall>(n, c)\<in>set properties. \<forall>w child. map_of members n = Some w \<longrightarrow> c = JObj child \<longrightarrow> conforms child w)) \<Longrightarrow>
     (\<And>elems child. v = JList elems \<Longrightarrow> jget node ''items'' = JObj child \<Longrightarrow>
        (\<forall>x\<in>set elems. conforms child x)) \<Longrightarrow>
     conforms node v"

inductive_simps conforms_iff: "conforms node v"

text \<open>\<open>fs'\<close> is \<open>fs\<close> with further failures, and stays within the limit when \<open>fs\<close> is.\<close>

definition extends :: "failures \<Rightarrow> failures \<Rightarrow> bool" where
  "extends fs fs' \<longleftrightarrow> (\<exists>gs. fs' = fs @ gs) \<and> length fs' \<le> max 32 (length fs)"

lemma extends_refl [simp]: "extends fs fs"
  by (simp add: extends_def)

lemma extends_trans: "extends a b \<Longrightarrow> extends b c \<Longrightarrow> extends a c"
  by (auto simp: extends_def)

lemma extends_eq: "extends a b \<Longrightarrow> extends b c \<Longrightarrow> c = a \<longleftrightarrow> b = a \<and> c = b"
  by (auto simp: extends_def)

lemma extends_fail_at: "extends fs (fail_at p code fs)"
  by (simp add: extends_def fail_at_def max_extraction_validation_failures_def)

lemma fail_at_eq: "fail_at p code fs = fs \<longleftrightarrow> 32 \<le> length fs"
  by (auto simp: fail_at_def max_extraction_validation_failures_def)

text \<open>A result of the answer validator that is \<open>P\<close>-exact: no failure was added iff \<open>P\<close>.\<close>

definition exact :: "failures \<Rightarrow> bool \<Rightarrow> failures option \<Rightarrow> bool" where
  "exact fs P r \<longleftrightarrow> (\<exists>fs'. r = Some fs' \<and> extends fs fs' \<and> (length fs < 32 \<longrightarrow> (fs' = fs \<longleftrightarrow> P)))"

lemma exact_here: "P \<Longrightarrow> exact fs P (Some fs)"
  by (simp add: exact_def)

lemma exact_fail: "\<not> P \<Longrightarrow> exact fs P (Some (fail_at p code fs))"
  by (auto simp: exact_def extends_fail_at fail_at_eq)

lemma exact_then:
  assumes "exact fs P r" and "\<And>fs'. r = Some fs' \<Longrightarrow> exact fs' Q (g fs')"
  shows "exact fs (P \<and> Q) (case r of None \<Rightarrow> None | Some fs' \<Rightarrow> g fs')"
proof -
  obtain fs' where r: "r = Some fs'" "extends fs fs'" "length fs < 32 \<longrightarrow> (fs' = fs \<longleftrightarrow> P)"
    using assms(1) by (auto simp: exact_def)
  obtain fs'' where s: "g fs' = Some fs''" "extends fs' fs''" "length fs' < 32 \<longrightarrow> (fs'' = fs' \<longleftrightarrow> Q)"
    using assms(2) [OF r(1)] by (auto simp: exact_def)
  have "length fs < 32 \<longrightarrow> (fs'' = fs \<longleftrightarrow> P \<and> Q)"
    using extends_eq [OF r(2) s(2)] r(3) s(3) by auto
  then show ?thesis using r(1) s(1) extends_trans [OF r(2) s(2)] by (simp add: exact_def)
qed

lemma exact_start:
  assumes "exact fs P (Some fs')" and "exact fs' Q r"
  shows "exact fs (P \<and> Q) r"
  using exact_then [OF assms(1), of Q "\<lambda>_. r"] assms(2) by simp

lemma exact_enum: "exact fs (enum_admits node v) (Some (enum_failures path node v fs))"
  using exact_here [of True fs]
  by (auto simp: enum_failures_def enum_admits_def list_ex_iff exact_def extends_fail_at fail_at_eq
      split: json.splits)

lemma exact_fold:
  "exact fs (\<forall>n\<in>set ns. P n) (Some (fold (\<lambda>n fs. if \<not> P n then fail_at (p n) code fs else fs) ns fs))"
proof (induction ns arbitrary: fs)
  case (Cons n ns)
  have "exact fs (P n) (Some (if \<not> P n then fail_at (p n) code fs else fs))"
    using exact_here exact_fail by auto
  from exact_start [OF this Cons.IH] show ?case by simp
qed (simp add: exact_here)

lemma exact_missing:
  "exact fs (set names \<subseteq> fst ` set members) (Some (missing_failures path names members fs))"
  using exact_fold [of fs names "\<lambda>n. n \<in> fst ` set members" _ "''required_missing''"]
  by (simp add: missing_failures_def subset_eq)

lemma exact_additional:
  "exact fs (fst ` set members \<subseteq> fst ` set ps) (Some (additional_failures path ps members fs))"
  using exact_fold [of fs "map fst members" "\<lambda>n. n \<in> fst ` set ps" _ "''additional_property''"]
  by (simp add: additional_failures_def subset_eq)

lemma exact_props:
  assumes "\<And>n c v path fs. (n, JObj c) \<in> set ps \<Longrightarrow> exact fs (conforms c v) (value_visit c v path fs)"
  shows "exact fs (\<forall>(n, c)\<in>set ps. \<forall>w child. map_of members n = Some w \<longrightarrow> c = JObj child \<longrightarrow> conforms child w)
           (value_props ps members path fs)"
  using assms
proof (induction ps arbitrary: fs)
  case (Cons p ps)
  obtain n c where p: "p = (n, c)" by (cases p)
  have IH: "exact fs (\<forall>(n, c)\<in>set ps. \<forall>w child. map_of members n = Some w \<longrightarrow> c = JObj child \<longrightarrow> conforms child w)
      (value_props ps members path fs)" for fs
    by (rule Cons.IH, erule Cons.prems [OF list.set_intros(2)])
  show ?case
  proof (cases "\<exists>w child. map_of members n = Some w \<and> c = JObj child")
    case True
    then obtain w child where "map_of members n = Some w" "c = JObj child" by blast
    then show ?thesis
      using exact_then [OF Cons.prems [of n child fs w "path @ ''/'' @ pointer_token n"] IH] p by simp
  next
    case False
    then show ?thesis using IH [of fs] p by (auto split: option.splits json.splits)
  qed
qed (simp add: exact_here)

lemma exact_items:
  assumes "\<And>x path fs. exact fs (conforms child x) (value_visit child x path fs)"
  shows "exact fs (\<forall>x\<in>set xs. conforms child x) (value_items child xs i path fs)"
proof (induction xs arbitrary: i fs)
  case (Cons x xs)
  show ?case using exact_then [OF assms Cons.IH] by simp
qed (simp add: exact_here)

lemma jget_member: "jget d k = v \<Longrightarrow> v \<noteq> JNull \<Longrightarrow> map_of d k = Some v"
  by (auto simp: jget_def split: option.splits)

lemma exact_visit:
  "schema_within k (JObj node) \<Longrightarrow> exact fs (conforms node v) (value_visit node v path fs)"
proof (induction k arbitrary: node v path fs)
  case (Suc k)
  then obtain t where fits: "node_fits node t"
    and shape: "if t = ''object'' then
        jget node ''items'' = JNull \<and>
        (\<exists>ps. jget node ''properties'' = JObj ps \<and> required_ok (get_required node) ps \<and>
           (\<forall>(n, c)\<in>set ps. property_name_ok n \<and> schema_within k c))
      else jget node ''properties'' = JNull \<and> \<not> py_truthy (get_required node) \<and>
        (if t = ''array'' then schema_within k (jget node ''items'') else jget node ''items'' = JNull)"
    by auto
  have type: "map_of node ''type'' = Some (JStr t)" and jtype: "jget node ''type'' = JStr t"
    using node_fits_type [OF fits] jget_member [of node "''type''"] by simp_all
  let ?fs = "enum_failures path node v fs"
  show ?case
  proof (cases "instance_type_matches t v")
    case False
    then show ?thesis
      by (simp add: value_visit.simps [of node] type exact_fail conforms_iff [of node] jtype)
  next
    case matches: True
    consider (obj) ps members where "t = ''object''" "v = JObj members" "jget node ''properties'' = JObj ps"
        "\<forall>(n, c)\<in>set ps. schema_within k c"
      | (arr) child elems where "t = ''array''" "v = JList elems" "jget node ''items'' = JObj child"
          "schema_within k (JObj child)"
      | (scalar) "t \<noteq> ''object''" "t \<noteq> ''array''" "\<forall>ms. v \<noteq> JObj ms" "\<forall>xs. v \<noteq> JList xs"
    proof -
      consider "t = ''object''" | "t = ''array''" | "t \<noteq> ''object''" "t \<noteq> ''array''" by blast
      then show ?thesis
      proof cases
        case 1
        then obtain members where "v = JObj members"
          using matches by (auto simp: instance_type_matches_def split: json.splits)
        then show ?thesis using 1 shape obj by (fastforce simp: case_prod_beta)
      next
        case 2
        then obtain elems where "v = JList elems"
          using matches by (auto simp: instance_type_matches_def split: json.splits)
        moreover have within: "schema_within k (jget node ''items'')" using 2 shape by simp
        moreover obtain child where "jget node ''items'' = JObj child"
          using schema_within_object [OF within] by blast
        ultimately show ?thesis using 2 arr by simp
      next
        case 3
        then have "(\<forall>ms. v \<noteq> JObj ms) \<and> (\<forall>xs. v \<noteq> JList xs)"
          using matches by (auto simp: instance_type_matches_def split: if_splits)
        then show ?thesis using 3 scalar by blast
      qed
    qed
    then show ?thesis
    proof cases
      case obj
      let ?m = "missing_failures path (required_names node) members ?fs"
      let ?a = "additional_failures path ps members ?m"
      have "exact ?a (\<forall>(n, c)\<in>set ps. \<forall>w child. map_of members n = Some w \<longrightarrow> c = JObj child \<longrightarrow> conforms child w)
          (value_props ps members path ?a)"
        using obj(4) Suc.IH by (intro exact_props) auto
      from exact_start [OF exact_enum exact_start [OF exact_missing exact_start [OF exact_additional this]]]
      show ?thesis
        using matches obj jget_member [OF obj(3)]
        by (simp add: value_visit.simps [of node] type Let_def conforms_iff [of node] jtype cong: conj_cong)
    next
      case arr
      from exact_start [OF exact_enum exact_items [OF Suc.IH [OF arr(4)]]]
      show ?thesis
        using matches arr jget_member [OF arr(3)]
        by (simp add: value_visit.simps [of node] type Let_def conforms_iff [of node] jtype)
    next
      case scalar
      then show ?thesis
        using matches exact_enum [of fs node v path]
        by (simp add: value_visit.simps [of node] type Let_def conforms_iff [of node] jtype)
    qed
  qed
qed simp

section \<open>Scalar fields and their pointers\<close>

function (sequential) flatten :: "string \<Rightarrow> json \<Rightarrow> (string \<times> json) list" where
  "flatten p (JObj d) =
     concat (map (\<lambda>i. flatten (p @ ''/'' @ pointer_token (fst (d ! i))) (snd (d ! i))) [0..<length d])"
| "flatten p (JList xs) =
     concat (map (\<lambda>i. flatten (p @ ''/'' @ py_str_nat i) (xs ! i)) [0..<length xs])"
| "flatten p v = [(p, v)]"
  by pat_completeness auto
termination
proof (relation "measure (\<lambda>(p, v). size v)", goal_cases)
  case (2 p d i)
  then show ?case using size_member [of "fst (d ! i)" "snd (d ! i)" d] by simp
next
  case (3 p xs i)
  then show ?case using size_element [of "xs ! i" xs] by simp
qed simp

lemma concat_members: "concat (map (\<lambda>i. f (fst (d ! i)) (snd (d ! i))) [0..<length d]) = concat (map (\<lambda>x. f (fst x) (snd x)) d)"
  by (rule arg_cong [where f = concat]) (auto intro!: nth_equalityI simp: case_prod_beta)

lemma concat_elements: "concat (map (\<lambda>i. f i (xs ! i)) [0..<length xs]) = concat (map (\<lambda>x. f (fst x) (snd x)) (enumerate 0 xs))"
  by (rule arg_cong [where f = concat]) (auto intro!: nth_equalityI simp: nth_enumerate_eq)

lemma scalar_loop_eq:
  assumes "int (length fields) \<le> limit"
  shows "scalar_loop limit stack fields =
    take (nat limit) (fields @ concat (map (\<lambda>(p, v). flatten p v) stack))"
  using assms
proof (induction limit stack fields rule: scalar_loop.induct)
  case (2 limit path d stack fields)
  have "flatten path (JObj d) =
      concat (map (\<lambda>(p, v). flatten p v) (map (\<lambda>(n, c). (path @ ''/'' @ pointer_token n, c)) d))"
    using concat_members [of "\<lambda>n c. flatten (path @ ''/'' @ pointer_token n) c" d]
    by (simp add: comp_def case_prod_beta)
  then show ?case using 2 by auto
next
  case (3 limit path xs stack fields)
  have "flatten path (JList xs) =
      concat (map (\<lambda>(p, v). flatten p v) (map (\<lambda>(i, c). (path @ ''/'' @ py_str_nat i, c)) (enumerate 0 xs)))"
    using concat_elements [of "\<lambda>i c. flatten (path @ ''/'' @ py_str_nat i) c" xs]
    by (simp add: comp_def case_prod_beta)
  then show ?case using 3 by auto
qed auto

section \<open>JSON pointers are injective\<close>

lemma pointer_token_Cons:
  "pointer_token [] = []"
  "pointer_token (c # s) =
     (if c = CHR ''~'' then ''~0'' else if c = CHR ''/'' then ''~1'' else [c]) @ pointer_token s"
  by (simp_all add: pointer_token_def replace_char_def)

lemma pointer_token_inject: "pointer_token s = pointer_token t \<Longrightarrow> s = t"
proof (induction s arbitrary: t)
  case Nil
  then show ?case by (cases t) (auto simp: pointer_token_Cons split: if_splits)
next
  case (Cons c s)
  then show ?case by (cases t) (auto simp: pointer_token_Cons split: if_splits)
qed

lemma pointer_token_no_slash: "CHR ''/'' \<notin> set (pointer_token s)"
  by (induction s) (auto simp: pointer_token_Cons)

lemma py_str_nat_no_slash: "CHR ''/'' \<notin> set (py_str_nat n)"
proof
  assume "CHR ''/'' \<in> set (py_str_nat n)"
  then obtain k :: nat where k: "k < 10" "CHR ''/'' = char_of (48 + k)" using py_str_nat_digits by blast
  then have "(of_char (CHR ''/'') :: nat) = 48 + k" by (simp add: of_char_of)
  then show False by simp
qed

text \<open>The members of an object have different names, all the way down.\<close>

function (sequential) json_wf :: "json \<Rightarrow> bool" where
  "json_wf (JObj d) \<longleftrightarrow> distinct (map fst d) \<and> (\<forall>i<length d. json_wf (snd (d ! i)))"
| "json_wf (JList xs) \<longleftrightarrow> (\<forall>i<length xs. json_wf (xs ! i))"
| "json_wf v \<longleftrightarrow> True"
  by pat_completeness auto
termination
proof (relation "measure size", goal_cases)
  case (2 d i)
  then show ?case using size_member [of "fst (d ! i)" "snd (d ! i)" d] by simp
next
  case (3 xs i)
  then show ?case using size_element [of "xs ! i" xs] by simp
qed simp

definition below :: "string \<Rightarrow> string \<Rightarrow> bool" where
  "below p q \<longleftrightarrow> (\<exists>r. q = p @ r \<and> (r = [] \<or> hd r = CHR ''/''))"

lemma below_refl [simp]: "below p p"
  by (simp add: below_def)

lemma below_trans: "below p q \<Longrightarrow> below q r \<Longrightarrow> below p r"
  unfolding below_def
proof (elim exE conjE)
  fix a b
  assume "q = p @ a" "a = [] \<or> hd a = CHR ''/''" "r = q @ b" "b = [] \<or> hd b = CHR ''/''"
  then show "\<exists>c. r = p @ c \<and> (c = [] \<or> hd c = CHR ''/'')" by (cases a) auto
qed

lemma below_child: "below p (p @ ''/'' @ t)"
  by (simp add: below_def)

lemma flatten_below: "(q, w) \<in> set (flatten p v) \<Longrightarrow> below p q"
proof (induction p v arbitrary: q w rule: flatten.induct)
  case (1 p d)
  then show ?case using below_trans [OF below_child] by fastforce
next
  case (2 p xs)
  then show ?case using below_trans [OF below_child] by fastforce
qed simp_all

lemma below_token:
  assumes "below (p @ ''/'' @ s) q" and "below (p @ ''/'' @ t) q"
    and "CHR ''/'' \<notin> set s" and "CHR ''/'' \<notin> set t"
  shows "s = t"
proof -
  obtain r r' where eq: "s @ r = t @ r'" and r: "r = [] \<or> hd r = CHR ''/''" "r' = [] \<or> hd r' = CHR ''/''"
    using assms(1,2) by (auto simp: below_def)
  have cut: "takeWhile (\<lambda>c. c \<noteq> CHR ''/'') (u @ x) = u"
    if "CHR ''/'' \<notin> set u" "x = [] \<or> hd x = CHR ''/''" for u x
    using that(1)
  proof (induction u)
    case Nil
    then show ?case using that(2) by (cases x) auto
  qed auto
  show ?thesis using cut [OF assms(3) r(1)] cut [OF assms(4) r(2)] eq by simp
qed

lemma distinct_concat_upt:
  assumes "\<And>i. i < n \<Longrightarrow> distinct (map fst (f i))"
    and "\<And>i j q. i < n \<Longrightarrow> j < n \<Longrightarrow> q \<in> fst ` set (f i) \<Longrightarrow> q \<in> fst ` set (f j) \<Longrightarrow> i = j"
  shows "distinct (map fst (concat (map f [0..<n])))"
  using assms
proof (induction n)
  case (Suc n)
  have "False" if q: "q \<in> fst ` set (f n)" "q \<in> fst ` set (concat (map f [0..<n]))" for q
  proof -
    from q(2) have "\<exists>j<n. q \<in> fst ` set (f j)" by (auto simp: image_UN)
    then obtain j where "j < n" "q \<in> fst ` set (f j)" by blast
    then show False using Suc.prems(2) [of n j q] q(1) by simp
  qed
  then have "fst ` set (f n) \<inter> fst ` set (concat (map f [0..<n])) = {}" by blast
  moreover have "distinct (map fst (concat (map f [0..<n])))"
    using Suc.prems by (intro Suc.IH) auto
  ultimately show ?case using Suc.prems(1) [of n] by (simp add: Int_commute)
qed simp

lemma flatten_distinct: "json_wf v \<Longrightarrow> distinct (map fst (flatten p v))"
proof (induction p v rule: flatten.induct)
  case (1 p d)
  have "i = j" if "i < length d" "j < length d"
    and q: "q \<in> fst ` set (flatten (p @ ''/'' @ pointer_token (fst (d ! i))) (snd (d ! i)))"
      "q \<in> fst ` set (flatten (p @ ''/'' @ pointer_token (fst (d ! j))) (snd (d ! j)))" for i j q
  proof -
    have "pointer_token (fst (d ! i)) = pointer_token (fst (d ! j))"
    proof -
      obtain w w' where "(q, w) \<in> set (flatten (p @ ''/'' @ pointer_token (fst (d ! i))) (snd (d ! i)))"
          "(q, w') \<in> set (flatten (p @ ''/'' @ pointer_token (fst (d ! j))) (snd (d ! j)))"
        using q by (auto simp: image_iff)
      from below_token [OF flatten_below [OF this(1)] flatten_below [OF this(2)]]
      show ?thesis using pointer_token_no_slash by simp
    qed
    then have "map fst d ! i = map fst d ! j" using that(1,2) pointer_token_inject by simp
    then show ?thesis using "1.prems" that(1,2) nth_eq_iff_index_eq [of "map fst d" i j] by simp
  qed
  then show ?case using 1 unfolding flatten.simps by (intro distinct_concat_upt) simp_all
next
  case (2 p xs)
  have "i = j" if q: "q \<in> fst ` set (flatten (p @ ''/'' @ py_str_nat i) (xs ! i))"
      "q \<in> fst ` set (flatten (p @ ''/'' @ py_str_nat j) (xs ! j))" for i j q
  proof -
    obtain w w' where "(q, w) \<in> set (flatten (p @ ''/'' @ py_str_nat i) (xs ! i))"
        "(q, w') \<in> set (flatten (p @ ''/'' @ py_str_nat j) (xs ! j))"
      using q by (auto simp: image_iff)
    from below_token [OF flatten_below [OF this(1)] flatten_below [OF this(2)]]
    show ?thesis using py_str_nat_no_slash by simp
  qed
  then show ?case using 2 unfolding flatten.simps by (intro distinct_concat_upt) simp_all
qed simp_all

lemma schema_accepted:
  "validate_extraction_schema fl v = Inr d \<longleftrightarrow> v = JObj d \<and> json_bytes fl v \<le> 16384 \<and>
     schema_within 5 v \<and> schema_properties 5 v \<le> 32 \<and> jget d ''type'' = JStr ''object''"
proof (cases v)
  case (JObj node)
  have "schema_visit (JObj node) 1 ''$'' 0 = Inr m \<longleftrightarrow>
      schema_within 5 (JObj node) \<and> m = schema_properties 5 (JObj node) \<and> m \<le> 32" for m
    using schema_visit_iff [of 1 5 0 "JObj node" "''$''" m] by simp
  then have "(\<exists>m. schema_visit (JObj node) 1 ''$'' 0 = Inr m) \<longleftrightarrow>
      schema_within 5 (JObj node) \<and> schema_properties 5 (JObj node) \<le> 32"
    by (simp del: schema_visit.simps)
  moreover have "validate_extraction_schema fl v = Inr d \<longleftrightarrow> d = node \<and> json_bytes fl v \<le> 16384 \<and>
      (\<exists>m. schema_visit (JObj node) 1 ''$'' 0 = Inr m) \<and> jget node ''type'' = JStr ''object''"
    unfolding validate_extraction_schema_def max_extraction_schema_bytes_def JObj json.case
    by (cases "schema_visit (JObj node) 1 ''$'' 0"; cases "json_bytes fl (JObj node) \<le> 16384";
        cases "jget node ''type'' = JStr ''object''") (auto simp: not_le not_less simp del: schema_visit.simps)
  ultimately show ?thesis using JObj by auto
qed (simp_all add: validate_extraction_schema_def)

section \<open>Properties\<close>



definition price_schema :: json_object where
  "price_schema = [(''type'', JStr ''object''),
     (''properties'', JObj [(''price'', JObj [(''type'', JStr ''number'')])]),
     (''required'', JList [JStr ''price''])]"


text \<open>
  C8. \<open>scalar_fields\<close>, which walks an explicit stack and stops at its limit, lists the first
  \<open>max_fields\<close> scalar leaves of the value in document order, and no two of them carry the same
  JSON pointer.
\<close>

theorem scalar_fields_preorder:
  assumes "0 \<le> max_fields" and "json_wf v"
  shows "scalar_fields v path max_fields = take (nat max_fields) (flatten path v) \<and>
           distinct (map fst (scalar_fields v path max_fields))"
proof -
  have "scalar_fields v path max_fields = take (nat max_fields) (flatten path v)"
    using scalar_loop_eq [of "[]" max_fields "[(path, v)]"] assms(1) by (simp add: scalar_fields_def)
  then show ?thesis using flatten_distinct [OF assms(2)] by (simp add: take_map [symmetric])
qed

theorem scalar_fields_preorder_witness:
  "scalar_fields (JObj [(''a/b'', JInt 1), (''c'', JList [JNull, JInt 2])]) [] 2 =
     [(''/a~1b'', JInt 1), (''/c/0'', JNull)]"
proof -
  let ?v = "JObj [(''a/b'', JInt 1), (''c'', JList [JNull, JInt 2])]"
  have "json_wf ?v" and "take 2 (flatten [] ?v) = [(''/a~1b'', JInt 1), (''/c/0'', JNull)]"
    by code_simp+
  then show ?thesis using scalar_fields_preorder [of 2 ?v "[]"] by simp
qed

end
