(* ===== verification/Wire_Models.thy ===== *)
theory Wire_Models
  imports Schema_Contract
begin

text \<open>
  The wire models with checks of their own: \<open>orchestrator/models.py\<close>, \<open>orchestrator/outcome_codes.py\<close>
  and \<open>thorondor_contracts.py\<close>.  A pydantic class is a record; a \<open>Literal\<close> or enum is a datatype with a
  function to its wire string where the code branches on it, and a string otherwise; the limits of
  \<open>Field(...)\<close> are a predicate \<open>..._fields\<close>; a \<open>model_validator\<close> returns the message of the
  \<open>ValueError\<close> it raises, \<^term>\<open>None\<close> when it accepts.  \<open>raise\<close>s in sequence are a list of guarded
  messages of which the first that applies is the result.
\<close>

definition first_error :: "(bool \<times> string) list \<Rightarrow> string option" where
  "first_error checks = map_option snd (List.find fst checks)"

lemma first_error_simps [simp]:
  "first_error [] = None"
  "first_error ((b, m) # cs) = (if b then Some m else first_error cs)"
  by (simp_all add: first_error_def)

text \<open>Two checks in sequence.\<close>

definition or_else :: "string option \<Rightarrow> string option \<Rightarrow> string option" where
  "or_else a b = (case a of None \<Rightarrow> b | Some _ \<Rightarrow> a)"

lemma or_else_None [simp]: "or_else a b = None \<longleftrightarrow> a = None \<and> b = None"
  by (auto simp: or_else_def split: option.splits)

text \<open>
  \<open>str.casefold\<close> on the code points below 256.  The micro sign, whose fold lies outside this range, is
  left alone: nothing else in the range folds to the same character.
\<close>

definition casefold_char :: "char \<Rightarrow> string" where
  "casefold_char c =
     (let n = (of_char c :: nat) in
      if (65 \<le> n \<and> n \<le> 90) \<or> (192 \<le> n \<and> n \<le> 222 \<and> n \<noteq> 215) then [char_of (n + 32)]
      else if n = 223 then ''ss'' else [c])"

definition py_casefold :: "string \<Rightarrow> string" where
  "py_casefold s = concat (map casefold_char s)"

section \<open>Outcome codes\<close>

datatype fetch_outcome =
    Content | Empty_Shell | Challenge | Robots_Refused | Upstream_Timeout | Deadline_Cancelled
  | Unsafe_Redirect | Unsupported_Content | Unsupported_Capability | Content_Too_Large
  | Extraction_Empty | Malformed_Upstream_Response | Upstream_Failure | Rate_Limited
  | Capacity_Unavailable | Unsafe_Target | Local_Processing_Failure

primrec fetch_outcome_value :: "fetch_outcome \<Rightarrow> string" where
  "fetch_outcome_value Content = ''content''"
| "fetch_outcome_value Empty_Shell = ''empty_shell''"
| "fetch_outcome_value Challenge = ''challenge''"
| "fetch_outcome_value Robots_Refused = ''robots_refused''"
| "fetch_outcome_value Upstream_Timeout = ''upstream_timeout''"
| "fetch_outcome_value Deadline_Cancelled = ''deadline_cancelled''"
| "fetch_outcome_value Unsafe_Redirect = ''unsafe_redirect''"
| "fetch_outcome_value Unsupported_Content = ''unsupported_content''"
| "fetch_outcome_value Unsupported_Capability = ''unsupported_capability''"
| "fetch_outcome_value Content_Too_Large = ''content_too_large''"
| "fetch_outcome_value Extraction_Empty = ''extraction_empty''"
| "fetch_outcome_value Malformed_Upstream_Response = ''malformed_upstream_response''"
| "fetch_outcome_value Upstream_Failure = ''upstream_failure''"
| "fetch_outcome_value Rate_Limited = ''rate_limited''"
| "fetch_outcome_value Capacity_Unavailable = ''capacity_unavailable''"
| "fetch_outcome_value Unsafe_Target = ''unsafe_target''"
| "fetch_outcome_value Local_Processing_Failure = ''local_processing_failure''"

datatype job_state = Queued | Running | Completed | Partial | Failed | Cancelled | Expired

primrec job_state_value :: "job_state \<Rightarrow> string" where
  "job_state_value Queued = ''queued''"
| "job_state_value Running = ''running''"
| "job_state_value Completed = ''completed''"
| "job_state_value Partial = ''partial''"
| "job_state_value Failed = ''failed''"
| "job_state_value Cancelled = ''cancelled''"
| "job_state_value Expired = ''expired''"

section \<open>Passages, spans and citations\<close>

record passage =
  passage_text :: string
  passage_score :: pyfloat
  passage_token_count :: int
  passage_citation_id :: int
  passage_start :: "int option"
  passage_end :: "int option"
  passage_verbatim :: bool
  passage_document_id :: "string option"
  passage_evidence_id :: "string option"
  passage_heading :: "string option"

text \<open>\<open>start_index\<close>, \<open>end_index\<close> present and the span not empty.\<close>

definition span_bad :: "int option \<Rightarrow> int option \<Rightarrow> bool" where
  "span_bad s e = (case (s, e) of (Some a, Some b) \<Rightarrow> b \<le> a | _ \<Rightarrow> True)"

definition passage_validate_evidence :: "passage \<Rightarrow> string option" where
  "passage_validate_evidence p = first_error
     [(passage_verbatim p \<and> span_bad (passage_start p) (passage_end p),
       ''verbatim passages require a valid end-exclusive span''),
      (passage_evidence_id p \<noteq> None \<and> (\<not> passage_verbatim p \<or> passage_document_id p = None),
       ''evidence_id requires verbatim text and document_id''),
      (passage_verbatim p \<and> (passage_document_id p = None \<or> passage_evidence_id p = None),
       ''verbatim passages require document_id and evidence_id'')]"

record evidence_span =
  span_start :: "int option"
  span_end :: "int option"
  span_verbatim :: bool
  span_evidence_id :: "string option"
  span_heading :: "string option"

definition span_validate_evidence :: "evidence_span \<Rightarrow> string option" where
  "span_validate_evidence s = first_error
     [(span_verbatim s \<and> span_bad (span_start s) (span_end s),
       ''verbatim evidence requires a valid end-exclusive span''),
      (span_evidence_id s \<noteq> None \<and> \<not> span_verbatim s, ''evidence_id requires verbatim evidence''),
      (span_verbatim s \<and> span_evidence_id s = None, ''verbatim evidence requires evidence_id'')]"

record citation =
  citation_id :: int
  citation_url :: string
  citation_title :: string
  citation_published :: "string option"
  citation_modified_at :: "string option"
  citation_document_id :: "string option"
  citation_spans :: "evidence_span list"

definition citation_validate_evidence :: "citation \<Rightarrow> string option" where
  "citation_validate_evidence c = first_error
     [(list_ex span_verbatim (citation_spans c) \<and> citation_document_id c = None,
       ''verbatim citation spans require document_id'')]"

section \<open>Structured extraction\<close>

record structured_source =
  source_document_id :: string
  source_markdown_sha256 :: string
  source_html_sha256 :: string
  source_final_url :: string
  source_start :: int
  source_end :: int

definition source_validate_span :: "structured_source \<Rightarrow> string option" where
  "source_validate_span s =
     first_error [(source_end s \<le> source_start s, ''structured source span must be non-empty'')]"

record structured_link =
  link_url :: string
  link_text :: string
  link_title :: "string option"
  link_rel :: "string list"
  link_internal :: bool
  link_source :: structured_source

record structured_cell =
  cell_text :: string
  cell_header :: bool
  cell_row_span :: int
  cell_column_span :: int
  cell_source :: structured_source

record structured_table =
  table_caption :: "string option"
  table_rows :: "structured_cell list list"
  table_source :: structured_source

record document_field =
  field_name :: string
  field_value :: string
  field_source :: structured_source

record structured_document =
  document_kind :: string
  document_fields :: "document_field list"
  document_source :: structured_source

record markdown_reference =
  mref_document_id :: string
  mref_markdown_sha256 :: string
  mref_final_url :: string
  mref_start :: int
  mref_end :: int
  mref_evidence_id :: string

definition mref_validate_span :: "markdown_reference \<Rightarrow> string option" where
  "mref_validate_span r =
     first_error [(mref_end r \<le> mref_start r, ''structured Markdown span must be non-empty'')]"

record schema_field =
  sfield_path :: string
  sfield_value :: json
  sfield_source :: "markdown_reference option"

record validation_failure =
  failure_path :: string
  failure_code :: string

record model_usage =
  prompt_bytes :: int
  output_bytes :: int
  input_tokens :: "int option"
  output_tokens :: "int option"

datatype structured_format = Links_Format | Tables_Format | Json_Ld_Format | Json_Schema_Format

datatype extraction_status = Status_Ok | Status_Empty | Status_Truncated | Status_Unsupported
  | Status_Validation_Failed | Status_Model_Failed

record structured_extraction =
  x_format :: structured_format
  x_status :: extraction_status
  x_document_id :: "string option"
  x_links :: "structured_link list"
  x_tables :: "structured_table list"
  x_documents :: "structured_document list"
  x_data :: "json_object option"
  x_fields :: "schema_field list"
  x_failures :: "validation_failure list"
  x_model_usage :: "model_usage option"
  x_omitted_items :: int
  x_omitted_source_bytes :: int

definition payloads :: "structured_extraction \<Rightarrow> (structured_format \<times> bool) list" where
  "payloads x =
     [(Links_Format, x_links x \<noteq> []), (Tables_Format, x_tables x \<noteq> []),
      (Json_Ld_Format, x_documents x \<noteq> []),
      (Json_Schema_Format, x_data x \<noteq> None \<or> x_fields x \<noteq> [])]"

definition validate_successful_schema :: "structured_extraction \<Rightarrow> string option" where
  "validate_successful_schema x = first_error
     [(x_data x = None \<or> x_failures x \<noteq> [], ''successful json_schema extraction requires valid data''),
      (list_ex (\<lambda>f. sfield_source f = None) (x_fields x),
       ''successful json_schema fields require evidence'')]"

definition validate_format_payloads :: "structured_extraction \<Rightarrow> string option" where
  "validate_format_payloads x =
     or_else (first_error
       [(list_ex (\<lambda>(name, present). present \<and> name \<noteq> x_format x) (payloads x),
         ''structured extraction cannot contain another format payload''),
        (x_format x \<noteq> Json_Schema_Format \<and> (x_failures x \<noteq> [] \<or> x_model_usage x \<noteq> None),
         ''only json_schema extraction can contain model diagnostics''),
        (x_format x \<noteq> Json_Schema_Format \<and> x_status x \<in> {Status_Validation_Failed, Status_Model_Failed},
         ''only json_schema extraction can use model statuses''),
        (x_format x = Json_Schema_Format \<and> x_status x \<in> {Status_Empty, Status_Truncated},
         ''json_schema extraction cannot use deterministic statuses'')])
     (or_else (if x_format x = Json_Schema_Format \<and> x_status x = Status_Ok
               then validate_successful_schema x else None)
       (first_error
         [(x_status x \<in> {Status_Validation_Failed, Status_Model_Failed} \<and> x_failures x = [],
           ''failed structured extraction requires validation failures'')]))"

definition max_extraction_output_bytes :: nat where "max_extraction_output_bytes = 65536"

definition validate_data :: "(real \<Rightarrow> string) \<Rightarrow> structured_extraction \<Rightarrow> string option" where
  "validate_data fl x =
     (case x_data x of
        None \<Rightarrow> None
      | Some d \<Rightarrow> first_error
          [(json_bytes fl (JObj d) > max_extraction_output_bytes,
            ''structured schema data exceeds the output byte limit'')])"

definition validate_document :: "structured_extraction \<Rightarrow> string option" where
  "validate_document x =
     (if x_status x = Status_Unsupported then
        first_error [(x_document_id x \<noteq> None \<or> list_ex snd (payloads x),
          ''unsupported structured extraction cannot claim source data'')]
      else first_error [(x_document_id x = None, ''supported structured extraction requires document_id'')])"

definition extraction_sources :: "structured_extraction \<Rightarrow> structured_source list" where
  "extraction_sources x =
     map link_source (x_links x) @
     concat (map (\<lambda>t. table_source t # map cell_source (concat (table_rows t))) (x_tables x)) @
     concat (map (\<lambda>d. document_source d # map field_source (document_fields d)) (x_documents x))"

definition source_identity :: "structured_source \<Rightarrow> string \<times> string \<times> string" where
  "source_identity s = (source_markdown_sha256 s, source_html_sha256 s, source_final_url s)"

definition validate_sources :: "structured_extraction \<Rightarrow> string option" where
  "validate_sources x =
     (let sources = extraction_sources x in
      first_error
        [(list_ex (\<lambda>s. Some (source_document_id s) \<noteq> x_document_id x) sources,
          ''structured source references must match document_id''),
         (sources \<noteq> [] \<and> list_ex (\<lambda>s. source_identity s \<noteq> source_identity (hd sources)) (tl sources),
          ''structured source references must identify one source'')])"

definition max_structured_table_cells :: nat where "max_structured_table_cells = 1000"

definition validate_table_size :: "structured_extraction \<Rightarrow> string option" where
  "validate_table_size x =
     (let cell_count = (\<Sum>t\<leftarrow>x_tables x. \<Sum>row\<leftarrow>table_rows t. length row) in
      first_error [(cell_count > max_structured_table_cells,
        ''structured tables exceed the aggregate cell limit'')])"

definition mref_identity :: "markdown_reference \<Rightarrow> string \<times> string" where
  "mref_identity r = (mref_markdown_sha256 r, mref_final_url r)"

definition validate_markdown_sources :: "structured_extraction \<Rightarrow> string option" where
  "validate_markdown_sources x =
     (let sources = List.map_filter sfield_source (x_fields x) in
      first_error
        [(list_ex (\<lambda>r. Some (mref_document_id r) \<noteq> x_document_id x) sources,
          ''structured Markdown references must match document_id''),
         (sources \<noteq> [] \<and> list_ex (\<lambda>r. mref_identity r \<noteq> mref_identity (hd sources)) (tl sources),
          ''structured Markdown references must identify one source'')])"

definition validate_payload :: "(real \<Rightarrow> string) \<Rightarrow> structured_extraction \<Rightarrow> string option" where
  "validate_payload fl x =
     or_else (validate_format_payloads x)
       (or_else (validate_data fl x)
         (or_else (validate_document x)
           (or_else (validate_sources x)
             (or_else (validate_table_size x) (validate_markdown_sources x)))))"

section \<open>Watch targets\<close>

record target_locator =
  target_css :: "string option"
  target_role :: "string option"
  target_name :: "string option"
  target_text :: "string option"
  target_section :: "string option"

definition validate_locator :: "target_locator \<Rightarrow> string option" where
  "validate_locator t =
     (let modes = length (filter (\<lambda>v. v \<noteq> None) [target_css t, target_role t, target_text t]) in
      first_error
        [(modes \<noteq> 1, ''target requires exactly one of css, role, or text''),
         (target_name t \<noteq> None \<and> target_role t = None, ''target name requires role''),
         (target_text t \<noteq> None \<and> target_section t = None, ''text targets require a named section''),
         ((case target_css t of None \<Rightarrow> False
           | Some css \<Rightarrow> list_ex (\<lambda>token. py_contains token css) ['','', '':'', ''>'', ''+'', ''~'', ''*'', '' '']),
          ''css target must be one bounded compound selector'')])"

record target_state =
  state_text :: "string option"
  state_attribute :: "string option"
  state_value :: "string option"

definition validate_state :: "target_state \<Rightarrow> string option" where
  "validate_state s = first_error
     [(state_text s \<noteq> None \<and> (state_attribute s \<noteq> None \<or> state_value s \<noteq> None),
       ''target state must use text or attribute/value''),
      (state_text s = None \<and> (state_attribute s = None \<or> state_value s = None),
       ''target state requires text or attribute/value'')]"

datatype watch_match = Match_Exact | Match_Contains

record target_watch =
  watch_target :: target_locator
  watch_desired :: target_state
  watch_expected :: "target_state option"
  watch_match :: watch_match

text \<open>A state whose attribute is present has a value once it has been validated.\<close>

definition blank_attribute_state :: "target_state \<Rightarrow> bool" where
  "blank_attribute_state s = (state_attribute s \<noteq> None \<and> py_blank (the (state_value s)))"

definition validate_contains_state :: "target_watch \<Rightarrow> string option" where
  "validate_contains_state w = first_error
     [(watch_match w = Match_Contains \<and>
       ((case watch_expected w of None \<Rightarrow> False | Some s \<Rightarrow> blank_attribute_state s) \<or>
        blank_attribute_state (watch_desired w)),
       ''contains attribute states require a non-blank value'')]"

section \<open>Requests\<close>

datatype fetch_capability = Cap_Markdown | Cap_Javascript | Cap_Links | Cap_Metadata | Cap_Raw_Html
  | Cap_Pdf | Cap_Document

definition max_fetch_urls :: nat where "max_fetch_urls = 4"
definition max_fetch_url_bytes :: nat where "max_fetch_url_bytes = 8192"

record fetch_request =
  fr_urls :: "string list"
  fr_capabilities :: "fetch_capability list"
  fr_structured_formats :: "structured_format list"
  fr_extraction_schema :: "json_object option"
  fr_force_refresh :: bool
  fr_stale_while_revalidate :: bool
  fr_watch :: "target_watch option"

definition fetch_request_fields :: "fetch_request \<Rightarrow> bool" where
  "fetch_request_fields r \<longleftrightarrow>
     1 \<le> length (fr_urls r) \<and> length (fr_urls r) \<le> max_fetch_urls \<and>
     list_all (\<lambda>u. 1 \<le> length u \<and> length u \<le> max_fetch_url_bytes) (fr_urls r) \<and>
     1 \<le> length (fr_capabilities r) \<and> length (fr_capabilities r) \<le> 7 \<and>
     length (fr_structured_formats r) \<le> 4"

primrec required_capability :: "structured_format \<Rightarrow> fetch_capability" where
  "required_capability Links_Format = Cap_Links"
| "required_capability Tables_Format = Cap_Markdown"
| "required_capability Json_Ld_Format = Cap_Metadata"
| "required_capability Json_Schema_Format = Cap_Markdown"

primrec format_value :: "structured_format \<Rightarrow> string" where
  "format_value Links_Format = ''links''"
| "format_value Tables_Format = ''tables''"
| "format_value Json_Ld_Format = ''json_ld''"
| "format_value Json_Schema_Format = ''json_schema''"

primrec capability_value :: "fetch_capability \<Rightarrow> string" where
  "capability_value Cap_Markdown = ''markdown''"
| "capability_value Cap_Javascript = ''javascript''"
| "capability_value Cap_Links = ''links''"
| "capability_value Cap_Metadata = ''metadata''"
| "capability_value Cap_Raw_Html = ''raw_html''"
| "capability_value Cap_Pdf = ''pdf''"
| "capability_value Cap_Document = ''document''"

text \<open>
  The checks \<open>FetchRequest\<close> and \<open>CrawlRequest\<close> share: no duplicates, each format's capability is
  requested, the schema and its format come together, and a schema is accepted and bounds the pages.
\<close>

definition capability_checks :: "fetch_capability list \<Rightarrow> structured_format list \<Rightarrow> (bool \<times> string) list" where
  "capability_checks caps formats =
     [(\<not> distinct caps, ''capabilities must not contain duplicates''),
      (\<not> distinct formats, ''structured_formats must not contain duplicates'')] @
     map (\<lambda>f. (required_capability f \<notin> set caps,
         ''structured format '' @ format_value f @ '' requires the '' @
         capability_value (required_capability f) @ '' capability'')) formats"

definition schema_checks :: "(real \<Rightarrow> string) \<Rightarrow> structured_format list \<Rightarrow> json_object option \<Rightarrow> string option" where
  "schema_checks fl formats schema =
     or_else (first_error
       [((Json_Schema_Format \<in> set formats) \<noteq> (schema \<noteq> None),
         ''json_schema structured format and extraction_schema must be supplied together'')])
     (case schema of
        None \<Rightarrow> None
      | Some d \<Rightarrow> (case validate_extraction_schema fl (JObj d) of Inl e \<Rightarrow> Some e | Inr _ \<Rightarrow> None))"

definition validate_unique_values :: "(real \<Rightarrow> string) \<Rightarrow> fetch_request \<Rightarrow> string option" where
  "validate_unique_values fl r =
     or_else (first_error ((\<not> distinct (fr_urls r), ''urls must not contain duplicates'') #
         capability_checks (fr_capabilities r) (fr_structured_formats r)))
       (or_else (schema_checks fl (fr_structured_formats r) (fr_extraction_schema r))
         (first_error [(fr_extraction_schema r \<noteq> None \<and> length (fr_urls r) > max_extraction_urls,
           ''json_schema fetch urls must not exceed '' @ py_str_nat max_extraction_urls)]))"

definition max_site_url_bytes :: nat where "max_site_url_bytes = 8192"

datatype sitemap_mode = Sitemap_Include | Sitemap_Only | Sitemap_Skip
datatype query_mode = Query_Preserve | Query_Strip | Query_Exclude

record site_request =
  site_url :: string
  site_sitemap :: sitemap_mode
  site_max_depth :: int
  site_max_pages :: int
  site_max_discovered_urls :: int
  site_include_parent_paths :: bool
  site_include_subdomains :: bool
  site_include_paths :: "string list"
  site_exclude_paths :: "string list"
  site_query_parameters :: query_mode
  site_allowed_file_extensions :: "string list"
  site_include_search :: bool

definition site_request_fields :: "('a) site_request_scheme \<Rightarrow> bool" where
  "site_request_fields r \<longleftrightarrow>
     1 \<le> length (site_url r) \<and> length (site_url r) \<le> max_site_url_bytes \<and>
     0 \<le> site_max_depth r \<and> site_max_depth r \<le> 5 \<and>
     1 \<le> site_max_pages r \<and> site_max_pages r \<le> 20 \<and>
     1 \<le> site_max_discovered_urls r \<and> site_max_discovered_urls r \<le> 500 \<and>
     length (site_include_paths r) \<le> 32 \<and> length (site_exclude_paths r) \<le> 32 \<and>
     list_all (\<lambda>p. 1 \<le> length p \<and> length p \<le> 256) (site_include_paths r @ site_exclude_paths r) \<and>
     1 \<le> length (site_allowed_file_extensions r) \<and> length (site_allowed_file_extensions r) \<le> 16"

definition validate_site_policy :: "('a) site_request_scheme \<Rightarrow> string option" where
  "validate_site_policy r =
     (let normalized = map py_casefold (site_allowed_file_extensions r) in
      first_error
        [(utf8_length (site_url r) > max_site_url_bytes,
          ''url must not exceed '' @ py_str_nat max_site_url_bytes @ '' UTF-8 bytes''),
         (\<not> distinct (site_include_paths r), ''include_paths must not contain duplicates''),
         (\<not> distinct (site_exclude_paths r), ''exclude_paths must not contain duplicates''),
         (list_ex (\<lambda>p. \<not> py_startswith p ''/'') (site_include_paths r @ site_exclude_paths r),
          ''path patterns must start with /''),
         (\<not> distinct normalized, ''allowed_file_extensions must not contain duplicates''),
         (list_ex (\<lambda>v. v \<noteq> [] \<and> (\<not> py_startswith v ''.'' \<or> length v > 16)) normalized,
          ''file extensions must be empty or start with .'')])"

record crawl_request = site_request +
  crawl_capabilities :: "fetch_capability list"
  crawl_structured_formats :: "structured_format list"
  crawl_extraction_schema :: "json_object option"

definition validate_crawl_capabilities :: "(real \<Rightarrow> string) \<Rightarrow> crawl_request \<Rightarrow> string option" where
  "validate_crawl_capabilities fl r =
     or_else (first_error (capability_checks (crawl_capabilities r) (crawl_structured_formats r)))
       (or_else (schema_checks fl (crawl_structured_formats r) (crawl_extraction_schema r))
         (first_error [(crawl_extraction_schema r \<noteq> None \<and> site_max_pages r > int max_extraction_urls,
           ''json_schema crawl max_pages must not exceed '' @ py_str_nat max_extraction_urls)]))"

section \<open>Fetch results\<close>

text \<open>The nested models the job and cache code only carries along are JSON values.\<close>

record fetch_result =
  res_requested_url :: string
  res_final_url :: "string option"
  res_outcome :: fetch_outcome
  res_retryable :: bool
  res_status_code :: "int option"
  res_content_type :: "string option"
  res_title :: "string option"
  res_retrieval_method :: "string option"
  res_elapsed_ms :: int
  res_capabilities :: "fetch_capability list"
  res_markdown :: "string option"
  res_raw_html :: "string option"
  res_links :: json_object
  res_metadata :: json_object
  res_structured :: "json list"
  res_response_headers :: "(string \<times> string) list"
  res_cache :: json
  res_change :: "json option"
  res_diff :: "json option"
  res_watch :: "json option"

section \<open>What the validators guarantee\<close>

lemma first_error_None: "first_error cs = None \<longleftrightarrow> (\<forall>(b, m)\<in>set cs. \<not> b)"
proof (induction cs)
  case (Cons c cs)
  then show ?case by (cases c) simp
qed simp

lemma same_as_head:
  "xs \<noteq> [] \<and> list_ex (\<lambda>x. f x \<noteq> f (hd xs)) (tl xs) \<longleftrightarrow> (\<exists>x\<in>set xs. \<exists>y\<in>set xs. f x \<noteq> f y)"
proof (cases xs)
  case (Cons x ys)
  then show ?thesis by (auto simp: list_ex_iff) metis+
qed simp


definition empty_extraction :: structured_extraction where
  "empty_extraction = \<lparr>x_format = Links_Format, x_status = Status_Unsupported, x_document_id = None,
     x_links = [], x_tables = [], x_documents = [], x_data = None, x_fields = [], x_failures = [],
     x_model_usage = None, x_omitted_items = 0, x_omitted_source_bytes = 0\<rparr>"


text \<open>
  \<open>FetchRequest.validate_unique_values\<close> accepts a request exactly when its URLs, capabilities and
  formats are free of duplicates, the capability each format reads is requested, the extraction schema
  is there exactly when its format is, and a schema is a valid one for at most 4 URLs.
\<close>

theorem fetch_request_accepted_iff:
  "validate_unique_values fl r = None \<longleftrightarrow>
     distinct (fr_urls r) \<and> distinct (fr_capabilities r) \<and> distinct (fr_structured_formats r) \<and>
     required_capability ` set (fr_structured_formats r) \<subseteq> set (fr_capabilities r) \<and>
     (Json_Schema_Format \<in> set (fr_structured_formats r) \<longleftrightarrow> fr_extraction_schema r \<noteq> None) \<and>
     (\<forall>d. fr_extraction_schema r = Some d \<longrightarrow>
        validate_extraction_schema fl (JObj d) = Inr d \<and> length (fr_urls r) \<le> 4)"
proof -
  have inr: "validate_extraction_schema fl (JObj d) = Inr e \<Longrightarrow> e = d" for d e
    by (simp add: schema_accepted)
  have schema: "schema_checks fl (fr_structured_formats r) (fr_extraction_schema r) = None \<longleftrightarrow>
     (Json_Schema_Format \<in> set (fr_structured_formats r) \<longleftrightarrow> fr_extraction_schema r \<noteq> None) \<and>
     (\<forall>d. fr_extraction_schema r = Some d \<longrightarrow> validate_extraction_schema fl (JObj d) = Inr d)"
    by (auto simp: schema_checks_def dest: inr split: option.splits sum.splits)
  have caps: "first_error (capability_checks (fr_capabilities r) (fr_structured_formats r)) = None \<longleftrightarrow>
     distinct (fr_capabilities r) \<and> distinct (fr_structured_formats r) \<and>
     required_capability ` set (fr_structured_formats r) \<subseteq> set (fr_capabilities r)"
    unfolding first_error_None capability_checks_def by auto
  show ?thesis
    by (auto simp: validate_unique_values_def schema caps max_extraction_urls_def)
qed

text \<open>Two times the same URL, and the same request with the repetition removed.\<close>

definition plain_request :: "string list \<Rightarrow> fetch_request" where
  "plain_request urls = \<lparr>fr_urls = urls, fr_capabilities = [Cap_Markdown], fr_structured_formats = [],
     fr_extraction_schema = None, fr_force_refresh = False, fr_stale_while_revalidate = False, fr_watch = None\<rparr>"

theorem fetch_request_accepted_iff_witness:
  "validate_unique_values (\<lambda>_. ''0'') (plain_request [''a'', ''a'']) \<noteq> None \<and>
   validate_unique_values (\<lambda>_. ''0'') (plain_request [''a'']) = None"
  unfolding fetch_request_accepted_iff by (simp add: plain_request_def)

end
