(* ===== verification/Chunk_Service.thy ===== *)
theory Chunk_Service
  imports Cluster_Semantic Json "HOL-Library.Multiset"
begin

text \<open>
  The HTTP face of the semantic chunking service: \<open>chunking/strategies.py\<close> (strategy registry),
  \<open>chunking/textprep.py\<close> (pre-cleaning), \<open>chunking/embedding_function.py\<close> (batched calls to the
  embedding endpoint) and the \<open>/chunk\<close> route of \<open>chunking/app.py\<close>.  The endpoint itself is the parameter
  \<open>upstream\<close>: what it answers to a batch; numpy's percentile is the parameter \<open>pct\<close>.  A raised
  \<open>KeyError\<close> or \<open>ValueError\<close> is \<^term>\<open>Inl\<close> of an error value, which the route turns into status 400 (the text of the message is
  not modelled); a run
  that does not return is \<^term>\<open>None\<close>.
\<close>

section \<open>Strategies\<close>

record strategy_params =
  max_chunk_tokens :: int
  min_chunk_tokens :: int
  initial_segment_tokens :: int

text \<open>\<open>ChunkParams\<close> after \<open>model_dump(exclude_none=True)\<close>: the overrides that are present.\<close>

record chunk_params =
  max_override :: "int option"
  min_override :: "int option"
  initial_override :: "int option"

definition strategies :: "(string \<times> strategy_params) list" where
  "strategies = [(''cluster-semantic@1'',
     \<lparr>max_chunk_tokens = 400, min_chunk_tokens = 50, initial_segment_tokens = 50\<rparr>)]"

text \<open>The \<open>KeyError\<close> and the two \<open>ValueError\<close>s of \<open>resolve_strategy\<close>.\<close>

datatype strategy_error =
    Unknown_Strategy_Version string
  | Initial_Segment_Above_Max
  | Min_Chunk_Above_Max

definition get_or :: "'a option \<Rightarrow> 'a \<Rightarrow> 'a" where
  "get_or value d = (case value of None \<Rightarrow> d | Some x \<Rightarrow> x)"

definition resolve_strategy :: "string \<Rightarrow> chunk_params option \<Rightarrow> strategy_error + strategy_params" where
  "resolve_strategy version overrides =
     (case map_of strategies version of
        None \<Rightarrow> Inl (Unknown_Strategy_Version version)
      | Some base \<Rightarrow>
          (let params = (case overrides of None \<Rightarrow> base | Some ov \<Rightarrow>
                 \<lparr>max_chunk_tokens = get_or (max_override ov) (max_chunk_tokens base),
                  min_chunk_tokens = get_or (min_override ov) (min_chunk_tokens base),
                  initial_segment_tokens = get_or (initial_override ov) (initial_segment_tokens base)\<rparr>)
           in if initial_segment_tokens params > max_chunk_tokens params
              then Inl Initial_Segment_Above_Max
              else if min_chunk_tokens params > max_chunk_tokens params
              then Inl Min_Chunk_Above_Max
              else Inr params))"

section \<open>Pre-cleaning\<close>

text \<open>
  One match of the pattern for a line that only embeds an image, tried at the start of a line: white
  space, \<open>![\<close>, anything but \<open>]\<close>, \<open>](\<close>, anything but \<open>)\<close>, \<open>)\<close>, white space, end of line.  The
  trailing white space is greedy and gives back characters until a line ends there: it takes all of
  the white space that follows if that reaches the end of the text, and otherwise all of it up to the
  last newline in it.  The result is the text after the match.
\<close>

definition line_end_split :: "string \<Rightarrow> string option" where
  "line_end_split s =
     (let ws = takeWhile py_isspace s; rest = dropWhile py_isspace s in
      if rest = [] then Some []
      else if CHR 0x0A \<in> set ws
      then Some (CHR 0x0A # rev (takeWhile (\<lambda>c. c \<noteq> CHR 0x0A) (rev ws)) @ rest)
      else None)"

definition image_line_match :: "string \<Rightarrow> string option" where
  "image_line_match s =
     (let s1 = dropWhile py_isspace s in
      if \<not> py_startswith s1 ''!['' then None
      else (let s2 = dropWhile (\<lambda>c. c \<noteq> CHR '']'') (drop 2 s1) in
        if \<not> py_startswith s2 (CHR '']'' # ''('') then None
        else (let s3 = dropWhile (\<lambda>c. c \<noteq> CHR '')'') (drop 2 s2) in
          if s3 = [] then None else line_end_split (tl s3))))"

text \<open>
  \<open>_IMAGE_LINE.sub("", text)\<close>, reading from the left; \<open>bol\<close> says that a line starts here.  After a match
  a line starts again only if the last character matched is a newline.
\<close>

definition last_is_newline :: "string \<Rightarrow> bool" where
  "last_is_newline s \<longleftrightarrow> s \<noteq> [] \<and> last s = CHR 0x0A"

lemma line_end_split_le: "line_end_split s = Some rest \<Longrightarrow> length rest \<le> length s"
proof -
  let ?ws = "takeWhile py_isspace s"
  assume "line_end_split s = Some rest"
  moreover have "length (takeWhile (\<lambda>c. c \<noteq> CHR 0x0A) (rev ?ws)) < length ?ws" if "CHR 0x0A \<in> set ?ws"
  proof -
    have "takeWhile (\<lambda>c. c \<noteq> CHR 0x0A) (rev ?ws) \<noteq> rev ?ws"
      using that takeWhile_eq_all_conv [of "\<lambda>c. c \<noteq> CHR 0x0A" "rev ?ws"] by auto
    then show ?thesis
      by (metis length_rev length_takeWhile_le nat_less_le takeWhile_eq_take take_all)
  qed
  moreover have "length ?ws + length (dropWhile py_isspace s) = length s"
    by (metis length_append takeWhile_dropWhile_id)
  ultimately show ?thesis by (auto simp: line_end_split_def Let_def split: if_splits)
qed

lemma image_line_match_shorter: "image_line_match s = Some rest \<Longrightarrow> length rest < length s"
proof -
  let ?s1 = "dropWhile py_isspace s"
  let ?s2 = "dropWhile (\<lambda>c. c \<noteq> CHR '']'') (drop 2 ?s1)"
  let ?s3 = "dropWhile (\<lambda>c. c \<noteq> CHR '')'') (drop 2 ?s2)"
  assume "image_line_match s = Some rest"
  then have "?s3 \<noteq> []" and "line_end_split (tl ?s3) = Some rest"
    by (auto simp: image_line_match_def Let_def split: if_splits)
  then have "length rest < length ?s3" using line_end_split_le [of "tl ?s3" rest] by (cases ?s3) auto
  also have "length ?s3 \<le> length ?s2"
    using length_dropWhile_le [of "\<lambda>c. c \<noteq> CHR '')''" "drop 2 ?s2"] by simp
  also have "length ?s2 \<le> length ?s1"
    using length_dropWhile_le [of "\<lambda>c. c \<noteq> CHR '']''" "drop 2 ?s1"] by simp
  also have "length ?s1 \<le> length s" by (rule length_dropWhile_le)
  finally show ?thesis .
qed

function drop_image_lines :: "bool \<Rightarrow> string \<Rightarrow> string" where
  "drop_image_lines bol s =
     (case s of
        [] \<Rightarrow> []
      | c # cs \<Rightarrow>
          (case (if bol then image_line_match s else None) of
             Some rest \<Rightarrow> drop_image_lines (last_is_newline (take (length s - length rest) s)) rest
           | None \<Rightarrow> c # drop_image_lines (c = CHR 0x0A) cs))"
  by pat_completeness auto
termination
proof (relation "measure (\<lambda>(bol, s). length s)", goal_cases)
  case (3 bol s c cs rest)
  then show ?case by (auto dest: image_line_match_shorter split: if_splits)
qed (auto dest: image_line_match_shorter split: if_splits)

declare drop_image_lines.simps [simp del]

text \<open>\<open>_MULTI_BLANK.sub("\n\n", text)\<close>: \<open>k\<close> newlines have just been read.\<close>

fun collapse_from :: "nat \<Rightarrow> string \<Rightarrow> string" where
  "collapse_from k [] = replicate (if k \<ge> 3 then 2 else k) (CHR 0x0A)"
| "collapse_from k (c # cs) =
     (if c = CHR 0x0A then collapse_from (Suc k) cs
      else replicate (if k \<ge> 3 then 2 else k) (CHR 0x0A) @ c # collapse_from 0 cs)"

definition collapse_blank_lines :: "string \<Rightarrow> string" where
  "collapse_blank_lines s = collapse_from 0 s"

datatype source_type = DOCUMENT | WEB_MARKDOWN | ORCHESTRATOR_MARKDOWN

definition preclean :: "string \<Rightarrow> source_type \<Rightarrow> string" where
  "preclean tx st =
     py_strip (if st = WEB_MARKDOWN then collapse_blank_lines (drop_image_lines True tx) else tx)"

section \<open>The embedding client\<close>

text \<open>
  \<open>upstream batch_num texts\<close> is \<^term>\<open>None\<close> when the call raises (transport error, or a body that is not
  of the expected shape), and otherwise the status code and the items of \<open>data\<close>, each with its index.
\<close>

type_synonym upstream = "nat \<Rightarrow> string list \<Rightarrow> (int \<times> (int \<times> real list) list) option"

definition call_embedding_api :: "upstream \<Rightarrow> string list \<Rightarrow> nat \<Rightarrow> real list list option" where
  "call_embedding_api up texts batch_num =
     (case up batch_num texts of
        None \<Rightarrow> None
      | Some (status, items) \<Rightarrow> if status \<noteq> 200 then None else Some (map snd (sort_key fst items)))"

fun embed_batches :: "upstream \<Rightarrow> nat \<Rightarrow> string list \<Rightarrow> nat list \<Rightarrow> real list list \<Rightarrow> real list list option" where
  "embed_batches up size0 input [] acc = Some acc"
| "embed_batches up size0 input (idx # idxs) acc =
     (let batch_start = idx * size0; batch_end = min (batch_start + size0) (length input);
          batch = take (batch_end - batch_start) (drop batch_start input)
      in case call_embedding_api up batch (idx + 1) of
           None \<Rightarrow> None
         | Some es \<Rightarrow> embed_batches up size0 input idxs (acc @ es))"

definition embed :: "upstream \<Rightarrow> nat \<Rightarrow> string list \<Rightarrow> real list list option" where
  "embed up size0 input =
     (if input = [] then Some []
      else embed_batches up size0 input [0..<(length input + size0 - 1) div size0] [])"

section \<open>The route\<close>

record chunk_request =
  req_text :: string
  req_source_type :: source_type
  req_strategy_version :: "string option"
  req_params :: "chunk_params option"
  req_metadata :: json_object

record chunk_out =
  out_text :: string
  out_token_count :: nat
  out_position :: nat
  out_start_index :: nat
  out_end_index :: nat
  out_verbatim :: bool
  out_metadata :: json_object

record chunk_response =
  resp_chunks :: "chunk_out list"
  resp_strategy_version :: string
  resp_chunk_count :: nat
  resp_chunk_strategy :: string
  resp_embedding_degraded :: bool

record service_settings =
  default_strategy_version :: string
  embedding_batch_size :: nat
  chunker_max_segments_dp :: nat

definition chunk_out_of :: "json_object \<Rightarrow> string \<Rightarrow> nat \<Rightarrow> chunk_result \<Rightarrow> chunk_out" where
  "chunk_out_of metadata version i r =
     \<lparr>out_text = chunk_text r, out_token_count = token_count r, out_position = i,
      out_start_index = start_index r, out_end_index = end_index r, out_verbatim = verbatim r,
      out_metadata = jset (jset (jset metadata ''strategy_version'' (JStr version))
         ''chunk_strategy'' (JStr (chunk_strategy r)))
         ''embedding_degraded'' (JBool (embedding_degraded r))\<rparr>"

definition response_of :: "json_object \<Rightarrow> string \<Rightarrow> chunk_result list \<Rightarrow> chunk_response" where
  "response_of metadata version rs =
     \<lparr>resp_chunks = map (\<lambda>(i, r). chunk_out_of metadata version i r) (enumerate 0 rs),
      resp_strategy_version = version, resp_chunk_count = length rs,
      resp_chunk_strategy = (if rs \<noteq> [] then chunk_strategy (hd rs) else version),
      resp_embedding_degraded = list_ex embedding_degraded rs\<rparr>"

text \<open>\<open>req.strategy_version or settings.default_strategy_version\<close>.\<close>

definition effective_version :: "service_settings \<Rightarrow> chunk_request \<Rightarrow> string" where
  "effective_version settings req =
     (case req_strategy_version req of
        None \<Rightarrow> default_strategy_version settings
      | Some v \<Rightarrow> if v = [] then default_strategy_version settings else v)"

text \<open>\<open>Some (Inl (400, detail))\<close> is the \<open>HTTPException\<close>.\<close>

definition chunk ::
  "(real list \<Rightarrow> real \<Rightarrow> real) \<Rightarrow> upstream \<Rightarrow> service_settings \<Rightarrow> chunk_request
   \<Rightarrow> ((int \<times> strategy_error) + chunk_response) option" where
  "chunk pct up settings req =
     (let version = effective_version settings req
      in case resolve_strategy version (req_params req) of
           Inl detail \<Rightarrow> Some (Inl (400, detail))
         | Inr params \<Rightarrow>
             (let preserve = (req_source_type req = ORCHESTRATOR_MARKDOWN);
                  tx = (if preserve then req_text req else preclean (req_text req) (req_source_type req));
                  chunker = make_chunker (embed up (embedding_batch_size settings))
                    (max_chunk_tokens params) (min_chunk_tokens params) (initial_segment_tokens params)
                    (Some word_count) (chunker_max_segments_dp settings)
              in map_option (\<lambda>rs. Inr (response_of (req_metadata req) version rs))
                   (split_text_with_metadata pct chunker tx preserve)))"

section \<open>Batches keep the order of the segments\<close>

lemma sort_by_index:
  assumes "mset items = mset (map (\<lambda>(i, v). (int i, v)) (enumerate 0 vs))"
  shows "map snd (sort_key fst items) = vs"
proof -
  let ?xs = "map (\<lambda>(i, v). (int i, v)) (enumerate 0 vs)"
  have fst: "map fst ?xs = map int [0..<length vs]" and snd: "map snd ?xs = vs"
    by (auto intro: nth_equalityI simp: nth_enumerate_eq)
  have "sorted (map fst ?xs)" unfolding fst by (simp add: sorted_map)
  have "inj_on fst (set ?xs)"
    using distinct_map [of fst ?xs] unfolding fst by (auto simp: distinct_map)
  then have "inj_on fst (set items)" using assms by (metis mset_eq_setD)
  have "sort_key fst items = ?xs"
    by (rule sort_key_inj_key_eq [OF assms \<open>inj_on fst (set items)\<close> \<open>sorted (map fst ?xs)\<close>])
  then show ?thesis using snd by simp
qed

text \<open>The endpoint answers a batch with one item per text, carrying the index of the text, in any order.\<close>

definition answers_with :: "upstream \<Rightarrow> (string \<Rightarrow> real list) \<Rightarrow> bool" where
  "answers_with up vec \<longleftrightarrow> (\<forall>k texts. \<exists>items. up k texts = Some (200, items) \<and>
     mset items = mset (map (\<lambda>(i, t). (int i, vec t)) (enumerate 0 texts)))"

lemma call_embedding_api_vec:
  assumes "answers_with up vec"
  shows "call_embedding_api up texts k = Some (map vec texts)"
proof -
  obtain items where up: "up k texts = Some (200, items)"
    and items: "mset items = mset (map (\<lambda>(i, t). (int i, vec t)) (enumerate 0 texts))"
    using assms unfolding answers_with_def by blast
  have "map (\<lambda>(i, t). (int i, vec t)) (enumerate 0 texts) = map (\<lambda>(i, v). (int i, v)) (enumerate 0 (map vec texts))"
    by (auto intro: nth_equalityI simp: nth_enumerate_eq)
  then have "map snd (sort_key fst items) = map vec texts"
    using items by (intro sort_by_index) simp
  then show ?thesis using up by (simp add: call_embedding_api_def)
qed

lemma embed_batches_vec:
  assumes "answers_with up vec" and "a \<le> b" and "\<And>i. i < b \<Longrightarrow> i * sz \<le> length input"
  shows "embed_batches up sz input [a..<b] (map vec (take (min (a * sz) (length input)) input)) =
     Some (map vec (take (min (b * sz) (length input)) input))"
  using assms(2,3)
proof (induction "b - a" arbitrary: a)
  case 0
  then show ?case by simp
next
  case (Suc d)
  then have ab: "a < b" and le: "a * sz \<le> length input" by simp_all
  then have upt: "[a..<b] = a # [Suc a..<b]" by (simp add: upt_conv_Cons)
  let ?e = "min (a * sz + sz) (length input)"
  have "take (min (a * sz) (length input)) input @ take (?e - a * sz) (drop (a * sz) input) =
      take (min (Suc a * sz) (length input)) input"
    using take_drop_append [of 0 "a * sz" ?e input] le by (simp add: add.commute)
  then show ?case
    using Suc.hyps(1) [of "Suc a"] Suc.hyps(2) Suc.prems ab le
    by (simp add: upt call_embedding_api_vec [OF assms(1)] Let_def map_append [symmetric] del: map_append)
qed

section \<open>Properties\<close>

text \<open>
  When the endpoint answers every batch with status 200 and one item per text, the items in any
  order, the client returns one vector per segment in the order of the segments, whatever the batch
  size: the last, shorter batch and the sort by index put every vector in its place.
\<close>

theorem embed_keeps_order:
  assumes "answers_with up vec" and "1 \<le> sz"
  shows "embed up sz input = Some (map vec input)"
proof (cases "input = []")
  case False
  let ?n = "(length input + sz - 1) div sz"
  have top: "length input \<le> ?n * sz"
    using assms(2) div_mult_mod_eq [of "length input + sz - 1" sz]
      mod_less_divisor [of sz "length input + sz - 1"] by linarith
  have "i * sz \<le> length input" if "i < ?n" for i
  proof -
    have "Suc i * sz \<le> ?n * sz" using that by (intro mult_right_mono) auto
    also have "?n * sz \<le> length input + sz - 1" by (rule div_times_less_eq_dividend)
    finally show ?thesis using assms(2) by simp
  qed
  then have "embed_batches up sz input [0..<?n] [] = Some (map vec (take (min (?n * sz) (length input)) input))"
    using embed_batches_vec [OF assms(1), of 0 ?n sz input] by simp
  then show ?thesis using False top by (simp add: embed_def min_def)
qed (simp add: embed_def)

theorem embed_keeps_order_witness:
  "embed (\<lambda>k texts. Some (200, rev (map (\<lambda>(i, t). (int i, [real (length t)])) (enumerate 0 texts)))) 2
     [''a'', ''bb'', ''ccc''] = Some [[1], [2], [3]]"
proof -
  have "answers_with (\<lambda>k texts. Some (200, rev (map (\<lambda>(i, t). (int i, [real (length t)])) (enumerate 0 texts))))
      (\<lambda>t. [real (length t)])"
    by (simp add: answers_with_def)
  from embed_keeps_order [OF this, of 2 "[''a'', ''bb'', ''ccc'']"] show ?thesis by simp
qed


definition sample_request :: "int \<Rightarrow> chunk_request" where
  "sample_request initial = \<lparr>req_text = ''a b'', req_source_type = DOCUMENT,
     req_strategy_version = Some ''cluster-semantic@1'',
     req_params = Some \<lparr>max_override = None, min_override = None, initial_override = Some initial\<rparr>,
     req_metadata = []\<rparr>"


text \<open>
  An \<open>initial_segment_tokens\<close> override of 0 passes \<open>resolve_strategy\<close>, which only compares it
  with the maximum, and the request never returns: for every document with visible text after
  pre-cleaning the worker stays in the splitter's loop.
\<close>

theorem chunk_zero_initial_hangs:
  assumes "req_strategy_version req = Some ''cluster-semantic@1''"
    and "req_params req = Some \<lparr>max_override = None, min_override = None, initial_override = Some 0\<rparr>"
    and "req_source_type req = DOCUMENT" and "\<not> py_blank (req_text req)"
  shows "chunk pct up settings req = None"
proof -
  have vis: "\<not> py_blank (py_strip (req_text req))"
    using assms(4) by (simp add: py_blank_strip)
  have "split_text (make_splitter 0 0 None (Some word_count)) tx = None" if "\<not> py_blank tx" for tx
    using zero_size_diverges [OF that, of 0] by (simp add: make_splitter_def)
  then have "split_text_with_metadata pct (make_chunker emb 400 50 0 (Some word_count) k)
      (py_strip (req_text req)) False = None" for emb k
    using vis assms(4) by (auto simp: split_text_with_metadata_def segment_text_def make_chunker_def py_blank_def)
  then show ?thesis
    using assms
    by (simp add: chunk_def effective_version_def resolve_strategy_def strategies_def get_or_def preclean_def Let_def)
qed

theorem chunk_zero_initial_hangs_witness:
  "chunk (\<lambda>_ _. 0) (\<lambda>_ _. None) \<lparr>default_strategy_version = [], embedding_batch_size = 8,
     chunker_max_segments_dp = 100\<rparr> (sample_request 0) = None"
  by (rule chunk_zero_initial_hangs)
    (simp_all add: sample_request_def py_blank_iff py_isspace_def py_spaces_def)

end
