(* ===== verification/Job_Store.thy ===== *)
theory Job_Store
  imports Wire_Models
begin

text \<open>
  \<open>orchestrator/crawl_job_store.py\<close>: the durable store of asynchronous crawl jobs.  The three SQLite
  tables are lists of rows in insertion order; every method is one transaction, a function from its
  arguments and the database to a result or an error and the database it commits.  The clock is an
  argument.  An error raised after the \<open>with\<close> block leaves the changes committed, one raised inside it
  (a violated constraint included) rolls them back.  JSON columns hold the value they encode;
  \<open>result_bytes\<close>, the UTF-8 length of a result's JSON text, is a parameter, as is the job id that
  \<open>uuid4\<close> draws.  Creating, migrating and quarantining the database file is not modelled.
\<close>

section \<open>Tables\<close>

record job_row =
  job_id :: string
  scope_hash :: string
  idempotency_hash :: "string option"
  request_fingerprint :: string
  job_request :: crawl_request
  state :: job_state
  created_at :: pyfloat
  started_at :: "pyfloat option"
  terminal_at :: "pyfloat option"
  retention_deadline :: "pyfloat option"
  purge_after :: "pyfloat option"
  cancel_requested :: bool
  pages_target :: int
  pages_processed :: int
  pages_succeeded :: int
  pages_failed :: int
  attempts :: int
  failure_summaries :: "string list"
  outcome :: "string option"
  warnings :: "string list"

record result_row =
  result_job :: string
  result_key :: string
  ordinal :: int
  result_value :: fetch_result
  item_bytes :: nat
  result_created_at :: pyfloat

record failure_row =
  failure_job :: string
  failure_key :: string
  summary :: string
  failure_created_at :: pyfloat

record job_db =
  jobs :: "job_row list"
  results :: "result_row list"
  failures :: "failure_row list"

definition empty_db :: job_db where
  "empty_db = \<lparr>jobs = [], results = [], failures = []\<rparr>"

record store_config =
  retention_s :: pyfloat
  tombstone_s :: pyfloat
  max_failure_summaries :: nat
  max_failure_summary_chars :: nat
  max_result_item_bytes :: nat
  max_records :: nat
  result_bytes :: "fetch_result \<Rightarrow> nat"

datatype 'r store_error =
    Idempotency_Conflict
  | Queue_Full
  | Job_Not_Found
  | Job_Expired 'r
  | Result_Too_Large nat
  | Integrity_Error

text \<open>\<open>CrawlJobRecord\<close>: a job row with its results counted.\<close>

record job_record =
  rec_row :: job_row
  results_available :: nat

type_synonym 'a outcome_of = "(job_record store_error + 'a) \<times> job_db"

text \<open>\<open>UPDATE ... SET f WHERE p\<close> on the jobs table, and its row count.\<close>

definition update_jobs :: "(job_row \<Rightarrow> bool) \<Rightarrow> (job_row \<Rightarrow> job_row) \<Rightarrow> job_db \<Rightarrow> job_db" where
  "update_jobs p f db = db\<lparr>jobs := map (\<lambda>j. if p j then f j else j) (jobs db)\<rparr>"

definition count_jobs :: "(job_row \<Rightarrow> bool) \<Rightarrow> job_db \<Rightarrow> nat" where
  "count_jobs p db = length (filter p (jobs db))"

definition select_job :: "string \<Rightarrow> job_db \<Rightarrow> job_row option" where
  "select_job i db = List.find (\<lambda>j. job_id j = i) (jobs db)"

definition select_scoped_job :: "string \<Rightarrow> string \<Rightarrow> job_db \<Rightarrow> job_row option" where
  "select_scoped_job i s db = List.find (\<lambda>j. job_id j = i \<and> scope_hash j = s) (jobs db)"

definition results_of :: "string \<Rightarrow> job_db \<Rightarrow> result_row list" where
  "results_of i db = filter (\<lambda>r. result_job r = i) (results db)"

definition failures_of :: "string \<Rightarrow> job_db \<Rightarrow> failure_row list" where
  "failures_of i db = filter (\<lambda>r. failure_job r = i) (failures db)"

definition make_record :: "job_db \<Rightarrow> job_row \<Rightarrow> job_record" where
  "make_record db j = \<lparr>rec_row = j, results_available = length (results_of (job_id j) db)\<rparr>"

definition terminal_states :: "job_state list" where
  "terminal_states = [Completed, Partial, Failed, Cancelled]"

definition is_terminal :: "job_state \<Rightarrow> bool" where
  "is_terminal s \<longleftrightarrow> s \<in> set terminal_states"

section \<open>Expiry\<close>

definition due :: "pyfloat \<Rightarrow> job_row \<Rightarrow> bool" where
  "due now j \<longleftrightarrow> is_terminal (state j) \<and> (case retention_deadline j of None \<Rightarrow> False | Some d \<Rightarrow> d \<le> now)"

definition purgeable :: "pyfloat \<Rightarrow> job_row \<Rightarrow> bool" where
  "purgeable now j \<longleftrightarrow> state j = Expired \<and> (case purge_after j of None \<Rightarrow> False | Some d \<Rightarrow> d \<le> now)"

definition expire_one :: "store_config \<Rightarrow> job_row \<Rightarrow> job_db \<Rightarrow> job_db" where
  "expire_one cfg row db =
     update_jobs (\<lambda>j. job_id j = job_id row)
       (\<lambda>j. j\<lparr>state := Expired, idempotency_hash := None, cancel_requested := False,
              purge_after := map_option (\<lambda>d. d + tombstone_s cfg) (retention_deadline row)\<rparr>)
       (db\<lparr>results := filter (\<lambda>r. result_job r \<noteq> job_id row) (results db),
           failures := filter (\<lambda>r. failure_job r \<noteq> job_id row) (failures db)\<rparr>)"

text \<open>\<open>DELETE FROM crawl_jobs WHERE job_id = ?\<close> with its cascades.\<close>

definition delete_job :: "string \<Rightarrow> job_db \<Rightarrow> job_db" where
  "delete_job i db =
     \<lparr>jobs = filter (\<lambda>j. job_id j \<noteq> i) (jobs db),
      results = filter (\<lambda>r. result_job r \<noteq> i) (results db),
      failures = filter (\<lambda>r. failure_job r \<noteq> i) (failures db)\<rparr>"

definition expire_due :: "store_config \<Rightarrow> pyfloat \<Rightarrow> job_db \<Rightarrow> job_db" where
  "expire_due cfg now db =
     (let db1 = fold (expire_one cfg) (filter (due now) (jobs db)) db
      in fold delete_job (map job_id (filter (purgeable now) (jobs db1))) db1)"

section \<open>Operations\<close>

definition new_job :: "string \<Rightarrow> string \<Rightarrow> string \<Rightarrow> string \<Rightarrow> crawl_request \<Rightarrow> pyfloat \<Rightarrow> job_row" where
  "new_job i scope idem fp req now =
     \<lparr>job_id = i, scope_hash = scope, idempotency_hash = Some idem, request_fingerprint = fp,
      job_request = req, state = Queued, created_at = now, started_at = None, terminal_at = None,
      retention_deadline = None, purge_after = None, cancel_requested = False,
      pages_target = site_max_pages req, pages_processed = 0, pages_succeeded = 0, pages_failed = 0,
      attempts = 0, failure_summaries = [], outcome = None, warnings = []\<rparr>"

text \<open>The result is the record and whether it was replayed.\<close>

definition claim ::
  "store_config \<Rightarrow> string \<Rightarrow> string \<Rightarrow> string \<Rightarrow> string \<Rightarrow> crawl_request \<Rightarrow> pyfloat \<Rightarrow> job_db
   \<Rightarrow> (job_record \<times> bool) outcome_of" where
  "claim cfg i scope idem fp req now db0 =
     (let db = expire_due cfg now db0 in
      case List.find (\<lambda>j. scope_hash j = scope \<and> idempotency_hash j = Some idem) (jobs db) of
        Some row \<Rightarrow>
          if request_fingerprint row \<noteq> fp then (Inl Idempotency_Conflict, db)
          else (Inr (make_record db row, True), db)
      | None \<Rightarrow>
          if length (jobs db) \<ge> max_records cfg then (Inl Queue_Full, db)
          else if select_job i db \<noteq> None then (Inl Integrity_Error, db0)
          else (let db' = db\<lparr>jobs := jobs db @ [new_job i scope idem fp req now]\<rparr>
                in (Inr (make_record db' (new_job i scope idem fp req now), False), db')))"

definition get_job :: "store_config \<Rightarrow> string \<Rightarrow> string \<Rightarrow> pyfloat \<Rightarrow> job_db \<Rightarrow> job_record outcome_of" where
  "get_job cfg i scope now db0 =
     (let db = expire_due cfg now db0 in
      case select_scoped_job i scope db of
        None \<Rightarrow> (Inl Job_Not_Found, db)
      | Some row \<Rightarrow>
          if state row = Expired then (Inl (Job_Expired (make_record db row)), db)
          else (Inr (make_record db row), db))"

definition get_any :: "string \<Rightarrow> job_db \<Rightarrow> job_record option" where
  "get_any i db = map_option (make_record db) (select_job i db)"

definition close_row :: "store_config \<Rightarrow> pyfloat \<Rightarrow> job_state \<Rightarrow> string option \<Rightarrow> job_row \<Rightarrow> job_row" where
  "close_row cfg now s out j =
     j\<lparr>state := s, terminal_at := Some now, retention_deadline := Some (now + retention_s cfg),
       outcome := out\<rparr>"

definition recover_interrupted :: "store_config \<Rightarrow> int \<Rightarrow> pyfloat \<Rightarrow> job_db \<Rightarrow> nat \<times> job_db" where
  "recover_interrupted cfg max_attempts now db =
     (let p1 = (\<lambda>j. state j = Running \<and> cancel_requested j);
          db1 = update_jobs p1
            (\<lambda>j. (close_row cfg now Cancelled (Some ''cancelled'') j)\<lparr>cancel_requested := False\<rparr>) db;
          p2 = (\<lambda>j. state j = Running \<and> attempts j \<ge> max_attempts);
          db2 = update_jobs p2
            (\<lambda>j. (close_row cfg now Failed (Some ''local_processing_failure'') j)
                   \<lparr>failure_summaries := [''restart_retry_exhausted'']\<rparr>) db1;
          p3 = (\<lambda>j. state j = Running \<and> attempts j < max_attempts);
          db3 = update_jobs p3 (\<lambda>j. j\<lparr>state := Queued\<rparr>) db2
      in (count_jobs p1 db + count_jobs p2 db1 + count_jobs p3 db2, db3))"

text \<open>\<open>ORDER BY created_at, job_id LIMIT 1\<close>.\<close>

definition before :: "job_row \<Rightarrow> job_row \<Rightarrow> bool" where
  "before a b \<longleftrightarrow> created_at a < created_at b \<or> (created_at a = created_at b \<and> job_id a \<le> job_id b)"

fun first_job :: "job_row list \<Rightarrow> job_row option" where
  "first_job [] = None"
| "first_job (j # js) =
     (case first_job js of None \<Rightarrow> Some j | Some k \<Rightarrow> if before j k then Some j else Some k)"

definition claim_next :: "store_config \<Rightarrow> pyfloat \<Rightarrow> job_db \<Rightarrow> job_record option \<times> job_db" where
  "claim_next cfg now db0 =
     (let db = expire_due cfg now db0 in
      case first_job (filter (\<lambda>j. state j = Queued) (jobs db)) of
        None \<Rightarrow> (None, db)
      | Some row \<Rightarrow>
          (let db' = update_jobs (\<lambda>j. job_id j = job_id row \<and> state j = Queued)
                 (\<lambda>j. j\<lparr>state := Running,
                        started_at := (case started_at j of None \<Rightarrow> Some now | Some t \<Rightarrow> Some t),
                        attempts := attempts j + 1\<rparr>) db
           in (get_any (job_id row) db', db')))"

definition increment_attempt :: "string \<Rightarrow> job_db \<Rightarrow> job_record outcome_of" where
  "increment_attempt i db =
     (let db' = update_jobs (\<lambda>j. job_id j = i \<and> state j = Running) (\<lambda>j. j\<lparr>attempts := attempts j + 1\<rparr>) db
      in case select_job i db' of
           None \<Rightarrow> (Inl Job_Not_Found, db)
         | Some row \<Rightarrow> (Inr (make_record db' row), db'))"

definition max_ordinal :: "result_row list \<Rightarrow> int" where
  "max_ordinal rs = fold (\<lambda>r m. max m (ordinal r)) rs 0"

text \<open>\<open>tuple(dict.fromkeys(keys))\<close>: without repetitions, in order of first appearance.\<close>

definition dedupe_keys :: "string list \<Rightarrow> string list" where
  "dedupe_keys ks = rev (remdups (rev ks))"

definition append_result ::
  "store_config \<Rightarrow> string \<Rightarrow> string \<Rightarrow> fetch_result \<Rightarrow> string list \<Rightarrow> pyfloat \<Rightarrow> job_db \<Rightarrow> bool outcome_of" where
  "append_result cfg i key res failure_keys now db =
     (if result_bytes cfg res > max_result_item_bytes cfg
      then (Inl (Result_Too_Large (result_bytes cfg res)), db)
      else if list_ex (\<lambda>r. result_key r = key) (results_of i db) then (Inr False, db)
      else if select_job i db = None then (Inl Integrity_Error, db)
      else
        (let row = \<lparr>result_job = i, result_key = key, ordinal = max_ordinal (results_of i db) + 1,
               result_value = res, item_bytes = result_bytes cfg res, result_created_at = now\<rparr>;
             success = (res_outcome res = Content);
             keys = dedupe_keys (key # failure_keys);
             hit = (\<lambda>f. failure_job f = i \<and> failure_key f \<in> set keys);
             prior = int (length (filter hit (failures db)))
         in (Inr True,
             update_jobs (\<lambda>j. job_id j = i \<and> state j = Running)
               (\<lambda>j. j\<lparr>pages_processed := max 0 (pages_processed j - prior + 1),
                      pages_succeeded := pages_succeeded j + (if success then 1 else 0),
                      pages_failed := max 0 (pages_failed j - prior + (if success then 0 else 1))\<rparr>)
               (db\<lparr>results := results db @ [row], failures := filter (\<lambda>f. \<not> hit f) (failures db)\<rparr>))))"

definition add_summary :: "store_config \<Rightarrow> string \<Rightarrow> string list \<Rightarrow> string list" where
  "add_summary cfg s vs = (if s \<notin> set vs \<and> length vs < max_failure_summaries cfg then vs @ [s] else vs)"

definition append_failure :: "store_config \<Rightarrow> string \<Rightarrow> string \<Rightarrow> string \<Rightarrow> pyfloat \<Rightarrow> job_db \<Rightarrow> unit outcome_of" where
  "append_failure cfg i key tx now db =
     (let bounded = take (max_failure_summary_chars cfg) tx in
      if list_ex (\<lambda>r. result_key r = key) (results_of i db) then (Inr (), db)
      else
        (let known = list_ex (\<lambda>f. failure_key f = key) (failures_of i db) in
         if \<not> known \<and> select_job i db = None then (Inl Integrity_Error, db)
         else
           (let db1 = (if known
                  then db\<lparr>failures := map (\<lambda>f. if failure_job f = i \<and> failure_key f = key
                                             then f\<lparr>summary := bounded\<rparr> else f) (failures db)\<rparr>
                  else db\<lparr>failures := failures db @ [\<lparr>failure_job = i, failure_key = key,
                         summary = bounded, failure_created_at = now\<rparr>]\<rparr>);
                inc = (if known then 0 else 1)
            in case select_job i db1 of
                 None \<Rightarrow> (Inr (), db1)
               | Some row \<Rightarrow>
                   (Inr (),
                    update_jobs (\<lambda>j. job_id j = i \<and> state j = Running)
                      (\<lambda>j. j\<lparr>failure_summaries := add_summary cfg bounded (failure_summaries row),
                             pages_processed := pages_processed j + inc,
                             pages_failed := pages_failed j + inc\<rparr>) db1))))"

definition append_summary :: "store_config \<Rightarrow> string \<Rightarrow> string \<Rightarrow> job_db \<Rightarrow> job_db" where
  "append_summary cfg i tx db =
     (let bounded = take (max_failure_summary_chars cfg) tx in
      update_jobs (\<lambda>j. job_id j = i)
        (\<lambda>j. j\<lparr>failure_summaries := add_summary cfg bounded (failure_summaries j)\<rparr>) db)"

definition finish ::
  "store_config \<Rightarrow> string \<Rightarrow> job_state \<Rightarrow> string option \<Rightarrow> string list \<Rightarrow> pyfloat \<Rightarrow> job_db \<Rightarrow> job_record outcome_of" where
  "finish cfg i st out warns now db =
     (case select_job i db of
        None \<Rightarrow> (Inl Job_Not_Found, db)
      | Some row \<Rightarrow>
          if is_terminal (state row) \<or> state row = Expired then (Inr (make_record db row), db)
          else
            (let final_state = (if cancel_requested row then Cancelled else st);
                 db' = update_jobs (\<lambda>j. job_id j = i \<and> state j \<in> {Queued, Running})
                   (\<lambda>j. (close_row cfg now final_state out j)
                          \<lparr>warnings := take 32 warns, cancel_requested := False\<rparr>) db
             in (case select_job i db' of
                   None \<Rightarrow> (Inl Job_Not_Found, db)
                 | Some final \<Rightarrow> (Inr (make_record db' final), db'))))"

definition request_cancel :: "store_config \<Rightarrow> string \<Rightarrow> string \<Rightarrow> pyfloat \<Rightarrow> job_db \<Rightarrow> job_record outcome_of" where
  "request_cancel cfg i scope now db0 =
     (let db = expire_due cfg now db0 in
      case select_scoped_job i scope db of
        None \<Rightarrow> (Inl Job_Not_Found, db)
      | Some row \<Rightarrow>
          if state row = Expired then (Inl (Job_Expired (make_record db row)), db)
          else
            (let db' =
               (if state row = Queued then
                  update_jobs (\<lambda>j. job_id j = i \<and> state j = Queued)
                    (\<lambda>j. (close_row cfg now Cancelled (Some ''cancelled'') j)\<lparr>cancel_requested := False\<rparr>) db
                else if state row = Running then
                  update_jobs (\<lambda>j. job_id j = i) (\<lambda>j. j\<lparr>cancel_requested := True\<rparr>) db
                else db)
             in (case select_job i db' of
                   None \<Rightarrow> (Inl Job_Not_Found, db')
                 | Some final \<Rightarrow> (Inr (make_record db' final), db'))))"

section \<open>Pages of results\<close>

record result_page =
  page_results :: "fetch_result list"
  last_ordinal :: int
  returned_bytes :: nat
  has_more :: bool

text \<open>The loop of \<open>_build_result_page\<close>; the second component is \<open>oversized_item\<close>.\<close>

fun page_loop :: "int \<Rightarrow> int \<Rightarrow> result_row list \<Rightarrow> result_page \<Rightarrow> result_page \<times> nat option" where
  "page_loop max_items max_bytes [] pg = (pg, None)"
| "page_loop max_items max_bytes (r # rs) pg =
     (if int (length (page_results pg)) \<ge> max_items then (pg\<lparr>has_more := True\<rparr>, None)
      else if int (returned_bytes pg + item_bytes r) > max_bytes then
        (if page_results pg = [] then (pg, Some (item_bytes r)) else (pg\<lparr>has_more := True\<rparr>, None))
      else page_loop max_items max_bytes rs
             \<lparr>page_results = page_results pg @ [result_value r], last_ordinal = ordinal r,
              returned_bytes = returned_bytes pg + item_bytes r, has_more = has_more pg\<rparr>)"

definition build_result_page :: "result_row list \<Rightarrow> int \<Rightarrow> int \<Rightarrow> int \<Rightarrow> result_page \<times> nat option" where
  "build_result_page rows after max_items max_bytes =
     page_loop max_items max_bytes rows
       \<lparr>page_results = [], last_ordinal = after, returned_bytes = 0, has_more = False\<rparr>"

text \<open>\<open>WHERE ordinal > after ORDER BY ordinal LIMIT max_items + 1\<close>; a negative limit is no limit.\<close>

definition page_rows :: "string \<Rightarrow> int \<Rightarrow> int \<Rightarrow> job_db \<Rightarrow> result_row list" where
  "page_rows i after max_items db =
     (let rows = sort_key ordinal (filter (\<lambda>r. ordinal r > after) (results_of i db))
      in if max_items + 1 < 0 then rows else take (nat (max_items + 1)) rows)"

definition result_page_op ::
  "store_config \<Rightarrow> string \<Rightarrow> string \<Rightarrow> int \<Rightarrow> int \<Rightarrow> int \<Rightarrow> pyfloat \<Rightarrow> job_db
   \<Rightarrow> (job_record \<times> result_page) outcome_of" where
  "result_page_op cfg i scope after max_items max_bytes now db0 =
     (let db = expire_due cfg now db0 in
      case select_scoped_job i scope db of
        None \<Rightarrow> (Inl Job_Not_Found, db)
      | Some row \<Rightarrow>
          if state row = Expired then (Inl (Job_Expired (make_record db row)), db)
          else (case build_result_page (page_rows i after max_items db) after max_items max_bytes of
              (page, Some bytes) \<Rightarrow> (Inl (Result_Too_Large bytes), db)
            | (page, None) \<Rightarrow> (Inr (make_record db row, page), db)))"

definition cleanup :: "store_config \<Rightarrow> pyfloat \<Rightarrow> job_db \<Rightarrow> nat \<times> job_db" where
  "cleanup cfg now db =
     (let db' = expire_due cfg now db in (length (jobs db) - length (jobs db'), db'))"

end
