(* ===== verification/Job_Invariants.thy ===== *)
theory Job_Invariants
  imports Job_Store
begin

text \<open>
  The invariant of the job store and its preservation by every operation, as a step relation over the
  database: \<open>store_step\<close> has one rule per method, called with arbitrary arguments and clock values,
  under the discipline of the job worker (progress is reported for a job that is running, a job is
  finished with a terminal state).  \<open>reachable\<close> are the databases such steps lead to from an empty
  one, and the invariant holds of all of them.
\<close>

section \<open>The invariant\<close>

definition row_ok :: "store_config \<Rightarrow> job_row \<Rightarrow> bool" where
  "row_ok cfg j \<longleftrightarrow>
     0 \<le> attempts j \<and> length (warnings j) \<le> 32 \<and>
     length (failure_summaries j) \<le> max 1 (max_failure_summaries cfg) \<and>
     (is_terminal (state j) \<longrightarrow> terminal_at j \<noteq> None \<and> retention_deadline j \<noteq> None) \<and>
     (state j = Expired \<longrightarrow> idempotency_hash j = None \<and> purge_after j \<noteq> None) \<and>
     (state j = Running \<longrightarrow> started_at j \<noteq> None \<and> 1 \<le> attempts j) \<and>
     (cancel_requested j \<longrightarrow> state j = Running)"

definition succeeded :: "string \<Rightarrow> job_db \<Rightarrow> nat" where
  "succeeded i db = length (filter (\<lambda>r. res_outcome (result_value r) = Content) (results_of i db))"

definition unsuccessful :: "string \<Rightarrow> job_db \<Rightarrow> nat" where
  "unsuccessful i db = length (filter (\<lambda>r. res_outcome (result_value r) \<noteq> Content) (results_of i db))"

text \<open>The counters of a job tell what its result and failure rows say.\<close>

definition counted :: "job_db \<Rightarrow> job_row \<Rightarrow> bool" where
  "counted db j \<longleftrightarrow>
     pages_succeeded j = int (succeeded (job_id j) db) \<and>
     pages_failed j = int (length (failures_of (job_id j) db) + unsuccessful (job_id j) db) \<and>
     pages_processed j = pages_succeeded j + pages_failed j"

definition live_ids :: "job_db \<Rightarrow> string set" where
  "live_ids db = job_id ` {j \<in> set (jobs db). state j \<noteq> Expired}"

definition keyed :: "job_row list \<Rightarrow> bool" where
  "keyed js \<longleftrightarrow> distinct (map job_id js) \<and>
     (\<forall>j\<in>set js. \<forall>k\<in>set js. idempotency_hash j \<noteq> None \<longrightarrow> idempotency_hash j = idempotency_hash k \<longrightarrow>
        scope_hash j = scope_hash k \<longrightarrow> job_id j = job_id k)"

definition pages_ok :: "store_config \<Rightarrow> job_db \<Rightarrow> string \<Rightarrow> bool" where
  "pages_ok cfg db i \<longleftrightarrow>
     map ordinal (results_of i db) = map int [1..<Suc (length (results_of i db))] \<and>
     distinct (map result_key (results_of i db)) \<and> distinct (map failure_key (failures_of i db)) \<and>
     result_key ` set (results_of i db) \<inter> failure_key ` set (failures_of i db) = {} \<and>
     (\<forall>r\<in>set (results_of i db). item_bytes r = result_bytes cfg (result_value r) \<and>
        item_bytes r \<le> max_result_item_bytes cfg)"

definition store_inv :: "store_config \<Rightarrow> job_db \<Rightarrow> bool" where
  "store_inv cfg db \<longleftrightarrow>
     keyed (jobs db) \<and> length (jobs db) \<le> max_records cfg \<and>
     result_job ` set (results db) \<subseteq> live_ids db \<and> failure_job ` set (failures db) \<subseteq> live_ids db \<and>
     (\<forall>i. pages_ok cfg db i) \<and>
     (\<forall>j\<in>set (jobs db). row_ok cfg j \<and> (state j \<noteq> Expired \<longrightarrow> counted db j))"

lemma store_inv_empty: "store_inv cfg empty_db"
  by (simp add: store_inv_def empty_db_def keyed_def pages_ok_def results_of_def failures_of_def)

section \<open>Selection\<close>

lemma update_jobs_simps [simp]:
  "jobs (update_jobs p f db) = map (\<lambda>j. if p j then f j else j) (jobs db)"
  "results (update_jobs p f db) = results db"
  "failures (update_jobs p f db) = failures db"
  "results_of i (update_jobs p f db) = results_of i db"
  "failures_of i (update_jobs p f db) = failures_of i db"
  by (simp_all add: update_jobs_def results_of_def failures_of_def)

lemma counted_update [simp]: "counted (update_jobs p f db) j = counted db j"
  by (simp add: counted_def succeeded_def unsuccessful_def)

lemma pages_ok_update [simp]: "pages_ok cfg (update_jobs p f db) i = pages_ok cfg db i"
  by (simp add: pages_ok_def)

lemma keyed_unique: "keyed js \<Longrightarrow> j \<in> set js \<Longrightarrow> k \<in> set js \<Longrightarrow> job_id j = job_id k \<Longrightarrow> j = k"
  by (auto simp: keyed_def distinct_map inj_on_def)

lemma find_Some_mem: "List.find p xs = Some x \<Longrightarrow> x \<in> set xs \<and> p x"
  by (auto simp: find_Some_iff)

lemma select_job_Some: "select_job i db = Some j \<Longrightarrow> j \<in> set (jobs db) \<and> job_id j = i"
  by (auto simp: select_job_def dest: find_Some_mem)

lemma select_job_None: "select_job i db = None \<longleftrightarrow> i \<notin> job_id ` set (jobs db)"
  by (auto simp: select_job_def find_None_iff)

lemma select_job_iff:
  "keyed (jobs db) \<Longrightarrow> select_job i db = Some j \<longleftrightarrow> j \<in> set (jobs db) \<and> job_id j = i"
  using select_job_Some [of i db] keyed_unique [of "jobs db"] select_job_None [of i db]
  by (cases "select_job i db") auto

lemma live_id_select:
  assumes "keyed (jobs db)" and "i \<in> live_ids db" and "select_job i db = Some j"
  shows "state j \<noteq> Expired"
  using assms select_job_Some [OF assms(3)] keyed_unique [OF assms(1)] by (auto simp: live_ids_def)

lemma live_ids_map:
  assumes "jobs db' = map g (jobs db)"
    and g: "\<And>j. j \<in> set (jobs db) \<Longrightarrow> job_id (g j) = job_id j \<and> (state (g j) = Expired \<longleftrightarrow> state j = Expired)"
  shows "live_ids db' = live_ids db"
proof -
  have "{j \<in> g ` set (jobs db). state j \<noteq> Expired} = g ` {j \<in> set (jobs db). state j \<noteq> Expired}"
    using g by auto
  moreover have "job_id ` g ` {j \<in> set (jobs db). state j \<noteq> Expired} = job_id ` {j \<in> set (jobs db). state j \<noteq> Expired}"
    unfolding image_image using g by (intro image_cong) auto
  ultimately show ?thesis using assms(1) by (simp add: live_ids_def)
qed

section \<open>Updates of job rows\<close>

text \<open>What every \<open>UPDATE\<close> outside of expiry does to the rows it selects.\<close>

definition gentle :: "store_config \<Rightarrow> (job_row \<Rightarrow> bool) \<Rightarrow> (job_row \<Rightarrow> job_row) \<Rightarrow> job_row \<Rightarrow> bool" where
  "gentle cfg p f j \<longleftrightarrow> (p j \<longrightarrow>
     job_id (f j) = job_id j \<and> scope_hash (f j) = scope_hash j \<and>
     idempotency_hash (f j) = idempotency_hash j \<and> (state (f j) = Expired \<longleftrightarrow> state j = Expired) \<and>
     row_ok cfg (f j) \<and> pages_processed (f j) = pages_processed j \<and>
     pages_succeeded (f j) = pages_succeeded j \<and> pages_failed (f j) = pages_failed j)"

lemma keyed_map:
  assumes "keyed js" and "\<And>j. j \<in> set js \<Longrightarrow> job_id (g j) = job_id j \<and> scope_hash (g j) = scope_hash j \<and>
      idempotency_hash (g j) \<in> {None, idempotency_hash j}"
  shows "keyed (map g js)"
proof -
  have ids: "map job_id (map g js) = map job_id js" using assms(2) by simp
  have "job_id (g j) = job_id (g k)"
    if "j \<in> set js" "k \<in> set js" "idempotency_hash (g j) \<noteq> None"
      "idempotency_hash (g j) = idempotency_hash (g k)" "scope_hash (g j) = scope_hash (g k)" for j k
  proof -
    note gj = assms(2) [OF that(1)] and gk = assms(2) [OF that(2)]
    have "idempotency_hash (g j) = idempotency_hash j" using gj that(3) by simp
    moreover have "idempotency_hash (g k) = idempotency_hash k" using gk that(3,4) by auto
    moreover have "scope_hash j = scope_hash k" using gj gk that(5) by simp
    ultimately have "job_id j = job_id k"
      using assms(1) that(1-4) unfolding keyed_def by metis
    then show ?thesis using assms(2) [OF that(1)] assms(2) [OF that(2)] by simp
  qed
  note same = this
  have "distinct (map job_id (map g js))" unfolding ids using assms(1) by (simp add: keyed_def)
  then show ?thesis unfolding keyed_def
  proof (intro conjI ballI impI)
    fix a b
    assume "a \<in> set (map g js)" "b \<in> set (map g js)" "idempotency_hash a \<noteq> None"
      "idempotency_hash a = idempotency_hash b" "scope_hash a = scope_hash b"
    then show "job_id a = job_id b" using same by auto
  qed
qed

lemma keyed_snoc:
  assumes "keyed js" and "job_id n \<notin> job_id ` set js"
    and new: "\<And>j. j \<in> set js \<Longrightarrow> \<not> (scope_hash j = scope_hash n \<and> idempotency_hash j = idempotency_hash n)"
  shows "keyed (js @ [n])"
  unfolding keyed_def
proof (intro conjI ballI impI)
  show "distinct (map job_id (js @ [n]))" using assms(1,2) by (simp add: keyed_def)
next
  fix a b
  assume ab: "a \<in> set (js @ [n])" "b \<in> set (js @ [n])" "idempotency_hash a \<noteq> None"
    "idempotency_hash a = idempotency_hash b" "scope_hash a = scope_hash b"
  consider "a \<in> set js" "b \<in> set js" | "a = n" "b = n" | "a \<in> set js" "b = n" | "a = n" "b \<in> set js"
    using ab(1,2) by auto
  then show "job_id a = job_id b"
  proof cases
    case 1
    then show ?thesis using assms(1) ab(3-5) unfolding keyed_def by blast
  next
    case 3
    then show ?thesis using new [of a] ab(4,5) by simp
  next
    case 4
    then show ?thesis using new [of b] ab(4,5) by simp
  qed simp
qed

lemma update_gentle [preserve_facts]:
  assumes inv: "store_inv cfg db" and gentle: "\<And>j. j \<in> set (jobs db) \<Longrightarrow> gentle cfg p f j"
  shows "store_inv cfg (update_jobs p f db)"
proof -
  let ?g = "\<lambda>j. if p j then f j else j"
  have g: "job_id (?g j) = job_id j \<and> scope_hash (?g j) = scope_hash j \<and>
      idempotency_hash (?g j) = idempotency_hash j \<and> (state (?g j) = Expired \<longleftrightarrow> state j = Expired) \<and>
      row_ok cfg (?g j) \<and> (counted db (?g j) \<longleftrightarrow> counted db j)" if "j \<in> set (jobs db)" for j
    using gentle [OF that] inv that by (simp add: gentle_def store_inv_def counted_def)
  have "keyed (jobs (update_jobs p f db))"
    unfolding update_jobs_simps using inv g by (intro keyed_map) (auto simp: store_inv_def)
  moreover have "live_ids (update_jobs p f db) = live_ids db"
    using g by (intro live_ids_map [of _ ?g]) simp_all
  moreover have "row_ok cfg k \<and> (state k \<noteq> Expired \<longrightarrow> counted db k)"
    if "k \<in> set (jobs (update_jobs p f db))" for k
  proof -
    from that obtain j where j: "j \<in> set (jobs db)" "k = ?g j" by auto
    then show ?thesis using g [OF j(1)] inv by (auto simp: store_inv_def)
  qed
  ultimately show ?thesis using inv by (auto simp: store_inv_def)
qed

section \<open>Expiry\<close>

lemma results_of_filter_other: "results_of i (db\<lparr>results := filter (\<lambda>r. result_job r \<noteq> k) (results db), failures := F\<rparr>) =
    (if i = k then [] else results_of i db)"
  by (auto simp: results_of_def filter_filter intro: filter_cong)

lemma expire_one_simps [simp]:
  "results_of i (expire_one cfg row db) = (if i = job_id row then [] else results_of i db)"
  "failures_of i (expire_one cfg row db) = (if i = job_id row then [] else failures_of i db)"
  "results (expire_one cfg row db) = filter (\<lambda>r. result_job r \<noteq> job_id row) (results db)"
  "failures (expire_one cfg row db) = filter (\<lambda>r. failure_job r \<noteq> job_id row) (failures db)"
  "jobs (expire_one cfg row db) = map (\<lambda>j. if job_id j = job_id row
     then j\<lparr>state := Expired, idempotency_hash := None, cancel_requested := False,
            purge_after := map_option (\<lambda>d. d + tombstone_s cfg) (retention_deadline row)\<rparr> else j) (jobs db)"
  by (auto simp: expire_one_def results_of_def failures_of_def filter_filter intro: filter_cong)

lemma delete_job_simps [simp]:
  "results_of k (delete_job i db) = (if k = i then [] else results_of k db)"
  "failures_of k (delete_job i db) = (if k = i then [] else failures_of k db)"
  "jobs (delete_job i db) = filter (\<lambda>j. job_id j \<noteq> i) (jobs db)"
  "results (delete_job i db) = filter (\<lambda>r. result_job r \<noteq> i) (results db)"
  "failures (delete_job i db) = filter (\<lambda>r. failure_job r \<noteq> i) (failures db)"
  by (auto simp: delete_job_def results_of_def failures_of_def filter_filter intro: filter_cong)

lemma pages_ok_drop:
  assumes "pages_ok cfg db i" and "results_of i db' = (if b then [] else results_of i db)"
    and "failures_of i db' = (if b then [] else failures_of i db)"
  shows "pages_ok cfg db' i"
  using assms by (auto simp: pages_ok_def)

lemma expire_one_inv:
  assumes inv: "store_inv cfg db" and dl: "retention_deadline row \<noteq> None"
  shows "store_inv cfg (expire_one cfg row db)"
proof -
  let ?e = "expire_one cfg row db"
  let ?x = "\<lambda>j. j\<lparr>state := Expired, idempotency_hash := None, cancel_requested := False,
      purge_after := map_option (\<lambda>d. d + tombstone_s cfg) (retention_deadline row)\<rparr>"
  let ?g = "\<lambda>j. if job_id j = job_id row then ?x j else j"
  have "keyed (jobs ?e)"
    unfolding expire_one_simps using inv by (intro keyed_map) (auto simp: store_inv_def)
  moreover have live: "live_ids ?e = live_ids db - {job_id row}"
    by (auto simp: live_ids_def image_iff)
  moreover have "pages_ok cfg ?e i" for i
    using inv by (intro pages_ok_drop [of cfg db i ?e "i = job_id row"]) (auto simp: store_inv_def)
  moreover have "row_ok cfg k \<and> (state k \<noteq> Expired \<longrightarrow> counted ?e k)" if "k \<in> set (jobs ?e)" for k
  proof -
    from that obtain j where j: "j \<in> set (jobs db)" "k = ?g j" by auto
    then have "row_ok cfg j" "state j \<noteq> Expired \<longrightarrow> counted db j" using inv by (simp_all add: store_inv_def)
    then show ?thesis
      using j(2) dl
      by (auto simp: row_ok_def is_terminal_def terminal_states_def counted_def succeeded_def unsuccessful_def)
  qed
  ultimately show ?thesis using inv by (auto simp: store_inv_def)
qed

lemma delete_job_inv:
  assumes inv: "store_inv cfg db"
  shows "store_inv cfg (delete_job i db)"
proof -
  let ?d = "delete_job i db"
  have "keyed (jobs ?d)"
    using inv by (auto simp: store_inv_def keyed_def distinct_map intro: inj_on_subset)
  moreover have "live_ids ?d = live_ids db - {i}" by (auto simp: live_ids_def)
  moreover have "pages_ok cfg ?d k" for k
    using inv by (intro pages_ok_drop [of cfg db k ?d "k = i"]) (auto simp: store_inv_def)
  moreover have "length (jobs ?d) \<le> max_records cfg"
    unfolding delete_job_simps using inv le_trans [OF length_filter_le] unfolding store_inv_def by blast
  moreover have "counted ?d j \<longleftrightarrow> counted db j" if "job_id j \<noteq> i" for j
    using that by (simp add: counted_def succeeded_def unsuccessful_def)
  ultimately show ?thesis using inv by (auto simp: store_inv_def)
qed

lemma fold_inv: "(\<And>x db. x \<in> set xs \<Longrightarrow> P db \<Longrightarrow> P (f x db)) \<Longrightarrow> P db \<Longrightarrow> P (fold f xs db)"
  by (induction xs arbitrary: db) auto

lemma expire_due_inv [preserve_facts]: "store_inv cfg db \<Longrightarrow> store_inv cfg (expire_due cfg now db)"
proof -
  assume inv: "store_inv cfg db"
  let ?db1 = "fold (expire_one cfg) (filter (due now) (jobs db)) db"
  have 1: "store_inv cfg ?db1"
  proof (rule fold_inv [where P = "store_inv cfg", OF _ inv])
    fix x db' assume "x \<in> set (filter (due now) (jobs db))" "store_inv cfg db'"
    then show "store_inv cfg (expire_one cfg x db')"
      by (intro expire_one_inv) (auto simp: due_def split: option.splits)
  qed
  then show ?thesis
    unfolding expire_due_def Let_def
    by (rule fold_inv [where P = "store_inv cfg", OF delete_job_inv, rotated])
qed

section \<open>The operations\<close>

lemma claim_inv [preserve_facts]:
  assumes "store_inv cfg db"
  shows "store_inv cfg (snd (claim cfg i scope idem fp req now db))"
proof -
  let ?e = "expire_due cfg now db"
  have e: "store_inv cfg ?e" using assms by (rule expire_due_inv)
  let ?n = "new_job i scope idem fp req now"
  let ?db' = "?e\<lparr>jobs := jobs ?e @ [?n]\<rparr>"
  have insert: "store_inv cfg ?db'"
    if none: "List.find (\<lambda>j. scope_hash j = scope \<and> idempotency_hash j = Some idem) (jobs ?e) = None"
      and room: "length (jobs ?e) < max_records cfg" and fresh: "select_job i ?e = None"
  proof -
    have i: "i \<notin> job_id ` set (jobs ?e)" using fresh by (simp add: select_job_None)
    have "keyed (jobs ?db')"
    proof -
      have "keyed (jobs ?e @ [?n])"
      proof (rule keyed_snoc)
        show "keyed (jobs ?e)" using e by (simp add: store_inv_def)
        show "job_id ?n \<notin> job_id ` set (jobs ?e)" using i by (simp add: new_job_def)
        show "\<not> (scope_hash j = scope_hash ?n \<and> idempotency_hash j = idempotency_hash ?n)"
          if "j \<in> set (jobs ?e)" for j
          using none that by (simp add: find_None_iff new_job_def)
      qed
      then show ?thesis by simp
    qed
    moreover have "live_ids ?db' = insert i (live_ids ?e)"
    proof -
      have "{j \<in> set (jobs ?db'). state j \<noteq> Expired} = insert ?n {j \<in> set (jobs ?e). state j \<noteq> Expired}"
        by (auto simp: new_job_def)
      then show ?thesis unfolding live_ids_def by (simp add: new_job_def)
    qed
    moreover have same: "results_of k ?db' = results_of k ?e" "failures_of k ?db' = failures_of k ?e" for k
      by (simp_all add: results_of_def failures_of_def)
    then have "pages_ok cfg ?db' k = pages_ok cfg ?e k" for k by (simp only: pages_ok_def same)
    then have "pages_ok cfg ?db' k" for k using e by (simp add: store_inv_def)
    moreover have "counted ?db' j \<longleftrightarrow> counted ?e j" for j
      by (simp add: counted_def succeeded_def unsuccessful_def same)
    moreover have "row_ok cfg ?n" by (simp add: row_ok_def new_job_def is_terminal_def terminal_states_def)
    moreover have "counted ?e ?n"
    proof -
      have "i \<notin> live_ids ?e" using i by (auto simp: live_ids_def)
      then have "results_of i ?e = []" "failures_of i ?e = []"
        using e by (auto simp: store_inv_def results_of_def failures_of_def filter_empty_iff)
      then show ?thesis by (simp add: counted_def new_job_def succeeded_def unsuccessful_def)
    qed
    ultimately show ?thesis using e room by (auto simp: store_inv_def)
  qed
  show ?thesis
    using assms e insert by (auto simp: claim_def Let_def split: option.split)
qed

lemma get_inv [preserve_facts]:
  "store_inv cfg db \<Longrightarrow> store_inv cfg (snd (get_job cfg i scope now db))"
  using expire_due_inv [of cfg db now] by (auto simp: get_job_def Let_def split: option.split)

lemma page_inv [preserve_facts]:
  "store_inv cfg db \<Longrightarrow> store_inv cfg (snd (result_page_op cfg i scope after mi mb now db))"
  using expire_due_inv [of cfg db now]
  by (auto simp: result_page_op_def Let_def split: option.split prod.split)

lemma cleanup_inv [preserve_facts]: "store_inv cfg db \<Longrightarrow> store_inv cfg (snd (cleanup cfg now db))"
  using expire_due_inv [of cfg db now] by (simp add: cleanup_def Let_def)

lemma row_facts: "store_inv cfg db \<Longrightarrow> j \<in> set (jobs db) \<Longrightarrow> row_ok cfg j"
  by (simp add: store_inv_def)

lemma recover_inv [preserve_facts]:
  assumes "store_inv cfg db"
  shows "store_inv cfg (snd (recover_interrupted cfg m now db))"
  unfolding recover_interrupted_def Let_def snd_conv
  using assms
  by (intro update_gentle)
    (auto simp: gentle_def row_ok_def close_row_def is_terminal_def terminal_states_def dest!: row_facts)

lemma first_job_mem: "first_job js = Some j \<Longrightarrow> j \<in> set js"
  by (induction js arbitrary: j) (auto split: option.splits if_splits)

lemma claim_next_inv [preserve_facts]:
  assumes "store_inv cfg db"
  shows "store_inv cfg (snd (claim_next cfg now db))"
proof -
  let ?e = "expire_due cfg now db"
  have "store_inv cfg ?e" using assms by (rule expire_due_inv)
  moreover from this have "store_inv cfg (update_jobs (\<lambda>j. job_id j = i \<and> state j = Queued)
      (\<lambda>j. j\<lparr>state := Running, started_at := (case started_at j of None \<Rightarrow> Some now | Some t \<Rightarrow> Some t),
             attempts := attempts j + 1\<rparr>) ?e)" for i
    by (intro update_gentle)
      (auto simp: gentle_def row_ok_def is_terminal_def terminal_states_def dest!: row_facts split: option.split)
  ultimately show ?thesis by (auto simp: claim_next_def Let_def split: option.split)
qed

lemma increment_inv [preserve_facts]:
  assumes "store_inv cfg db"
  shows "store_inv cfg (snd (increment_attempt i db))"
proof -
  have "store_inv cfg (update_jobs (\<lambda>j. job_id j = i \<and> state j = Running) (\<lambda>j. j\<lparr>attempts := attempts j + 1\<rparr>) db)"
    using assms by (intro update_gentle)
      (auto simp: gentle_def row_ok_def is_terminal_def terminal_states_def dest!: row_facts)
  then show ?thesis using assms by (auto simp: increment_attempt_def Let_def split: option.split)
qed

lemma add_summary_length: "length (add_summary cfg s vs) \<le> max (length vs) (max_failure_summaries cfg)"
  by (auto simp: add_summary_def)

lemma append_summary_inv [preserve_facts]:
  assumes "store_inv cfg db"
  shows "store_inv cfg (append_summary cfg i tx db)"
  unfolding append_summary_def Let_def
proof (rule update_gentle [OF assms(1)])
  fix j assume j: "j \<in> set (jobs db)"
  have "length (failure_summaries j) \<le> max 1 (max_failure_summaries cfg)"
    using row_facts [OF assms(1) j] by (simp add: row_ok_def)
  then have "length (add_summary cfg s (failure_summaries j)) \<le> max 1 (max_failure_summaries cfg)" for s
    using add_summary_length [of cfg s "failure_summaries j"] by linarith
  then show "gentle cfg (\<lambda>j. job_id j = i) (\<lambda>j. j\<lparr>failure_summaries :=
      add_summary cfg (take (max_failure_summary_chars cfg) tx) (failure_summaries j)\<rparr>) j"
    using row_facts [OF assms(1) j] by (simp add: gentle_def row_ok_def)
qed

lemma finish_inv [preserve_facts]:
  assumes "store_inv cfg db" and "is_terminal st"
  shows "store_inv cfg (snd (finish cfg i st out warns now db))"
proof -
  have "store_inv cfg (update_jobs (\<lambda>j. job_id j = i \<and> state j \<in> {Queued, Running})
      (\<lambda>j. (close_row cfg now s out j)\<lparr>warnings := take 32 warns, cancel_requested := False\<rparr>) db)"
    if "is_terminal s" for s
    using assms that by (intro update_gentle)
      (auto simp: gentle_def row_ok_def close_row_def is_terminal_def terminal_states_def dest!: row_facts)
  moreover have "is_terminal Cancelled" by (simp add: is_terminal_def terminal_states_def)
  ultimately show ?thesis
    using assms by (auto simp: finish_def Let_def split: option.split)
qed

lemma cancel_inv [preserve_facts]:
  assumes "store_inv cfg db"
  shows "store_inv cfg (snd (request_cancel cfg i scope now db))"
proof -
  let ?e = "expire_due cfg now db"
  have e: "store_inv cfg ?e" using assms by (rule expire_due_inv)
  have queued: "store_inv cfg (update_jobs (\<lambda>j. job_id j = i \<and> state j = Queued)
      (\<lambda>j. (close_row cfg now Cancelled (Some ''cancelled'') j)\<lparr>cancel_requested := False\<rparr>) ?e)"
    using e by (intro update_gentle)
      (auto simp: gentle_def row_ok_def close_row_def is_terminal_def terminal_states_def dest!: row_facts)
  have running: "store_inv cfg (update_jobs (\<lambda>j. job_id j = i) (\<lambda>j. j\<lparr>cancel_requested := True\<rparr>) ?e)"
    if "select_scoped_job i scope ?e = Some row" "state row = Running" for row
  proof (rule update_gentle [OF e])
    fix j assume j: "j \<in> set (jobs ?e)"
    have "row \<in> set (jobs ?e)" "job_id row = i"
      using that(1) by (auto simp: select_scoped_job_def dest: find_Some_mem)
    then have "state j = Running" if "job_id j = i"
      using that j \<open>state row = Running\<close> e keyed_unique [of "jobs ?e" j row] by (simp add: store_inv_def)
    then show "gentle cfg (\<lambda>j. job_id j = i) (\<lambda>j. j\<lparr>cancel_requested := True\<rparr>) j"
      using row_facts [OF e j] by (auto simp: gentle_def row_ok_def is_terminal_def terminal_states_def)
  qed
  show ?thesis
    using e queued running by (auto simp: request_cancel_def Let_def split: option.split)
qed

section \<open>Progress of a running job\<close>

lemma max_ordinal_eq:
  assumes "map ordinal rs = map int [1..<Suc (length rs)]"
  shows "max_ordinal rs = int (length rs)"
proof -
  have "max_ordinal rs = fold (\<lambda>x m. max m x) (map ordinal rs) 0"
    by (simp add: max_ordinal_def fold_map comp_def)
  moreover have "fold (\<lambda>x m. max m x) (map int [1..<Suc n]) 0 = int n" for n
    by (induction n) auto
  ultimately show ?thesis using assms by metis
qed

lemma set_dedupe_keys [simp]: "set (dedupe_keys ks) = set ks"
  by (simp add: dedupe_keys_def)

text \<open>What a change to the rows of one job has to establish for the invariant to hold again.\<close>

lemma progress_inv:
  assumes inv: "store_inv cfg db" and run: "select_job i db = Some j0" "state j0 = Running"
    and jobs1: "jobs db1 = jobs db"
    and mems: "result_job ` set (results db1) \<subseteq> insert i (result_job ` set (results db))"
      "failure_job ` set (failures db1) \<subseteq> insert i (failure_job ` set (failures db))"
    and others: "\<And>k. k \<noteq> i \<Longrightarrow> results_of k db1 = results_of k db \<and> failures_of k db1 = failures_of k db"
    and pages: "pages_ok cfg db1 i"
    and upd: "f j0 = j0\<lparr>pages_processed := x, pages_succeeded := y, pages_failed := z, failure_summaries := ss\<rparr>"
    and ss: "length ss \<le> max 1 (max_failure_summaries cfg)" and cnt: "counted db1 (f j0)"
  shows "store_inv cfg (update_jobs (\<lambda>j. job_id j = i \<and> state j = Running) f db1)"
proof -
  let ?p = "\<lambda>j. job_id j = i \<and> state j = Running"
  let ?g = "\<lambda>j. if ?p j then f j else j"
  have j0: "j0 \<in> set (jobs db)" "job_id j0 = i" using select_job_Some [OF run(1)] by auto
  have keyed: "keyed (jobs db)" using inv by (simp add: store_inv_def)
  have only: "?p j \<longleftrightarrow> j = j0" if "j \<in> set (jobs db)" for j
    using keyed_unique [OF keyed that j0(1)] j0(2) run(2) by auto
  have g: "job_id (?g j) = job_id j \<and> scope_hash (?g j) = scope_hash j \<and>
      idempotency_hash (?g j) = idempotency_hash j \<and> state (?g j) = state j"
    if "j \<in> set (jobs db)" for j
    using only [OF that] upd by auto
  have keyed': "keyed (jobs (update_jobs ?p f db1))"
    unfolding update_jobs_simps jobs1 using keyed g by (intro keyed_map) auto
  have live: "live_ids (update_jobs ?p f db1) = live_ids db"
    using g jobs1 by (intro live_ids_map [of _ ?g]) simp_all
  have "i \<in> live_ids db" using j0 run(2) by (auto simp: live_ids_def)
  moreover have "result_job ` set (results db) \<subseteq> live_ids db" "failure_job ` set (failures db) \<subseteq> live_ids db"
    using inv by (simp_all add: store_inv_def)
  ultimately have rows: "result_job ` set (results db1) \<subseteq> live_ids db" "failure_job ` set (failures db1) \<subseteq> live_ids db"
    by (intro order_trans [OF mems(1)] order_trans [OF mems(2)]; simp)+
  have pages': "pages_ok cfg db1 k" for k
  proof (cases "k = i")
    case False
    then have "pages_ok cfg db1 k = pages_ok cfg db k" using others [OF False] by (simp only: pages_ok_def)
    then show ?thesis using inv by (simp add: store_inv_def)
  qed (simp add: pages)
  have each: "row_ok cfg k \<and> (state k \<noteq> Expired \<longrightarrow> counted db1 k)"
    if "k \<in> set (jobs (update_jobs ?p f db1))" for k
  proof -
    from that obtain j where j: "j \<in> set (jobs db)" "k = ?g j" using jobs1 by auto
    have ok: "row_ok cfg j" "state j \<noteq> Expired \<longrightarrow> counted db j" using inv j(1) by (simp_all add: store_inv_def)
    show ?thesis
    proof (cases "j = j0")
      case True
      then have "k = f j0" using only [OF j(1)] j(2) by simp
      then show ?thesis using ok(1) True upd ss cnt by (simp add: row_ok_def)
    next
      case False
      then have "k = j" "job_id j \<noteq> i" using only [OF j(1)] j keyed_unique [OF keyed j(1) j0(1)] j0(2) by auto
      then show ?thesis
        using ok others [of "job_id j"] by (simp add: counted_def succeeded_def unsuccessful_def)
    qed
  qed
  have room: "length (jobs (update_jobs ?p f db1)) \<le> max_records cfg" using inv jobs1 by (simp add: store_inv_def)
  have "\<forall>k. pages_ok cfg (update_jobs ?p f db1) k" using pages' by simp
  then show ?thesis
    unfolding store_inv_def live
    using keyed' room rows each by (simp del: update_jobs_simps(1) pages_ok_update)
qed

lemma append_result_inv [preserve_facts]:
  assumes inv: "store_inv cfg db" and run: "select_job i db = Some j0" "state j0 = Running"
  shows "store_inv cfg (snd (append_result cfg i key res fkeys now db))"
proof (cases "result_bytes cfg res > max_result_item_bytes cfg \<or> list_ex (\<lambda>r. result_key r = key) (results_of i db)")
  case True
  then show ?thesis using inv by (auto simp: append_result_def)
next
  case False
  let ?row = "\<lparr>result_job = i, result_key = key, ordinal = max_ordinal (results_of i db) + 1,
      result_value = res, item_bytes = result_bytes cfg res, result_created_at = now\<rparr>"
  let ?K = "set (dedupe_keys (key # fkeys))"
  let ?hit = "\<lambda>f. failure_job f = i \<and> failure_key f \<in> ?K"
  let ?db1 = "db\<lparr>results := results db @ [?row], failures := filter (\<lambda>f. \<not> ?hit f) (failures db)\<rparr>"
  let ?F = "failures_of i db"
  have pages: "pages_ok cfg db i" using inv by (simp add: store_inv_def)
  then have ord: "max_ordinal (results_of i db) = int (length (results_of i db))"
    by (intro max_ordinal_eq) (simp add: pages_ok_def)
  have ri: "results_of i ?db1 = results_of i db @ [?row]" by (simp add: results_of_def)
  have fi: "failures_of i ?db1 = filter (\<lambda>f. failure_key f \<notin> ?K) ?F"
    by (auto simp: failures_of_def filter_filter intro: filter_cong)
  have hits: "filter ?hit (failures db) = filter (\<lambda>f. failure_key f \<in> ?K) ?F"
    by (auto simp: failures_of_def filter_filter intro: filter_cong)
  have split: "length ?F = length (filter ?hit (failures db)) + length (failures_of i ?db1)"
    unfolding fi hits using sum_length_filter_compl [of "\<lambda>f. failure_key f \<in> ?K" ?F] by simp
  have others: "results_of k ?db1 = results_of k db \<and> failures_of k ?db1 = failures_of k db" if "k \<noteq> i" for k
    using that by (auto simp: results_of_def failures_of_def filter_filter intro: filter_cong)
  have new: "key \<notin> result_key ` set (results_of i db)" using False by (auto simp: list_ex_iff)
  have pages1: "pages_ok cfg ?db1 i"
    unfolding pages_ok_def ri fi
  proof (intro conjI)
    show "map ordinal (results_of i db @ [?row]) = map int [1..<Suc (length (results_of i db @ [?row]))]"
      using pages ord by (simp add: pages_ok_def)
    show "distinct (map result_key (results_of i db @ [?row]))" using pages new by (simp add: pages_ok_def)
    show "distinct (map failure_key (filter (\<lambda>f. failure_key f \<notin> ?K) ?F))"
      using pages by (simp add: pages_ok_def distinct_map_filter)
    show "result_key ` set (results_of i db @ [?row]) \<inter> failure_key ` set (filter (\<lambda>f. failure_key f \<notin> ?K) ?F) = {}"
      using pages by (auto simp: pages_ok_def)
    show "\<forall>r\<in>set (results_of i db @ [?row]). item_bytes r = result_bytes cfg (result_value r) \<and>
        item_bytes r \<le> max_result_item_bytes cfg"
      using pages False by (auto simp: pages_ok_def)
  qed
  have j0: "j0 \<in> set (jobs db)" "job_id j0 = i" using select_job_Some [OF run(1)] by auto
  then have cnt: "counted db j0" and sums: "length (failure_summaries j0) \<le> max 1 (max_failure_summaries cfg)"
    using inv run(2) by (auto simp: store_inv_def row_ok_def)
  let ?f = "\<lambda>j. j\<lparr>pages_processed := max 0 (pages_processed j - int (length (filter ?hit (failures db))) + 1),
      pages_succeeded := pages_succeeded j + (if res_outcome res = Content then 1 else 0),
      pages_failed := max 0 (pages_failed j - int (length (filter ?hit (failures db))) +
        (if res_outcome res = Content then 0 else 1))\<rparr>"
  have "counted ?db1 (?f j0)"
  proof -
    obtain P where P: "length (filter ?hit (failures db)) = P" by blast
    obtain L where L: "length (failures_of i ?db1) = L" by blast
    have S: "succeeded i ?db1 = succeeded i db + (if res_outcome res = Content then 1 else 0)"
      and U: "unsuccessful i ?db1 = unsuccessful i db + (if res_outcome res = Content then 0 else 1)"
      unfolding succeeded_def unsuccessful_def ri by simp_all
    have old: "pages_succeeded j0 = int (succeeded i db)" "pages_failed j0 = int (P + L + unsuccessful i db)"
      "pages_processed j0 = pages_succeeded j0 + pages_failed j0"
      using cnt j0(2) split unfolding P L by (simp_all add: counted_def)
    have ids: "job_id (?f j0) = i" using j0(2) by simp
    show ?thesis unfolding counted_def ids unfolding S U L unfolding P using old by simp
  qed
  then have "store_inv cfg (update_jobs (\<lambda>j. job_id j = i \<and> state j = Running) ?f ?db1)"
    using sums others pages1 by (intro progress_inv [OF inv run]) auto
  then show ?thesis
    using False run(1) by (simp add: append_result_def Let_def)
qed

lemma append_failure_inv [preserve_facts]:
  assumes inv: "store_inv cfg db" and run: "select_job i db = Some j0" "state j0 = Running"
  shows "store_inv cfg (snd (append_failure cfg i key tx now db))"
proof (cases "list_ex (\<lambda>r. result_key r = key) (results_of i db)")
  case True
  then show ?thesis using inv by (auto simp: append_failure_def Let_def)
next
  case False
  let ?b = "take (max_failure_summary_chars cfg) tx"
  let ?known = "list_ex (\<lambda>f. failure_key f = key) (failures_of i db)"
  let ?up = "\<lambda>f. if failure_job f = i \<and> failure_key f = key then f\<lparr>summary := ?b\<rparr> else f"
  let ?row = "\<lparr>failure_job = i, failure_key = key, summary = ?b, failure_created_at = now\<rparr>"
  let ?db1 = "if ?known then db\<lparr>failures := map ?up (failures db)\<rparr> else db\<lparr>failures := failures db @ [?row]\<rparr>"
  let ?inc = "if ?known then 0 else 1 :: int"
  have pages: "pages_ok cfg db i" using inv by (simp add: store_inv_def)
  have res: "results_of k ?db1 = results_of k db" for k by (simp add: results_of_def)
  have fi: "failures_of k ?db1 = (if ?known then map ?up (failures_of k db)
      else if k = i then failures_of i db @ [?row] else failures_of k db)" for k
    by (auto simp: failures_of_def filter_map comp_def intro: arg_cong [where f = "map ?up"] filter_cong)
  have keys: "map failure_key (failures_of i ?db1) = map failure_key (failures_of i db) @ (if ?known then [] else [key])"
    by (simp add: fi comp_def)
  have len: "int (length (failures_of i ?db1)) = int (length (failures_of i db)) + ?inc" by (simp add: fi)
  have other: "failures_of k ?db1 = failures_of k db" if "k \<noteq> i" for k
  proof -
    have "filter (\<lambda>f. failure_job f = k) (map ?up fs) = filter (\<lambda>f. failure_job f = k) fs" for fs :: "failure_row list"
      using that by (induction fs) auto
    then show ?thesis using that unfolding failures_of_def by simp
  qed
  have new: "key \<notin> result_key ` set (results_of i db)" using False by (auto simp: list_ex_iff)
  have pages1: "pages_ok cfg ?db1 i"
  proof -
    have "distinct (map failure_key (failures_of i ?db1))"
      unfolding keys using pages by (auto simp: pages_ok_def list_ex_iff)
    moreover have "result_key ` set (results_of i ?db1) \<inter> set (map failure_key (failures_of i ?db1)) = {}"
      unfolding keys res using pages new by (auto simp: pages_ok_def)
    ultimately show ?thesis using pages unfolding pages_ok_def res set_map by blast
  qed
  have j0: "j0 \<in> set (jobs db)" "job_id j0 = i" using select_job_Some [OF run(1)] by auto
  then have cnt: "counted db j0" and sums: "length (failure_summaries j0) \<le> max 1 (max_failure_summaries cfg)"
    using inv run(2) by (auto simp: store_inv_def row_ok_def)
  let ?f = "\<lambda>j. j\<lparr>failure_summaries := add_summary cfg ?b (failure_summaries j0),
      pages_processed := pages_processed j + ?inc, pages_failed := pages_failed j + ?inc\<rparr>"
  have ids: "job_id (?f j0) = i" using j0(2) by simp
  have cnt1: "counted ?db1 (?f j0)"
    unfolding counted_def ids unfolding succeeded_def unsuccessful_def res
    using cnt j0(2) len by (simp add: counted_def succeeded_def unsuccessful_def)
  have ss: "length (add_summary cfg ?b (failure_summaries j0)) \<le> max 1 (max_failure_summaries cfg)"
    using add_summary_length [of cfg ?b "failure_summaries j0"] sums by linarith
  have frame: "jobs ?db1 = jobs db" "result_job ` set (results ?db1) \<subseteq> insert i (result_job ` set (results db))"
    "failure_job ` set (failures ?db1) \<subseteq> insert i (failure_job ` set (failures db))"
    by auto
  have others: "results_of k ?db1 = results_of k db \<and> failures_of k ?db1 = failures_of k db" if "k \<noteq> i" for k
    using res other [OF that] by blast
  have upd: "?f j0 = j0\<lparr>pages_processed := pages_processed j0 + ?inc, pages_succeeded := pages_succeeded j0,
      pages_failed := pages_failed j0 + ?inc, failure_summaries := add_summary cfg ?b (failure_summaries j0)\<rparr>"
    by simp
  have "store_inv cfg (update_jobs (\<lambda>j. job_id j = i \<and> state j = Running) ?f ?db1)"
    by (rule progress_inv [where f = ?f, OF inv run frame others pages1 upd ss cnt1])
  moreover have "select_job i ?db1 = Some j0" using run(1) by (simp add: select_job_def)
  ultimately show ?thesis
    using False run(1) by (auto simp: append_failure_def Let_def)
qed

section \<open>Steps and reachable databases\<close>

text \<open>
  One rule per method.  \<open>running i db\<close> and \<open>is_terminal\<close> are the worker's discipline: \<open>_run_job\<close> reports
  results, failures and attempts of the job it claimed until it finishes it, and finishes it with one
  of the terminal states.  A claim draws an id that is not in use, which is what \<open>uuid4\<close> is for.
\<close>

definition running :: "string \<Rightarrow> job_db \<Rightarrow> bool" where
  "running i db \<longleftrightarrow> (\<exists>j. select_job i db = Some j \<and> state j = Running)"

inductive store_step :: "store_config \<Rightarrow> job_db \<Rightarrow> job_db \<Rightarrow> bool" for cfg where
  step_claim: "select_job i db = None \<Longrightarrow> store_step cfg db (snd (claim cfg i scope idem fp req now db))"
| step_get: "store_step cfg db (snd (get_job cfg i scope now db))"
| step_recover: "store_step cfg db (snd (recover_interrupted cfg m now db))"
| step_claim_next: "store_step cfg db (snd (claim_next cfg now db))"
| step_increment: "running i db \<Longrightarrow> store_step cfg db (snd (increment_attempt i db))"
| step_result: "running i db \<Longrightarrow> store_step cfg db (snd (append_result cfg i key res keys now db))"
| step_failure: "running i db \<Longrightarrow> store_step cfg db (snd (append_failure cfg i key tx now db))"
| step_summary: "store_step cfg db (append_summary cfg i tx db)"
| step_finish: "is_terminal st \<Longrightarrow> store_step cfg db (snd (finish cfg i st out warns now db))"
| step_cancel: "store_step cfg db (snd (request_cancel cfg i scope now db))"
| step_page: "store_step cfg db (snd (result_page_op cfg i scope after mi mb now db))"
| step_cleanup: "store_step cfg db (snd (cleanup cfg now db))"

inductive reachable :: "store_config \<Rightarrow> job_db \<Rightarrow> bool" for cfg where
  reach_empty: "reachable cfg empty_db"
| reach_step: "reachable cfg db \<Longrightarrow> store_step cfg db db' \<Longrightarrow> reachable cfg db'"

lemma store_step_inv: "store_step cfg db db' \<Longrightarrow> store_inv cfg db \<Longrightarrow> store_inv cfg db'"
proof (induction rule: store_step.induct)
  case (step_result i db key res keys now)
  then show ?case by (auto simp: running_def intro: append_result_inv)
next
  case (step_failure i db key tx now)
  then show ?case by (auto simp: running_def intro: append_failure_inv)
qed (auto intro: preserve_facts)

lemma reachable_inv: "reachable cfg db \<Longrightarrow> store_inv cfg db"
  by (induction rule: reachable.induct) (auto intro: store_inv_empty store_step_inv)

end
