(* ===== verification/Job_Lifecycle.thy ===== *)
theory Job_Lifecycle
  imports Job_Invariants
begin

text \<open>
  What the job store promises its callers, on top of the invariant: the life cycle a job goes through,
  seen as a refinement of a seven-state automaton; idempotent creation; first-come first-served
  dispatch; recovery after a crash; and result pages that deliver every result exactly once.
\<close>

section \<open>One job under expiry\<close>

lemma find_map:
  "(\<And>j. job_id (g j) = job_id j) \<Longrightarrow>
     List.find (\<lambda>j. job_id j = i) (map g js) = map_option g (List.find (\<lambda>j. job_id j = i) js)"
  by (induction js) auto

lemma find_filter_other:
  "k \<noteq> i \<Longrightarrow> List.find (\<lambda>j. job_id j = i) (filter (\<lambda>j. job_id j \<noteq> k) js) = List.find (\<lambda>j. job_id j = i) js"
  by (induction js) auto

lemma select_update:
  "(\<And>j. job_id (f j) = job_id j) \<Longrightarrow>
     select_job i (update_jobs p f db) = map_option (\<lambda>j. if p j then f j else j) (select_job i db)"
  by (simp add: select_job_def find_map)

definition expired_row :: "store_config \<Rightarrow> job_row \<Rightarrow> job_row" where
  "expired_row cfg j = j\<lparr>state := Expired, idempotency_hash := None, cancel_requested := False,
     purge_after := map_option (\<lambda>d. d + tombstone_s cfg) (retention_deadline j)\<rparr>"

text \<open>The part of the database that belongs to one job.\<close>

definition view :: "string \<Rightarrow> job_db \<Rightarrow> job_row option \<times> result_row list \<times> failure_row list" where
  "view i db = (select_job i db, results_of i db, failures_of i db)"

lemma view_expire_other: "job_id row \<noteq> i \<Longrightarrow> view i (expire_one cfg row db) = view i db"
proof -
  assume "job_id row \<noteq> i"
  moreover have "List.find (\<lambda>j. job_id j = i) (map (\<lambda>j. if job_id j = k then g j else j) js) =
      List.find (\<lambda>j. job_id j = i) js"
    if "k \<noteq> i" "\<And>j. job_id (g j) = job_id j" for k js and g :: "job_row \<Rightarrow> job_row"
    using that by (induction js) auto
  ultimately show ?thesis by (simp add: view_def select_job_def)
qed

lemma view_expire_same:
  assumes "select_job i db = Some row"
  shows "view i (expire_one cfg row db) = (Some (expired_row cfg row), [], [])"
proof -
  have "job_id row = i" using select_job_Some [OF assms] by simp
  have "select_job i (expire_one cfg row db) =
      map_option (\<lambda>j. if job_id j = job_id row then j\<lparr>state := Expired, idempotency_hash := None,
        cancel_requested := False, purge_after := map_option (\<lambda>d. d + tombstone_s cfg) (retention_deadline row)\<rparr>
        else j) (select_job i db)"
    unfolding select_job_def expire_one_simps by (rule find_map) simp
  then show ?thesis using assms \<open>job_id row = i\<close> by (simp add: view_def expired_row_def)
qed

lemma view_expire_fold: "i \<notin> job_id ` set rows \<Longrightarrow> view i (fold (expire_one cfg) rows db) = view i db"
  by (induction rows arbitrary: db) (auto simp: view_expire_other)

lemma view_delete: "view i (delete_job k db) = (if k = i then (None, [], []) else view i db)"
  by (auto simp: view_def select_job_def find_filter_other find_None_iff)

lemma view_delete_fold:
  "view i (fold delete_job ks db) = (if i \<in> set ks then (None, [], []) else view i db)"
proof (induction ks arbitrary: db)
  case (Cons k ks)
  then show ?case
    by (cases "i \<in> set ks") (auto simp: view_delete)
qed simp

lemma view_due_fold:
  assumes keyed: "keyed (jobs db)" and j: "select_job i db = Some j"
  shows "view i (fold (expire_one cfg) (filter (due now) (jobs db)) db) =
     (if due now j then (Some (expired_row cfg j), [], []) else view i db)"
proof (cases "due now j")
  case False
  have "i \<notin> job_id ` set (filter (due now) (jobs db))"
  proof
    assume "i \<in> job_id ` set (filter (due now) (jobs db))"
    then obtain k where "k \<in> set (jobs db)" "due now k" "job_id k = i" by auto
    then show False using False j select_job_iff [OF keyed, of i k] by simp
  qed
  then show ?thesis using False view_expire_fold by simp
next
  case True
  have "j \<in> set (filter (due now) (jobs db))" and "job_id j = i" using True select_job_Some [OF j] by auto
  then obtain xs ys where split: "filter (due now) (jobs db) = xs @ j # ys" by (meson split_list)
  have "distinct (map job_id (filter (due now) (jobs db)))"
    using keyed by (simp add: keyed_def distinct_map_filter)
  then have off: "i \<notin> job_id ` set xs" "i \<notin> job_id ` set ys"
    using \<open>job_id j = i\<close> unfolding split by auto
  have "select_job i (fold (expire_one cfg) xs db) = Some j"
    using view_expire_fold [OF off(1), of cfg db] j by (simp add: view_def)
  from view_expire_same [OF this, of cfg]
  show ?thesis using True view_expire_fold [OF off(2)] by (simp add: split)
qed

text \<open>What \<open>_expire_due\<close> does to one job: nothing, expire it, or remove it.\<close>

lemma view_expire_due:
  assumes inv: "store_inv cfg db" and j: "select_job i db = Some j"
  shows "view i (expire_due cfg now db) =
     (let j' = (if due now j then expired_row cfg j else j) in
      if purgeable now j' then (None, [], []) else if due now j then (Some j', [], []) else view i db)"
proof -
  let ?db1 = "fold (expire_one cfg) (filter (due now) (jobs db)) db"
  let ?j' = "if due now j then expired_row cfg j else j"
  have keyed: "keyed (jobs db)" using inv by (simp add: store_inv_def)
  have v1: "view i ?db1 = (if due now j then (Some (expired_row cfg j), [], []) else view i db)"
    by (rule view_due_fold [OF keyed j])
  then have s1: "select_job i ?db1 = Some ?j'" using j by (auto simp: view_def split: if_splits)
  have "store_inv cfg ?db1"
  proof (rule fold_inv [where P = "store_inv cfg", OF _ inv])
    fix x db' assume "x \<in> set (filter (due now) (jobs db))" "store_inv cfg db'"
    then show "store_inv cfg (expire_one cfg x db')"
      by (intro expire_one_inv) (auto simp: due_def split: option.splits)
  qed
  then have "keyed (jobs ?db1)" by (simp add: store_inv_def)
  then have "i \<in> set (map job_id (filter (purgeable now) (jobs ?db1))) \<longleftrightarrow> purgeable now ?j'"
  proof -
    assume keyed1: "keyed (jobs ?db1)"
    have mem: "?j' \<in> set (jobs ?db1)" "job_id ?j' = i" using select_job_Some [OF s1] by blast+
    show ?thesis
    proof
      assume "i \<in> set (map job_id (filter (purgeable now) (jobs ?db1)))"
      then obtain x where "x \<in> set (jobs ?db1)" "purgeable now x" "job_id x = i" by auto
      then show "purgeable now ?j'" using keyed_unique [OF keyed1 _ mem(1)] mem(2) by metis
    next
      assume "purgeable now ?j'"
      then show "i \<in> set (map job_id (filter (purgeable now) (jobs ?db1)))"
        using mem unfolding set_map set_filter by (intro image_eqI [of _ _ ?j']) simp_all
    qed
  qed
  then show ?thesis
    unfolding expire_due_def Let_def view_delete_fold using v1 by simp
qed

lemma select_none_expire:
  assumes "select_job i db = None"
  shows "select_job i (expire_due cfg now db) = None"
proof -
  let ?db1 = "fold (expire_one cfg) (filter (due now) (jobs db)) db"
  have "i \<notin> job_id ` set (filter (due now) (jobs db))" using assms by (auto simp: select_job_None)
  from view_expire_fold [OF this, of cfg db] have "select_job i ?db1 = None" using assms by (simp add: view_def)
  then have "select_job i (fold delete_job ks ?db1) = None" for ks
    using view_delete_fold [of i ks ?db1] by (auto simp: view_def split: if_splits)
  then show ?thesis by (simp add: expire_due_def Let_def)
qed

section \<open>The life cycle\<close>

text \<open>
  The automaton: a job waits or runs, ends in one of four terminal states, and is expired and then
  removed; nothing leads back.  \<open>life\<close> is one step of it or none.
\<close>

definition active :: "job_state \<Rightarrow> bool" where
  "active s \<longleftrightarrow> s = Queued \<or> s = Running"

definition life :: "job_state \<Rightarrow> job_state \<Rightarrow> bool" where
  "life s s' \<longleftrightarrow> s' = s \<or> (active s \<and> (active s' \<or> is_terminal s')) \<or> (is_terminal s \<and> s' = Expired)"

text \<open>What a closed job shows: its final state, its outcome, its warnings, its counters.\<close>

definition verdict :: "job_row \<Rightarrow> job_state \<times> string option \<times> string list \<times> int \<times> int \<times> int" where
  "verdict j = (state j, outcome j, warnings j, pages_processed j, pages_succeeded j, pages_failed j)"

definition identity :: "job_row \<Rightarrow> string \<times> string \<times> string \<times> crawl_request \<times> pyfloat \<times> int" where
  "identity j = (job_id j, scope_hash j, request_fingerprint j, job_request j, created_at j, pages_target j)"

text \<open>One job before and after a step.\<close>

definition lives_on :: "string \<Rightarrow> job_db \<Rightarrow> job_db \<Rightarrow> bool" where
  "lives_on i db db' \<longleftrightarrow> (\<forall>j. select_job i db = Some j \<longrightarrow>
     (case select_job i db' of
        None \<Rightarrow> \<not> active (state j)
      | Some j' \<Rightarrow> life (state j) (state j') \<and> identity j' = identity j \<and>
          (\<not> active (state j) \<and> state j' = state j \<longrightarrow>
             verdict j' = verdict j \<and> results_of i db' = results_of i db) \<and>
          (state j' = Expired \<and> state j \<noteq> Expired \<longrightarrow> results_of i db' = [])))"

lemma state_cases: "active s \<or> is_terminal s \<or> s = Expired"
  by (cases s) (simp_all add: active_def is_terminal_def terminal_states_def)

lemma not_active_terminal [simp]: "is_terminal s \<Longrightarrow> \<not> active s" "\<not> active Expired" "\<not> is_terminal Expired"
  by (auto simp: active_def is_terminal_def terminal_states_def)

lemma lives_on_refl [simp]: "lives_on i db db"
  by (auto simp: lives_on_def life_def split: option.split)

lemma lives_on_view:
  "view i db = view i d1 \<Longrightarrow> view i db' = view i d2 \<Longrightarrow> lives_on i db db' = lives_on i d1 d2"
  by (simp add: lives_on_def view_def cong: option.case_cong)

lemma expire_active:
  assumes "store_inv cfg db" and "select_job i db = Some j" and "active (state j)"
  shows "view i (expire_due cfg now db) = view i db"
proof -
  have "\<not> due now j" "\<not> purgeable now j" using assms(3) by (auto simp: due_def purgeable_def)
  then show ?thesis using view_expire_due [OF assms(1,2), of now] by simp
qed

lemma lives_on_expire_due:
  assumes "store_inv cfg db"
  shows "lives_on i db (expire_due cfg now db)"
proof (cases "select_job i db")
  case None
  then show ?thesis by (simp add: lives_on_def)
next
  case (Some j)
  note v = view_expire_due [OF assms Some, of now]
  show ?thesis
  proof (cases "due now j")
    case True
    then have "is_terminal (state j)" by (simp add: due_def)
    then show ?thesis
      using v True Some
      by (cases "purgeable now (expired_row cfg j)")
        (auto simp: lives_on_def view_def life_def identity_def expired_row_def)
  next
    case False
    show ?thesis
    proof (cases "purgeable now j")
      case True
      then have "state j = Expired" by (simp add: purgeable_def)
      then show ?thesis using v False True Some by (simp add: lives_on_def view_def)
    next
      case kept: False
      have "view i (expire_due cfg now db) = view i db" using v False kept by simp
      then show ?thesis using lives_on_view [of i db db _ db] lives_on_refl by metis
    qed
  qed
qed

lemma lives_on_compose:
  assumes inv: "store_inv cfg db"
    and none: "select_job i db2 = None \<or> select_job i (expire_due cfg now db) \<noteq> None \<or> select_job i db = None"
    and closed: "\<And>k. select_job i (expire_due cfg now db) = Some k \<Longrightarrow> \<not> active (state k) \<Longrightarrow>
        view i db2 = view i (expire_due cfg now db)"
    and live: "\<And>k. select_job i (expire_due cfg now db) = Some k \<Longrightarrow> active (state k) \<Longrightarrow>
        lives_on i (expire_due cfg now db) db2"
  shows "lives_on i db db2"
proof (cases "select_job i db")
  case None
  then show ?thesis by (simp add: lives_on_def)
next
  case (Some j)
  let ?e = "expire_due cfg now db"
  show ?thesis
  proof (cases "active (state j)")
    case True
    note same = expire_active [OF inv Some True, of now]
    then have "select_job i ?e = Some j" using Some by (simp add: view_def)
    then have "lives_on i ?e db2" using live True by blast
    then show ?thesis using lives_on_view [OF same refl] by simp
  next
    case False
    show ?thesis
    proof (cases "select_job i ?e")
      case None
      then have "select_job i db2 = None" using none Some by simp
      then show ?thesis using Some False by (simp add: lives_on_def)
    next
      case k: (Some k)
      have "\<not> active (state k)"
        using lives_on_expire_due [OF inv, of i now] Some k False by (auto simp: lives_on_def life_def)
      then have "view i db2 = view i ?e" by (rule closed [OF k])
      then show ?thesis
        using lives_on_expire_due [OF inv, of i now] lives_on_view [of i db db db2 ?e] by simp
    qed
  qed
qed

text \<open>An update that only touches waiting and running jobs, and does not expire them.\<close>

definition touches_active :: "(job_row \<Rightarrow> bool) \<Rightarrow> (job_row \<Rightarrow> job_row) \<Rightarrow> bool" where
  "touches_active p f \<longleftrightarrow> (\<forall>j. identity (f j) = identity j \<and>
     (p j \<longrightarrow> active (state j) \<and> (active (state (f j)) \<or> is_terminal (state (f j)))))"

lemma select_touch:
  "touches_active p f \<Longrightarrow>
     select_job i (update_jobs p f db) = map_option (\<lambda>j. if p j then f j else j) (select_job i db)"
  by (rule select_update) (simp add: touches_active_def identity_def)

lemma lives_on_update:
  assumes t: "touches_active p f" and sel: "select_job i db1 = select_job i db"
    and same: "\<And>j. select_job i db = Some j \<Longrightarrow> \<not> active (state j) \<Longrightarrow> results_of i db1 = results_of i db"
  shows "lives_on i db (update_jobs p f db1)"
  unfolding lives_on_def
proof (intro allI impI)
  fix j assume j: "select_job i db = Some j"
  have "select_job i (update_jobs p f db1) = Some (if p j then f j else j)"
    using select_touch [OF t, of i db1] sel j by simp
  moreover have "identity (f j) = identity j"
    and "p j \<Longrightarrow> active (state j) \<and> (active (state (f j)) \<or> is_terminal (state (f j)))"
    using t by (simp_all add: touches_active_def)
  ultimately show "case select_job i (update_jobs p f db1) of
        None \<Rightarrow> \<not> active (state j)
      | Some j' \<Rightarrow> life (state j) (state j') \<and> identity j' = identity j \<and>
          (\<not> active (state j) \<and> state j' = state j \<longrightarrow>
             verdict j' = verdict j \<and> results_of i (update_jobs p f db1) = results_of i db) \<and>
          (state j' = Expired \<and> state j \<noteq> Expired \<longrightarrow> results_of i (update_jobs p f db1) = [])"
    using same [OF j] by (auto simp: life_def)
qed

lemma lives_on_expire_update:
  assumes inv: "store_inv cfg db" and t: "touches_active p f"
  shows "lives_on i db (update_jobs p f (expire_due cfg now db))"
proof (rule lives_on_compose [OF inv])
  let ?e = "expire_due cfg now db"
  note sel = select_touch [OF t, of i ?e]
  show "select_job i (update_jobs p f ?e) = None \<or> select_job i ?e \<noteq> None \<or> select_job i db = None"
    using sel by auto
  show "view i (update_jobs p f ?e) = view i ?e" if "select_job i ?e = Some k" "\<not> active (state k)" for k
    using sel that t by (auto simp: view_def touches_active_def)
  show "lives_on i ?e (update_jobs p f ?e)"
    by (rule lives_on_update [OF t]) simp_all
qed

lemmas touch_defs = touches_active_def identity_def active_def is_terminal_def terminal_states_def close_row_def

lemma select_results [simp]:
  "select_job i (db\<lparr>results := rs\<rparr>) = select_job i db" "select_job i (db\<lparr>failures := fs\<rparr>) = select_job i db"
  "select_job i (db\<lparr>results := rs, failures := fs\<rparr>) = select_job i db"
  by (simp_all add: select_job_def)

lemma lives_on_claim:
  assumes inv: "store_inv cfg db" and fresh: "select_job n db = None"
  shows "lives_on i db (snd (claim cfg n scope idem fp req now db))"
proof -
  let ?e = "expire_due cfg now db"
  let ?db' = "?e\<lparr>jobs := jobs ?e @ [new_job n scope idem fp req now]\<rparr>"
  have "lives_on i db ?db'"
  proof (cases "i = n")
    case True
    then show ?thesis using fresh by (simp add: lives_on_def)
  next
    case False
    have "List.find (\<lambda>j. job_id j = i) (js @ [new_job n scope idem fp req now]) = List.find (\<lambda>j. job_id j = i) js" for js
      using False by (induction js) (auto simp: new_job_def)
    then have "view i ?db' = view i ?e"
      by (simp add: view_def select_job_def results_of_def failures_of_def)
    then show ?thesis using lives_on_expire_due [OF inv, of i now] lives_on_view [of i db db ?db' ?e] by simp
  qed
  then show ?thesis
    using lives_on_expire_due [OF inv, of i now] by (auto simp: claim_def Let_def split: option.split)
qed

lemma lives_on_mapped:
  assumes sel: "select_job i db' = map_option g (select_job i db)" and res: "results_of i db' = results_of i db"
    and id: "\<And>j. identity (g j) = identity j" and life: "\<And>j. life (state j) (state (g j))"
    and closed: "\<And>j. \<not> active (state j) \<Longrightarrow> g j = j"
    and not_expired: "\<And>j. active (state j) \<Longrightarrow> state (g j) \<noteq> Expired"
  shows "lives_on i db db'"
proof (cases "select_job i db")
  case (Some j)
  then have new: "select_job i db' = Some (g j)" using sel by simp
  show ?thesis
  proof (cases "active (state j)")
    case True
    then show ?thesis
      unfolding lives_on_def Some new using id [of j] life [of j] not_expired [OF True] by simp
  next
    case False
    then show ?thesis
      unfolding lives_on_def Some new closed [OF False] using res by (simp add: life_def)
  qed
qed (simp add: lives_on_def)

lemma lives_on_recover: "lives_on i db (snd (recover_interrupted cfg m now db))"
proof -
  let ?g1 = "\<lambda>j. if state j = Running \<and> cancel_requested j
      then (close_row cfg now Cancelled (Some ''cancelled'') j)\<lparr>cancel_requested := False\<rparr> else j"
  let ?g2 = "\<lambda>j. if state j = Running \<and> attempts j \<ge> m
      then (close_row cfg now Failed (Some ''local_processing_failure'') j)\<lparr>failure_summaries := [''restart_retry_exhausted'']\<rparr> else j"
  let ?g3 = "\<lambda>j. if state j = Running \<and> attempts j < m then j\<lparr>state := Queued\<rparr> else j"
  let ?db = "snd (recover_interrupted cfg m now db)"
  have "select_job i ?db = map_option (\<lambda>j. ?g3 (?g2 (?g1 j))) (select_job i db)"
    unfolding recover_interrupted_def Let_def snd_conv
    by (subst select_update, simp add: close_row_def)+ (simp add: option.map_comp comp_def)
  moreover have "results_of i ?db = results_of i db" by (simp add: recover_interrupted_def Let_def)
  moreover have "identity (?g3 (?g2 (?g1 j))) = identity j" for j by (simp add: identity_def close_row_def)
  moreover have "life (state j) (state (?g3 (?g2 (?g1 j))))" for j
    by (simp add: life_def active_def is_terminal_def terminal_states_def close_row_def)
  moreover have "?g3 (?g2 (?g1 j)) = j" if "\<not> active (state j)" for j
    using that by (simp add: active_def)
  moreover have "state (?g3 (?g2 (?g1 j))) \<noteq> Expired" if "active (state j)" for j
    using that by (auto simp: active_def close_row_def)
  ultimately show ?thesis by (intro lives_on_mapped [where g = "\<lambda>j. ?g3 (?g2 (?g1 j))"]) blast+
qed

lemma lives_on_claim_next:
  assumes inv: "store_inv cfg db"
  shows "lives_on i db (snd (claim_next cfg now db))"
proof -
  have "touches_active (\<lambda>j. job_id j = k \<and> state j = Queued)
      (\<lambda>j. j\<lparr>state := Running, started_at := (case started_at j of None \<Rightarrow> Some now | Some t \<Rightarrow> Some t),
             attempts := attempts j + 1\<rparr>)" for k
    by (simp add: touch_defs)
  from lives_on_expire_update [OF inv this, where i = i and now = now] lives_on_expire_due [OF inv, of i now]
  show ?thesis by (auto simp: claim_next_def Let_def split: option.split)
qed

lemma lives_on_increment: "lives_on i db (snd (increment_attempt k db))"
proof -
  have "touches_active (\<lambda>j. job_id j = k \<and> state j = Running) (\<lambda>j. j\<lparr>attempts := attempts j + 1\<rparr>)"
    by (simp add: touch_defs)
  from lives_on_update [OF this, of i db db] show ?thesis
    by (auto simp: increment_attempt_def Let_def split: option.split)
qed

lemma lives_on_finish:
  assumes "is_terminal st"
  shows "lives_on i db (snd (finish cfg k st out warns now db))"
proof -
  have "touches_active (\<lambda>j. job_id j = k \<and> state j \<in> {Queued, Running})
      (\<lambda>j. (close_row cfg now s out j)\<lparr>warnings := take 32 warns, cancel_requested := False\<rparr>)"
    if "is_terminal s" for s
    using that by (simp add: touch_defs)
  then have "lives_on i db (update_jobs (\<lambda>j. job_id j = k \<and> state j \<in> {Queued, Running})
      (\<lambda>j. (close_row cfg now s out j)\<lparr>warnings := take 32 warns, cancel_requested := False\<rparr>) db)"
    if "is_terminal s" for s
    using that by (intro lives_on_update) simp_all
  moreover have "is_terminal Cancelled" by (simp add: is_terminal_def terminal_states_def)
  ultimately show ?thesis
    using assms by (auto simp: finish_def Let_def split: option.split)
qed

lemma lives_on_summary: "lives_on i db (append_summary cfg k tx db)"
proof -
  have "select_job i (append_summary cfg k tx db) = map_option (\<lambda>j. if job_id j = k
      then j\<lparr>failure_summaries := add_summary cfg (take (max_failure_summary_chars cfg) tx) (failure_summaries j)\<rparr>
      else j) (select_job i db)"
    unfolding append_summary_def Let_def by (subst select_update) simp_all
  moreover have "results_of i (append_summary cfg k tx db) = results_of i db"
    by (simp add: append_summary_def Let_def)
  ultimately show ?thesis
    by (auto simp: lives_on_def life_def identity_def verdict_def)
qed

lemma lives_on_result:
  assumes "running k db"
  shows "lives_on i db (snd (append_result cfg k key res keys now db))"
proof -
  let ?row = "\<lparr>result_job = k, result_key = key, ordinal = max_ordinal (results_of k db) + 1,
      result_value = res, item_bytes = result_bytes cfg res, result_created_at = now\<rparr>"
  have t: "touches_active (\<lambda>j. job_id j = k \<and> state j = Running)
      (\<lambda>j. j\<lparr>pages_processed := f j, pages_succeeded := g j, pages_failed := h j\<rparr>)" for f g h
    by (simp add: touch_defs)
  have "results_of i (db\<lparr>results := results db @ [?row], failures := fs\<rparr>) = results_of i db"
    if "select_job i db = Some j" "\<not> active (state j)" for j fs
  proof -
    have "k \<noteq> i" using that assms by (auto simp: running_def active_def)
    then show ?thesis by (simp add: results_of_def)
  qed
  then have "lives_on i db (update_jobs (\<lambda>j. job_id j = k \<and> state j = Running)
      (\<lambda>j. j\<lparr>pages_processed := f j, pages_succeeded := g j, pages_failed := h j\<rparr>)
      (db\<lparr>results := results db @ [?row], failures := fs\<rparr>))" for f g h fs
    by (intro lives_on_update [OF t]) simp_all
  then show ?thesis by (auto simp: append_result_def Let_def)
qed

lemma lives_on_failure: "lives_on i db (snd (append_failure cfg k key tx now db))"
proof -
  have t: "touches_active (\<lambda>j. job_id j = k \<and> state j = Running)
      (\<lambda>j. j\<lparr>failure_summaries := ss, pages_processed := f j, pages_failed := h j\<rparr>)" for ss f h
    by (simp add: touch_defs)
  have res: "results_of i (db\<lparr>failures := fs\<rparr>) = results_of i db" for fs by (simp add: results_of_def)
  have upd: "lives_on i db (update_jobs (\<lambda>j. job_id j = k \<and> state j = Running)
      (\<lambda>j. j\<lparr>failure_summaries := ss, pages_processed := f j, pages_failed := h j\<rparr>) (db\<lparr>failures := fs\<rparr>))"
    for ss f h fs
    using res by (intro lives_on_update [OF t]) simp_all
  have upd0: "lives_on i db (update_jobs (\<lambda>j. job_id j = k \<and> state j = Running)
      (\<lambda>j. j\<lparr>failure_summaries := ss\<rparr>) (db\<lparr>failures := fs\<rparr>))" for ss fs
    using res by (intro lives_on_update) (simp_all add: touch_defs)
  have "lives_on i db (db\<lparr>failures := fs\<rparr>)" for fs
    using res by (auto simp: lives_on_def life_def split: option.split)
  then show ?thesis using upd upd0 by (auto simp: append_failure_def Let_def split: option.split)
qed

lemma lives_on_cancel:
  assumes inv: "store_inv cfg db"
  shows "lives_on i db (snd (request_cancel cfg k scope now db))"
proof -
  let ?e = "expire_due cfg now db"
  have e: "store_inv cfg ?e" using inv by (rule expire_due_inv)
  have queued: "lives_on i db (update_jobs (\<lambda>j. job_id j = k \<and> state j = Queued)
      (\<lambda>j. (close_row cfg now Cancelled (Some ''cancelled'') j)\<lparr>cancel_requested := False\<rparr>) ?e)"
    by (rule lives_on_expire_update [OF inv]) (simp add: touch_defs)
  have running: "lives_on i db (update_jobs (\<lambda>j. job_id j = k) (\<lambda>j. j\<lparr>cancel_requested := True\<rparr>) ?e)"
    if sc: "select_scoped_job k scope ?e = Some row" "state row = Running" for row
  proof -
    have row: "row \<in> set (jobs ?e)" "job_id row = k"
      using sc(1) by (auto simp: select_scoped_job_def dest: find_Some_mem)
    have "state j = Running" if "j \<in> set (jobs ?e)" "job_id j = k" for j
      using keyed_unique [of "jobs ?e" j row] that row sc(2) e by (simp add: store_inv_def)
    then have same: "update_jobs (\<lambda>j. job_id j = k) (\<lambda>j. j\<lparr>cancel_requested := True\<rparr>) ?e =
        update_jobs (\<lambda>j. job_id j = k \<and> state j = Running) (\<lambda>j. j\<lparr>cancel_requested := True\<rparr>) ?e"
      by (auto simp: update_jobs_def intro: map_cong)
    show ?thesis unfolding same by (rule lives_on_expire_update [OF inv]) (simp add: touch_defs)
  qed
  show ?thesis
    using lives_on_expire_due [OF inv, of i now] queued running
    by (auto simp: request_cancel_def Let_def split: option.split)
qed

lemma step_lives_on:
  assumes "store_step cfg db db'" and inv: "store_inv cfg db"
  shows "lives_on i db db'"
  using assms
proof (induction rule: store_step.induct)
  case (step_get i scope now)
  then show ?case
    using lives_on_expire_due by (auto simp: get_job_def Let_def split: option.split)
next
  case (step_page i scope after mi mb now)
  then show ?case
    using lives_on_expire_due by (auto simp: result_page_op_def Let_def split: option.split prod.split)
next
  case (step_cleanup now)
  then show ?case using lives_on_expire_due by (simp add: cleanup_def Let_def)
qed (auto intro: lives_on_claim lives_on_recover lives_on_claim_next lives_on_increment lives_on_result
      lives_on_failure lives_on_summary lives_on_finish lives_on_cancel)

section \<open>Pages\<close>

text \<open>The rows of a page: the longest prefix that fits, and at least one row.\<close>

lemma page_loop_prefix:
  assumes "\<forall>r\<in>set rows. int (item_bytes r) \<le> mb" and "1 \<le> mi" and "\<not> has_more pg"
    and "page_results pg = [] \<Longrightarrow> returned_bytes pg = 0"
  shows "\<exists>m pg'. page_loop mi mb rows pg = (pg', None) \<and> m \<le> length rows \<and>
     (m = 0 \<or> int (length (page_results pg)) + int m \<le> mi) \<and>
     (page_results pg = [] \<and> rows \<noteq> [] \<longrightarrow> 1 \<le> m) \<and>
     page_results pg' = page_results pg @ map result_value (take m rows) \<and>
     last_ordinal pg' = (if m = 0 then last_ordinal pg else ordinal (rows ! (m - 1))) \<and>
     (has_more pg' \<longleftrightarrow> m < length rows)"
  using assms
proof (induction rows arbitrary: pg)
  case Nil
  then show ?case by (intro exI [of _ 0]) simp
next
  case (Cons r rows)
  consider (full) "mi \<le> int (length (page_results pg))"
    | (bytes) "int (length (page_results pg)) < mi" "mb < int (returned_bytes pg + item_bytes r)"
    | (fits) "int (length (page_results pg)) < mi" "int (returned_bytes pg + item_bytes r) \<le> mb"
    by linarith
  then show ?case
  proof cases
    case full
    then have "page_results pg \<noteq> []" using Cons.prems(2) by auto
    then show ?thesis using full by (intro exI [of _ 0] exI [of _ "pg\<lparr>has_more := True\<rparr>"]) simp
  next
    case bytes
    then have "page_results pg \<noteq> []" using Cons.prems by auto
    then show ?thesis using bytes by (intro exI [of _ 0] exI [of _ "pg\<lparr>has_more := True\<rparr>"]) simp
  next
    case fits
    let ?pg = "\<lparr>page_results = page_results pg @ [result_value r], last_ordinal = ordinal r,
        returned_bytes = returned_bytes pg + item_bytes r, has_more = has_more pg\<rparr>"
    obtain m pg' where IH: "page_loop mi mb rows ?pg = (pg', None)" "m \<le> length rows"
      "m = 0 \<or> int (length (page_results ?pg)) + int m \<le> mi"
      "page_results pg' = page_results ?pg @ map result_value (take m rows)"
      "last_ordinal pg' = (if m = 0 then last_ordinal ?pg else ordinal (rows ! (m - 1)))"
      "has_more pg' \<longleftrightarrow> m < length rows"
      using Cons.IH [of ?pg] Cons.prems by auto
    then show ?thesis using fits by (intro exI [of _ "Suc m"] exI [of _ pg']) (cases m; simp)
  qed
qed

lemma ordinals_after:
  assumes "map ordinal rs = map int [1..<Suc (length rs)]" and "k \<le> length rs"
  shows "sort_key ordinal (filter (\<lambda>r. int k < ordinal r) rs) = drop k rs"
proof -
  have nth: "ordinal (rs ! j) = int (Suc j)" if "j < length rs" for j
    using arg_cong [OF assms(1), of "\<lambda>xs. xs ! j"] that by (simp del: upt_Suc)
  have "filter (\<lambda>r. int k < ordinal r) (take k rs) = []"
    using nth by (auto simp: filter_empty_iff in_set_conv_nth)
  moreover have "filter (\<lambda>r. int k < ordinal r) (drop k rs) = drop k rs"
    using nth by (auto simp: filter_id_conv in_set_conv_nth)
  ultimately have "filter (\<lambda>r. int k < ordinal r) rs = drop k rs"
    by (metis append_Nil append_take_drop_id filter_append)
  moreover have "sorted (map ordinal (drop k rs))"
    using nth by (auto simp: sorted_iff_nth_mono)
  ultimately show ?thesis by (simp add: sorted_sort_id sort_key_id_if_sorted)
qed

text \<open>
  A client that starts without a cursor and follows \<open>last_ordinal\<close> while \<open>has_more\<close> is set; the first
  argument bounds the number of requests.
\<close>

primrec read_all ::
  "nat \<Rightarrow> store_config \<Rightarrow> string \<Rightarrow> string \<Rightarrow> int \<Rightarrow> int \<Rightarrow> pyfloat \<Rightarrow> job_db \<Rightarrow> int \<Rightarrow> fetch_result list option" where
  "read_all 0 cfg i scope mi mb now db after = None"
| "read_all (Suc n) cfg i scope mi mb now db after =
     (case fst (result_page_op cfg i scope after mi mb now db) of
        Inl e \<Rightarrow> None
      | Inr (rec, page) \<Rightarrow>
          if has_more page
          then map_option (\<lambda>rest. page_results page @ rest)
                 (read_all n cfg i scope mi mb now db (last_ordinal page))
          else Some (page_results page))"

lemma select_scoped_iff:
  assumes "keyed (jobs db)" and "select_job i db = Some j" and "scope_hash j = scope"
  shows "select_scoped_job i scope db = Some j"
proof -
  have j: "j \<in> set (jobs db)" "job_id j = i" using select_job_Some [OF assms(2)] by auto
  then obtain k where k: "select_scoped_job i scope db = Some k"
    using assms(3) by (cases "select_scoped_job i scope db") (auto simp: select_scoped_job_def find_None_iff)
  then have "k \<in> set (jobs db)" "job_id k = i" by (auto simp: select_scoped_job_def dest: find_Some_mem)
  then show ?thesis using keyed_unique [OF assms(1) _ j(1)] j(2) k by metis
qed

text \<open>A job that is there, in its scope, and not past its retention at \<open>now\<close>.\<close>

definition readable :: "store_config \<Rightarrow> string \<Rightarrow> string \<Rightarrow> pyfloat \<Rightarrow> job_db \<Rightarrow> job_row \<Rightarrow> bool" where
  "readable cfg i scope now db j \<longleftrightarrow> select_job i db = Some j \<and> scope_hash j = scope \<and>
     state j \<noteq> Expired \<and> \<not> due now j"

lemma readable_expire:
  assumes inv: "store_inv cfg db" and r: "readable cfg i scope now db j"
  shows "select_scoped_job i scope (expire_due cfg now db) = Some j"
    and "results_of i (expire_due cfg now db) = results_of i db" and "state j \<noteq> Expired"
proof -
  have "view i (expire_due cfg now db) = view i db"
    using view_expire_due [OF inv, of i j now] r by (simp add: readable_def purgeable_def)
  then have "select_job i (expire_due cfg now db) = Some j" and
    "results_of i (expire_due cfg now db) = results_of i db" using r by (simp_all add: view_def readable_def)
  then show "select_scoped_job i scope (expire_due cfg now db) = Some j"
    "results_of i (expire_due cfg now db) = results_of i db" "state j \<noteq> Expired"
    using select_scoped_iff expire_due_inv [OF inv, of now] r by (simp_all add: store_inv_def readable_def)
qed

lemma result_page_shape:
  assumes inv: "store_inv cfg db" and r: "readable cfg i scope now db j"
    and mi: "1 \<le> mi" and mb: "int (max_result_item_bytes cfg) \<le> mb" and k: "k \<le> length (results_of i db)"
  shows "\<exists>m page. fst (result_page_op cfg i scope (int k) mi mb now db) = Inr (make_record (expire_due cfg now db) j, page) \<and>
      k + m \<le> length (results_of i db) \<and> (k < length (results_of i db) \<longrightarrow> 1 \<le> m) \<and>
      page_results page = map result_value (take m (drop k (results_of i db))) \<and>
      last_ordinal page = int (k + m) \<and> (has_more page \<longleftrightarrow> k + m < length (results_of i db))"
proof -
  let ?e = "expire_due cfg now db" and ?rs = "results_of i db"
  have pages: "pages_ok cfg db i" using inv by (simp add: store_inv_def)
  then have ord: "map ordinal ?rs = map int [1..<Suc (length ?rs)]" by (simp add: pages_ok_def)
  have nth: "ordinal (?rs ! n) = int (Suc n)" if "n < length ?rs" for n
    using arg_cong [OF ord, of "\<lambda>xs. xs ! n"] that by (simp del: upt_Suc)
  note re = readable_expire [OF inv r]
  let ?rows = "take (nat (mi + 1)) (drop k ?rs)"
  have rows: "page_rows i (int k) mi ?e = ?rows"
    unfolding page_rows_def re(2) using ordinals_after [OF ord k] mi by simp
  let ?pg0 = "\<lparr>page_results = [], last_ordinal = int k, returned_bytes = 0, has_more = False\<rparr>"
  have "\<forall>r\<in>set ?rows. int (item_bytes r) \<le> mb"
    using pages mb by (auto simp: pages_ok_def dest!: in_set_takeD in_set_dropD)
  moreover have "\<not> has_more ?pg0" and "page_results ?pg0 = [] \<Longrightarrow> returned_bytes ?pg0 = 0" by simp_all
  ultimately have "\<exists>m pg'. page_loop mi mb ?rows ?pg0 = (pg', None) \<and> m \<le> length ?rows \<and>
     (m = 0 \<or> int (length (page_results ?pg0)) + int m \<le> mi) \<and>
     (page_results ?pg0 = [] \<and> ?rows \<noteq> [] \<longrightarrow> 1 \<le> m) \<and>
     page_results pg' = page_results ?pg0 @ map result_value (take m ?rows) \<and>
     last_ordinal pg' = (if m = 0 then last_ordinal ?pg0 else ordinal (?rows ! (m - 1))) \<and>
     (has_more pg' \<longleftrightarrow> m < length ?rows)"
    by (rule page_loop_prefix [OF _ mi])
  then
  obtain m pg where run: "build_result_page ?rows (int k) mi mb = (pg, None)" and m: "m \<le> length ?rows"
    "?rows \<noteq> [] \<longrightarrow> 1 \<le> m" "page_results pg = map result_value (take m ?rows)"
    "last_ordinal pg = (if m = 0 then int k else ordinal (?rows ! (m - 1)))" "has_more pg \<longleftrightarrow> m < length ?rows"
    "m = 0 \<or> int m \<le> mi"
    unfolding build_result_page_def by (elim exE conjE) simp
  have "m \<le> nat mi" using m(6) by auto
  then have m_le: "m \<le> length (drop k ?rs)" and tk: "take m ?rows = take m (drop k ?rs)"
    and more: "m < length ?rows \<longleftrightarrow> k + m < length ?rs"
    using m(1) mi by (auto simp: min_def split: if_splits)
  have last: "last_ordinal pg = int (k + m)"
    using m(1,4) m_le nth [of "k + m - 1"] by (cases m) auto
  have one: "k < length ?rs \<longrightarrow> 1 \<le> m" using m(2) mi by auto
  have "fst (result_page_op cfg i scope (int k) mi mb now db) = Inr (make_record ?e j, pg)"
    using re(1,3) run by (simp add: result_page_op_def Let_def rows)
  then show ?thesis
    using m_le one last more m(3,5) tk k by (intro exI [of _ m] exI [of _ pg]) auto
qed

end
