(* ===== verification/Job_Guarantees.thy ===== *)
theory Job_Guarantees
  imports Job_Lifecycle
begin

text \<open>
  The promises of the job store, stated over every database its operations can lead to: counters and
  ordinals that tell the truth, closed jobs that stay closed, cancellation that sticks, idempotent
  creation, first-come first-served dispatch, recovery after a crash, and paging that delivers every
  result once.
\<close>

section \<open>A concrete run\<close>

definition demo_request :: crawl_request where
  "demo_request = \<lparr>site_url = ''https://a.org/'', site_sitemap = Sitemap_Include, site_max_depth = 1,
     site_max_pages = 2, site_max_discovered_urls = 5, site_include_parent_paths = False,
     site_include_subdomains = False, site_include_paths = [], site_exclude_paths = [],
     site_query_parameters = Query_Strip, site_allowed_file_extensions = [], site_include_search = False,
     crawl_capabilities = [], crawl_structured_formats = [], crawl_extraction_schema = None\<rparr>"

definition demo_result :: "fetch_outcome \<Rightarrow> fetch_result" where
  "demo_result oc = \<lparr>res_requested_url = ''https://a.org/'', res_final_url = None, res_outcome = oc,
     res_retryable = False, res_status_code = None, res_content_type = None, res_title = None,
     res_retrieval_method = None, res_elapsed_ms = 1, res_capabilities = [], res_markdown = None,
     res_raw_html = None, res_links = [], res_metadata = [], res_structured = [],
     res_response_headers = [], res_cache = JNull, res_change = None, res_diff = None, res_watch = None\<rparr>"

definition demo_config :: store_config where
  "demo_config = \<lparr>retention_s = 100, tombstone_s = 50, max_failure_summaries = 4,
     max_failure_summary_chars = 64, max_result_item_bytes = 10, max_records = 2, result_bytes = (\<lambda>r. 7)\<rparr>"

definition demo_queued :: job_db where
  "demo_queued = snd (claim demo_config ''j'' ''s'' ''k'' ''f'' demo_request 1 empty_db)"

definition demo_running :: job_db where
  "demo_running = snd (claim_next demo_config 2 demo_queued)"

definition demo_filled :: job_db where
  "demo_filled = snd (append_result demo_config ''j'' ''u'' (demo_result Content) [''u''] 3 demo_running)"

definition demo_closed :: job_db where
  "demo_closed = snd (finish demo_config ''j'' Completed (Some ''completed'') [] 4 demo_filled)"

abbreviation demo_job :: job_row where
  "demo_job \<equiv> new_job ''j'' ''s'' ''k'' ''f'' demo_request 1"

lemmas demo_defs = demo_config_def empty_db_def new_job_def select_job_def select_scoped_job_def
  update_jobs_def results_of_def make_record_def

lemma demo_queued_eq: "demo_queued = \<lparr>jobs = [demo_job], results = [], failures = []\<rparr>"
  by (simp add: demo_queued_def claim_def expire_due_def demo_defs)

lemma demo_running_eq: "demo_running =
    \<lparr>jobs = [demo_job\<lparr>state := Running, started_at := Some 2, attempts := 1\<rparr>], results = [], failures = []\<rparr>"
  unfolding demo_running_def demo_queued_eq
  by (simp add: claim_next_def Let_def get_any_def expire_due_def due_def purgeable_def is_terminal_def terminal_states_def demo_defs)

lemma demo_filled_eq: "demo_filled =
    \<lparr>jobs = [demo_job\<lparr>state := Running, started_at := Some 2, attempts := 1, pages_processed := 1, pages_succeeded := 1\<rparr>],
     results = [\<lparr>result_job = ''j'', result_key = ''u'', ordinal = 1, result_value = demo_result Content,
       item_bytes = 7, result_created_at = 3\<rparr>], failures = []\<rparr>"
  unfolding demo_filled_def demo_running_eq
  by (simp add: append_result_def Let_def max_ordinal_def demo_defs demo_result_def)

lemma demo_closed_eq: "demo_closed =
    \<lparr>jobs = [demo_job\<lparr>state := Completed, started_at := Some 2, attempts := 1, pages_processed := 1,
       pages_succeeded := 1, terminal_at := Some 4, retention_deadline := Some 104, outcome := Some ''completed''\<rparr>],
     results = [\<lparr>result_job = ''j'', result_key = ''u'', ordinal = 1, result_value = demo_result Content,
       item_bytes = 7, result_created_at = 3\<rparr>], failures = []\<rparr>"
  unfolding demo_closed_def demo_filled_eq
  by (simp add: finish_def Let_def close_row_def is_terminal_def terminal_states_def demo_defs)

lemma demo_reachable:
  "reachable demo_config demo_queued" "reachable demo_config demo_running"
  "reachable demo_config demo_filled" "reachable demo_config demo_closed"
proof -
  have "select_job ''j'' empty_db = None" by (simp add: select_job_def empty_db_def)
  then show q: "reachable demo_config demo_queued"
    unfolding demo_queued_def by (intro reach_step [OF reach_empty] step_claim)
  then show r: "reachable demo_config demo_running"
    unfolding demo_running_def by (rule reach_step [OF _ step_claim_next])
  have "running ''j'' demo_running" by (simp add: running_def demo_running_eq demo_defs)
  then show f: "reachable demo_config demo_filled"
    unfolding demo_filled_def by (intro reach_step [OF r] step_result)
  show "reachable demo_config demo_closed"
    unfolding demo_closed_def by (intro reach_step [OF f] step_finish) (simp add: is_terminal_def terminal_states_def)
qed

section \<open>The tables tell the truth\<close>



section \<open>Closed jobs stay closed\<close>

text \<open>A step in which no claim draws the id \<open>i\<close> again.\<close>

definition fresh_step :: "store_config \<Rightarrow> string \<Rightarrow> job_db \<Rightarrow> job_db \<Rightarrow> bool" where
  "fresh_step cfg i db db' \<longleftrightarrow>
     store_step cfg db db' \<and> (select_job i db = None \<longrightarrow> select_job i db' = None)"

abbreviation fresh_steps :: "store_config \<Rightarrow> string \<Rightarrow> job_db \<Rightarrow> job_db \<Rightarrow> bool" where
  "fresh_steps cfg i \<equiv> (fresh_step cfg i)\<^sup>*\<^sup>*"

lemma fresh_steps_inv: "fresh_steps cfg i db db' \<Longrightarrow> store_inv cfg db \<Longrightarrow> store_inv cfg db'"
  by (induction rule: rtranclp_induct) (auto simp: fresh_step_def intro: store_step_inv)

text \<open>A property of one job's row that every step keeps, or removes with the job, holds after any run.\<close>

lemma fresh_steps_keep:
  assumes "fresh_steps cfg i db db'" and "store_inv cfg db"
    and "\<And>j. select_job i db = Some j \<Longrightarrow> P j db"
    and step: "\<And>d d' j j'. store_step cfg d d' \<Longrightarrow> store_inv cfg d \<Longrightarrow> store_inv cfg d' \<Longrightarrow>
        select_job i d = Some j \<Longrightarrow> P j d \<Longrightarrow> select_job i d' = Some j' \<Longrightarrow> P j' d'"
  shows "\<forall>j'. select_job i db' = Some j' \<longrightarrow> P j' db'"
  using assms(1)
proof (induction rule: rtranclp_induct)
  case base
  then show ?case using assms(3) by blast
next
  case (step d d')
  have inv: "store_inv cfg d" using fresh_steps_inv [OF step.hyps(1) assms(2)] .
  have s: "store_step cfg d d'" using step.hyps(2) by (simp add: fresh_step_def)
  show ?case
  proof (intro allI impI)
    fix j' assume j': "select_job i d' = Some j'"
    then obtain j where "select_job i d = Some j" using step.hyps(2) by (auto simp: fresh_step_def)
    then show "P j' d'" using assms(4) [OF s inv store_step_inv [OF s inv]] step.IH j' by blast
  qed
qed

lemma expired_no_results:
  assumes "store_inv cfg db" and "select_job i db = Some j" and "state j = Expired"
  shows "results_of i db = []"
proof -
  have "i \<notin> live_ids db" using live_id_select [of db i j] assms by (auto simp: store_inv_def)
  then show ?thesis using assms(1) by (auto simp: store_inv_def results_of_def filter_empty_iff)
qed



section \<open>Cancellation sticks\<close>

text \<open>A running job told to stop, or one already closed by that or expired.\<close>

definition stopping :: "job_row \<Rightarrow> bool" where
  "stopping j \<longleftrightarrow> state j = Running \<and> cancel_requested j \<or> state j = Cancelled \<or> state j = Expired"

lemma stopping_update:
  assumes "select_job i db = Some j" and "\<And>k. job_id (f k) = job_id k"
    and "\<And>k. p k \<Longrightarrow> stopping k \<Longrightarrow> stopping (f k)" and "stopping j"
  shows "\<exists>j'. select_job i (update_jobs p f db) = Some j' \<and> stopping j'"
  using assms by (auto simp: select_update)

lemma select_results_update [simp]: "select_job i (db\<lparr>results := rs\<rparr>) = select_job i db"
  "select_job i (db\<lparr>failures := fs\<rparr>) = select_job i db"
  by (simp_all add: select_job_def)

lemma running_expire:
  assumes "store_inv cfg db" and "select_job i db = Some j" and "state j = Running"
  shows "select_job i (expire_due cfg now db) = Some j"
  using expire_active [OF assms(1,2), of now] assms(2,3) by (simp add: view_def active_def)

lemma select_append: "select_job i db = Some j \<Longrightarrow> select_job i (db\<lparr>jobs := jobs db @ [k]\<rparr>) = Some j"
proof -
  have "List.find P xs = Some j \<Longrightarrow> List.find P (xs @ ys) = Some j" for P :: "job_row \<Rightarrow> bool" and xs ys
    by (induction xs) (auto split: if_splits)
  then show "select_job i db = Some j \<Longrightarrow> select_job i (db\<lparr>jobs := jobs db @ [k]\<rparr>) = Some j"
    by (simp add: select_job_def)
qed

lemma step_cancelled:
  assumes "store_step cfg db db'" and "store_inv cfg db" and "select_job i db = Some j"
    and "state j = Running" and "cancel_requested j"
  shows "\<exists>j'. select_job i db' = Some j' \<and> stopping j'"
proof -
  have e: "select_job i (expire_due cfg now db) = Some j" for now by (rule running_expire [OF assms(2-4)])
  have stop: "stopping j" using assms(4,5) by (simp add: stopping_def)
  note up = stopping_update [OF e _ _ stop] and up0 = stopping_update [OF assms(3) _ _ stop]
  from assms(1) show ?thesis
  proof cases
    case (step_claim k scope idem fp req now)
    show ?thesis unfolding step_claim(1) claim_def Let_def
      using e [of now] stop select_append [OF e [of now]] assms(3) by (auto split: option.split)
  next
    case (step_get k scope now)
    then show ?thesis using e [of now] stop by (auto simp: get_job_def Let_def split: option.split)
  next
    case (step_recover m now)
    have "select_job i db' = Some ((close_row cfg now Cancelled (Some ''cancelled'') j)\<lparr>cancel_requested := False\<rparr>)"
      unfolding step_recover(1) recover_interrupted_def Let_def
      using assms(3-5) by (simp add: select_update close_row_def)
    then show ?thesis by (simp add: stopping_def close_row_def)
  next
    case (step_claim_next now)
    then show ?thesis using e [of now] stop
      by (auto simp: claim_next_def Let_def select_update assms(4) split: option.split)
  next
    case (step_increment k)
    have "\<exists>j'. select_job i (update_jobs (\<lambda>j. job_id j = k \<and> state j = Running) (\<lambda>j. j\<lparr>attempts := attempts j + 1\<rparr>) db) = Some j' \<and> stopping j'"
      by (rule up0) (simp_all add: stopping_def)
    then show ?thesis using assms(3) stop step_increment(1) by (auto simp: increment_attempt_def Let_def split: option.split)
  next
    case (step_result k key res keys now)
    then show ?thesis
      using assms(3-5) by (auto simp: append_result_def Let_def select_update stopping_def)
  next
    case (step_failure k key tx now)
    then show ?thesis
      using assms(3-5) by (auto simp: append_failure_def Let_def select_update stopping_def split: option.split)
  next
    case (step_summary k tx)
    then show ?thesis
      using assms(3-5) by (auto simp: append_summary_def Let_def select_update stopping_def)
  next
    case (step_finish st k out warns now)
    have i: "job_id j = i" using select_job_Some [OF assms(3)] by simp
    show ?thesis
    proof (cases "k = i")
      case True
      then show ?thesis unfolding step_finish(1)
        using assms(3-5) i by (simp add: finish_def Let_def select_update stopping_def close_row_def is_terminal_def terminal_states_def)
    next
      case False
      then have "select_job i (update_jobs (\<lambda>j. job_id j = k \<and> q j) g db) = Some j" if "\<And>j. job_id (g j) = job_id j" for q g
        using assms(3) i by (simp add: select_update that)
      then show ?thesis unfolding step_finish(1) finish_def Let_def close_row_def
        using assms(3) stop by (auto split: option.split)
    qed
  next
    case (step_cancel k scope now)
    have "\<exists>j'. select_job i (update_jobs (\<lambda>j. job_id j = k \<and> state j = Queued)
        (\<lambda>j. (close_row cfg now Cancelled (Some ''cancelled'') j)\<lparr>cancel_requested := False\<rparr>) (expire_due cfg now db)) = Some j' \<and> stopping j'"
      by (rule up) (simp_all add: stopping_def close_row_def)
    moreover have "\<exists>j'. select_job i (update_jobs (\<lambda>j. job_id j = k) (\<lambda>j. j\<lparr>cancel_requested := True\<rparr>) (expire_due cfg now db)) = Some j' \<and> stopping j'"
      by (rule up) (auto simp: stopping_def)
    ultimately show ?thesis
      unfolding step_cancel(1) request_cancel_def Let_def using e [of now] stop by (auto split: option.split)
  next
    case (step_page k scope after mi mb now)
    then show ?thesis using e [of now] stop by (auto simp: result_page_op_def Let_def split: option.split prod.split)
  next
    case (step_cleanup now)
    then show ?thesis using e [of now] stop by (simp add: cleanup_def Let_def)
  qed
qed

text \<open>
  C12. Once a running job has been told to stop, no sequence of store operations makes it end as
  completed, partial or failed, or puts it back into the queue: it is still running with the request
  standing, or cancelled, or expired, or gone.
\<close>

theorem cancel_sticks:
  assumes "reachable cfg db" and "select_job i db = Some j" and "state j = Running" and "cancel_requested j"
    and "fresh_steps cfg i db db'" and "select_job i db' = Some j'"
  shows "state j' = Running \<and> cancel_requested j' \<or> state j' = Cancelled \<or> state j' = Expired"
proof -
  have "\<forall>j'. select_job i db' = Some j' \<longrightarrow> stopping j'"
  proof (rule fresh_steps_keep [OF assms(5) reachable_inv [OF assms(1)], where P = "\<lambda>j d. stopping j"])
    fix d d' k k'
    assume s: "store_step cfg d d'" "store_inv cfg d" "select_job i d = Some k" "stopping k" "select_job i d' = Some k'"
    have "life (state k) (state k')" using step_lives_on [OF s(1,2), of i] s(3,5) by (auto simp: lives_on_def)
    then show "stopping k'"
      using step_cancelled [OF s(1-3)] s(4,5) by (auto simp: stopping_def life_def active_def)
  qed (use assms(2-4) in \<open>simp add: stopping_def\<close>)
  then show ?thesis using assms(6) by (simp add: stopping_def)
qed

definition demo_stopping :: job_db where
  "demo_stopping = snd (request_cancel demo_config ''j'' ''s'' 3 demo_running)"

lemma demo_stopping_eq: "demo_stopping = demo_running\<lparr>jobs := [hd (jobs demo_running)\<lparr>cancel_requested := True\<rparr>]\<rparr>"
  unfolding demo_stopping_def demo_running_eq
  by (simp add: request_cancel_def Let_def expire_due_def due_def purgeable_def is_terminal_def terminal_states_def demo_defs)

theorem cancel_sticks_witness:
  "state (hd (jobs (snd (finish demo_config ''j'' Completed (Some ''completed'') [] 4 demo_stopping)))) \<noteq> Completed"
proof -
  let ?db = "snd (finish demo_config ''j'' Completed (Some ''completed'') [] 4 demo_stopping)"
  have r: "reachable demo_config demo_stopping"
    unfolding demo_stopping_def by (rule reach_step [OF demo_reachable(2) step_cancel])
  have sel: "select_job ''j'' demo_stopping = Some (hd (jobs demo_stopping))"
    by (simp add: demo_stopping_eq demo_running_eq demo_defs)
  have "store_step demo_config demo_stopping ?db" by (rule step_finish) (simp add: is_terminal_def terminal_states_def)
  then have steps: "fresh_steps demo_config ''j'' demo_stopping ?db" using sel by (auto simp: fresh_step_def)
  have run: "state (hd (jobs demo_stopping)) = Running" "cancel_requested (hd (jobs demo_stopping))"
    by (simp_all add: demo_stopping_eq demo_running_eq)
  have "select_job ''j'' ?db = Some (hd (jobs ?db))"
    by (simp add: demo_stopping_eq demo_running_eq finish_def Let_def close_row_def is_terminal_def terminal_states_def demo_defs)
  from cancel_sticks [OF r sel run steps this] show ?thesis by auto
qed

section \<open>Idempotent creation\<close>

lemma claim_lookup:
  assumes inv: "store_inv cfg db"
  shows "j \<in> set (jobs (expire_due cfg now db)) \<and> idempotency_hash j \<noteq> None \<longleftrightarrow>
     j \<in> set (jobs db) \<and> \<not> due now j \<and> idempotency_hash j \<noteq> None"
proof -
  let ?e = "expire_due cfg now db"
  have keyed: "keyed (jobs db)" "keyed (jobs ?e)" using inv expire_due_inv [OF inv, of now] by (simp_all add: store_inv_def)
  have exp: "idempotency_hash k = None" if "k \<in> set (jobs db)" "state k = Expired" for k
    using row_facts [OF inv that(1)] that(2) by (simp add: row_ok_def)
  show ?thesis
  proof
    assume a: "j \<in> set (jobs ?e) \<and> idempotency_hash j \<noteq> None"
    then have sel: "select_job (job_id j) ?e = Some j" using select_job_iff [OF keyed(2)] by simp
    then obtain k where k: "select_job (job_id j) db = Some k"
      using select_none_expire [of "job_id j" db cfg now] by (cases "select_job (job_id j) db") auto
    have "k = j \<and> \<not> due now k"
      using view_expire_due [OF inv k, of now] sel a k
      by (auto simp: view_def Let_def expired_row_def split: if_splits)
    then show "j \<in> set (jobs db) \<and> \<not> due now j \<and> idempotency_hash j \<noteq> None"
      using select_job_Some [OF k] a by auto
  next
    assume a: "j \<in> set (jobs db) \<and> \<not> due now j \<and> idempotency_hash j \<noteq> None"
    then have sel: "select_job (job_id j) db = Some j" using select_job_iff [OF keyed(1)] by simp
    have "\<not> purgeable now j" using exp a by (auto simp: purgeable_def)
    then have "select_job (job_id j) ?e = Some j"
      using view_expire_due [OF inv sel, of now] a sel by (simp add: view_def)
    then show "j \<in> set (jobs ?e) \<and> idempotency_hash j \<noteq> None" using select_job_Some a by blast
  qed
qed

lemma results_of_kept:
  assumes inv: "store_inv cfg db" and j: "j \<in> set (jobs db)" "idempotency_hash j \<noteq> None" "\<not> due now j"
  shows "results_of (job_id j) (expire_due cfg now db) = results_of (job_id j) db"
proof -
  have sel: "select_job (job_id j) db = Some j" using j(1) inv select_job_iff by (simp add: store_inv_def)
  have "\<not> purgeable now j" using row_facts [OF inv j(1)] j(2) by (auto simp: purgeable_def row_ok_def)
  then show ?thesis using view_expire_due [OF inv sel, of now] j(3) by (simp add: view_def)
qed



text \<open>Without such a job the claim creates a queued one, unless the table is full.\<close>

lemma claim_creates:
  assumes "store_inv cfg db" and "select_job i db = None"
    and "\<forall>j\<in>set (jobs db). scope_hash j = scope \<and> idempotency_hash j = Some idem \<longrightarrow> due now j"
  shows "fst (claim cfg i scope idem fp req now db) =
    (if max_records cfg \<le> length (jobs (expire_due cfg now db)) then Inl Queue_Full
     else Inr (\<lparr>rec_row = new_job i scope idem fp req now, results_available = 0\<rparr>, False))"
proof -
  let ?e = "expire_due cfg now db"
  have "List.find (\<lambda>j. scope_hash j = scope \<and> idempotency_hash j = Some idem) (jobs ?e) = None"
    using claim_lookup [OF assms(1), of _ now] assms(3) unfolding find_None_iff by (metis option.distinct(1))
  moreover have none: "select_job i ?e = None" using assms(2) by (rule select_none_expire)
  moreover have "results_of i ?e = []"
  proof -
    have "i \<notin> live_ids ?e" using none by (auto simp: select_job_None live_ids_def)
    then show ?thesis using expire_due_inv [OF assms(1), of now] by (auto simp: store_inv_def results_of_def filter_empty_iff)
  qed
  ultimately show ?thesis by (simp add: claim_def Let_def make_record_def results_of_def new_job_def)
qed

section \<open>Dispatch\<close>

lemma before_total: "before a b \<or> before b a"
  by (auto simp: before_def)

lemma before_trans: "before a b \<Longrightarrow> before b c \<Longrightarrow> before a c"
  by (auto simp: before_def)

lemma first_job_least:
  "(first_job js = None \<longleftrightarrow> js = []) \<and>
   (\<forall>j. first_job js = Some j \<longrightarrow> j \<in> set js \<and> (\<forall>k\<in>set js. before j k))"
proof (induction js)
  case (Cons j js)
  show ?case
  proof (cases "first_job js")
    case None
    then have "js = []" using Cons.IH by blast
    then show ?thesis by (simp add: before_def)
  next
    case (Some k)
    then have k: "k \<in> set js" "\<forall>l\<in>set js. before k l" using Cons.IH by blast+
    show ?thesis
    proof (cases "before j k")
      case True
      then have "\<forall>l\<in>set js. before j l" using k(2) before_trans by blast
      then show ?thesis using Some True by (simp add: before_def)
    next
      case False
      then have "before k j" using before_total by blast
      then show ?thesis using Some False k by simp
    qed
  qed
qed simp

lemma queued_after_expiry:
  assumes inv: "store_inv cfg db"
  shows "j \<in> set (jobs (expire_due cfg now db)) \<and> active (state j) \<longleftrightarrow> j \<in> set (jobs db) \<and> active (state j)"
proof -
  let ?e = "expire_due cfg now db"
  have keyed: "keyed (jobs db)" "keyed (jobs ?e)" using inv expire_due_inv [OF inv, of now] by (simp_all add: store_inv_def)
  show ?thesis
  proof
    assume a: "j \<in> set (jobs ?e) \<and> active (state j)"
    then have sel: "select_job (job_id j) ?e = Some j" using select_job_iff [OF keyed(2)] by simp
    then obtain k where k: "select_job (job_id j) db = Some k"
      using select_none_expire [of "job_id j" db cfg now] by (cases "select_job (job_id j) db") auto
    have "k = j"
      using view_expire_due [OF inv k, of now] sel a k
      by (auto simp: view_def Let_def expired_row_def split: if_splits)
    then show "j \<in> set (jobs db) \<and> active (state j)" using select_job_Some [OF k] a by auto
  next
    assume a: "j \<in> set (jobs db) \<and> active (state j)"
    then have sel: "select_job (job_id j) db = Some j" using select_job_iff [OF keyed(1)] by simp
    have "select_job (job_id j) ?e = Some j"
      using expire_active [OF inv sel, of now] a sel by (simp add: view_def)
    then show "j \<in> set (jobs ?e) \<and> active (state j)" using select_job_Some a by blast
  qed
qed

text \<open>
  The worker is handed queued jobs first come, first served: \<open>claim_next\<close> finds no job exactly when
  none is queued; otherwise the job it returns is a queued one with the least creation time (ties by id),
  now running, with one more attempt, its first start time recorded once, and stored that way.
\<close>

theorem dispatch_fifo:
  assumes "reachable cfg db"
  shows "case claim_next cfg now db of
      (None, db') \<Rightarrow> db' = expire_due cfg now db \<and> (\<forall>k\<in>set (jobs db). state k \<noteq> Queued)
    | (Some rec, db') \<Rightarrow>
        (\<exists>j\<in>set (jobs db). state j = Queued \<and> (\<forall>k\<in>set (jobs db). state k = Queued \<longrightarrow> before j k) \<and>
           rec_row rec = j\<lparr>state := Running,
             started_at := Some (case started_at j of None \<Rightarrow> now | Some t \<Rightarrow> t), attempts := attempts j + 1\<rparr> \<and>
           results_available rec = length (results_of (job_id j) db) \<and>
           select_job (job_id j) db' = Some (rec_row rec))"
proof -
  let ?e = "expire_due cfg now db" and ?q = "filter (\<lambda>j. state j = Queued) (jobs (expire_due cfg now db))"
  have inv: "store_inv cfg db" using assms by (rule reachable_inv)
  have keyed: "keyed (jobs db)" "keyed (jobs ?e)" using inv expire_due_inv [OF inv, of now] by (simp_all add: store_inv_def)
  have q: "set ?q = {j \<in> set (jobs db). state j = Queued}"
    using queued_after_expiry [OF inv, of _ now] by (auto simp: active_def)
  show ?thesis
  proof (cases "first_job ?q")
    case None
    then have "?q = []" using first_job_least [of ?q] by blast
    then have "\<forall>k\<in>set (jobs db). state k \<noteq> Queued" using q by auto
    moreover have "claim_next cfg now db = (None, ?e)" using None by (simp add: claim_next_def Let_def)
    ultimately show ?thesis by simp
  next
    case (Some j)
    then have mem: "j \<in> set (jobs db)" "state j = Queued" and least: "\<forall>k\<in>set (jobs db). state k = Queued \<longrightarrow> before j k"
      using first_job_least [of ?q] q by blast+
    have sel: "select_job (job_id j) ?e = Some j"
      using select_job_iff [OF keyed(2)] queued_after_expiry [OF inv, of j now] mem by (simp add: active_def)
    have sel0: "select_job (job_id j) db = Some j" using select_job_iff [OF keyed(1)] mem by simp
    have res: "results_of (job_id j) ?e = results_of (job_id j) db"
      using expire_active [OF inv sel0, of now] mem by (simp add: view_def active_def)
    let ?f = "\<lambda>j. j\<lparr>state := Running, started_at := (case started_at j of None \<Rightarrow> Some now | Some t \<Rightarrow> Some t),
        attempts := attempts j + 1\<rparr>"
    let ?db' = "update_jobs (\<lambda>k. job_id k = job_id j \<and> state k = Queued) ?f ?e"
    have upd: "select_job (job_id j) ?db' = Some (?f j)" using sel mem(2) by (simp add: select_update)
    then have run: "claim_next cfg now db = (Some (make_record ?db' (?f j)), ?db')"
      using Some by (simp add: claim_next_def Let_def get_any_def)
    have "?f j = j\<lparr>state := Running, started_at := Some (case started_at j of None \<Rightarrow> now | Some t \<Rightarrow> t), attempts := attempts j + 1\<rparr>"
      by (simp split: option.split)
    then show ?thesis unfolding run prod.case option.case using upd mem least res
      by (intro bexI [of _ j]) (simp_all add: make_record_def)
  qed
qed

theorem dispatch_fifo_witness:
  "\<exists>rec db'. claim_next demo_config 2 demo_queued = (Some rec, db') \<and> attempts (rec_row rec) = 1"
  using dispatch_fifo [OF demo_reachable(1), of 2]
  by (auto simp: demo_queued_eq new_job_def split: prod.splits option.splits)

section \<open>Recovery\<close>

text \<open>
  After a restart no job is left running: \<open>_recover_interrupted\<close>, three updates in sequence, sends
  every interrupted job to one place, cancelled when it had been told to stop, failed when its attempts
  are used up, back to the queue otherwise; it leaves every other job, every result and every failure
  alone, and returns the number of jobs it found running.
\<close>

theorem recovery_settles_running:
  "recover_interrupted cfg max_attempts now db =
     (length (filter (\<lambda>j. state j = Running) (jobs db)),
      db\<lparr>jobs := map (\<lambda>j. if state j \<noteq> Running then j
          else if cancel_requested j then (close_row cfg now Cancelled (Some ''cancelled'') j)\<lparr>cancel_requested := False\<rparr>
          else if max_attempts \<le> attempts j then (close_row cfg now Failed (Some ''local_processing_failure'') j)
            \<lparr>failure_summaries := [''restart_retry_exhausted'']\<rparr>
          else j\<lparr>state := Queued\<rparr>) (jobs db)\<rparr>)"
proof -
  let ?f1 = "\<lambda>j. (close_row cfg now Cancelled (Some ''cancelled'') j)\<lparr>cancel_requested := False\<rparr>"
  let ?f2 = "\<lambda>j. (close_row cfg now Failed (Some ''local_processing_failure'') j)\<lparr>failure_summaries := [''restart_retry_exhausted'']\<rparr>"
  define g1 where "g1 = (\<lambda>j. if state j = Running \<and> cancel_requested j then ?f1 j else j)"
  define g2 where "g2 = (\<lambda>j. if state j = Running \<and> max_attempts \<le> attempts j then ?f2 j else j)"
  define g where "g = (\<lambda>j. if state j \<noteq> Running then j else if cancel_requested j then ?f1 j
      else if max_attempts \<le> attempts j then ?f2 j else j\<lparr>state := Queued\<rparr>)"
  have s: "state (?f1 j) = Cancelled" "state (?f2 j) = Failed" for j by (simp_all add: close_row_def)
  have c: "state (g1 j) = Cancelled \<and> g2 (g1 j) = ?f1 j \<and> g j = ?f1 j" if "state j = Running" "cancel_requested j" for j
    unfolding g1_def g2_def g_def using that s by simp
  have f: "g1 j = j \<and> state (g2 j) = Failed \<and> g2 j = ?f2 j \<and> g j = ?f2 j"
    if "state j = Running" "\<not> cancel_requested j" "max_attempts \<le> attempts j" for j
    unfolding g1_def g2_def g_def using that s by simp
  have q: "g1 j = j \<and> g2 j = j \<and> g j = j\<lparr>state := Queued\<rparr>"
    if "state j = Running" "\<not> cancel_requested j" "\<not> max_attempts \<le> attempts j" for j
    unfolding g1_def g2_def g_def using that by simp
  have n: "g1 j = j \<and> g2 j = j \<and> g j = j" if "state j \<noteq> Running" for j
    unfolding g1_def g2_def g_def using that by simp
  have cases: thesis
    if "state j \<noteq> Running \<Longrightarrow> thesis" "state j = Running \<Longrightarrow> cancel_requested j \<Longrightarrow> thesis"
      "state j = Running \<Longrightarrow> \<not> cancel_requested j \<Longrightarrow> max_attempts \<le> attempts j \<Longrightarrow> thesis"
      "state j = Running \<Longrightarrow> \<not> cancel_requested j \<Longrightarrow> \<not> max_attempts \<le> attempts j \<Longrightarrow> thesis" for j thesis
    using that by blast
  have g: "(if state (g2 (g1 j)) = Running \<and> attempts (g2 (g1 j)) < max_attempts then (g2 (g1 j))\<lparr>state := Queued\<rparr>
      else g2 (g1 j)) = g j" for j
  proof (rule cases [of j])
    assume "state j \<noteq> Running" from n [OF this] this show ?thesis by simp
  next
    assume "state j = Running" "cancel_requested j" from c [OF this] s(1) [of j] show ?thesis by simp
  next
    assume "state j = Running" "\<not> cancel_requested j" "max_attempts \<le> attempts j"
    from f [OF this] s(2) [of j] show ?thesis by simp
  next
    assume a: "state j = Running" "\<not> cancel_requested j" "\<not> max_attempts \<le> attempts j"
    from q [OF a] a show ?thesis by simp
  qed
  have count: "length (filter (\<lambda>j. state j = Running \<and> cancel_requested j) js) +
      length (filter (\<lambda>j. state j = Running \<and> max_attempts \<le> attempts j) (map g1 js)) +
      length (filter (\<lambda>j. state j = Running \<and> attempts j < max_attempts) (map g2 (map g1 js))) =
      length (filter (\<lambda>j. state j = Running) js)" for js
  proof (induction js)
    case (Cons j js)
    show ?case
    proof (rule cases [of j])
      assume "state j \<noteq> Running" from n [OF this] this Cons.IH show ?thesis by simp
    next
      assume a: "state j = Running" "cancel_requested j" from c [OF this] s(1) [of j] a Cons.IH show ?thesis by simp
    next
      assume a: "state j = Running" "\<not> cancel_requested j" "max_attempts \<le> attempts j"
      from f [OF this] s(2) [of j] a Cons.IH show ?thesis by simp
    next
      assume a: "state j = Running" "\<not> cancel_requested j" "\<not> max_attempts \<le> attempts j"
      from q [OF a] a Cons.IH show ?thesis by simp
    qed
  qed simp
  have m: "map (\<lambda>j. if state j = Running \<and> attempts j < max_attempts then j\<lparr>state := Queued\<rparr> else j)
      (map g2 (map g1 (jobs db))) = map g (jobs db)"
    unfolding map_map o_def g ..
  show ?thesis
    unfolding recover_interrupted_def Let_def count_jobs_def update_jobs_def g1_def [symmetric] g2_def [symmetric] g_def [symmetric]
    using count [of "jobs db"] m by (simp del: map_map length_filter_map)
qed

section \<open>Paging\<close>

lemma read_all_from:
  assumes inv: "store_inv cfg db" and r: "readable cfg i scope now db j"
    and mi: "1 \<le> mi" and mb: "int (max_result_item_bytes cfg) \<le> mb"
  shows "k \<le> length (results_of i db) \<Longrightarrow> length (results_of i db) - k < fuel \<Longrightarrow>
     read_all fuel cfg i scope mi mb now db (int k) = Some (map result_value (drop k (results_of i db)))"
proof (induction fuel arbitrary: k)
  case (Suc fuel)
  let ?rs = "results_of i db"
  from result_page_shape [OF inv r mi mb Suc.prems(1)]
  obtain m page where p: "fst (result_page_op cfg i scope (int k) mi mb now db) = Inr (make_record (expire_due cfg now db) j, page)"
    "k + m \<le> length ?rs" "k < length ?rs \<longrightarrow> 1 \<le> m"
    "page_results page = map result_value (take m (drop k ?rs))" "last_ordinal page = int (k + m)"
    "has_more page \<longleftrightarrow> k + m < length ?rs" by auto
  have split: "drop k ?rs = take m (drop k ?rs) @ drop (k + m) ?rs"
    by (metis append_take_drop_id drop_drop add.commute)
  show ?case
  proof (cases "k + m < length ?rs")
    case True
    then have "read_all fuel cfg i scope mi mb now db (int (k + m)) = Some (map result_value (drop (k + m) ?rs))"
      using Suc.IH [of "k + m"] Suc.prems p(3) by simp
    then show ?thesis using p True split by simp (metis map_append)
  next
    case False
    then have "drop (k + m) ?rs = []" by simp
    then show ?thesis using p False split by simp
  qed
qed simp

text \<open>
  A client that follows the ordinals of the pages gets every stored result of a job exactly once, in
  the order they were appended, whatever the page limits are: with more requests allowed than there are
  results the walk ends, provided a page holds at least one item and the byte limit is at least the
  largest result the store accepts.
\<close>

theorem pages_deliver_all:
  assumes "reachable cfg db" and "readable cfg i scope now db j"
    and "1 \<le> max_items" and "int (max_result_item_bytes cfg) \<le> max_bytes"
  shows "read_all (Suc (length (results_of i db))) cfg i scope max_items max_bytes now db 0 =
     Some (map result_value (results_of i db))"
  using read_all_from [OF reachable_inv [OF assms(1)] assms(2-4), of 0] by (simp del: read_all.simps)

theorem pages_deliver_all_witness:
  "read_all 2 demo_config ''j'' ''s'' 1 10 5 demo_closed 0 = Some [demo_result Content]"
  using pages_deliver_all [OF demo_reachable(4), of "''j''" "''s''" 5 "hd (jobs demo_closed)" 1 10]
  by (simp add: demo_closed_eq readable_def due_def demo_defs numeral_2_eq_2 del: read_all.simps)

section \<open>After the retention period\<close>



end
