(* ===== verification/Json_Text.thy ===== *)
theory Json_Text
  imports Json
begin

text \<open>
  Reading JSON and base64 as \<open>json.loads\<close> and \<open>base64.b64decode(..., altchars=b"-_", validate=True)\<close> do,
  and the base64 of \<open>urlsafe_b64encode\<close> without its padding, which together make the paging cursors.
  What lies outside of the code points 0 to 255 comes from a \<open>json_reader\<close>: how bytes decode to text,
  the text of a wider code point, and the value of a float literal (\<open>NaN\<close> and \<open>Infinity\<close> included).
\<close>

section \<open>JSON\<close>

record json_reader =
  read_bytes :: "string \<Rightarrow> string option"
  read_wide :: "nat \<Rightarrow> string"
  read_float :: "string \<Rightarrow> real"

definition json_ws :: "char \<Rightarrow> bool" where
  "json_ws c \<longleftrightarrow> c = CHR 0x20 \<or> c = CHR 0x09 \<or> c = CHR 0x0A \<or> c = CHR 0x0D"

definition skip_ws :: "string \<Rightarrow> string" where
  "skip_ws s = dropWhile json_ws s"

definition is_digit :: "char \<Rightarrow> bool" where
  "is_digit c \<longleftrightarrow> CHR ''0'' \<le> c \<and> c \<le> CHR ''9''"

definition hex_value :: "char \<Rightarrow> nat option" where
  "hex_value c =
     (if is_digit c then Some (of_char c - 48)
      else if CHR ''a'' \<le> c \<and> c \<le> CHR ''f'' then Some (of_char c - 87)
      else if CHR ''A'' \<le> c \<and> c \<le> CHR ''F'' then Some (of_char c - 55)
      else None)"

fun hex4 :: "string \<Rightarrow> (nat \<times> string) option" where
  "hex4 (a # b # c # d # s) =
     (case (hex_value a, hex_value b, hex_value c, hex_value d) of
        (Some w, Some x, Some y, Some z) \<Rightarrow> Some (4096 * w + 256 * x + 16 * y + z, s)
      | _ \<Rightarrow> None)"
| "hex4 _ = None"

definition code_text :: "json_reader \<Rightarrow> nat \<Rightarrow> string" where
  "code_text rd n = (if n < 256 then [char_of n] else read_wide rd n)"

text \<open>The character a one-letter escape stands for.\<close>

definition simple_escape :: "char \<Rightarrow> char option" where
  "simple_escape c = map_of
     [(CHR 0x22, CHR 0x22), (CHR 0x5C, CHR 0x5C), (CHR ''/'', CHR ''/''), (CHR ''b'', CHR 0x08),
      (CHR ''f'', CHR 0x0C), (CHR ''n'', CHR 0x0A), (CHR ''r'', CHR 0x0D), (CHR ''t'', CHR 0x09)] c"

text \<open>The rest of a \<open>\u\<close> escape: its text, with a surrogate pair read as one code point.\<close>

definition unicode_escape :: "json_reader \<Rightarrow> string \<Rightarrow> (string \<times> string) option" where
  "unicode_escape rd s =
     (case hex4 s of
        None \<Rightarrow> None
      | Some (n, s1) \<Rightarrow>
          if 0xD800 \<le> n \<and> n \<le> 0xDBFF \<and> take 2 s1 = [CHR 0x5C, CHR ''u''] then
            (case hex4 (drop 2 s1) of
               None \<Rightarrow> None
             | Some (m, s2) \<Rightarrow>
                 if 0xDC00 \<le> m \<and> m \<le> 0xDFFF
                 then Some (code_text rd (0x10000 + (n - 0xD800) * 1024 + (m - 0xDC00)), s2)
                 else Some (code_text rd n, s1))
          else Some (code_text rd n, s1))"

lemma hex4_length: "hex4 s = Some (n, t) \<Longrightarrow> length t < length s"
  by (cases s rule: hex4.cases) (auto split: option.splits)

lemma unicode_escape_length: "unicode_escape rd s = Some (x, t) \<Longrightarrow> length t < length s"
  by (auto simp: unicode_escape_def dest!: hex4_length split: option.splits if_splits)

text \<open>What follows the opening quotation mark.\<close>

function read_string :: "json_reader \<Rightarrow> string \<Rightarrow> (string \<times> string) option" where
  "read_string rd [] = None"
| "read_string rd (c # s) =
     (if c = CHR 0x22 then Some ([], s)
      else if c = CHR 0x5C then
        (case s of
           [] \<Rightarrow> None
         | e # t \<Rightarrow>
             if e = CHR ''u'' then
               (case unicode_escape rd t of
                  None \<Rightarrow> None
                | Some (x, t') \<Rightarrow> map_option (\<lambda>(y, r). (x @ y, r)) (read_string rd t'))
             else
               (case simple_escape e of
                  None \<Rightarrow> None
                | Some x \<Rightarrow> map_option (\<lambda>(y, r). (x # y, r)) (read_string rd t)))
      else if of_char c < (32::nat) then None
      else map_option (\<lambda>(y, r). (c # y, r)) (read_string rd s))"
  by pat_completeness auto
termination
  by (relation "measure (\<lambda>(rd, s). length s)") (auto dest!: unicode_escape_length)

declare read_string.simps(2) [simp del]

text \<open>\<open>-?(0|[1-9]\d*)(\.\d+)?([eE][-+]?\d+)?\<close>; without fraction and exponent it is an int.\<close>

definition read_fraction :: "string \<Rightarrow> string" where
  "read_fraction s =
     (case s of
        c # t \<Rightarrow> if c = CHR ''.'' \<and> takeWhile is_digit t \<noteq> [] then c # takeWhile is_digit t else []
      | [] \<Rightarrow> [])"

definition read_exponent :: "string \<Rightarrow> string" where
  "read_exponent s =
     (case s of
        e # t \<Rightarrow>
          if e = CHR ''e'' \<or> e = CHR ''E'' then
            (let sign = (case t of c # _ \<Rightarrow> if c = CHR ''+'' \<or> c = CHR ''-'' then [c] else [] | [] \<Rightarrow> []);
                 digits = takeWhile is_digit (drop (length sign) t)
             in if digits = [] then [] else e # sign @ digits)
          else []
      | [] \<Rightarrow> [])"

definition read_number :: "json_reader \<Rightarrow> string \<Rightarrow> (json \<times> string) option" where
  "read_number rd s =
     (let neg = (case s of c # _ \<Rightarrow> c = CHR ''-'' | [] \<Rightarrow> False);
          t = (if neg then drop 1 s else s);
          digits = (case t of
              c # _ \<Rightarrow> if c = CHR ''0'' then [c] else takeWhile is_digit t
            | [] \<Rightarrow> []);
          frac = read_fraction (drop (length digits) t);
          ex = read_exponent (drop (length digits + length frac) t);
          n = length digits + length frac + length ex
      in if digits = [] then None
         else if frac = [] \<and> ex = [] then
           Some (JInt (if neg then - int (undigits digits) else int (undigits digits)), drop n t)
         else Some (JFloat (read_float rd ((if neg then ''-'' else []) @ take n t)), drop n t))"

definition read_literal :: "json_reader \<Rightarrow> string \<Rightarrow> (json \<times> string) option" where
  "read_literal rd s =
     (if take 4 s = ''null'' then Some (JNull, drop 4 s)
      else if take 4 s = ''true'' then Some (JBool True, drop 4 s)
      else if take 5 s = ''false'' then Some (JBool False, drop 5 s)
      else case read_number rd s of
        Some r \<Rightarrow> Some r
      | None \<Rightarrow>
          if take 3 s = ''NaN'' then Some (JFloat (read_float rd ''NaN''), drop 3 s)
          else if take 8 s = ''Infinity'' then Some (JFloat (read_float rd ''Infinity''), drop 8 s)
          else if take 9 s = ''-Infinity'' then Some (JFloat (read_float rd ''-Infinity''), drop 9 s)
          else None)"

text \<open>
  The members of an object after its brace or a comma, and the elements of an array, over a reader
  \<open>rv\<close> for the values; the number bounds how many there are.
\<close>

primrec read_members ::
  "nat \<Rightarrow> json_reader \<Rightarrow> (string \<Rightarrow> (json \<times> string) option) \<Rightarrow> json_object \<Rightarrow> string \<Rightarrow> (json \<times> string) option" where
  "read_members 0 rd rv d s = None"
| "read_members (Suc n) rd rv d s =
     (if take 1 s \<noteq> [CHR 0x22] then None
      else case read_string rd (drop 1 s) of
        None \<Rightarrow> None
      | Some (k, t1) \<Rightarrow>
          if take 1 (skip_ws t1) \<noteq> [CHR 0x3A] then None
          else case rv (skip_ws (drop 1 (skip_ws t1))) of
            None \<Rightarrow> None
          | Some (v, t2) \<Rightarrow>
              if take 1 (skip_ws t2) = [CHR 0x7D] then Some (JObj (jset d k v), drop 1 (skip_ws t2))
              else if take 1 (skip_ws t2) = [CHR 0x2C]
              then read_members n rd rv (jset d k v) (skip_ws (drop 1 (skip_ws t2)))
              else None)"

primrec read_elements ::
  "nat \<Rightarrow> (string \<Rightarrow> (json \<times> string) option) \<Rightarrow> json list \<Rightarrow> string \<Rightarrow> (json \<times> string) option" where
  "read_elements 0 rv xs s = None"
| "read_elements (Suc n) rv xs s =
     (case rv s of
        None \<Rightarrow> None
      | Some (v, t) \<Rightarrow>
          if take 1 (skip_ws t) = [CHR 0x5D] then Some (JList (xs @ [v]), drop 1 (skip_ws t))
          else if take 1 (skip_ws t) = [CHR 0x2C] then read_elements n rv (xs @ [v]) (skip_ws (drop 1 (skip_ws t)))
          else None)"

text \<open>A value; the number bounds the nesting.\<close>

primrec read_value :: "nat \<Rightarrow> json_reader \<Rightarrow> string \<Rightarrow> (json \<times> string) option" where
  "read_value 0 rd s = None"
| "read_value (Suc n) rd s =
     (if take 1 s = [CHR 0x22] then map_option (\<lambda>(x, r). (JStr x, r)) (read_string rd (drop 1 s))
      else if take 1 s = [CHR 0x7B] then
        (let t = skip_ws (drop 1 s)
         in if take 1 t = [CHR 0x7D] then Some (JObj [], drop 1 t)
            else read_members (length t) rd (read_value n rd) [] t)
      else if take 1 s = [CHR 0x5B] then
        (let t = skip_ws (drop 1 s)
         in if take 1 t = [CHR 0x5D] then Some (JList [], drop 1 t)
            else read_elements (length t) (read_value n rd) [] t)
      else read_literal rd s)"

text \<open>
  \<open>json.loads\<close> on text.  Every member, element and level of nesting takes a character of the text, so its
  length is fuel enough.
\<close>

definition json_loads :: "json_reader \<Rightarrow> string \<Rightarrow> json option" where
  "json_loads rd s =
     (case read_value (length s) rd (skip_ws s) of
        None \<Rightarrow> None
      | Some (v, r) \<Rightarrow> if skip_ws r = [] then Some v else None)"

section \<open>Base64\<close>

definition b64_alphabet :: string where
  "b64_alphabet = ''ABCDEFGHIJKLMNOPQRSTUVWXYZabcdefghijklmnopqrstuvwxyz0123456789-_''"

definition b64_char :: "nat \<Rightarrow> char" where
  "b64_char n = b64_alphabet ! (n mod 64)"

text \<open>\<open>urlsafe_b64encode(s).rstrip(b"=")\<close>: three bytes make four characters.\<close>

fun b64_encode :: "string \<Rightarrow> string" where
  "b64_encode [] = []"
| "b64_encode [a] = (let x = of_char a * 16 in [b64_char (x div 64), b64_char x])"
| "b64_encode [a, b] =
     (let x = (of_char a * 256 + of_char b) * 4 in [b64_char (x div 4096), b64_char (x div 64), b64_char x])"
| "b64_encode (a # b # c # s) =
     (let x = (of_char a * 256 + of_char b) * 256 + of_char c
      in b64_char (x div 262144) # b64_char (x div 4096) # b64_char (x div 64) # b64_char x # b64_encode s)"

text \<open>\<open>+\<close> and \<open>/\<close> are read as well: \<open>altchars\<close> only adds the other two.\<close>

definition b64_value :: "char \<Rightarrow> nat option" where
  "b64_value c =
     (if CHR ''A'' \<le> c \<and> c \<le> CHR ''Z'' then Some (of_char c - 65)
      else if CHR ''a'' \<le> c \<and> c \<le> CHR ''z'' then Some (of_char c - 71)
      else if is_digit c then Some (of_char c + 4)
      else if c = CHR ''-'' \<or> c = CHR ''+'' then Some 62
      else if c = CHR ''_'' \<or> c = CHR ''/'' then Some 63
      else None)"

fun b64_quads :: "string \<Rightarrow> string option" where
  "b64_quads [] = Some []"
| "b64_quads [a] = None"
| "b64_quads [a, b] =
     (case (b64_value a, b64_value b) of
        (Some w, Some x) \<Rightarrow> Some [char_of ((w * 64 + x) div 16)]
      | _ \<Rightarrow> None)"
| "b64_quads [a, b, c] =
     (case (b64_value a, b64_value b, b64_value c) of
        (Some w, Some x, Some y) \<Rightarrow>
          (let n = (w * 64 + x) * 64 + y in Some [char_of (n div 1024), char_of (n div 4)])
      | _ \<Rightarrow> None)"
| "b64_quads (a # b # c # d # s) =
     (case (b64_value a, b64_value b, b64_value c, b64_value d) of
        (Some w, Some x, Some y, Some z) \<Rightarrow>
          (let n = ((w * 64 + x) * 64 + y) * 64 + z
           in map_option (\<lambda>r. char_of (n div 65536) # char_of (n div 256) # char_of n # r) (b64_quads s))
      | _ \<Rightarrow> None)"

text \<open>
  \<open>b64decode\<close> with \<open>validate=True\<close>: letters of the alphabet, then the padding that fills the last group
  of four and no more.
\<close>

definition b64_decode :: "string \<Rightarrow> string option" where
  "b64_decode s =
     (let body = takeWhile (\<lambda>c. c \<noteq> CHR ''='') s; pad = dropWhile (\<lambda>c. c \<noteq> CHR ''='') s
      in if list_all (\<lambda>c. c = CHR ''='') pad \<and> length pad \<le> 2 \<and> length s mod 4 = 0 then b64_quads body else None)"

section \<open>Round trips\<close>

lemma b64_alphabet_values: "list_all (\<lambda>n. b64_value (b64_alphabet ! n) = Some n \<and> b64_alphabet ! n \<noteq> CHR ''='') [0..<64]"
  by code_simp

lemma b64_value_char [simp]: "b64_value (b64_char n) = Some (n mod 64)" and b64_char_pad [simp]: "b64_char n \<noteq> CHR ''=''"
  using b64_alphabet_values by (simp_all add: list_all_iff b64_char_def)

lemmas byte_less = nat_of_char_less_256

lemma char_of_byte [simp]: "char_of (256 * n + of_char c :: nat) = c"
  by (rule of_char_eqI [where 'a = nat]) (simp add: byte_less)

lemma sextets2: "x < 64 * 64 \<Longrightarrow> x div 64 mod 64 * 64 + x mod 64 = (x::nat)"
  by (simp add: less_mult_imp_div_less)

lemma sextets3: "x < 64 * 64 * 64 \<Longrightarrow> (x div 4096 mod 64 * 64 + x div 64 mod 64) * 64 + x mod 64 = (x::nat)"
  using sextets2 [of "x div 64"] by (simp add: less_mult_imp_div_less div_mult2_eq [symmetric])

lemma sextets4: "x < 64 * 64 * 64 * 64 \<Longrightarrow>
    ((x div 262144 mod 64 * 64 + x div 4096 mod 64) * 64 + x div 64 mod 64) * 64 + x mod 64 = (x::nat)"
  using sextets3 [of "x div 64"] by (simp add: less_mult_imp_div_less div_mult2_eq [symmetric])

lemma b64_quads_encode: "b64_quads (b64_encode s) = Some s"
proof (induction s rule: b64_encode.induct)
  case (2 a)
  have "of_char a * 16 div 64 mod 64 * 64 + of_char a * 16 mod 64 = (of_char a * 16 :: nat)" (is "?q = _")
    by (rule sextets2) (use byte_less [of a] in simp)
  then show ?case unfolding b64_encode.simps Let_def b64_quads.simps b64_value_char option.case prod.case
    by (simp only: nonzero_mult_div_cancel_right char_of_char simp_thms numeral_eq_iff num.simps zero_neq_numeral)
next
  case (3 a b)
  define n :: nat where "n = of_char a * 256 + of_char b"
  have n: "n < 65536" unfolding n_def using byte_less [of a] byte_less [of b] by linarith
  have c: "n div 256 = of_char a" "char_of n = b"
    using char_of_byte [of "of_char a" b] by (simp_all add: n_def mult.commute)
  have "n * 4 div 1024 = n div 256" "n * 4 div 4 = n" using div_mult_mult2 [of 4 n 256] by simp_all
  then show ?case using sextets3 [of "n * 4"] n c by (simp add: Let_def n_def [symmetric])
next
  case (4 a b c s)
  define n :: nat where "n = (of_char a * 256 + of_char b) * 256 + of_char c"
  have "(m * 256 + of_char c) div 256 = m" for m :: nat by (simp add: div_add1_eq)
  then have d: "n div 256 = of_char a * 256 + of_char b" unfolding n_def by blast
  have "n div 65536 = n div 256 div 256" by (simp add: div_mult2_eq [symmetric])
  then have n: "n div 65536 = of_char a" "char_of n = c" "char_of (n div 256) = b"
    using d char_of_byte [of "of_char a" b] char_of_byte [of "of_char a * 256 + of_char b" c]
    by (simp_all add: n_def mult.commute)
  have three: "u < 256 \<Longrightarrow> v < 256 \<Longrightarrow> w < 256 \<Longrightarrow> (u * 256 + v) * 256 + w < (16777216::nat)" for u v w
    by simp
  have l: "n < 16777216" unfolding n_def by (rule three [OF byte_less byte_less byte_less])
  have q: "((n div 262144 mod 64 * 64 + n div 4096 mod 64) * 64 + n div 64 mod 64) * 64 + n mod 64 = n"
    by (rule sextets4) (use l in simp)
  show ?case
    unfolding b64_encode.simps Let_def n_def [symmetric] b64_quads.simps b64_value_char option.case prod.case q
    by (simp only: 4 option.map n char_of_char)
qed simp

lemma b64_encode_no_pad: "c \<in> set (b64_encode s) \<Longrightarrow> c \<noteq> CHR ''=''"
  by (induction s rule: b64_encode.induct) (auto simp: Let_def simp del: b64_char_pad dest: sym [THEN b64_char_pad [THEN notE]])

text \<open>\<open>b"=" * (-len(s) % 4)\<close>.\<close>

definition b64_padding :: "string \<Rightarrow> string" where
  "b64_padding s = replicate (nat ((- int (length s)) mod 4)) (CHR ''='')"

lemma b64_encode_length: "length (b64_encode s) mod 4 \<noteq> 1"
  by (induction s rule: b64_encode.induct) (auto simp: Let_def)

lemma b64_roundtrip [roundtrip_facts]: "b64_decode (b64_encode s @ b64_padding (b64_encode s)) = Some s"
proof -
  let ?e = "b64_encode s" and ?n = "nat ((- int (length (b64_encode s))) mod 4)"
  have pad: "nat ((- int m) mod 4) \<le> 2 \<and> (m + nat ((- int m) mod 4)) mod 4 = 0" if "m mod 4 \<noteq> 1" for m
  proof -
    have neg: "(- int m) mod 4 = (if m mod 4 = 0 then 0 else 4 - int (m mod 4))"
      using zmod_zminus1_eq_if [of "int m" 4] zmod_int [of m 4] by auto
    have "m mod 4 = 0 \<or> m mod 4 = 2 \<or> m mod 4 = 3" using that by presburger
    then show ?thesis unfolding neg by (elim disjE) (simp; presburger)+
  qed
  then have n: "?n \<le> 2" "(length ?e + ?n) mod 4 = 0" using b64_encode_length [of s] by blast+
  have all: "\<forall>c\<in>set ?e. c \<noteq> CHR ''=''" using b64_encode_no_pad by blast
  have "takeWhile (\<lambda>c. c \<noteq> CHR ''='') (b64_padding ?e) = []" "dropWhile (\<lambda>c. c \<noteq> CHR ''='') (b64_padding ?e) = b64_padding ?e"
    by (cases ?n; simp add: b64_padding_def)+
  then have tw: "takeWhile (\<lambda>c. c \<noteq> CHR ''='') (?e @ b64_padding ?e) = ?e"
    and dw: "dropWhile (\<lambda>c. c \<noteq> CHR ''='') (?e @ b64_padding ?e) = b64_padding ?e"
    using all by (simp_all add: takeWhile_append2 dropWhile_append2)
  have "length (b64_padding ?e) = ?n" "list_all (\<lambda>c. c = CHR ''='') (b64_padding ?e)"
    by (simp_all add: b64_padding_def list_all_iff)
  then show ?thesis using n b64_quads_encode by (simp add: b64_decode_def tw dw)
qed

lemma takeWhile_stop: "\<forall>c\<in>set xs. P c \<Longrightarrow> \<not> P y \<Longrightarrow> takeWhile P (xs @ y # ys) = xs"
  by (induction xs) auto

lemma digit_char: "k < (10::nat) \<Longrightarrow> is_digit (char_of (48 + k))"
  by (auto simp: is_digit_def less_eq_char_def of_char_of)

lemma py_str_nat_is_digit: "c \<in> set (py_str_nat n) \<Longrightarrow> is_digit c"
  using py_str_nat_digits digit_char by blast

lemma py_str_nat_nonempty: "py_str_nat n \<noteq> []"
  by (subst py_str_nat.simps) simp

lemma py_str_nat_head: "py_str_nat n = CHR ''0'' # s \<Longrightarrow> s = [] \<and> n = 0"
proof (induction n arbitrary: s rule: py_str_nat.induct)
  case (1 n)
  show ?case
  proof (cases "n < 10")
    case True
    then have "char_of (48 + n) = CHR ''0''" "s = []" using 1(2) by (simp_all add: py_str_nat.simps [of n])
    then have "of_char (char_of (48 + n)) = (48::nat)" by simp
    then show ?thesis using True \<open>s = []\<close> by (simp add: of_char_of)
  next
    case False
    then obtain t where "py_str_nat (n div 10) = CHR ''0'' # t"
      using 1(2) py_str_nat_nonempty [of "n div 10"]
      by (cases "py_str_nat (n div 10)") (simp_all add: py_str_nat.simps [of n])
    from 1(1) [OF False this] have "n div 10 = 0" by blast
    then show ?thesis using False by (simp add: div_eq_0_iff)
  qed
qed

lemma read_number_nat:
  assumes "\<not> is_digit c" and "c \<noteq> CHR ''.''" and "c \<noteq> CHR ''e''" and "c \<noteq> CHR ''E''"
  shows "read_number rd (py_str_nat n @ c # s) = Some (JInt (int n), c # s)"
proof -
  obtain d r where d: "py_str_nat n = d # r" using py_str_nat_nonempty [of n] by (cases "py_str_nat n") auto
  have all: "\<forall>x\<in>set (py_str_nat n). is_digit x" using py_str_nat_is_digit by blast
  then have neg: "(case py_str_nat n @ c # s of x # _ \<Rightarrow> x = CHR ''-'' | [] \<Rightarrow> False) = False"
    using d by (auto simp: is_digit_def less_eq_char_def)
  have digits: "(case py_str_nat n @ c # s of x # _ \<Rightarrow> if x = CHR ''0'' then [x] else takeWhile is_digit (py_str_nat n @ c # s)
      | [] \<Rightarrow> []) = py_str_nat n"
    unfolding takeWhile_stop [OF all assms(1)] using py_str_nat_head [of n r] d by auto
  have "read_fraction (c # s) = []" "read_exponent (c # s) = []"
    using assms by (simp_all add: read_fraction_def read_exponent_def)
  then show ?thesis
    unfolding read_number_def Let_def neg if_False digits
    using py_str_nat_nonempty [of n] undigits_py_str_nat [of n] by (simp del: undigits.simps)
qed

lemma read_string_end: "read_string rd (CHR 0x22 # t) = Some ([], t)"
  by (subst read_string.simps(2)) simp

lemma read_string_plain_char:
  assumes "c \<noteq> CHR 0x22" and "c \<noteq> CHR 0x5C" and "\<not> of_char c < (32::nat)"
  shows "read_string rd (c # s) = map_option (\<lambda>(y, r). (c # y, r)) (read_string rd s)"
  by (subst read_string.simps(2)) (simp only: assms if_False)

lemma read_plain_string:
  assumes "\<forall>c\<in>set s. c \<noteq> CHR 0x22 \<and> c \<noteq> CHR 0x5C \<and> 32 \<le> (of_char c :: nat)"
  shows "read_string rd (s @ CHR 0x22 # t) = Some (s, t)"
  using assms
proof (induction s)
  case (Cons c s)
  then have "read_string rd (s @ CHR 0x22 # t) = Some (s, t)" by simp
  then show ?case using Cons.prems by (simp add: read_string_plain_char not_less)
qed (simp add: read_string_end)

lemma json_escape_plain:
  assumes "c \<noteq> CHR 0x22" and "c \<noteq> CHR 0x5C" and "32 \<le> (of_char c :: nat)"
  shows "json_escape c = [c]"
proof -
  have "c \<noteq> CHR 0x0A" "c \<noteq> CHR 0x0D" "c \<noteq> CHR 0x09" "c \<noteq> CHR 0x0C" "c \<noteq> CHR 0x08" using assms(3) by auto
  then show ?thesis unfolding json_escape_def using assms by (simp only: if_False not_less [symmetric] simp_thms not_not)
qed

lemma json_string_plain:
  assumes "\<forall>c\<in>set s. c \<noteq> CHR 0x22 \<and> c \<noteq> CHR 0x5C \<and> 32 \<le> (of_char c :: nat)"
  shows "json_string s = CHR 0x22 # s @ [CHR 0x22]"
proof -
  have "concat (map json_escape s) = s" using assms by (induction s) (simp_all add: json_escape_plain)
  then show ?thesis by (simp add: json_string_def)
qed

end
