(* ===== verification/Py_Strings.thy ===== *)
theory Py_Strings
  imports Json_Text
begin

text \<open>
  More of Python's \<open>str\<close> over the code points 0 to 255: case, splitting at a separator, lines,
  \<open>partition\<close>, \<open>removesuffix\<close>, \<open>join\<close>, \<open>int(text, base)\<close> and \<open>float(text)\<close>.
\<close>

section \<open>Case\<close>

definition lower_char :: "char \<Rightarrow> char" where
  "lower_char c =
     (let n = of_char c :: nat
      in if 65 \<le> n \<and> n \<le> 90 \<or> 192 \<le> n \<and> n \<le> 222 \<and> n \<noteq> 215 then char_of (n + 32) else c)"

definition py_lower :: "string \<Rightarrow> string" where
  "py_lower s = map lower_char s"

text \<open>
  \<open>str.casefold\<close>: as \<open>lower\<close>, but a sharp s becomes two letters.  The micro sign folds to a letter
  outside of the alphabet to which no other character here folds, so it is left alone.
\<close>

definition py_casefold :: "string \<Rightarrow> string" where
  "py_casefold s = concat (map (\<lambda>c. if c = CHR 0xDF then ''ss'' else [lower_char c]) s)"

text \<open>
  \<open>str.upper\<close> for ASCII letters; elsewhere it only matters that no other text below 256 becomes an ASCII
  word, except a sharp s, which becomes two letters.
\<close>

definition py_upper :: "string \<Rightarrow> string" where
  "py_upper s = concat (map (\<lambda>c. if CHR ''a'' \<le> c \<and> c \<le> CHR ''z'' then [char_of (of_char c - 32 :: nat)]
     else if c = CHR 0xDF then ''SS'' else if 224 \<le> (of_char c :: nat) \<and> c \<noteq> CHR 0xF7 \<and> c \<noteq> CHR 0xFF
     then [char_of (of_char c - 32 :: nat)] else [c]) s)"

definition is_ascii :: "string \<Rightarrow> bool" where
  "is_ascii s \<longleftrightarrow> list_all (\<lambda>c. of_char c < (128::nat)) s"

definition is_alpha_ascii :: "char \<Rightarrow> bool" where
  "is_alpha_ascii c \<longleftrightarrow> (CHR ''a'' \<le> c \<and> c \<le> CHR ''z'') \<or> (CHR ''A'' \<le> c \<and> c \<le> CHR ''Z'')"

section \<open>Splitting and joining\<close>

text \<open>\<open>s.split(c)\<close> for a one-character separator: at least one part, as many separators as parts less one.\<close>

fun split_on :: "char \<Rightarrow> string \<Rightarrow> string list" where
  "split_on d [] = [[]]"
| "split_on d (c # s) =
     (if c = d then [] # split_on d s
      else case split_on d s of p # ps \<Rightarrow> (c # p) # ps | [] \<Rightarrow> [[c]])"

text \<open>\<open>sep.join(parts)\<close>.\<close>

fun join_on :: "string \<Rightarrow> string list \<Rightarrow> string" where
  "join_on sep [] = []"
| "join_on sep [p] = p"
| "join_on sep (p # q # ps) = p @ sep @ join_on sep (q # ps)"

lemma split_on_nonempty [simp]: "split_on d s \<noteq> []"
  by (induction s) (auto split: list.split)

lemma join_split [roundtrip_facts]: "join_on [d] (split_on d s) = s"
proof (induction s)
  case (Cons c s)
  obtain p ps where "split_on d s = p # ps" by (cases "split_on d s") auto
  then show ?case using Cons.IH by (cases ps) auto
qed simp

lemma split_on_free: "p \<in> set (split_on d s) \<Longrightarrow> d \<notin> set p"
proof (induction s arbitrary: p)
  case (Cons c s)
  then show ?case by (cases "split_on d s") (auto split: if_splits)
qed simp

text \<open>\<open>s.partition(c)\<close> and \<open>s.rpartition(c)\<close>: the parts around the first or the last occurrence.\<close>

definition partition_on :: "char \<Rightarrow> string \<Rightarrow> string \<times> bool \<times> string" where
  "partition_on d s = (takeWhile (\<lambda>c. c \<noteq> d) s, d \<in> set s, drop 1 (dropWhile (\<lambda>c. c \<noteq> d) s))"

definition rpartition_on :: "char \<Rightarrow> string \<Rightarrow> string \<times> bool \<times> string" where
  "rpartition_on d s =
     (if d \<in> set s
      then (rev (drop 1 (dropWhile (\<lambda>c. c \<noteq> d) (rev s))), True, rev (takeWhile (\<lambda>c. c \<noteq> d) (rev s)))
      else ([], False, s))"

text \<open>\<open>s.split(c, 1)\<close> where \<open>c\<close> occurs, and its first part.\<close>

definition before_char :: "char \<Rightarrow> string \<Rightarrow> string" where
  "before_char d s = takeWhile (\<lambda>c. c \<noteq> d) s"

definition after_char :: "char \<Rightarrow> string \<Rightarrow> string" where
  "after_char d s = drop 1 (dropWhile (\<lambda>c. c \<noteq> d) s)"

definition py_endswith :: "string \<Rightarrow> string \<Rightarrow> bool" where
  "py_endswith s p \<longleftrightarrow> take (length p) (rev s) = rev p"

definition removesuffix :: "string \<Rightarrow> string \<Rightarrow> string" where
  "removesuffix s p = (if py_endswith s p \<and> p \<noteq> [] then take (length s - length p) s else s)"

text \<open>\<open>s.rstrip(c)\<close> for one character.\<close>

definition rstrip_char :: "char \<Rightarrow> string \<Rightarrow> string" where
  "rstrip_char d s = rev (dropWhile (\<lambda>c. c = d) (rev s))"

text \<open>\<open>s.replace(p, r)\<close> for a non-empty \<open>p\<close>: occurrences from the left, without overlap.\<close>

function py_replace :: "string \<Rightarrow> string \<Rightarrow> string \<Rightarrow> string" where
  "py_replace p r [] = []"
| "py_replace p r (c # s) =
     (if p \<noteq> [] \<and> py_startswith (c # s) p then r @ py_replace p r (drop (length p) (c # s))
      else c # py_replace p r s)"
  by pat_completeness auto
termination
  by (relation "measure (\<lambda>(p, r, s). length s)") auto

section \<open>Lines\<close>

definition line_breaks :: string where
  "line_breaks = [CHR 0x0A, CHR 0x0B, CHR 0x0C, CHR 0x0D, CHR 0x1C, CHR 0x1D, CHR 0x1E, CHR 0x85]"

text \<open>\<open>str.splitlines()\<close>; the first argument is the line read so far, if any.\<close>

fun lines_from :: "string option \<Rightarrow> string \<Rightarrow> string list" where
  "lines_from cur [] = (case cur of None \<Rightarrow> [] | Some l \<Rightarrow> [l])"
| "lines_from cur (c # s) =
     (let l = (case cur of None \<Rightarrow> [] | Some l \<Rightarrow> l)
      in if c = CHR 0x0D \<and> take 1 s = [CHR 0x0A] then lines_from (Some l) s
         else if c \<in> set line_breaks then l # lines_from None s
         else lines_from (Some (l @ [c])) s)"

definition py_splitlines :: "string \<Rightarrow> string list" where
  "py_splitlines s = lines_from None s"

section \<open>Numbers\<close>

definition digit_in :: "nat \<Rightarrow> char \<Rightarrow> nat option" where
  "digit_in b c =
     (let l = lower_char c;
          v = (if is_digit c then Some (of_char c - 48)
               else if CHR ''a'' \<le> l \<and> l \<le> CHR ''z'' then Some (of_char l - 87) else None)
      in case v of None \<Rightarrow> None | Some n \<Rightarrow> if n < b then Some n else None)"

text \<open>Digits, with single underscores between them.\<close>

fun digits_value :: "nat \<Rightarrow> nat \<Rightarrow> bool \<Rightarrow> string \<Rightarrow> nat option" where
  "digits_value b n after_digit [] = (if after_digit then Some n else None)"
| "digits_value b n after_digit (c # s) =
     (if c = CHR ''_'' then (if after_digit then digits_value b n False s else None)
      else case digit_in b c of None \<Rightarrow> None | Some d \<Rightarrow> digits_value b (n * b + d) True s)"

text \<open>
  \<open>int(text, base)\<close> for the bases 8, 10 and 16: white space around, a sign, a prefix of the base, which
  an underscore may follow.
\<close>

definition base_prefix :: "nat \<Rightarrow> string \<Rightarrow> string" where
  "base_prefix b s =
     (let p = py_lower (take 2 s)
      in if b = 16 \<and> p = ''0x'' \<or> b = 8 \<and> p = ''0o''
         then (if take 1 (drop 2 s) = ''_'' then drop 3 s else drop 2 s) else s)"

definition py_int :: "nat \<Rightarrow> string \<Rightarrow> int option" where
  "py_int b tx =
     (let s = py_strip tx; neg = (take 1 s = ''-'');
          t = (if neg \<or> take 1 s = ''+'' then drop 1 s else s)
      in map_option (\<lambda>n. if neg then - int n else int n) (digits_value b 0 False (base_prefix b t)))"

text \<open>
  \<open>float(text)\<close> for a finite decimal: sign, digits with an optional point, optional exponent.  \<open>None\<close>
  covers both the \<open>ValueError\<close> of other texts and the values \<open>inf\<close> and \<open>nan\<close>.
\<close>

definition mantissa_value :: "string \<Rightarrow> pyfloat option" where
  "mantissa_value s =
     (let (a, dot, b) = partition_on (CHR ''.'') s;
          part = (\<lambda>t. if t = [] then Some 0 else digits_value 10 0 False t)
      in if a = [] \<and> b = [] then None
         else case (part a, part b) of
           (Some m, Some n) \<Rightarrow> Some (real m + real n / 10 ^ length (filter is_digit b))
         | _ \<Rightarrow> None)"

definition py_float :: "string \<Rightarrow> pyfloat option" where
  "py_float tx =
     (let s = py_lower (py_strip tx); neg = (take 1 s = ''-'');
          t = (if neg \<or> take 1 s = ''+'' then drop 1 s else s);
          (m, has_exp, e) = partition_on (CHR ''e'') t;
          eneg = (take 1 e = ''-'');
          ed = (if eneg \<or> take 1 e = ''+'' then drop 1 e else e);
          scale = (if has_exp then digits_value 10 0 False ed else Some 0)
      in case (mantissa_value m, scale) of
           (Some x, Some k) \<Rightarrow>
             (let y = (if eneg then x / 10 ^ k else x * 10 ^ k) in Some (if neg then - y else y))
         | _ \<Rightarrow> None)"

end
