(* ===== verification/Ip_Address.thy ===== *)
theory Ip_Address
  imports Py_Strings "HOL-Library.Word"
begin

unbundle bit_operations_syntax

text \<open>
  Python's \<open>ipaddress\<close> as far as the code uses it: the addresses, \<open>ip_address(text)\<close>, membership in a
  network, the embedded IPv4 addresses of IPv6, and \<open>str\<close>.  The text of an IPv6 address is an argument,
  and so are the IANA registries behind \<open>is_private\<close> and the other category checks, because both
  depend on the version of the interpreter.
\<close>

datatype ip = IPv4 "32 word" | IPv6 "128 word" "string option"

record ip_network =
  net_address :: "128 word"
  net_prefix :: nat

section \<open>Parsing\<close>

definition parse_octet :: "string \<Rightarrow> nat option" where
  "parse_octet s =
     (if s = [] \<or> \<not> list_all is_digit s \<or> length s > 3 \<or> (s \<noteq> ''0'' \<and> take 1 s = ''0'') \<or> undigits s > 255
      then None else Some (undigits s))"

definition parse_ipv4 :: "string \<Rightarrow> 32 word option" where
  "parse_ipv4 s =
     (case map parse_octet (split_on (CHR ''.'') s) of
        [Some a, Some b, Some c, Some d] \<Rightarrow> Some (of_nat (((a * 256 + b) * 256 + c) * 256 + d))
      | _ \<Rightarrow> None)"

definition parse_hextet :: "string \<Rightarrow> nat option" where
  "parse_hextet s =
     (if s = [] \<or> length s > 4 \<or> \<not> list_all (\<lambda>c. hex_value c \<noteq> None) s then None
      else Some (foldl (\<lambda>n c. 16 * n + the (hex_value c)) 0 s))"

text \<open>\<open>'%x' % n\<close> for a hextet.\<close>

fun hex_text :: "nat \<Rightarrow> string" where
  "hex_text n = (if n < 16 then [hex_digit n] else hex_text (n div 16) @ [hex_digit (n mod 16)])"

declare hex_text.simps [simp del]

text \<open>An IPv4 suffix is rewritten as two hextets.\<close>

definition expand_ipv4_suffix :: "string list \<Rightarrow> string list option" where
  "expand_ipv4_suffix parts =
     (if CHR ''.'' \<in> set (last parts) then
        map_option (\<lambda>w. butlast parts @ [hex_text (unat w div 65536), hex_text (unat w mod 65536)])
          (parse_ipv4 (last parts))
      else Some parts)"

text \<open>The positions between the ends where \<open>::\<close> skips a run of zeros.\<close>

definition skip_positions :: "string list \<Rightarrow> nat list" where
  "skip_positions parts = filter (\<lambda>i. parts ! i = []) [1..<length parts - 1]"

definition hextets_value :: "string list \<Rightarrow> nat option" where
  "hextets_value parts =
     (if list_all (\<lambda>p. parse_hextet p \<noteq> None) parts
      then Some (foldl (\<lambda>n p. n * 65536 + the (parse_hextet p)) 0 parts) else None)"

definition ipv6_int_from_string :: "string \<Rightarrow> 128 word option" where
  "ipv6_int_from_string s =
     (let parts0 = split_on (CHR '':'') s in
      if length parts0 < 3 then None
      else case expand_ipv4_suffix parts0 of
        None \<Rightarrow> None
      | Some parts \<Rightarrow>
          if length parts > 9 then None
          else (case skip_positions parts of
            [] \<Rightarrow>
              if length parts \<noteq> 8 then None else map_option of_nat (hextets_value parts)
          | [k] \<Rightarrow>
              (let hi = (if parts ! 0 = [] then k - 1 else k);
                   lo = (if last parts = [] then length parts - k - 2 else length parts - k - 1)
               in if parts ! 0 = [] \<and> hi \<noteq> 0 \<or> last parts = [] \<and> lo \<noteq> 0 \<or> hi + lo > 7 then None
                  else case (hextets_value (take hi parts), hextets_value (drop (length parts - lo) parts)) of
                    (Some h, Some l) \<Rightarrow> Some (of_nat (h * 2 ^ (16 * (8 - hi)) + l))
                  | _ \<Rightarrow> None)
          | _ \<Rightarrow> None))"

definition parse_ipv6 :: "string \<Rightarrow> ip option" where
  "parse_ipv6 s =
     (if CHR ''/'' \<in> set s then None
      else case partition_on (CHR ''%'') s of
        (addr, has_zone, zone) \<Rightarrow>
          if has_zone \<and> (zone = [] \<or> CHR ''%'' \<in> set zone) then None
          else map_option (\<lambda>w. IPv6 w (if has_zone then Some zone else None)) (ipv6_int_from_string addr))"

text \<open>\<open>ipaddress.ip_address\<close>; \<open>None\<close> is its \<open>ValueError\<close>.\<close>

definition ip_address :: "string \<Rightarrow> ip option" where
  "ip_address s = (case parse_ipv4 s of Some w \<Rightarrow> Some (IPv4 w) | None \<Rightarrow> parse_ipv6 s)"

section \<open>Text, networks, embedded addresses\<close>

definition ipv4_text :: "32 word \<Rightarrow> string" where
  "ipv4_text w = join_on ''.'' (map (\<lambda>k. py_str_nat (unat w div 256 ^ k mod 256)) [3, 2, 1, 0])"

definition ip_text :: "(128 word \<Rightarrow> string) \<Rightarrow> ip \<Rightarrow> string" where
  "ip_text v6 a =
     (case a of
        IPv4 w \<Rightarrow> ipv4_text w
      | IPv6 w zone \<Rightarrow> v6 w @ (case zone of None \<Rightarrow> [] | Some z \<Rightarrow> ''%'' @ z))"

text \<open>\<open>ip in network\<close> for an IPv6 network.\<close>

definition in_network :: "ip \<Rightarrow> ip_network \<Rightarrow> bool" where
  "in_network a n =
     (case a of
        IPv4 _ \<Rightarrow> False
      | IPv6 w _ \<Rightarrow> drop_bit (128 - net_prefix n) w = drop_bit (128 - net_prefix n) (net_address n))"

definition ipv4_mapped :: "ip \<Rightarrow> 32 word option" where
  "ipv4_mapped a =
     (case a of
        IPv4 _ \<Rightarrow> None
      | IPv6 w _ \<Rightarrow> if drop_bit 32 w = 0xFFFF then Some (ucast w) else None)"

section \<open>IPv4 text is read back\<close>

lemma split_on_append_free:
  assumes "d \<notin> set p"
  shows "split_on d (p @ d # s) = p # split_on d s" and "split_on d p = [p]"
  using assms by (induction p) auto

lemma undigits_snoc: "undigits (s @ [c]) = undigits s * 10 + (of_char c - 48)"
  by simp

lemma py_str_nat_small: "n < 256 \<Longrightarrow> length (py_str_nat n) \<le> 3"
proof -
  assume n: "n < 256"
  have one: "length (py_str_nat k) = 1" if "k < 10" for k using that by (simp add: py_str_nat.simps [of k])
  have two: "length (py_str_nat k) \<le> 2" if "k < 100" for k
    using that one [of "k div 10"] by (simp add: py_str_nat.simps [of k])
  have "n div 10 < 100" using n by simp
  then show ?thesis using two [of "n div 10"] by (simp add: py_str_nat.simps [of n])
qed

lemma parse_octet_text: "n < 256 \<Longrightarrow> parse_octet (py_str_nat n) = Some n"
proof -
  assume n: "n < 256"
  have "list_all is_digit (py_str_nat n)" by (auto simp: list_all_iff py_str_nat_is_digit)
  moreover have "\<not> (py_str_nat n \<noteq> ''0'' \<and> take 1 (py_str_nat n) = ''0'')"
    using py_str_nat_head [of n] py_str_nat_nonempty [of n] by (cases "py_str_nat n") auto
  ultimately show ?thesis
    using n py_str_nat_small [OF n] py_str_nat_nonempty [of n] undigits_py_str_nat [of n]
    by (simp add: parse_octet_def del: undigits.simps)
qed

lemma dot_not_digit: "CHR ''.'' \<notin> set (py_str_nat n)"
  using py_str_nat_is_digit [of "CHR ''.''" n] by (auto simp: is_digit_def less_eq_char_def)

lemma bytes_of_nat: "n < 4294967296 \<Longrightarrow>
    ((n div 16777216 mod 256 * 256 + n div 65536 mod 256) * 256 + n div 256 mod 256) * 256 + n mod 256 = (n::nat)"
proof -
  assume n: "n < 4294967296"
  have "n div 16777216 mod 256 = n div 65536 div 256" using n by (simp add: div_mult2_eq [symmetric] less_mult_imp_div_less)
  then have "n div 16777216 mod 256 * 256 + n div 65536 mod 256 = n div 65536" by simp
  moreover have "n div 65536 * 256 + n div 256 mod 256 = n div 256"
    using div_mult_mod_eq [of "n div 256" 256] div_mult2_eq [of n 256 256] by simp
  moreover have "n div 256 * 256 + n mod 256 = n" by simp
  ultimately show ?thesis by presburger
qed

lemma parse_ipv4_text [roundtrip_facts]: "parse_ipv4 (ipv4_text w) = Some w"
proof -
  let ?n = "unat w"
  let ?b = "\<lambda>k. py_str_nat (?n div 256 ^ k mod 256)"
  have "ipv4_text w = ?b 3 @ CHR ''.'' # ?b 2 @ CHR ''.'' # ?b 1 @ CHR ''.'' # ?b 0"
    by (simp add: ipv4_text_def)
  then have "split_on (CHR ''.'') (ipv4_text w) = [?b 3, ?b 2, ?b 1, ?b 0]"
    by (simp add: split_on_append_free dot_not_digit)
  moreover have "?n < 4294967296" using unsigned_less [of w, where ?'a = nat] by simp
  ultimately show ?thesis
    using bytes_of_nat [of ?n] by (simp add: parse_ipv4_def parse_octet_text)
qed

lemma ip_address_ipv4_text [roundtrip_facts]: "ip_address (ipv4_text w) = Some (IPv4 w)"
  by (simp add: ip_address_def parse_ipv4_text)

end
