(* ===== verification/Url.thy ===== *)
theory Url
  imports Ip_Address
begin

text \<open>
  \<open>urllib.parse\<close> as the code uses it: \<open>urlsplit\<close> with the properties of its result, \<open>urlunsplit\<close>,
  \<open>urlparse\<close>/\<open>urlunparse\<close> (which also split off path parameters), \<open>urldefrag\<close> and \<open>urljoin\<close>.  \<open>None\<close> stands
  for the \<open>ValueError\<close> they raise.  The NFKC check of the authority never fails on the code points 0 to
  255: none of them is compatible with a delimiter.
\<close>

record split_url =
  url_scheme :: string
  netloc :: string
  url_path :: string
  query :: string
  fragment :: string

definition scheme_char :: "char \<Rightarrow> bool" where
  "scheme_char c \<longleftrightarrow> is_alpha_ascii c \<or> is_digit c \<or> c \<in> set ''+-.''"

definition c0_or_space :: "char \<Rightarrow> bool" where
  "c0_or_space c \<longleftrightarrow> of_char c \<le> (32::nat)"

text \<open>What \<open>urlsplit\<close> reads: no leading controls or spaces, no tabs or newlines anywhere.\<close>

definition clean_url :: "string \<Rightarrow> string" where
  "clean_url s = filter (\<lambda>c. c \<notin> {CHR 0x09, CHR 0x0A, CHR 0x0D}) (dropWhile c0_or_space s)"

definition split_scheme :: "string \<Rightarrow> string \<Rightarrow> string \<times> string" where
  "split_scheme dflt s =
     (let i = takeWhile (\<lambda>c. c \<noteq> CHR '':'') s
      in if CHR '':'' \<in> set s \<and> i \<noteq> [] \<and> is_alpha_ascii (hd s) \<and> list_all scheme_char i
         then (py_lower i, drop (Suc (length i)) s) else (dflt, s))"

text \<open>The host of a bracketed authority must be an IPv6 address or an \<open>IPvFuture\<close> one.\<close>

definition bracketed_host_ok :: "string \<Rightarrow> bool" where
  "bracketed_host_ok h =
     (if take 1 h = ''v'' then
        (let hex = takeWhile (\<lambda>c. hex_value c \<noteq> None) (drop 1 h); rest = drop (length hex) (drop 1 h)
         in hex \<noteq> [] \<and> take 1 rest = ''.'' \<and> drop 1 rest \<noteq> [] \<and> CHR 0x0A \<notin> set (drop 1 rest))
      else case ip_address h of Some (IPv6 _ _) \<Rightarrow> True | _ \<Rightarrow> False)"

definition netloc_ok :: "string \<Rightarrow> bool" where
  "netloc_ok n =
     (if CHR ''['' \<in> set n \<or> CHR '']'' \<in> set n then
        CHR ''['' \<in> set n \<and> CHR '']'' \<in> set n \<and>
        (let hp = snd (snd (rpartition_on (CHR ''@'') n));
             (pre, has_open, inner) = partition_on (CHR ''['') hp
         in if has_open then
              (let (h, _, port) = partition_on (CHR '']'') inner
               in pre = [] \<and> (port = [] \<or> take 1 port = '':'') \<and> bracketed_host_ok h)
            else bracketed_host_ok (fst (partition_on (CHR '':'') hp)))
      else True)"

definition authority_end :: "char \<Rightarrow> bool" where
  "authority_end c \<longleftrightarrow> c = CHR ''/'' \<or> c = CHR ''?'' \<or> c = CHR ''#''"

definition urlsplit_with :: "string \<Rightarrow> string \<Rightarrow> split_url option" where
  "urlsplit_with dflt url =
     (let (sch, rest) = split_scheme dflt (clean_url url);
          has_net = (take 2 rest = ''//'');
          net = (if has_net then takeWhile (\<lambda>c. \<not> authority_end c) (drop 2 rest) else []);
          tail1 = (if has_net then dropWhile (\<lambda>c. \<not> authority_end c) (drop 2 rest) else rest)
      in if \<not> netloc_ok net then None
         else
           (let (tail2, _, frag) = partition_on (CHR ''#'') tail1;
                (pth, _, qry) = partition_on (CHR ''?'') tail2
            in Some \<lparr>url_scheme = sch, netloc = net, url_path = pth, query = qry, fragment = frag\<rparr>))"

definition urlsplit :: "string \<Rightarrow> split_url option" where
  "urlsplit = urlsplit_with []"

text \<open>\<open>_hostinfo\<close>, \<open>hostname\<close>, \<open>port\<close>, \<open>username\<close> and \<open>password\<close>.\<close>

definition hostinfo :: "string \<Rightarrow> string \<times> string" where
  "hostinfo n =
     (let hp = snd (snd (rpartition_on (CHR ''@'') n));
          (_, has_open, inner) = partition_on (CHR ''['') hp
      in if has_open then
           (let (h, _, rest) = partition_on (CHR '']'') inner in (h, snd (snd (partition_on (CHR '':'') rest))))
         else (let (h, _, p) = partition_on (CHR '':'') hp in (h, p)))"

definition hostname :: "split_url \<Rightarrow> string option" where
  "hostname u =
     (let h = fst (hostinfo (netloc u))
      in if h = [] then None
         else (let (name, has_zone, zone) = partition_on (CHR ''%'') h
               in Some (py_lower name @ (if has_zone then ''%'' @ zone else []))))"

text \<open>The outer \<open>None\<close> is a \<open>ValueError\<close>, the inner one an absent port.\<close>

definition url_port :: "split_url \<Rightarrow> nat option option" where
  "url_port u =
     (let p = snd (hostinfo (netloc u))
      in if p = [] then Some None
         else if list_all is_digit p \<and> undigits p \<le> 65535 then Some (Some (undigits p)) else None)"

definition userinfo :: "split_url \<Rightarrow> string option \<times> string option" where
  "userinfo u =
     (let (info, has_info, _) = rpartition_on (CHR ''@'') (netloc u)
      in if \<not> has_info then (None, None)
         else (let (name, has_pw, pw) = partition_on (CHR '':'') info
               in (Some name, if has_pw then Some pw else None)))"

section \<open>Putting together\<close>

definition uses_netloc :: "string list" where
  "uses_netloc = ['''', ''ftp'', ''http'', ''gopher'', ''nntp'', ''telnet'', ''imap'', ''wais'', ''file'',
     ''mms'', ''https'', ''shttp'', ''snews'', ''prospero'', ''rtsp'', ''rtsps'', ''rtspu'', ''rsync'', ''svn'',
     ''svn+ssh'', ''sftp'', ''nfs'', ''git'', ''git+ssh'', ''ws'', ''wss'', ''itms-services'']"

definition uses_relative :: "string list" where
  "uses_relative = ['''', ''ftp'', ''http'', ''gopher'', ''nntp'', ''imap'', ''wais'', ''file'', ''https'', ''shttp'',
     ''mms'', ''prospero'', ''rtsp'', ''rtsps'', ''rtspu'', ''sftp'', ''svn'', ''svn+ssh'', ''ws'', ''wss'']"

definition uses_params :: "string list" where
  "uses_params = ['''', ''ftp'', ''hdl'', ''prospero'', ''http'', ''https'', ''shttp'', ''rtsp'', ''rtsps'', ''rtspu'',
     ''sip'', ''sips'', ''mms'', ''sftp'', ''tel'']"

definition with_netloc :: "string \<Rightarrow> string \<Rightarrow> string \<Rightarrow> string" where
  "with_netloc sch net pth =
     (if net \<noteq> [] then ''//'' @ net @ (if pth \<noteq> [] \<and> take 1 pth \<noteq> ''/'' then ''/'' @ pth else pth)
      else if take 2 pth = ''//'' then ''//'' @ pth
      else if sch \<noteq> [] \<and> sch \<in> set uses_netloc \<and> (pth = [] \<or> take 1 pth = ''/'') then ''//'' @ pth
      else pth)"

definition urlunsplit :: "split_url \<Rightarrow> string" where
  "urlunsplit u =
     (if url_scheme u = [] then [] else url_scheme u @ '':'')
     @ with_netloc (url_scheme u) (netloc u) (url_path u)
     @ (if query u = [] then [] else ''?'' @ query u)
     @ (if fragment u = [] then [] else ''#'' @ fragment u)"

text \<open>Path parameters: what follows the first semicolon of the last segment.\<close>

definition split_params :: "string \<Rightarrow> string \<times> string" where
  "split_params pth =
     (let (dir, has_dir, leaf) = rpartition_on (CHR ''/'') pth;
          (name, has_params, params) = partition_on (CHR '';'') leaf
      in if has_params then ((if has_dir then dir @ ''/'' else []) @ name, params) else (pth, []))"

definition url_params :: "split_url \<Rightarrow> string \<times> string" where
  "url_params u = (if url_scheme u \<in> set uses_params then split_params (url_path u) else (url_path u, []))"

definition join_params :: "string \<times> string \<Rightarrow> string" where
  "join_params p = (if snd p = [] then fst p else fst p @ '';'' @ snd p)"

definition urlunparse :: "split_url \<Rightarrow> string \<times> string \<Rightarrow> string" where
  "urlunparse u p = urlunsplit (u\<lparr>url_path := join_params p\<rparr>)"

definition urldefrag :: "string \<Rightarrow> string option" where
  "urldefrag url =
     (if CHR ''#'' \<in> set url
      then map_option (\<lambda>u. urlunparse (u\<lparr>fragment := []\<rparr>) (url_params u)) (urlsplit url)
      else Some url)"

section \<open>Joining\<close>

text \<open>\<open>segments[1:-1] = filter(None, segments[1:-1])\<close>.\<close>

definition drop_inner_empty :: "string list \<Rightarrow> string list" where
  "drop_inner_empty segs =
     (case segs of
        [] \<Rightarrow> []
      | [s] \<Rightarrow> [s]
      | s # t # ts \<Rightarrow> s # filter (\<lambda>x. x \<noteq> []) (butlast (t # ts)) @ [last (t # ts)])"

definition resolve_dots :: "string list \<Rightarrow> string list" where
  "resolve_dots segs =
     foldl (\<lambda>acc s. if s = ''..'' then butlast acc else if s = ''.'' then acc else acc @ [s]) [] segs
     @ (if last segs \<in> {''.'', ''..''} then [[]] else [])"

definition join_path :: "string \<Rightarrow> string \<Rightarrow> string" where
  "join_path base pth =
     (let parts = split_on (CHR ''/'') base;
          dirs = (if last parts = [] then parts else butlast parts);
          segs = (if take 1 pth = ''/'' then split_on (CHR ''/'') pth
                  else drop_inner_empty (dirs @ split_on (CHR ''/'') pth));
          joined = join_on ''/'' (resolve_dots segs)
      in if joined = [] then ''/'' else joined)"

definition urljoin :: "string \<Rightarrow> string \<Rightarrow> string option" where
  "urljoin base url =
     (if base = [] then Some url
      else if url = [] then Some base
      else case urlsplit base of
        None \<Rightarrow> None
      | Some b \<Rightarrow>
          (case urlsplit_with (url_scheme b) url of
             None \<Rightarrow> None
           | Some u \<Rightarrow>
               if url_scheme u \<noteq> url_scheme b \<or> url_scheme u \<notin> set uses_relative then Some url
               else if url_scheme u \<in> set uses_netloc \<and> netloc u \<noteq> [] then Some (urlunparse u (url_params u))
               else
                 (let u' = (if url_scheme u \<in> set uses_netloc then u\<lparr>netloc := netloc b\<rparr> else u);
                      (pth, params) = url_params u
                  in if pth = [] \<and> params = [] then
                       Some (urlunparse (u'\<lparr>query := (if query u = [] then query b else query u)\<rparr>) (url_params b))
                     else Some (urlunparse u' (join_path (fst (url_params b)) pth, params)))))"

section \<open>Splitting what was put together\<close>

lemma clean_url_id:
  assumes "\<forall>c\<in>set s. 32 < (of_char c :: nat)"
  shows "clean_url s = s"
proof -
  have "c \<notin> {CHR 0x09, CHR 0x0A, CHR 0x0D}" if "c \<in> set s" for c using assms that by auto
  then have "filter (\<lambda>c. c \<notin> {CHR 0x09, CHR 0x0A, CHR 0x0D}) s = s" by (simp add: filter_id_conv)
  moreover have "dropWhile c0_or_space s = s"
    using assms by (cases s) (auto simp: c0_or_space_def)
  ultimately show ?thesis by (simp add: clean_url_def)
qed

lemma partition_on_simps:
  "d \<notin> set s \<Longrightarrow> partition_on d s = (s, False, [])"
  "d \<notin> set p \<Longrightarrow> partition_on d (p @ d # s) = (p, True, s)"
proof -
  show "d \<notin> set s \<Longrightarrow> partition_on d s = (s, False, [])"
    by (induction s) (auto simp: partition_on_def)
  show "d \<notin> set p \<Longrightarrow> partition_on d (p @ d # s) = (p, True, s)"
    by (induction p) (auto simp: partition_on_def)
qed

text \<open>The fields of a URL as \<open>urlsplit\<close> produces them.\<close>

definition plain_text :: "string \<Rightarrow> bool" where
  "plain_text s \<longleftrightarrow> (\<forall>c\<in>set s. 32 < (of_char c :: nat))"

definition well_split :: "split_url \<Rightarrow> bool" where
  "well_split u \<longleftrightarrow>
     url_scheme u \<in> {''http'', ''https''} \<and> netloc u \<noteq> [] \<and> netloc_ok (netloc u) \<and>
     plain_text (netloc u @ url_path u @ query u @ fragment u) \<and>
     (\<forall>c\<in>set (netloc u). \<not> authority_end c) \<and>
     CHR ''?'' \<notin> set (url_path u) \<and> CHR ''#'' \<notin> set (url_path u @ query u) \<and>
     (url_path u = [] \<or> take 1 (url_path u) = ''/'')"

lemma takeWhile_dropWhile_authority:
  assumes "\<forall>c\<in>set n. \<not> authority_end c" and "r = [] \<or> authority_end (hd r)"
  shows "takeWhile (\<lambda>c. \<not> authority_end c) (n @ r) = n" and "dropWhile (\<lambda>c. \<not> authority_end c) (n @ r) = r"
  using assms by (induction n) (cases r; simp)+

lemma partition_fragment:
  assumes "CHR ''#'' \<notin> set a"
  shows "partition_on (CHR ''#'') (a @ (if f = [] then [] else ''#'' @ f)) = (a, f \<noteq> [], f)"
  using assms partition_on_simps [of "CHR ''#''"] by simp

lemma partition_query:
  assumes "CHR ''?'' \<notin> set a"
  shows "partition_on (CHR ''?'') (a @ (if f = [] then [] else ''?'' @ f)) = (a, f \<noteq> [], f)"
  using assms partition_on_simps [of "CHR ''?''"] by simp

lemma urlsplit_urlunsplit [roundtrip_facts]:
  assumes "well_split u"
  shows "urlsplit (urlunsplit u) = Some u"
proof -
  let ?q = "if query u = [] then [] else ''?'' @ query u" and ?f = "if fragment u = [] then [] else ''#'' @ fragment u"
  have w: "url_scheme u = ''http'' \<or> url_scheme u = ''https''" "netloc u \<noteq> []" "netloc_ok (netloc u)"
    "\<forall>c\<in>set (netloc u). \<not> authority_end c" "CHR ''?'' \<notin> set (url_path u)"
    "CHR ''#'' \<notin> set (url_path u @ ?q)" "url_path u = [] \<or> take 1 (url_path u) = ''/''"
    using assms by (auto simp: well_split_def)
  have text_ok: "\<forall>c\<in>set (url_scheme u @ ''://'' @ netloc u @ url_path u @ ?q @ ?f). 32 < (of_char c :: nat)"
    using assms w(1) by (auto simp: well_split_def plain_text_def)
  have eq: "urlunsplit u = url_scheme u @ ''://'' @ netloc u @ url_path u @ ?q @ ?f"
    using w by (auto simp: urlunsplit_def with_netloc_def)
  have "split_scheme [] (url_scheme u @ ''://'' @ r) = (url_scheme u, ''//'' @ r)" for r
    using w(1) by (auto simp: split_scheme_def is_alpha_ascii_def scheme_char_def py_lower_def lower_char_def less_eq_char_def)
  moreover have "url_path u @ ?q @ ?f = [] \<or> authority_end (hd (url_path u @ ?q @ ?f))"
    using w(7) by (cases "url_path u") (auto simp: authority_end_def)
  ultimately show ?thesis
    using takeWhile_dropWhile_authority [OF w(4), of "url_path u @ ?q @ ?f"]
      partition_fragment [OF w(6), of "fragment u"] partition_query [OF w(5), of "query u"] w(3)
    unfolding urlsplit_def urlsplit_with_def eq clean_url_id [OF text_ok]
    by (simp add: Let_def)
qed

end
