(* ===== verification/Robots_Policy.thy ===== *)
theory Robots_Policy
  imports Url
begin

text \<open>
  \<open>orchestrator/robots_policy.py\<close>: the robots exclusion protocol.  Percent normalisation, the wildcard
  matcher with its backtracking loop, the choice of the most specific rule, the parser with its groups,
  the interpretation of an HTTP answer, and the snapshot cache.  \<open>None\<close> stands for a \<open>ValueError\<close> that
  leaves the function.  \<open>robots_body\<close> (an HTML parser) and the asyncio locks of the cache are not
  modelled.
\<close>

section \<open>Octets\<close>

definition unreserved :: "char \<Rightarrow> bool" where
  "unreserved c \<longleftrightarrow> is_alpha_ascii c \<or> is_digit c \<or> c \<in> set ''-._~''"

definition hex_upper :: "nat \<Rightarrow> char" where
  "hex_upper n = ''0123456789ABCDEF'' ! n"

definition percent_octet :: "nat \<Rightarrow> string" where
  "percent_octet b = [CHR 0x25, hex_upper (b div 16), hex_upper (b mod 16)]"

text \<open>The two octets of UTF-8 for a code point from 128 to 255.\<close>

definition utf8_octets :: "char \<Rightarrow> string" where
  "utf8_octets c = percent_octet (192 + of_char c div 64) @ percent_octet (128 + of_char c mod 64)"

text \<open>\<open>_normalize_octets\<close>; \<open>chr\<close> raises on the negative numbers that \<open>int(token, 16)\<close> reads, as in \<open>%-1\<close>.\<close>

function normalize_octets :: "string \<Rightarrow> string option" where
  "normalize_octets [] = Some []"
| "normalize_octets (c # s) =
     (if c = CHR 0x25 \<and> 2 \<le> length s then
        (case py_int 16 (take 2 s) of
           None \<Rightarrow> map_option (Cons c) (normalize_octets s)
         | Some b \<Rightarrow>
             if b < 0 then None
             else map_option ((@) (if unreserved (char_of (nat b)) then [char_of (nat b)] else percent_octet (nat b)))
                    (normalize_octets (drop 2 s)))
      else if 127 < (of_char c :: nat) then map_option ((@) (utf8_octets c)) (normalize_octets s)
      else map_option (Cons c) (normalize_octets s))"
  by pat_completeness auto
termination by (relation "measure length") auto

section \<open>Rules\<close>

record robots_rule =
  rule_allow :: bool
  rule_pattern :: string

definition specificity :: "robots_rule \<Rightarrow> nat option" where
  "specificity r =
     map_option (\<lambda>v. utf8_length (filter (\<lambda>c. c \<noteq> CHR ''*'') (removesuffix v ''$'')))
       (normalize_octets (rule_pattern r))"

text \<open>
  The matching loop ends: a new star is further to the right, a backtrack moves its target position, a match moves
  the target position.
\<close>

definition star_rank :: "nat \<Rightarrow> nat \<Rightarrow> (nat \<times> nat) option \<Rightarrow> nat" where
  "star_rank n i star = (case star of None \<Rightarrow> n + 1 | Some (s, _) \<Rightarrow> if s < i then n - s else n + 2)"

definition star_left :: "nat \<Rightarrow> (nat \<times> nat) option \<Rightarrow> nat" where
  "star_left n star = (case star of None \<Rightarrow> 0 | Some (_, m) \<Rightarrow> n - m)"

text \<open>
  The loop of \<open>matches\<close>: the positions in the pattern and in the target, and the position of the last
  star with the target position it was last tried at.
\<close>

function match_loop :: "bool \<Rightarrow> string \<Rightarrow> string \<Rightarrow> nat \<Rightarrow> nat \<Rightarrow> (nat \<times> nat) option \<Rightarrow> bool" where
  "match_loop anchored p t i k star =
     (if k < length t then
        if \<not> anchored \<and> i = length p then True
        else if i < length p \<and> p ! i = t ! k then match_loop anchored p t (Suc i) (Suc k) star
        else if i < length p \<and> p ! i = CHR ''*'' then match_loop anchored p t (Suc i) k (Some (i, k))
        else (case star of
            Some (s, m) \<Rightarrow> match_loop anchored p t (Suc s) (Suc m) (Some (s, Suc m))
          | None \<Rightarrow> False)
      else dropWhile (\<lambda>c. c = CHR ''*'') (drop i p) = [])"
  by pat_completeness auto

termination
proof (relation "measures [\<lambda>(a, p, t, i, k, star). star_rank (length p) i star,
    \<lambda>(a, p, t, i, k, star). star_left (length t) star, \<lambda>(a, p, t, i, k, star). length t - k]")
qed (auto simp: star_rank_def star_left_def split: option.splits if_splits)

declare match_loop.simps [simp del]

definition rule_matches :: "robots_rule \<Rightarrow> string \<Rightarrow> bool option" where
  "rule_matches r target =
     (case normalize_octets (rule_pattern r) of
        None \<Rightarrow> None
      | Some v \<Rightarrow>
          (let anchored = py_endswith v ''$''
           in Some (match_loop anchored (if anchored then butlast v else v) target 0 0 None)))"

section \<open>Decisions\<close>

datatype robots_state = Available | Unavailable | Unreachable

record robots_snapshot =
  snap_origin :: string
  snap_agent :: string
  snap_state :: robots_state
  snap_rules :: "robots_rule list"
  snap_sitemaps :: "string list"
  snap_delay :: "pyfloat option"
  fetched_at :: pyfloat
  snap_reason :: "string option"

text \<open>All or \<open>None\<close>: a comprehension in which one element raises.\<close>

fun each_of :: "('a \<Rightarrow> 'b option) \<Rightarrow> 'a list \<Rightarrow> 'b list option" where
  "each_of f [] = Some []"
| "each_of f (x # xs) =
     (case f x of None \<Rightarrow> None | Some y \<Rightarrow> map_option (Cons y) (each_of f xs))"

definition robots_target :: "split_url \<Rightarrow> string option" where
  "robots_target u =
     normalize_octets ((if url_path u = [] then ''/'' else url_path u)
       @ (if query u = [] then [] else ''?'' @ query u))"

definition decide_rules :: "robots_rule list \<Rightarrow> string \<Rightarrow> bool option" where
  "decide_rules rules target =
     (case each_of (\<lambda>r. rule_matches r target) rules of
        None \<Rightarrow> None
      | Some hits \<Rightarrow>
          (let matching = map fst (filter snd (zip rules hits)) in
           if matching = [] then Some True
           else case each_of specificity matching of
             None \<Rightarrow> None
           | Some specs \<Rightarrow>
               Some (list_ex (\<lambda>(r, n). rule_allow r \<and> n = Max (set specs)) (zip matching specs))))"

definition robots_allows :: "robots_snapshot \<Rightarrow> string \<Rightarrow> bool option" where
  "robots_allows snap url =
     (case snap_state snap of
        Unavailable \<Rightarrow> Some True
      | Unreachable \<Rightarrow> Some False
      | Available \<Rightarrow>
          (case urlsplit url of
             None \<Rightarrow> None
           | Some u \<Rightarrow> (case robots_target u of None \<Rightarrow> None | Some t \<Rightarrow> decide_rules (snap_rules snap) t)))"

section \<open>Parsing\<close>

record robots_group =
  group_agents :: "string list"
  group_rules :: "robots_rule list"
  group_delays :: "pyfloat list"

text \<open>The current group is the last one.\<close>

record robots_parser =
  parser_origin :: string
  parser_groups :: "robots_group list"
  parser_sitemaps :: "string list"

definition directive :: "string \<Rightarrow> (string \<times> string) option" where
  "directive raw =
     (let line = py_strip (before_char (CHR ''#'') raw)
      in if line = [] \<or> CHR '':'' \<notin> set line then None
         else Some (py_casefold (py_strip (before_char (CHR '':'') line)), py_strip (after_char (CHR '':'') line)))"

definition add_sitemap :: "string \<Rightarrow> robots_parser \<Rightarrow> robots_parser option" where
  "add_sitemap value st =
     (case urljoin (rstrip_char (CHR ''/'') (parser_origin st) @ ''/'') value of
        None \<Rightarrow> None
      | Some url \<Rightarrow>
          Some (if url \<in> set (parser_sitemaps st) then st
                else st\<lparr>parser_sitemaps := parser_sitemaps st @ [url]\<rparr>))"

definition on_current :: "(robots_group \<Rightarrow> robots_group) \<Rightarrow> robots_parser \<Rightarrow> robots_parser" where
  "on_current f st =
     (if parser_groups st = [] then st
      else st\<lparr>parser_groups := butlast (parser_groups st) @ [f (last (parser_groups st))]\<rparr>)"

definition add_agent :: "string \<Rightarrow> robots_parser \<Rightarrow> robots_parser" where
  "add_agent value st =
     (let fresh = \<lparr>group_agents = [], group_rules = [], group_delays = []\<rparr>;
          g = last (parser_groups st);
          st' = (if parser_groups st = [] \<or> group_rules g \<noteq> [] \<or> group_delays g \<noteq> []
                 then st\<lparr>parser_groups := parser_groups st @ [fresh]\<rparr> else st)
      in on_current (\<lambda>g. g\<lparr>group_agents := group_agents g @ [py_casefold value]\<rparr>) st')"

definition add_delay :: "string \<Rightarrow> robots_parser \<Rightarrow> robots_parser" where
  "add_delay value st =
     (case py_float value of
        None \<Rightarrow> st
      | Some d \<Rightarrow>
          if 0 \<le> d \<and> d \<le> 86400 then on_current (\<lambda>g. g\<lparr>group_delays := group_delays g @ [d]\<rparr>) st else st)"

definition add_group_directive :: "string \<Rightarrow> string \<Rightarrow> robots_parser \<Rightarrow> robots_parser" where
  "add_group_directive field value st =
     (if parser_groups st = [] \<or> group_agents (last (parser_groups st)) = [] then st
      else if field = ''allow'' \<or> field = ''disallow'' then
        (if value = [] then st
         else on_current (\<lambda>g. g\<lparr>group_rules := group_rules g @ [\<lparr>rule_allow = (field = ''allow''), rule_pattern = value\<rparr>]\<rparr>) st)
      else if field = ''crawl-delay'' then add_delay value st
      else st)"

definition add_directive :: "string \<times> string \<Rightarrow> robots_parser \<Rightarrow> robots_parser option" where
  "add_directive d st =
     (case d of (field, value) \<Rightarrow>
        if field = ''sitemap'' \<and> value \<noteq> [] then add_sitemap value st
        else if field = ''user-agent'' \<and> value \<noteq> [] then Some (add_agent value st)
        else Some (add_group_directive field value st))"

fun add_lines :: "string list \<Rightarrow> robots_parser \<Rightarrow> robots_parser option" where
  "add_lines [] st = Some st"
| "add_lines (l # ls) st =
     (case directive l of
        None \<Rightarrow> add_lines ls st
      | Some d \<Rightarrow> (case add_directive d st of None \<Rightarrow> None | Some st' \<Rightarrow> add_lines ls st'))"

definition selected_groups :: "string \<Rightarrow> robots_group list \<Rightarrow> robots_group list" where
  "selected_groups agent gs =
     (let token = py_casefold agent;
          matching = filter (\<lambda>g. list_ex (\<lambda>a. a \<noteq> ''*'' \<and> a = token) (group_agents g)) gs
      in if matching \<noteq> [] then matching else filter (\<lambda>g. ''*'' \<in> set (group_agents g)) gs)"

definition parse_robots :: "string \<Rightarrow> string \<Rightarrow> string \<Rightarrow> pyfloat \<Rightarrow> robots_snapshot option" where
  "parse_robots body origin agent now =
     (case add_lines (py_splitlines body) \<lparr>parser_origin = origin, parser_groups = [], parser_sitemaps = []\<rparr> of
        None \<Rightarrow> None
      | Some st \<Rightarrow>
          (let selected = selected_groups agent (parser_groups st);
               delays = concat (map group_delays selected)
           in Some \<lparr>snap_origin = origin, snap_agent = agent, snap_state = Available,
                snap_rules = concat (map group_rules selected), snap_sitemaps = parser_sitemaps st,
                snap_delay = (if delays = [] then None else Some (Max (set delays))),
                fetched_at = now, snap_reason = None\<rparr>))"

definition closed_snapshot :: "string \<Rightarrow> string \<Rightarrow> robots_state \<Rightarrow> pyfloat \<Rightarrow> string \<Rightarrow> robots_snapshot" where
  "closed_snapshot origin agent st now reason =
     \<lparr>snap_origin = origin, snap_agent = agent, snap_state = st, snap_rules = [], snap_sitemaps = [],
      snap_delay = None, fetched_at = now, snap_reason = Some reason\<rparr>"

definition robots_from_http ::
  "string \<Rightarrow> string \<Rightarrow> int option \<Rightarrow> string \<Rightarrow> pyfloat \<Rightarrow> int \<Rightarrow> robots_snapshot option \<Rightarrow> robots_snapshot option" where
  "robots_from_http origin agent status body now max_bytes cached =
     (if (case status of Some c \<Rightarrow> 400 \<le> c \<and> c \<le> 499 | None \<Rightarrow> False)
      then Some (closed_snapshot origin agent Unavailable now ''http_4xx'')
      else if (case status of None \<Rightarrow> True | Some c \<Rightarrow> 500 \<le> c \<or> 300 \<le> c \<and> c \<le> 399) then
        (case cached of Some s \<Rightarrow> Some s
         | None \<Rightarrow> Some (closed_snapshot origin agent Unreachable now ''upstream_unreachable''))
      else if int (utf8_length body) > max_bytes
      then Some (closed_snapshot origin agent Unreachable now ''body_too_large'')
      else parse_robots body origin agent now)"

section \<open>Cache\<close>

type_synonym robots_values = "string \<rightharpoonup> robots_snapshot"

definition robots_ttl :: "pyfloat \<Rightarrow> robots_snapshot \<Rightarrow> pyfloat" where
  "robots_ttl ttl s = (if snap_state s \<noteq> Unreachable then ttl else min ttl 60)"

definition robots_get :: "pyfloat \<Rightarrow> string \<Rightarrow> pyfloat \<Rightarrow> robots_values \<Rightarrow> robots_snapshot option \<times> robots_values" where
  "robots_get ttl origin now vs =
     (case vs origin of
        None \<Rightarrow> (None, vs)
      | Some s \<Rightarrow> if now \<ge> fetched_at s + robots_ttl ttl s then (None, vs(origin := None)) else (Some s, vs))"

definition robots_put :: "robots_snapshot \<Rightarrow> robots_values \<Rightarrow> robots_values" where
  "robots_put s vs = vs(snap_origin s \<mapsto> s)"

end
