(* ===== verification/Robots_Guarantees.thy ===== *)
theory Robots_Guarantees
  imports Robots_Policy
begin

text \<open>
  The matcher against the meaning of a robots pattern, the choice among rules, and the cache.  A pattern
  is the list of its literal parts between the stars; a target matches when the parts occur in order
  with arbitrary text in the gaps, and, for an anchored pattern, nothing after the last part.
\<close>

section \<open>Globs\<close>

fun weave :: "string list \<Rightarrow> string list \<Rightarrow> string" where
  "weave (w # v # ws) (g # gs) = w @ g @ weave (v # ws) gs"
| "weave [w] gs = w"
| "weave ws gs = []"

definition fits :: "bool \<Rightarrow> string \<Rightarrow> string \<Rightarrow> bool" where
  "fits anchored p t \<longleftrightarrow>
     (\<exists>gaps rest. Suc (length gaps) = length (split_on (CHR ''*'') p) \<and>
        t = weave (split_on (CHR ''*'') p) gaps @ rest \<and> (anchored \<longrightarrow> rest = []))"

lemma split_on_star: "split_on d (d # p) = [] # split_on d p"
  by simp

lemma split_on_other: "c \<noteq> d \<Longrightarrow> split_on d (c # p) = (c # hd (split_on d p)) # tl (split_on d p)"
  by (cases "split_on d p") auto

lemma weave_cons: "weave ((c # w) # ws) gs = c # weave (w # ws) gs" if "Suc (length gs) = length (w # ws)"
  using that by (cases ws; cases gs) auto

lemma fits_nil: "fits anchored [] t \<longleftrightarrow> (anchored \<longrightarrow> t = [])"
  by (auto simp: fits_def)

lemma fits_literal:
  assumes "c \<noteq> CHR ''*''"
  shows "fits anchored (c # p) t \<longleftrightarrow> (case t of [] \<Rightarrow> False | x # u \<Rightarrow> x = c \<and> fits anchored p u)"
proof -
  obtain w ws where s: "split_on (CHR ''*'') p = w # ws" by (cases "split_on (CHR ''*'') p") auto
  have "split_on (CHR ''*'') (c # p) = (c # w) # ws" using assms s by simp
  then show ?thesis
    unfolding fits_def s by (cases t) (auto simp: weave_cons)
qed

lemma fits_star: "fits anchored (CHR ''*'' # p) t \<longleftrightarrow> (\<exists>k\<le>length t. fits anchored p (drop k t))"
proof -
  obtain w ws where s: "split_on (CHR ''*'') p = w # ws" by (cases "split_on (CHR ''*'') p") auto
  show ?thesis
  proof
    assume "fits anchored (CHR ''*'' # p) t"
    then obtain gaps rest where g: "Suc (length gaps) = length ([] # w # ws)" "t = weave ([] # w # ws) gaps @ rest"
      "anchored \<longrightarrow> rest = []" unfolding fits_def split_on_star s by blast
    then obtain x gs where "gaps = x # gs" by (cases gaps) auto
    then have "Suc (length gs) = length (w # ws)" "drop (length x) t = weave (w # ws) gs @ rest" "length x \<le> length t"
      using g by simp_all
    then show "\<exists>k\<le>length t. fits anchored p (drop k t)" unfolding fits_def s using g(3) by blast
  next
    assume "\<exists>k\<le>length t. fits anchored p (drop k t)"
    then obtain k gs rest where "k \<le> length t" "Suc (length gs) = length (w # ws)"
      "drop k t = weave (w # ws) gs @ rest" "anchored \<longrightarrow> rest = []"
      unfolding fits_def s by blast
    then show "fits anchored (CHR ''*'' # p) t"
      unfolding fits_def split_on_star s
      by (intro exI [of _ "take k t # gs"] exI [of _ rest]) (simp, metis append_take_drop_id)
  qed
qed

lemma fits_literals:
  "CHR ''*'' \<notin> set l \<Longrightarrow> fits anchored (l @ q) t \<longleftrightarrow> take (length l) t = l \<and> fits anchored q (drop (length l) t)"
proof (induction l arbitrary: t)
  case (Cons c l)
  then have "c \<noteq> CHR ''*''" "CHR ''*'' \<notin> set l" by auto
  then have step: "fits anchored (c # (l @ q)) t \<longleftrightarrow> (case t of [] \<Rightarrow> False | x # u \<Rightarrow> x = c \<and> fits anchored (l @ q) u)"
    and IH: "fits anchored (l @ q) u \<longleftrightarrow> take (length l) u = l \<and> fits anchored q (drop (length l) u)" for u
    using fits_literal [of c] Cons.IH by blast+
  show ?case unfolding append_Cons step IH by (cases t) auto
qed simp

lemma fits_empty_target: "fits anchored p [] \<longleftrightarrow> dropWhile (\<lambda>c. c = CHR ''*'') p = []"
proof (induction p)
  case (Cons c p)
  show ?case
  proof (cases "c = CHR ''*''")
    case True
    then show ?thesis using Cons.IH fits_star [of anchored p "[]"] by simp
  next
    case False
    then show ?thesis using fits_literal [OF False, of anchored p "[]"] by simp
  qed
qed (simp add: fits_nil)

section \<open>The loop\<close>

text \<open>What the last star can still reach.\<close>

definition later_star :: "bool \<Rightarrow> string \<Rightarrow> string \<Rightarrow> (nat \<times> nat) option \<Rightarrow> bool" where
  "later_star anchored p t star \<longleftrightarrow>
     (case star of None \<Rightarrow> False
      | Some (s, m) \<Rightarrow> \<exists>k. m < k \<and> k \<le> length t \<and> fits anchored (drop (Suc s) p) (drop k t))"

text \<open>Since the last star, the pattern has been matched literally.\<close>

definition star_ok :: "string \<Rightarrow> string \<Rightarrow> nat \<Rightarrow> nat \<Rightarrow> (nat \<times> nat) option \<Rightarrow> bool" where
  "star_ok p t i k star \<longleftrightarrow>
     (case star of None \<Rightarrow> True
      | Some (s, m) \<Rightarrow> s < i \<and> m \<le> k \<and> k - m = i - Suc s \<and>
          drop (Suc s) p = take (k - m) (drop m t) @ drop i p)"

lemma later_star_literals:
  assumes "CHR ''*'' \<notin> set t" and "star_ok p t i k (Some (s, m))" and "m < h" and "h \<le> length t"
    and "fits anchored (drop (Suc s) p) (drop h t)" and "k \<le> length t"
  shows "k < h + (k - m) \<and> h + (k - m) \<le> length t \<and> fits anchored (drop i p) (drop (h + (k - m)) t)"
proof -
  let ?l = "take (k - m) (drop m t)"
  have l: "CHR ''*'' \<notin> set ?l" using assms(1) by (auto dest: in_set_takeD in_set_dropD)
  have len: "length ?l = k - m" using assms(6) by simp
  have "take (length ?l) (drop h t) = ?l \<and> fits anchored (drop i p) (drop (length ?l) (drop h t))"
    using assms(2,5) fits_literals [OF l] by (simp add: star_ok_def)
  moreover have "length (take (length ?l) (drop h t)) \<le> length t - h" by simp
  ultimately show ?thesis using assms(2-4) len by (auto simp: star_ok_def add.commute)
qed

lemma star_ok_step:
  assumes "star_ok p t i k star" and "i < length p" and "k < length t" and "p ! i = t ! k"
  shows "star_ok p t (Suc i) (Suc k) star"
proof (cases star)
  case (Some sm)
  obtain s m where sm: "sm = (s, m)" by (cases sm)
  have ok: "s < i" "m \<le> k" "k - m = i - Suc s" "drop (Suc s) p = take (k - m) (drop m t) @ drop i p"
    using assms(1) by (simp_all add: star_ok_def Some sm)
  have "take (Suc (k - m)) (drop m t) = take (k - m) (drop m t) @ [t ! k]"
    using ok(2) assms(3) by (subst take_Suc_conv_app_nth) simp_all
  moreover have "drop i p = t ! k # drop (Suc i) p" using assms(2,4) by (metis Cons_nth_drop_Suc)
  ultimately show ?thesis using ok by (simp add: star_ok_def Some sm Suc_diff_le)
qed (simp add: star_ok_def)

lemma match_loop_fits:
  assumes "CHR ''*'' \<notin> set t" and "i \<le> length p" and "k \<le> length t" and "star_ok p t i k star"
  shows "match_loop anchored p t i k star \<longleftrightarrow>
    fits anchored (drop i p) (drop k t) \<or> later_star anchored p t star"
  using assms
proof (induction anchored p t i k star rule: match_loop.induct)
  case (1 anchored p t i k star)
  note star_free = 1(4) and inv = 1(5-7)
  show ?case
  proof (cases "k < length t")
    case False
    then have k: "k = length t" using inv by simp
    have "\<not> later_star anchored p t star"
    proof
      assume "later_star anchored p t star"
      then obtain s m h where star: "star = Some (s, m)" and h: "m < h" "h \<le> length t"
        "fits anchored (drop (Suc s) p) (drop h t)" by (auto simp: later_star_def split: option.splits)
      have so: "star_ok p t i k (Some (s, m))" using inv(3) star by simp
      from later_star_literals [OF star_free so h inv(2)] k show False by linarith
    qed
    have "match_loop anchored p t i k star \<longleftrightarrow> dropWhile (\<lambda>c. c = CHR ''*'') (drop i p) = []"
      using False by (subst match_loop.simps) (simp only: if_False)
    then show ?thesis using k \<open>\<not> later_star anchored p t star\<close> fits_empty_target [of anchored "drop i p"] by simp
  next
    case k: True
    have tgt: "drop k t = t ! k # drop (Suc k) t" using k by (simp add: Cons_nth_drop_Suc)
    consider (ended) "\<not> anchored" "i = length p"
      | (same) "\<not> (\<not> anchored \<and> i = length p)" "i < length p" "p ! i = t ! k"
      | (star) "\<not> (\<not> anchored \<and> i = length p)" "i < length p" "p ! i \<noteq> t ! k" "p ! i = CHR ''*''"
      | (retry) "\<not> (\<not> anchored \<and> i = length p)" "\<not> (i < length p \<and> p ! i = t ! k)" "\<not> (i < length p \<and> p ! i = CHR ''*'')"
      by blast
    then show ?thesis
    proof cases
      case ended
      have "match_loop anchored p t i k star"
        using k ended by (subst match_loop.simps) (simp only: if_True simp_thms)
      then show ?thesis using ended by (simp add: fits_nil)
    next
      case same
      have pat: "drop i p = p ! i # drop (Suc i) p" using same(2) by (simp add: Cons_nth_drop_Suc)
      have "p ! i \<noteq> CHR ''*''" using same(3) star_free k nth_mem by metis
      then have "fits anchored (drop i p) (drop k t) \<longleftrightarrow> fits anchored (drop (Suc i) p) (drop (Suc k) t)"
        unfolding pat tgt using same(3) by (simp add: fits_literal)
      moreover have "star_ok p t (Suc i) (Suc k) star"
        by (rule star_ok_step [OF inv(3) same(2) k same(3)])
      moreover have "match_loop anchored p t i k star = match_loop anchored p t (Suc i) (Suc k) star"
        using k same by (subst match_loop.simps) (simp only: if_True if_False simp_thms)
      ultimately show ?thesis using 1(1) [OF k same(1) conjI [OF same(2,3)]] same(2) k star_free by simp
    next
      case star
      have pat: "drop i p = CHR ''*'' # drop (Suc i) p" using star(2,4) by (metis Cons_nth_drop_Suc)
      have new: "later_star anchored p t (Some (i, k)) \<or> fits anchored (drop (Suc i) p) (drop k t) \<longleftrightarrow> fits anchored (drop i p) (drop k t)"
      proof
        assume "later_star anchored p t (Some (i, k)) \<or> fits anchored (drop (Suc i) p) (drop k t)"
        then obtain h where "k \<le> h" "h \<le> length t" "fits anchored (drop (Suc i) p) (drop h t)"
          using k by (auto simp: later_star_def intro: less_imp_le)
        then show "fits anchored (drop i p) (drop k t)"
          unfolding pat fits_star by (intro exI [of _ "h - k"]) (simp add: add.commute)
      next
        assume "fits anchored (drop i p) (drop k t)"
        then obtain n where "n \<le> length t - k" "fits anchored (drop (Suc i) p) (drop (n + k) t)"
          unfolding pat fits_star by auto
        then show "later_star anchored p t (Some (i, k)) \<or> fits anchored (drop (Suc i) p) (drop k t)"
          using k by (cases n) (auto simp: later_star_def intro: exI [of _ "n + k"])
      qed
      have old: "later_star anchored p t star \<Longrightarrow> fits anchored (drop i p) (drop k t)"
      proof -
        assume "later_star anchored p t star"
        then obtain s m h where st: "star = Some (s, m)" and h: "m < h" "h \<le> length t"
          "fits anchored (drop (Suc s) p) (drop h t)" by (auto simp: later_star_def split: option.splits)
        have so: "star_ok p t i k (Some (s, m))" using inv(3) st by simp
        have g: "k < h + (k - m)" "h + (k - m) \<le> length t" "fits anchored (drop i p) (drop (h + (k - m)) t)"
          using later_star_literals [OF star_free so h inv(2)] by blast+
        then obtain n where "n \<le> length t - (h + (k - m))" "fits anchored (drop (Suc i) p) (drop (n + (h + (k - m))) t)"
          unfolding pat fits_star by auto
        then show "fits anchored (drop i p) (drop k t)"
          unfolding pat fits_star using g(1,2) by (intro exI [of _ "n + (h + (k - m)) - k"]) (simp add: add.commute)
      qed
      have "match_loop anchored p t i k star = match_loop anchored p t (Suc i) k (Some (i, k))"
        using k star by (subst match_loop.simps) (simp only: if_True if_False simp_thms)
      moreover have "star_ok p t (Suc i) k (Some (i, k))" by (simp add: star_ok_def)
      ultimately show ?thesis using 1(2) [OF k star(1) _ conjI [OF star(2,4)]] star(2,3) k star_free new old by auto
    next
      case retry
      have no: "\<not> fits anchored (drop i p) (drop k t)"
      proof (cases "i < length p")
        case True
        then have pat: "drop i p = p ! i # drop (Suc i) p" by (simp add: Cons_nth_drop_Suc)
        show ?thesis unfolding pat tgt using retry True by (simp add: fits_literal)
      next
        case False
        then show ?thesis using retry(1) inv(1) k by (simp add: fits_nil)
      qed
      show ?thesis
      proof (cases star)
        case None
        have "match_loop anchored p t i k star = False"
          using k retry None by (subst match_loop.simps) (simp only: if_True if_False simp_thms option.case)
        then show ?thesis using no None by (simp add: later_star_def)
      next
        case (Some sm)
        obtain s m where sm: "sm = (s, m)" by (cases sm)
        have run: "match_loop anchored p t i k star = match_loop anchored p t (Suc s) (Suc m) (Some (s, Suc m))"
          using k retry Some sm by (subst match_loop.simps) (simp only: if_True if_False simp_thms option.case prod.case)
        have m: "Suc m \<le> length t" "Suc s \<le> length p" using inv k Some sm by (auto simp: star_ok_def)
        have "later_star anchored p t star \<longleftrightarrow>
            fits anchored (drop (Suc s) p) (drop (Suc m) t) \<or> later_star anchored p t (Some (s, Suc m))"
          unfolding Some sm later_star_def option.case prod.case
          using m(1) by (metis Suc_leI le_neq_implies_less lessI less_trans)
        moreover have "star_ok p t (Suc s) (Suc m) (Some (s, Suc m))" by (simp add: star_ok_def)
        ultimately show ?thesis using 1(3) [OF k retry Some sm [symmetric] star_free m(2,1)] run no by blast
      qed
    qed
  qed
qed

section \<open>Rules\<close>

text \<open>The meaning of a rule: its normalised pattern, anchored when it ends in a dollar sign.\<close>

definition rule_fits :: "robots_rule \<Rightarrow> string \<Rightarrow> bool" where
  "rule_fits r t =
     (case normalize_octets (rule_pattern r) of
        None \<Rightarrow> False
      | Some v \<Rightarrow> fits (py_endswith v ''$'') (if py_endswith v ''$'' then butlast v else v) t)"

lemma rule_matches_fits:
  assumes "CHR ''*'' \<notin> set t" and "normalize_octets (rule_pattern r) \<noteq> None"
  shows "rule_matches r t = Some (rule_fits r t)"
  using assms match_loop_fits [OF assms(1), of 0 _ 0 None]
  by (auto simp: rule_matches_def rule_fits_def Let_def later_star_def star_ok_def)

text \<open>
  C15. The matcher's loop, with its two positions and its single backtrack point, decides what a robots
  pattern means: for every target without a star, a rule matches exactly when the literal parts of its
  normalised pattern occur in the target in order, from its start, with arbitrary text in the gaps, and
  up to its end if the pattern ends in a dollar sign.
\<close>

theorem robots_match_is_glob:
  assumes "normalize_octets (rule_pattern r) = Some v" and "CHR ''*'' \<notin> set t"
    and "p = (if py_endswith v ''$'' then butlast v else v)"
  shows "rule_matches r t = Some (\<exists>gaps rest. Suc (length gaps) = length (split_on (CHR ''*'') p) \<and>
     t = weave (split_on (CHR ''*'') p) gaps @ rest \<and> (py_endswith v ''$'' \<longrightarrow> rest = []))"
  using rule_matches_fits [OF assms(2), of r] assms(1,3) by (simp add: rule_fits_def fits_def)

theorem robots_match_is_glob_witness:
  "rule_matches \<lparr>rule_allow = False, rule_pattern = ''/a*b''\<rparr> ''/axxbc'' = Some True"
proof -
  have v: "normalize_octets ''/a*b'' = Some ''/a*b''" by code_simp
  have e: "\<not> py_endswith ''/a*b'' ''$''" by (simp add: py_endswith_def)
  have "''/axxbc'' = weave (split_on (CHR ''*'') ''/a*b'') [''xx''] @ ''c''" by simp
  then have "\<exists>gaps rest. Suc (length gaps) = length (split_on (CHR ''*'') ''/a*b'') \<and>
     ''/axxbc'' = weave (split_on (CHR ''*'') ''/a*b'') gaps @ rest \<and> (py_endswith ''/a*b'' ''$'' \<longrightarrow> rest = [])"
    using e by (intro exI [of _ "[''xx'']"] exI [of _ "''c''"]) simp
  then show ?thesis
    using robots_match_is_glob [of "\<lparr>rule_allow = False, rule_pattern = ''/a*b''\<rparr>" "''/a*b''" "''/axxbc''" "''/a*b''"] v e
    by (simp del: split_on.simps weave.simps)
qed

text \<open>
  A star in the target is taken for the pattern's star, which is then not recorded as a place to come
  back to: the rule misses a target that its pattern fits.
\<close>

lemma robots_star_in_target:
  "rule_matches \<lparr>rule_allow = False, rule_pattern = ''/*a''\<rparr> ''/*ba'' = Some False \<and>
   rule_fits \<lparr>rule_allow = False, rule_pattern = ''/*a''\<rparr> ''/*ba''"
proof
  show "rule_matches \<lparr>rule_allow = False, rule_pattern = ''/*a''\<rparr> ''/*ba'' = Some False" by code_simp
  have "normalize_octets ''/*a'' = Some ''/*a''" by code_simp
  moreover have "fits False ''/*a'' ''/*ba''"
    by (simp add: fits_literal fits_star fits_nil) (intro exI [of _ 2], simp add: fits_literal fits_nil)
  ultimately show "rule_fits \<lparr>rule_allow = False, rule_pattern = ''/*a''\<rparr> ''/*ba''"
    by (simp add: rule_fits_def py_endswith_def)
qed

text \<open>A percent sign before a minus and a digit makes \<open>chr\<close> raise, for a rule and for a URL alike.\<close>

lemma robots_negative_octet: "robots_allows \<lparr>snap_origin = ''https://a.org'', snap_agent = ''bot'',
     snap_state = Available, snap_rules = [], snap_sitemaps = [], snap_delay = None, fetched_at = 0,
     snap_reason = None\<rparr> ''https://a.org/%-1'' = None"
  by code_simp

section \<open>The most specific rule\<close>

lemma each_of_map: "(\<And>x. x \<in> set xs \<Longrightarrow> f x = Some (g x)) \<Longrightarrow> each_of f xs = Some (map g xs)"
  by (induction xs) simp_all

definition rule_rank :: "robots_rule \<Rightarrow> nat" where
  "rule_rank r = (case specificity r of None \<Rightarrow> 0 | Some n \<Rightarrow> n)"

lemma list_ex_zip_map:
  "list_ex (\<lambda>(r, n). P r \<and> n = m) (zip xs (map f xs)) \<longleftrightarrow> (\<exists>r\<in>set xs. P r \<and> f r = m)"
  by (induction xs) auto

lemma filter_zip_map: "map fst (filter snd (zip xs (map g xs))) = filter g xs"
  by (induction xs) auto

lemma decide_rules_ranked:
  assumes star_free: "CHR ''*'' \<notin> set t" and ok: "\<forall>r\<in>set rules. normalize_octets (rule_pattern r) \<noteq> None"
  shows "decide_rules rules t = Some (\<forall>r\<in>set rules. \<not> rule_allow r \<and> rule_fits r t \<longrightarrow>
     (\<exists>q\<in>set rules. rule_allow q \<and> rule_fits q t \<and> rule_rank r \<le> rule_rank q))"
proof -
  let ?m = "filter (\<lambda>r. rule_fits r t) rules" and ?max = "Max (rule_rank ` set (filter (\<lambda>r. rule_fits r t) rules))"
  have hits: "each_of (\<lambda>r. rule_matches r t) rules = Some (map (\<lambda>r. rule_fits r t) rules)"
    using rule_matches_fits [OF star_free] ok by (intro each_of_map) simp
  have specs: "each_of specificity ?m = Some (map rule_rank ?m)"
    using ok by (intro each_of_map) (auto simp: rule_rank_def specificity_def)
  show ?thesis
  proof (cases "?m = []")
    case True
    then show ?thesis by (auto simp: decide_rules_def hits filter_zip_map Let_def filter_empty_iff)
  next
    case False
    have max: "r \<in> set ?m \<Longrightarrow> rule_rank r \<le> ?max" for r by simp
    have mem: "?max \<in> rule_rank ` set ?m" using False by (intro Max_in) (auto simp: filter_empty_iff)
    have "decide_rules rules t = Some (list_ex (\<lambda>(r, n). rule_allow r \<and> n = ?max) (zip ?m (map rule_rank ?m)))"
      using False by (simp add: decide_rules_def hits filter_zip_map Let_def specs)
    also have "list_ex (\<lambda>(r, n). rule_allow r \<and> n = ?max) (zip ?m (map rule_rank ?m)) \<longleftrightarrow>
        (\<exists>r\<in>set ?m. rule_allow r \<and> rule_rank r = ?max)"
      by (rule list_ex_zip_map)
    also have "\<dots> \<longleftrightarrow> (\<forall>r\<in>set ?m. \<not> rule_allow r \<longrightarrow> (\<exists>q\<in>set ?m. rule_allow q \<and> rule_rank r \<le> rule_rank q))"
    proof
      assume "\<exists>r\<in>set ?m. rule_allow r \<and> rule_rank r = ?max"
      then show "\<forall>r\<in>set ?m. \<not> rule_allow r \<longrightarrow> (\<exists>q\<in>set ?m. rule_allow q \<and> rule_rank r \<le> rule_rank q)"
        using max by metis
    next
      assume r: "\<forall>r\<in>set ?m. \<not> rule_allow r \<longrightarrow> (\<exists>q\<in>set ?m. rule_allow q \<and> rule_rank r \<le> rule_rank q)"
      obtain top where top: "top \<in> set ?m" "rule_rank top = ?max" using mem by auto
      then show "\<exists>r\<in>set ?m. rule_allow r \<and> rule_rank r = ?max"
        using r max by (metis le_antisym)
    qed
    finally show ?thesis by auto
  qed
qed

text \<open>
  C16. A parsed robots file decides by the most specific rule: a URL whose path and query hold no star is
  allowed exactly when every disallow rule that fits it is answered by an allow rule that fits it and is at
  least as specific.  Rules of the same pattern length tie in favour of allow, and their order is irrelevant.
\<close>

theorem robots_longest_match:
  assumes "snap_state snap = Available" and "urlsplit url = Some u" and "robots_target u = Some t"
    and "CHR ''*'' \<notin> set t" and "\<forall>r\<in>set (snap_rules snap). normalize_octets (rule_pattern r) \<noteq> None"
  shows "robots_allows snap url = Some (\<forall>r\<in>set (snap_rules snap). \<not> rule_allow r \<and> rule_fits r t \<longrightarrow>
     (\<exists>q\<in>set (snap_rules snap). rule_allow q \<and> rule_fits q t \<and> rule_rank r \<le> rule_rank q))"
  using assms decide_rules_ranked [OF assms(4,5)] by (simp add: robots_allows_def)

definition demo_snapshot :: robots_snapshot where
  "demo_snapshot = \<lparr>snap_origin = ''https://a.org'', snap_agent = ''bot'', snap_state = Available,
     snap_rules = [\<lparr>rule_allow = False, rule_pattern = ''/a''\<rparr>, \<lparr>rule_allow = True, rule_pattern = ''/ab''\<rparr>],
     snap_sitemaps = [], snap_delay = None, fetched_at = 0, snap_reason = None\<rparr>"

theorem robots_longest_match_witness: "robots_allows demo_snapshot ''https://a.org/ac'' = Some False"
proof -
  have u: "urlsplit ''https://a.org/ac'' = Some \<lparr>url_scheme = ''https'', netloc = ''a.org'', url_path = ''/ac'', query = [], fragment = []\<rparr>"
    by code_simp
  have t: "robots_target \<lparr>url_scheme = ''https'', netloc = ''a.org'', url_path = ''/ac'', query = [], fragment = []\<rparr> = Some ''/ac''"
    by code_simp
  have n: "normalize_octets ''/a'' = Some ''/a''" "normalize_octets ''/ab'' = Some ''/ab''" by code_simp+
  have "rule_fits \<lparr>rule_allow = False, rule_pattern = ''/a''\<rparr> ''/ac''"
    "\<not> rule_fits \<lparr>rule_allow = True, rule_pattern = ''/ab''\<rparr> ''/ac''"
    by (simp_all add: rule_fits_def n py_endswith_def fits_literal fits_nil)
  then show ?thesis
    using robots_longest_match [OF _ u t] n by (simp add: demo_snapshot_def)
qed

section \<open>The parser\<close>

definition group_ok :: "robots_group \<Rightarrow> bool" where
  "group_ok g \<longleftrightarrow> (\<forall>r\<in>set (group_rules g). rule_pattern r \<noteq> []) \<and> (\<forall>d\<in>set (group_delays g). 0 \<le> d \<and> d \<le> 86400)"

definition parser_ok :: "robots_parser \<Rightarrow> bool" where
  "parser_ok st \<longleftrightarrow> distinct (parser_sitemaps st) \<and> (\<forall>g\<in>set (parser_groups st). group_ok g)"

lemma on_current_ok: "parser_ok st \<Longrightarrow> (\<And>g. group_ok g \<Longrightarrow> group_ok (f g)) \<Longrightarrow> parser_ok (on_current f st)"
  by (auto simp: on_current_def parser_ok_def dest: in_set_butlastD)

lemma add_directive_ok: "add_directive d st = Some st' \<Longrightarrow> parser_ok st \<Longrightarrow> parser_ok st'"
proof -
  assume d: "add_directive d st = Some st'" and ok: "parser_ok st"
  have fresh: "parser_ok (st\<lparr>parser_groups := parser_groups st @ [\<lparr>group_agents = [], group_rules = [], group_delays = []\<rparr>]\<rparr>)"
    using ok by (simp add: parser_ok_def group_ok_def)
  have agent: "parser_ok (add_agent v st)" for v
    unfolding add_agent_def Let_def using ok fresh
    by (auto intro!: on_current_ok simp: group_ok_def split: if_splits)
  have delay: "parser_ok (add_delay v st)" for v
    unfolding add_delay_def using ok
    by (auto intro!: on_current_ok simp: group_ok_def split: option.splits)
  have group: "parser_ok (add_group_directive f v st)" for f v
    unfolding add_group_directive_def using ok delay
    by (auto intro!: on_current_ok simp: group_ok_def)
  have "add_sitemap v st = Some st' \<Longrightarrow> parser_ok st'" for v
    using ok by (auto simp: add_sitemap_def parser_ok_def split: option.splits if_splits)
  then show ?thesis using d agent group by (auto simp: add_directive_def split: prod.splits if_splits)
qed

lemma add_lines_ok: "add_lines ls st = Some st' \<Longrightarrow> parser_ok st \<Longrightarrow> parser_ok st'"
  by (induction ls arbitrary: st) (auto split: option.splits dest: add_directive_ok)

lemma selected_groups_subset: "set (selected_groups agent gs) \<subseteq> set gs"
  by (auto simp: selected_groups_def Let_def)

text \<open>
  Whatever bytes a site serves as its robots file, the parser yields no rule with an empty pattern, no
  sitemap twice, and a crawl delay of at most a day, and a file that parses is in state available.
\<close>

theorem robots_parse_bounds:
  assumes "parse_robots body origin agent now = Some s"
  shows "snap_state s = Available \<and> distinct (snap_sitemaps s) \<and> (\<forall>r\<in>set (snap_rules s). rule_pattern r \<noteq> []) \<and>
    (case snap_delay s of None \<Rightarrow> True | Some d \<Rightarrow> 0 \<le> d \<and> d \<le> 86400)"
proof -
  obtain st where st: "add_lines (py_splitlines body) \<lparr>parser_origin = origin, parser_groups = [], parser_sitemaps = []\<rparr> = Some st"
    using assms by (auto simp: parse_robots_def split: option.splits)
  have ok: "parser_ok st" by (rule add_lines_ok [OF st]) (simp add: parser_ok_def)
  let ?sel = "selected_groups agent (parser_groups st)" and ?d = "concat (map group_delays (selected_groups agent (parser_groups st)))"
  have sel: "group_ok g" if "g \<in> set ?sel" for g using that ok selected_groups_subset by (auto simp: parser_ok_def)
  have "0 \<le> Max (set ?d) \<and> Max (set ?d) \<le> 86400" if "?d \<noteq> []"
  proof -
    have "Max (set ?d) \<in> set ?d" using that by (intro Max_in) simp_all
    then show ?thesis using sel by (auto simp: group_ok_def)
  qed
  then show ?thesis using assms st ok sel by (auto simp: parse_robots_def Let_def parser_ok_def group_ok_def)
qed

definition demo_robots :: string where
  "demo_robots = ''User-agent: *'' @ [CHR 0x0A] @ ''Disallow: /x # no'' @ [CHR 0x0A] @ ''Allow:'' @ [CHR 0x0A]"

theorem robots_parse_bounds_witness:
  "\<exists>s. parse_robots demo_robots ''https://a.org'' ''bot'' 0 = Some s \<and> snap_state s = Available \<and>
     snap_rules s = [\<lparr>rule_allow = False, rule_pattern = ''/x''\<rparr>]"
proof -
  have "(case parse_robots demo_robots ''https://a.org'' ''bot'' 0 of None \<Rightarrow> False
      | Some s \<Rightarrow> snap_rules s = [\<lparr>rule_allow = False, rule_pattern = ''/x''\<rparr>])"
    by code_simp
  then obtain s where s: "parse_robots demo_robots ''https://a.org'' ''bot'' 0 = Some s"
    "snap_rules s = [\<lparr>rule_allow = False, rule_pattern = ''/x''\<rparr>]" by (auto split: option.splits)
  from robots_parse_bounds [OF s(1)] s show ?thesis by blast
qed

section \<open>The cache\<close>

datatype cache_op = Put robots_snapshot | Get string pyfloat

fun cache_step :: "pyfloat \<Rightarrow> robots_values \<Rightarrow> cache_op \<Rightarrow> robots_values" where
  "cache_step ttl vs (Put s) = robots_put s vs"
| "cache_step ttl vs (Get origin now) = snd (robots_get ttl origin now vs)"

lemma cache_run:
  "foldl (cache_step ttl) vs ops origin = Some s \<Longrightarrow>
     vs origin = Some s \<or> Put s \<in> set ops \<and> snap_origin s = origin"
proof (induction ops arbitrary: vs)
  case (Cons a ops)
  then show ?case
    by (cases a) (auto simp: robots_put_def robots_get_def split: if_splits option.splits dest!: Cons.IH)
qed simp

text \<open>
  C17. A snapshot the cache hands out was put there for that very origin and has not outlived its time: the
  configured one, and never more than a minute after an unreachable answer.
\<close>

theorem robots_cache_fresh:
  assumes "robots_get ttl origin now (foldl (cache_step ttl) Map.empty ops) = (Some s, vs)"
  shows "Put s \<in> set ops \<and> snap_origin s = origin \<and> now < fetched_at s + ttl \<and>
    (snap_state s = Unreachable \<longrightarrow> now < fetched_at s + 60)"
proof -
  let ?vs = "foldl (cache_step ttl) Map.empty ops"
  have s: "?vs origin = Some s" "now < fetched_at s + robots_ttl ttl s"
    using assms by (auto simp: robots_get_def split: option.splits if_splits)
  from cache_run [OF s(1)] have "Put s \<in> set ops \<and> snap_origin s = origin" by simp
  moreover have "robots_ttl ttl s \<le> ttl" "snap_state s = Unreachable \<Longrightarrow> robots_ttl ttl s \<le> 60"
    by (simp_all add: robots_ttl_def)
  ultimately show ?thesis using s(2) by auto
qed

theorem robots_cache_fresh_witness:
  "Put demo_snapshot \<in> set [Put demo_snapshot] \<and> snap_origin demo_snapshot = ''https://a.org''"
proof -
  have "robots_get 10 ''https://a.org'' 5 (foldl (cache_step 10) Map.empty [Put demo_snapshot]) =
      (Some demo_snapshot, [''https://a.org'' \<mapsto> demo_snapshot])"
    by (simp add: robots_get_def robots_put_def robots_ttl_def demo_snapshot_def)
  from robots_cache_fresh [OF this] show ?thesis by simp
qed

end
