(* ===== verification/Url_Safety.thy ===== *)
theory Url_Safety
  imports Url
begin

unbundle bit_operations_syntax

text \<open>
  \<open>orchestrator/url_safety.py\<close>: which URLs may be fetched.  The category checks of \<open>ipaddress\<close> are an
  argument (they read the IANA registries of the interpreter), and so is \<open>getaddrinfo\<close>.  The pool of
  workers of \<open>filter_safe_discovery_results_async\<close> is a step relation over the shared index and the
  array of verdicts.
\<close>

section \<open>Policy\<close>

datatype ip_category = Loopback | Link_Local | Private | Reserved | Multicast | Unspecified

definition category_names :: "(string \<times> ip_category) list" where
  "category_names = [(''loopback'', Loopback), (''link_local'', Link_Local), (''private'', Private),
     (''reserved'', Reserved), (''multicast'', Multicast), (''unspecified'', Unspecified)]"

record safety_policy =
  blocked_categories :: "ip_category list"
  blocked_special :: "ip list"
  nat64_networks :: "ip_network list"
  six_to_four_networks :: "ip_network list"
  ipv4_compat_networks :: "ip_network list"

text \<open>\<open>__post_init__\<close>: the categories must be known; the message lists the others in order.\<close>

definition make_safety_policy ::
  "string list \<Rightarrow> ip list \<Rightarrow> ip_network list \<Rightarrow> ip_network list \<Rightarrow> ip_network list \<Rightarrow> string + safety_policy" where
  "make_safety_policy names special nat64 six cmpt =
     (let invalid = filter (\<lambda>n. map_of category_names n = None) names
      in if invalid \<noteq> []
         then Inl (''URL_SAFETY_BLOCKED_IP_CATEGORIES contains unsupported categories: ''
                   @ join_on '', '' (sort (remdups invalid)))
         else Inr \<lparr>blocked_categories = List.map_filter (map_of category_names) names, blocked_special = special,
                nat64_networks = nat64, six_to_four_networks = six, ipv4_compat_networks = cmpt\<rparr>)"

section \<open>IP literals\<close>

definition parse_ipv4_component :: "string \<Rightarrow> int option" where
  "parse_ipv4_component part =
     (let l = py_lower part in
      if py_startswith l ''0x'' then py_int 16 l
      else if 1 < length l \<and> py_startswith l ''0'' then py_int 8 l
      else py_int 10 l)"

definition ipv4_from_int :: "int \<Rightarrow> nat \<Rightarrow> ip option" where
  "ipv4_from_int v bits = (if v < 0 \<or> v \<ge> 2 ^ bits then None else Some (IPv4 (of_int v)))"

text \<open>
  The outer \<open>None\<close> is the \<open>AddressValueError\<close> of \<open>IPv4Address\<close> on a negative total, which a signed
  component leads to; the inner one is the answer that the text is no literal.
\<close>

definition parse_legacy_ipv4_literal :: "string \<Rightarrow> ip option option" where
  "parse_legacy_ipv4_literal host =
     (let parts = split_on (CHR ''.'') host in
      if length parts > 4 \<or> list_ex (\<lambda>p. p = []) parts then Some None
      else if list_ex (\<lambda>p. parse_ipv4_component p = None) parts then Some None
      else
        (let vs = map (\<lambda>p. the (parse_ipv4_component p)) parts in
         if length vs = 1 then Some (ipv4_from_int (hd vs) 32)
         else if list_ex (\<lambda>v. v > 255) (butlast vs) then Some None
         else
           (let bits = 8 * (5 - length vs) in
            if ipv4_from_int (last vs) bits = None then Some None
            else
              (let total = push_bit bits (foldl (\<lambda>t v. push_bit 8 t OR v) 0 (butlast vs)) OR last vs
               in if total < 0 \<or> total \<ge> 2 ^ 32 then None else Some (Some (IPv4 (of_int total)))))))"

definition parse_ip_literal :: "string \<Rightarrow> ip option option" where
  "parse_ip_literal host =
     (let n = rstrip_char (CHR ''.'') host
      in case ip_address n of Some a \<Rightarrow> Some (Some a) | None \<Rightarrow> parse_legacy_ipv4_literal n)"

section \<open>Addresses\<close>

definition expand_ip_candidates :: "ip \<Rightarrow> safety_policy \<Rightarrow> ip list" where
  "expand_ip_candidates a pol =
     a # (case a of
            IPv4 _ \<Rightarrow> []
          | IPv6 w _ \<Rightarrow>
              (case ipv4_mapped a of
                 Some v \<Rightarrow> [IPv4 v]
               | None \<Rightarrow>
                   if list_ex (in_network a) (nat64_networks pol @ ipv4_compat_networks pol)
                   then [IPv4 (ucast (w AND 0xFFFFFFFF))]
                   else if list_ex (in_network a) (six_to_four_networks pol)
                   then [IPv4 (ucast (drop_bit 80 w AND 0xFFFFFFFF))]
                   else []))"

definition is_safe_ip_candidate :: "(ip_category \<Rightarrow> ip \<Rightarrow> bool) \<Rightarrow> safety_policy \<Rightarrow> ip \<Rightarrow> bool" where
  "is_safe_ip_candidate cat pol a \<longleftrightarrow>
     a \<notin> set (blocked_special pol) \<and> \<not> list_ex (\<lambda>c. cat c a) (blocked_categories pol)"

definition is_safe_ip :: "(ip_category \<Rightarrow> ip \<Rightarrow> bool) \<Rightarrow> safety_policy \<Rightarrow> ip \<Rightarrow> bool" where
  "is_safe_ip cat pol a = list_all (is_safe_ip_candidate cat pol) (expand_ip_candidates a pol)"

section \<open>URLs\<close>

text \<open>
  What \<open>getaddrinfo\<close> answers: for each entry whether its family is INET or INET6, and its address text;
  \<open>None\<close> when it raises.
\<close>

type_synonym resolver = "string \<Rightarrow> (bool \<times> string) list option"

fun all_addresses :: "string list \<Rightarrow> ip list option" where
  "all_addresses [] = Some []"
| "all_addresses (s # ss) =
     (case ip_address s of None \<Rightarrow> None | Some a \<Rightarrow> map_option (Cons a) (all_addresses ss))"

definition resolve_host_ips :: "resolver \<Rightarrow> string \<Rightarrow> ip list option" where
  "resolve_host_ips look host =
     (case look host of
        None \<Rightarrow> None
      | Some infos \<Rightarrow> all_addresses (map snd (filter fst infos)))"

text \<open>\<open>None\<close> is an exception, which only \<open>parse_ip_literal\<close> lets through.\<close>

definition is_safe_crawl_url ::
  "(ip_category \<Rightarrow> ip \<Rightarrow> bool) \<Rightarrow> resolver \<Rightarrow> safety_policy \<Rightarrow> string \<Rightarrow> bool option" where
  "is_safe_crawl_url cat look pol url =
     (case urlsplit url of
        None \<Rightarrow> Some False
      | Some u \<Rightarrow>
          if url_scheme u \<noteq> ''http'' \<and> url_scheme u \<noteq> ''https'' then Some False
          else case hostname u of
            None \<Rightarrow> Some False
          | Some host \<Rightarrow>
              (case parse_ip_literal host of
                 None \<Rightarrow> None
               | Some (Some a) \<Rightarrow> Some (is_safe_ip cat pol a)
               | Some None \<Rightarrow>
                   (case resolve_host_ips look host of
                      None \<Rightarrow> Some False
                    | Some ips \<Rightarrow> Some (ips \<noteq> [] \<and> list_all (is_safe_ip cat pol) ips))))"

definition is_safe_crawl_url_async ::
  "(ip_category \<Rightarrow> ip \<Rightarrow> bool) \<Rightarrow> resolver \<Rightarrow> safety_policy \<Rightarrow> string \<Rightarrow> bool" where
  "is_safe_crawl_url_async cat look pol url = (is_safe_crawl_url cat look pol url = Some True)"

text \<open>The synchronous filter over results, of which only the URL is read; an exception leaves it.\<close>

fun filter_safe_discovery_results :: "('r \<Rightarrow> bool option) \<Rightarrow> 'r list \<Rightarrow> 'r list option" where
  "filter_safe_discovery_results safe [] = Some []"
| "filter_safe_discovery_results safe (r # rs) =
     (case safe r of
        None \<Rightarrow> None
      | Some b \<Rightarrow> map_option (\<lambda>ys. if b then r # ys else ys) (filter_safe_discovery_results safe rs))"

section \<open>The pool of workers\<close>

definition max_url_safety_concurrency :: nat where
  "max_url_safety_concurrency = 20"

datatype pool_worker = Idle | Busy nat | Finished

record pool =
  next_index :: nat
  verdicts :: "bool list"
  workers :: "pool_worker list"

definition pool_start :: "'r list \<Rightarrow> int \<Rightarrow> pool" where
  "pool_start candidates max_concurrency =
     \<lparr>next_index = 0, verdicts = replicate (length candidates) False,
      workers = replicate (min (min (length candidates) (nat max_concurrency)) max_url_safety_concurrency) Idle\<rparr>"

text \<open>
  The worker between two suspensions: it looks at the index and takes a candidate or ends, and later
  writes the verdict of the candidate it took.
\<close>

inductive pool_step :: "('r \<Rightarrow> bool) \<Rightarrow> 'r list \<Rightarrow> pool \<Rightarrow> pool \<Rightarrow> bool" for safe candidates where
  pool_take: "w < length (workers p) \<Longrightarrow> workers p ! w = Idle \<Longrightarrow> next_index p < length candidates \<Longrightarrow>
    pool_step safe candidates p
      (p\<lparr>next_index := Suc (next_index p), workers := (workers p)[w := Busy (next_index p)]\<rparr>)"
| pool_write: "w < length (workers p) \<Longrightarrow> workers p ! w = Busy i \<Longrightarrow>
    pool_step safe candidates p
      (p\<lparr>verdicts := (verdicts p)[i := safe (candidates ! i)], workers := (workers p)[w := Idle]\<rparr>)"
| pool_end: "w < length (workers p) \<Longrightarrow> workers p ! w = Idle \<Longrightarrow> length candidates \<le> next_index p \<Longrightarrow>
    pool_step safe candidates p (p\<lparr>workers := (workers p)[w := Finished]\<rparr>)"

text \<open>What \<open>gather\<close> waits for, and the list returned after it.\<close>

definition pool_done :: "pool \<Rightarrow> bool" where
  "pool_done p \<longleftrightarrow> list_all (\<lambda>w. w = Finished) (workers p)"

definition pool_result :: "'r list \<Rightarrow> pool \<Rightarrow> 'r list" where
  "pool_result candidates p = map fst (filter snd (zip candidates (verdicts p)))"

text \<open>
  \<open>filter_safe_discovery_results_async\<close> as a relation: the empty list without candidates or concurrency,
  otherwise the result of some run of the pool to its end.
\<close>

definition filter_async :: "('r \<Rightarrow> bool) \<Rightarrow> 'r list \<Rightarrow> int \<Rightarrow> 'r list \<Rightarrow> bool" where
  "filter_async safe candidates max_concurrency res \<longleftrightarrow>
     (if candidates = [] \<or> max_concurrency < 1 then res = []
      else \<exists>p. (pool_step safe candidates)\<^sup>*\<^sup>* (pool_start candidates max_concurrency) p \<and> pool_done p \<and>
             res = pool_result candidates p)"

end
