(* ===== verification/Ssrf_Proxy.thy ===== *)
theory Ssrf_Proxy
  imports Url_Safety
begin

unbundle bit_operations_syntax

text \<open>
  \<open>ssrf-proxy/proxy.py\<close>: the egress proxy of the browser.  A client's bytes arrive in chunks; the proxy reads
  the head, decides where the request may go, and either rejects it, gives up, or connects to the address
  it checked and relays.  The file repeats the address code of \<open>url_safety.py\<close> with differences of its
  own; both are modelled, and \<open>Egress_Guarantees\<close> compares them.  Arguments are the category checks, \<open>getaddrinfo\<close> (its
  answer, or which kind of exception it raises), the idna codec and the text of an IPv6 address.
\<close>

section \<open>Settings\<close>

record proxy_settings =
  listen_port :: int
  max_header_bytes :: int
  read_chunk_bytes :: int
  relay_chunk_bytes :: int
  proxy_blocked_categories :: "ip_category list"
  proxy_blocked_special :: "ip list"
  proxy_nat64 :: "ip_network list"
  proxy_six_to_four :: "ip_network list"
  proxy_ipv4_compat :: "ip_network list"

text \<open>\<open>__post_init__\<close> after the categories have been read by name.\<close>

definition check_proxy_settings :: "string list \<Rightarrow> proxy_settings \<Rightarrow> string option" where
  "check_proxy_settings names s =
     (let invalid = filter (\<lambda>n. map_of category_names n = None) names in
      if invalid \<noteq> [] then Some (''PROXY_BLOCKED_IP_CATEGORIES contains unsupported categories: ''
          @ join_on '', '' (sort (remdups invalid)))
      else if \<not> (1 \<le> listen_port s \<and> listen_port s \<le> 65535) then Some ''PROXY_PORT must be between 1 and 65535''
      else if max_header_bytes s < 1 then Some ''PROXY_MAX_HEADER_BYTES must be >= 1''
      else if read_chunk_bytes s < 1 then Some ''PROXY_READ_CHUNK_BYTES must be >= 1''
      else if relay_chunk_bytes s < 1 then Some ''PROXY_RELAY_CHUNK_BYTES must be >= 1''
      else None)"

section \<open>Addresses\<close>

text \<open>\<open>host.strip("[]")\<close>.\<close>

definition strip_brackets :: "string \<Rightarrow> string" where
  "strip_brackets s =
     (let b = (\<lambda>c. c = CHR ''['' \<or> c = CHR '']'') in rev (dropWhile b (rev (dropWhile b s))))"

definition proxy_ipv4_component :: "string \<Rightarrow> int option" where
  "proxy_ipv4_component part =
     (let l = py_lower part in
      if py_startswith l ''0x'' then py_int 16 l
      else if 1 < length l \<and> py_startswith l ''0'' then py_int 8 l
      else py_int 10 l)"

definition proxy_ipv4_from_int :: "int \<Rightarrow> nat \<Rightarrow> ip option" where
  "proxy_ipv4_from_int v bits = (if v < 0 \<or> v \<ge> 2 ^ bits then None else Some (IPv4 (of_int v)))"

definition proxy_legacy_ipv4_literal :: "string \<Rightarrow> ip option option" where
  "proxy_legacy_ipv4_literal host =
     (let parts = split_on (CHR ''.'') host in
      if length parts > 4 \<or> list_ex (\<lambda>p. p = []) parts then Some None
      else if list_ex (\<lambda>p. proxy_ipv4_component p = None) parts then Some None
      else
        (let vs = map (\<lambda>p. the (proxy_ipv4_component p)) parts in
         if length vs = 1 then Some (proxy_ipv4_from_int (hd vs) 32)
         else if list_ex (\<lambda>v. v > 255) (butlast vs) then Some None
         else
           (let bits = 8 * (5 - length vs) in
            if proxy_ipv4_from_int (last vs) bits = None then Some None
            else
              (let total = push_bit bits (foldl (\<lambda>t v. push_bit 8 t OR v) 0 (butlast vs)) OR last vs
               in if total < 0 \<or> total \<ge> 2 ^ 32 then None else Some (Some (IPv4 (of_int total)))))))"

definition proxy_ip_literal :: "string \<Rightarrow> ip option option" where
  "proxy_ip_literal host =
     (let n = rstrip_char (CHR ''.'') (strip_brackets host)
      in case ip_address n of Some a \<Rightarrow> Some (Some a) | None \<Rightarrow> proxy_legacy_ipv4_literal n)"

definition expanded_ip_candidates :: "ip \<Rightarrow> proxy_settings \<Rightarrow> ip list" where
  "expanded_ip_candidates a s =
     a # (case a of
            IPv4 _ \<Rightarrow> []
          | IPv6 w _ \<Rightarrow>
              (case ipv4_mapped a of
                 Some v \<Rightarrow> [IPv4 v]
               | None \<Rightarrow>
                   if list_ex (in_network a) (proxy_nat64 s @ proxy_ipv4_compat s)
                   then [IPv4 (ucast (w AND 0xFFFFFFFF))]
                   else if list_ex (in_network a) (proxy_six_to_four s)
                   then [IPv4 (ucast (drop_bit 80 w AND 0xFFFFFFFF))]
                   else []))"

fun no_candidate_blocked :: "(ip_category \<Rightarrow> ip \<Rightarrow> bool) \<Rightarrow> proxy_settings \<Rightarrow> ip list \<Rightarrow> bool" where
  "no_candidate_blocked cat s [] = True"
| "no_candidate_blocked cat s (c # cs) =
     (if c \<in> set (proxy_blocked_special s) then False
      else if list_ex (\<lambda>k. cat k c) (proxy_blocked_categories s) then False
      else no_candidate_blocked cat s cs)"

definition proxy_is_safe_ip :: "(ip_category \<Rightarrow> ip \<Rightarrow> bool) \<Rightarrow> proxy_settings \<Rightarrow> ip \<Rightarrow> bool" where
  "proxy_is_safe_ip cat s a = no_candidate_blocked cat s (expanded_ip_candidates a s)"

section \<open>Names\<close>

text \<open>Exceptions that end the handling of a client, and the \<open>OSError\<close> of a failed look-up.\<close>

datatype 'a looked_up = Addresses 'a | Os_Error | Other_Error

type_synonym proxy_resolver = "string \<Rightarrow> int \<Rightarrow> (bool \<times> string) list looked_up"

text \<open>The outer \<open>None\<close> is an exception of the literal parser.\<close>

definition normalize_hostname ::
  "(string \<Rightarrow> string option) \<Rightarrow> (128 word \<Rightarrow> string) \<Rightarrow> string \<Rightarrow> string option option" where
  "normalize_hostname idna v6 host =
     (let stripped = rstrip_char (CHR ''.'') (strip_brackets host) in
      if stripped = [] then Some None
      else case proxy_ip_literal stripped of
        None \<Rightarrow> None
      | Some (Some a) \<Rightarrow> Some (Some (ip_text v6 a))
      | Some None \<Rightarrow> Some (idna stripped))"

definition resolve_target_ips :: "proxy_resolver \<Rightarrow> string \<Rightarrow> int \<Rightarrow> ip list looked_up" where
  "resolve_target_ips look host port =
     (case look host port of
        Addresses infos \<Rightarrow>
          (case all_addresses (map snd (filter fst infos)) of
             Some ips \<Rightarrow> Addresses ips
           | None \<Rightarrow> Other_Error)
      | Os_Error \<Rightarrow> Os_Error
      | Other_Error \<Rightarrow> Other_Error)"

record proxy_env =
  env_category :: "ip_category \<Rightarrow> ip \<Rightarrow> bool"
  env_look :: proxy_resolver
  env_idna :: "string \<Rightarrow> string option"
  env_v6 :: "128 word \<Rightarrow> string"

text \<open>\<open>safe_connect_ip\<close>: the text of the address to connect to, or \<open>None\<close>; the outer \<open>None\<close> is an exception.\<close>

definition safe_connect_ip :: "proxy_env \<Rightarrow> proxy_settings \<Rightarrow> string \<Rightarrow> int \<Rightarrow> string option option" where
  "safe_connect_ip env s host port =
     (case normalize_hostname (env_idna env) (env_v6 env) host of
        None \<Rightarrow> None
      | Some None \<Rightarrow> Some None
      | Some (Some name) \<Rightarrow>
          (case proxy_ip_literal name of
             None \<Rightarrow> None
           | Some (Some a) \<Rightarrow>
               Some (if proxy_is_safe_ip (env_category env) s a then Some (ip_text (env_v6 env) a) else None)
           | Some None \<Rightarrow>
               (case resolve_target_ips (env_look env) name port of
                  Os_Error \<Rightarrow> Some None
                | Other_Error \<Rightarrow> None
                | Addresses ips \<Rightarrow>
                    if ips = [] \<or> list_ex (\<lambda>a. \<not> proxy_is_safe_ip (env_category env) s a) ips then Some None
                    else Some (Some (ip_text (env_v6 env) (hd ips))))))"

section \<open>The request head\<close>

definition crlf :: string where "crlf = [CHR 0x0D, CHR 0x0A]"

text \<open>\<open>data.partition(sep)\<close> and \<open>data.split(sep)\<close> for a non-empty separator of several characters.\<close>

definition partition_at :: "string \<Rightarrow> string \<Rightarrow> string \<times> string" where
  "partition_at sep s =
     (case py_find s sep 0 of None \<Rightarrow> (s, []) | Some i \<Rightarrow> (take i s, drop (i + length sep) s))"

fun split_crlf :: "string \<Rightarrow> string list" where
  "split_crlf [] = [[]]"
| "split_crlf (c # s) =
     (if c = CHR 0x0D \<and> take 1 s = [CHR 0x0A] then [] # split_crlf (drop 1 s)
      else case split_crlf s of l # ls \<Rightarrow> (c # l) # ls | [] \<Rightarrow> [[c]])"

text \<open>
  \<open>read_headers\<close>: the chunks that \<open>read\<close> returns, in order, each not empty; their end is the end of
  the stream.  \<open>None\<close> is the \<open>ValueError\<close> on a head that is too large.
\<close>

fun read_headers :: "proxy_settings \<Rightarrow> string list \<Rightarrow> string \<Rightarrow> string option" where
  "read_headers s [] buf = Some buf"
| "read_headers s (chunk # chunks) buf =
     (if py_contains (crlf @ crlf) buf then Some buf
      else if int (length (buf @ chunk)) > max_header_bytes s then None
      else read_headers s chunks (buf @ chunk))"

type_synonym headers = "string \<rightharpoonup> string"

definition add_header :: "headers \<Rightarrow> string \<Rightarrow> headers" where
  "add_header hs line =
     (if CHR '':'' \<in> set line
      then hs(py_lower (py_strip (before_char (CHR '':'') line)) \<mapsto> py_strip (after_char (CHR '':'') line))
      else hs)"

record request_head =
  req_method :: string
  req_target :: string
  req_version :: string
  req_headers :: headers
  req_rest :: string

text \<open>\<open>lines[0].split(" ", 2)\<close> must give three parts.\<close>

definition parse_headers :: "string \<Rightarrow> request_head option" where
  "parse_headers bytes =
     (let (head, rest) = partition_at (crlf @ crlf) bytes;
          lines = split_crlf head;
          (method, sp1, tail1) = partition_on (CHR '' '') (hd lines);
          (target, sp2, version) = partition_on (CHR '' '') tail1
      in if sp1 \<and> sp2 then
           Some \<lparr>req_method = method, req_target = target, req_version = version,
             req_headers = foldl add_header Map.empty (tl lines), req_rest = rest\<rparr>
         else None)"

definition parse_connect_target :: "string \<Rightarrow> (string \<times> int) option" where
  "parse_connect_target target =
     (let (host, has_colon, raw) = rpartition_on (CHR '':'') target
      in if \<not> has_colon then None
         else case py_int 10 raw of None \<Rightarrow> None | Some port \<Rightarrow> Some (strip_brackets host, port))"

text \<open>The outer \<open>None\<close> is a \<open>ValueError\<close>.\<close>

definition parse_http_target :: "string \<Rightarrow> headers \<Rightarrow> (string \<times> int \<times> string) option option" where
  "parse_http_target target hs =
     (case urlsplit target of
        None \<Rightarrow> None
      | Some u \<Rightarrow>
          if url_scheme u \<noteq> [] \<and> url_scheme u \<noteq> ''http'' then Some None
          else case hostname u of
            Some host \<Rightarrow>
              (case url_port u of
                 None \<Rightarrow> None
               | Some p \<Rightarrow>
                   Some (Some (host, (case p of Some n \<Rightarrow> if n = 0 then 80 else int n | None \<Rightarrow> 80),
                     (if url_path u = [] then ''/'' else url_path u)
                     @ (if query u = [] then [] else ''?'' @ query u))))
          | None \<Rightarrow>
              (case hs ''host'' of
                 None \<Rightarrow> Some None
               | Some value \<Rightarrow>
                   if value = [] then Some None
                   else (let (host, _, raw) = partition_on (CHR '':'') value;
                             pth = (if py_startswith target ''/'' then target else ''/'' @ target)
                         in if raw = [] then Some (Some (host, 80, pth))
                            else case py_int 10 raw of
                              None \<Rightarrow> None
                            | Some port \<Rightarrow> Some (Some (host, port, pth)))))"

section \<open>Handling a client\<close>

text \<open>
  What the proxy does with a client: answer with a status line, close the connection, or open a
  connection to an address and a port, send \<open>first\<close> there, and relay.
\<close>

datatype proxy_action = Reject string | Close | Tunnel string int string

definition forwarded_head :: "request_head \<Rightarrow> string \<Rightarrow> string \<Rightarrow> string" where
  "forwarded_head r pth bytes =
     req_method r @ '' '' @ pth @ '' '' @ req_version r @ crlf
     @ concat (map (\<lambda>l. l @ crlf)
         (filter (\<lambda>l. \<not> py_startswith (py_lower l) ''proxy-connection:'')
            (tl (split_crlf (fst (partition_at (crlf @ crlf) bytes))))))
     @ crlf @ req_rest r"

definition handle_client :: "proxy_env \<Rightarrow> proxy_settings \<Rightarrow> string list \<Rightarrow> proxy_action" where
  "handle_client env s chunks =
     (case read_headers s chunks [] of
        None \<Rightarrow> Close
      | Some bytes \<Rightarrow>
          (case parse_headers bytes of
             None \<Rightarrow> Close
           | Some r \<Rightarrow>
               if py_upper (req_method r) = ''CONNECT'' then
                 (case parse_connect_target (req_target r) of
                    None \<Rightarrow> Reject ''400 Bad Request''
                  | Some (host, port) \<Rightarrow>
                      (case safe_connect_ip env s host port of
                         None \<Rightarrow> Close
                       | Some None \<Rightarrow> Reject ''403 Forbidden''
                       | Some (Some addr) \<Rightarrow> Tunnel addr port []))
               else
                 (case parse_http_target (req_target r) (req_headers r) of
                    None \<Rightarrow> Close
                  | Some None \<Rightarrow> Reject ''400 Bad Request''
                  | Some (Some (host, port, pth)) \<Rightarrow>
                      (case safe_connect_ip env s host port of
                         None \<Rightarrow> Close
                       | Some None \<Rightarrow> Reject ''403 Forbidden''
                       | Some (Some addr) \<Rightarrow> Tunnel addr port (forwarded_head r pth bytes)))))"

end
