(* ===== verification/Egress_Guarantees.thy ===== *)
theory Egress_Guarantees
  imports Ssrf_Proxy
begin

unbundle bit_operations_syntax

text \<open>
  What the two egress checks guarantee: the worker pool computes the plain filter whatever the
  interleaving; no spelling of an IPv4 address and no IPv6 address that embeds it gets around a block;
  the URL check and the proxy decide alike; and the proxy connects to checked addresses only.
\<close>

section \<open>The pool\<close>

inductive_cases pool_stepE: "pool_step safe cs p p'"

definition pool_ok :: "('r \<Rightarrow> bool) \<Rightarrow> 'r list \<Rightarrow> pool \<Rightarrow> bool" where
  "pool_ok safe cs p \<longleftrightarrow>
     length (verdicts p) = length cs \<and> next_index p \<le> length cs \<and>
     (\<forall>i<next_index p. verdicts p ! i = safe (cs ! i) \<or> Busy i \<in> set (workers p)) \<and>
     (\<forall>i. Busy i \<in> set (workers p) \<longrightarrow> i < next_index p) \<and>
     (Finished \<in> set (workers p) \<longrightarrow> next_index p = length cs)"

lemma pool_start_ok: "pool_ok safe cs (pool_start cs n)"
  by (auto simp: pool_ok_def pool_start_def)

lemma Busy_after:
  assumes "Busy i \<in> set ws" and "ws ! w \<noteq> Busy i" and "w < length ws"
  shows "Busy i \<in> set (ws[w := x])"
  using assms by (metis in_set_conv_nth length_list_update nth_list_update_neq)

lemma pool_step_ok: "pool_step safe cs p p' \<Longrightarrow> pool_ok safe cs p \<Longrightarrow> pool_ok safe cs p'"
proof (erule pool_stepE)
  fix w assume ok: "pool_ok safe cs p" and p': "p' = p\<lparr>next_index := Suc (next_index p), workers := (workers p)[w := Busy (next_index p)]\<rparr>"
    and w: "w < length (workers p)" "workers p ! w = Idle" "next_index p < length cs"
  have "Busy i \<in> set ((workers p)[w := Busy (next_index p)])" if "Busy i \<in> set (workers p)" for i
    using Busy_after [OF that _ w(1)] w(2) by simp
  moreover have "Busy (next_index p) \<in> set ((workers p)[w := Busy (next_index p)])"
    using w(1) by (simp add: set_update_memI)
  moreover have "Finished \<notin> set (workers p)" using ok w(3) by (auto simp: pool_ok_def)
  ultimately show ?thesis using ok w unfolding p' pool_ok_def
    by (auto simp: less_Suc_eq dest!: set_update_subset_insert [THEN subsetD])
next
  fix w i assume ok: "pool_ok safe cs p" and p': "p' = p\<lparr>verdicts := (verdicts p)[i := safe (cs ! i)], workers := (workers p)[w := Idle]\<rparr>"
    and w: "w < length (workers p)" "workers p ! w = Busy i"
  have i: "i < next_index p" using ok w nth_mem [OF w(1)] by (auto simp: pool_ok_def)
  have "Busy j \<in> set ((workers p)[w := Idle])" if "Busy j \<in> set (workers p)" "j \<noteq> i" for j
    using Busy_after [OF that(1) _ w(1)] w(2) that(2) by simp
  then show ?thesis using ok w i unfolding p' pool_ok_def
    by (auto simp: nth_list_update dest!: set_update_subset_insert [THEN subsetD])
next
  fix w assume ok: "pool_ok safe cs p" and p': "p' = p\<lparr>workers := (workers p)[w := Finished]\<rparr>"
    and w: "w < length (workers p)" "workers p ! w = Idle" "length cs \<le> next_index p"
  have "Busy i \<in> set ((workers p)[w := Finished])" if "Busy i \<in> set (workers p)" for i
    using Busy_after [OF that _ w(1)] w(2) by simp
  then show ?thesis using ok w unfolding p' pool_ok_def
    by (auto dest!: set_update_subset_insert [THEN subsetD])
qed

lemma pool_steps_ok: "(pool_step safe cs)\<^sup>*\<^sup>* p p' \<Longrightarrow> pool_ok safe cs p \<Longrightarrow> pool_ok safe cs p' \<and> length (workers p') = length (workers p)"
proof (induction rule: rtranclp_induct)
  case (step q r)
  then have "pool_ok safe cs r" using pool_step_ok by blast
  moreover have "length (workers r) = length (workers q)" using step.hyps(2) by (auto elim: pool_stepE)
  ultimately show ?case using step by simp
qed simp

lemma filter_snd_zip: "length vs = length cs \<Longrightarrow> (\<forall>i<length cs. vs ! i = f (cs ! i)) \<Longrightarrow> map fst (filter snd (zip cs vs)) = filter f cs"
proof (induction cs arbitrary: vs)
  case (Cons c cs)
  then obtain v vs' where vs: "vs = v # vs'" by (cases vs) auto
  have "v = f c" using Cons.prems(2) by (auto simp: vs)
  moreover have "\<forall>i<length cs. vs' ! i = f (cs ! i)" using Cons.prems(2) by (auto simp: vs)
  ultimately show ?case using Cons by (simp add: vs)
qed simp

lemma pool_done_result:
  assumes "pool_ok safe cs p" and "pool_done p" and "workers p \<noteq> []"
  shows "pool_result cs p = filter safe cs"
proof -
  have fin: "set (workers p) \<subseteq> {Finished}" using assms(2) by (auto simp: pool_done_def list_all_iff)
  then have "Finished \<in> set (workers p)" using assms(3) by (cases "workers p") auto
  then have "next_index p = length cs" using assms(1) by (simp add: pool_ok_def)
  then have "\<forall>i<length cs. verdicts p ! i = safe (cs ! i)" using assms(1) fin by (auto simp: pool_ok_def)
  then show ?thesis using assms(1) by (simp add: pool_result_def pool_ok_def filter_snd_zip)
qed

text \<open>A pool that is not done can step, and every step brings its end closer.\<close>

fun worker_work :: "pool_worker \<Rightarrow> nat" where
  "worker_work Idle = 1"
| "worker_work (Busy i) = 2"
| "worker_work Finished = 0"

definition pool_work :: "'r list \<Rightarrow> pool \<Rightarrow> nat" where
  "pool_work cs p = 3 * (length cs - next_index p) + sum_list (map worker_work (workers p))"

lemma pool_progress:
  assumes "\<not> pool_done p" shows "\<exists>p'. pool_step safe cs p p'"
proof -
  obtain w where w: "w < length (workers p)" "workers p ! w \<noteq> Finished"
    using assms by (auto simp: pool_done_def list_all_length)
  show ?thesis
  proof (cases "workers p ! w")
    case Idle
    then show ?thesis
      using pool_take [OF w(1) Idle] pool_end [OF w(1) Idle] not_le by (cases "next_index p < length cs") blast+
  next
    case (Busy i)
    then show ?thesis using pool_write [OF w(1)] by blast
  next
    case Finished
    then show ?thesis using w(2) by simp
  qed
qed

lemma pool_work_less: "pool_step safe cs p p' \<Longrightarrow> pool_work cs p' < pool_work cs p"
proof -
  have upd: "sum_list (map worker_work (ws[w := x])) + worker_work (ws ! w) = sum_list (map worker_work ws) + worker_work x"
    if "w < length ws" for ws w x
    using that by (induction ws arbitrary: w) (auto simp: nth_Cons split: nat.split)
  show "pool_step safe cs p p' \<Longrightarrow> pool_work cs p' < pool_work cs p"
  proof (erule pool_stepE)
    fix w assume "p' = p\<lparr>next_index := Suc (next_index p), workers := (workers p)[w := Busy (next_index p)]\<rparr>"
      "w < length (workers p)" "workers p ! w = Idle" "next_index p < length cs"
    then show ?thesis using upd [of w "workers p" "Busy (next_index p)"] unfolding pool_work_def by auto
  next
    fix w i assume "p' = p\<lparr>verdicts := (verdicts p)[i := safe (cs ! i)], workers := (workers p)[w := Idle]\<rparr>"
      "w < length (workers p)" "workers p ! w = Busy i"
    then show ?thesis using upd [of w "workers p" Idle] unfolding pool_work_def by auto
  next
    fix w assume "p' = p\<lparr>workers := (workers p)[w := Finished]\<rparr>" "w < length (workers p)" "workers p ! w = Idle"
    then show ?thesis using upd [of w "workers p" Finished] unfolding pool_work_def by auto
  qed
qed

lemma pool_ends: "\<exists>p'. (pool_step safe cs)\<^sup>*\<^sup>* p p' \<and> pool_done p'"
proof (induction "pool_work cs p" arbitrary: p rule: less_induct)
  case less
  show ?case
  proof (cases "pool_done p")
    case False
    then obtain q where q: "pool_step safe cs p q" using pool_progress by blast
    then obtain r where "(pool_step safe cs)\<^sup>*\<^sup>* q r" "pool_done r" using less [OF pool_work_less [OF q]] by blast
    then show ?thesis using q by (meson converse_rtranclp_into_rtranclp)
  qed blast
qed

text \<open>
  C18. However its workers interleave, the asynchronous filter ends, and what it returns is the plain
  filter of the candidates in their order; with a concurrency below one it is empty.
\<close>

theorem pool_is_filter:
  "filter_async safe cs max_concurrency res \<longleftrightarrow> res = (if max_concurrency < 1 then [] else filter safe cs)"
proof (cases "cs = [] \<or> max_concurrency < 1")
  case True
  then show ?thesis by (auto simp: filter_async_def)
next
  case False
  let ?p = "pool_start cs max_concurrency"
  have ne: "workers ?p \<noteq> []" using False by (simp add: pool_start_def max_url_safety_concurrency_def)
  have run: "pool_result cs p = filter safe cs" if "(pool_step safe cs)\<^sup>*\<^sup>* ?p p" "pool_done p" for p
    using pool_steps_ok [OF that(1) pool_start_ok] ne that(2) by (intro pool_done_result) auto
  obtain p where "(pool_step safe cs)\<^sup>*\<^sup>* ?p p" "pool_done p" using pool_ends by blast
  then show ?thesis using run False unfolding filter_async_def by auto
qed

section \<open>Spellings of an IPv4 address\<close>

text \<open>A number in a base up to 16.\<close>

fun base_text :: "nat \<Rightarrow> nat \<Rightarrow> string" where
  "base_text b n = (if n < b \<or> b < 2 then [hex_digit n] else base_text b (n div b) @ [hex_digit (n mod b)])"

declare base_text.simps [simp del]

lemma hex_digits_values: "list_all (\<lambda>d. hex_digit d \<noteq> CHR ''_'' \<and> \<not> py_isspace (hex_digit d) \<and> hex_digit d \<notin> set ''.:+-%/xo[]'' \<and>
    lower_char (hex_digit d) = hex_digit d \<and> digit_in 16 (hex_digit d) = Some d) [0..<16]"
  by code_simp

lemma hex_digit_facts:
  assumes "d < 16"
  shows "hex_digit d \<noteq> CHR ''_''" "\<not> py_isspace (hex_digit d)" "hex_digit d \<notin> set ''.:+-%/xo[]''"
    "lower_char (hex_digit d) = hex_digit d" "digit_in 16 (hex_digit d) = Some d"
  using hex_digits_values assms by (simp_all add: list_all_iff del: set_simps)

lemma digit_in_base: "d < b \<Longrightarrow> b \<le> 16 \<Longrightarrow> digit_in b (hex_digit d) = Some d"
proof -
  assume "d < b" and "b \<le> 16"
  then have "digit_in 16 (hex_digit d) = Some d" by (simp add: hex_digit_facts)
  then show ?thesis using \<open>d < b\<close> unfolding digit_in_def Let_def by (auto split: option.splits if_splits)
qed

lemma digits_value_append:
  assumes "\<forall>c\<in>set s. c \<noteq> CHR ''_''" and "digits_value b n a s = Some m"
  shows "digits_value b n a (s @ t) = digits_value b m True t"
  using assms
proof (induction s arbitrary: n a)
  case Nil
  then show ?case by (simp split: if_splits)
next
  case (Cons c s)
  then show ?case by (cases "digit_in b c") simp_all
qed

lemma base_text_chars: "2 \<le> b \<Longrightarrow> b \<le> 16 \<Longrightarrow> c \<in> set (base_text b n) \<Longrightarrow> \<exists>d<b. c = hex_digit d"
proof (induction b n rule: base_text.induct)
  case (1 b n)
  show ?case
  proof (cases "n < b")
    case True
    then show ?thesis using 1(4) by (auto simp: base_text.simps [of b n])
  next
    case False
    then have "c \<in> set (base_text b (n div b)) \<or> c = hex_digit (n mod b)"
      using 1(2,4) by (auto simp add: base_text.simps [of b n])
    moreover have "\<not> (n < b \<or> b < 2)" "n mod b < b" using False 1(2) by auto
    ultimately show ?thesis using 1(1-3) by blast
  qed
qed

lemma base_text_plain:
  assumes "2 \<le> b" and "b \<le> 16" and "c \<in> set (base_text b n)"
  shows "c \<noteq> CHR ''_''" "\<not> py_isspace c" "c \<notin> set ''.:+-%/xo[]''" "lower_char c = c"
  using base_text_chars [OF assms] hex_digit_facts(1-4) assms(2) by (auto simp del: set_simps)

lemma base_text_nonempty: "base_text b n \<noteq> []"
  by (simp add: base_text.simps [of b n])

lemma digits_value_text:
  assumes "2 \<le> b" and "b \<le> 16"
  shows "digits_value b 0 False (base_text b n) = Some n"
  using assms
proof (induction b n rule: base_text.induct)
  case (1 b n)
  show ?case
  proof (cases "n < b")
    case True
    then have "digit_in b (hex_digit n) = Some n" "hex_digit n \<noteq> CHR ''_''"
      using 1(3) by (simp_all add: digit_in_base hex_digit_facts)
    then show ?thesis using True by (simp add: base_text.simps [of b n])
  next
    case False
    have m: "n mod b < b" using 1(2) by simp
    then have d: "digit_in b (hex_digit (n mod b)) = Some (n mod b)" "hex_digit (n mod b) \<noteq> CHR ''_''"
      using 1(3) by (simp_all add: digit_in_base hex_digit_facts)
    have rest: "digits_value b 0 False (base_text b (n div b)) = Some (n div b)" using False 1 by simp
    have "\<forall>c\<in>set (base_text b (n div b)). c \<noteq> CHR ''_''" using base_text_plain(1) 1(2,3) by blast
    from digits_value_append [OF this rest]
    show ?thesis using False 1(2) d by (simp add: base_text.simps [of b n])
  qed
qed

lemma strip_plain: "\<forall>c\<in>set s. \<not> py_isspace c \<Longrightarrow> py_strip s = s"
proof -
  assume s: "\<forall>c\<in>set s. \<not> py_isspace c"
  then have "dropWhile py_isspace s = s" "dropWhile py_isspace (rev s) = rev s"
    by (simp_all add: dropWhile_eq_self_iff) (metis list.set_sel(1) hd_rev last_in_set rev_is_Nil_conv set_rev)+
  then show ?thesis by (simp add: py_strip_def py_lstrip_def py_rstrip_def)
qed

lemma lower_plain: "\<forall>c\<in>set s. lower_char c = c \<Longrightarrow> py_lower s = s"
  by (simp add: py_lower_def map_idI)

lemma digits_value_after: "s \<noteq> [] \<Longrightarrow> hd s \<noteq> CHR ''_'' \<Longrightarrow> digits_value b n True s = digits_value b n False s"
  by (cases s) simp_all

lemma text_hd: "2 \<le> b \<Longrightarrow> b \<le> 16 \<Longrightarrow> hd (base_text b n) \<in> set (base_text b n)"
  by (simp add: base_text_nonempty)

lemma take1_hd: "s \<noteq> [] \<Longrightarrow> take (Suc 0) s = [hd s]"
  by (cases s) simp_all

lemma base_text_10: "base_text 10 n = py_str_nat n"
proof (induction n rule: py_str_nat.induct)
  case (1 n)
  have "list_all (\<lambda>d. hex_digit d = char_of (48 + d)) [0..<10]" by code_simp
  then have d: "d < 10 \<Longrightarrow> hex_digit d = char_of (48 + d)" for d by (simp add: list_all_iff)
  show ?case using 1 d [of n] d [of "n mod 10"] by (simp add: base_text.simps [of 10 n] py_str_nat.simps [of n])
qed

lemma py_int_dec: "py_int 10 (base_text 10 n) = Some (int n)"
proof -
  have p: "\<forall>c\<in>set (base_text 10 n). \<not> py_isspace c" using base_text_plain(2) [of 10] by auto
  have "hd (base_text 10 n) \<notin> set ''.:+-%/xo[]''" using base_text_plain(3) [OF _ _ text_hd] by simp
  then have "take 1 (base_text 10 n) \<noteq> ''-''" "take 1 (base_text 10 n) \<noteq> ''+''"
    by (auto simp: take1_hd base_text_nonempty)
  then show ?thesis
    using digits_value_text [of 10 n] by (simp add: py_int_def Let_def strip_plain [OF p] base_prefix_def)
qed

lemma py_int_hex: "py_int 16 (''0x'' @ base_text 16 n) = Some (int n)"
proof -
  have "\<forall>c\<in>set (''0x'' @ base_text 16 n). \<not> py_isspace c"
    using base_text_plain(2) [of 16] by (auto simp: py_isspace_def py_spaces_def)
  from strip_plain [OF this] have st: "py_strip (''0x'' @ base_text 16 n) = ''0x'' @ base_text 16 n" .
  have "hd (base_text 16 n) \<noteq> CHR ''_''" using base_text_plain(1) [OF _ _ text_hd] by simp
  then have "take 1 (base_text 16 n) \<noteq> ''_''" by (simp add: take1_hd base_text_nonempty)
  then have "base_prefix 16 (''0x'' @ base_text 16 n) = base_text 16 n"
    by (simp add: base_prefix_def py_lower_def lower_char_def)
  then show ?thesis using digits_value_text [of 16 n] unfolding py_int_def st by (simp add: Let_def)
qed

lemma py_int_oct: "py_int 8 (''0'' @ base_text 8 n) = Some (int n)"
proof -
  have h: "hd (base_text 8 n) \<noteq> CHR ''_''" "hd (base_text 8 n) \<notin> set ''.:+-%/xo[]''"
    "lower_char (hd (base_text 8 n)) = hd (base_text 8 n)"
    using base_text_plain(1,3,4) [OF _ _ text_hd] by simp_all
  have "\<forall>c\<in>set (''0'' @ base_text 8 n). \<not> py_isspace c"
    using base_text_plain(2) [of 8] by (auto simp: py_isspace_def py_spaces_def)
  from strip_plain [OF this] have st: "py_strip (''0'' @ base_text 8 n) = ''0'' @ base_text 8 n" .
  have "base_prefix 8 (''0'' @ base_text 8 n) = ''0'' @ base_text 8 n"
    using h base_text_nonempty [of 8 n]
    by (cases "base_text 8 n") (simp_all add: base_prefix_def py_lower_def numeral_2_eq_2)
  moreover have "digit_in 8 (CHR ''0'') = Some 0" by code_simp
  ultimately show ?thesis
    using digits_value_text [of 8 n] digits_value_after [OF base_text_nonempty h(1)]
    unfolding py_int_def st by (simp add: Let_def)
qed

lemma ip_address_number:
  assumes "\<forall>c\<in>set s. c \<notin> set ''.:%/''"
  shows "ip_address s = None"
proof -
  have "CHR ''.'' \<notin> set s" "CHR '':'' \<notin> set s" "CHR ''%'' \<notin> set s" using assms by auto
  then show ?thesis
    by (cases "parse_octet s") (simp_all add: ip_address_def parse_ipv4_def parse_ipv6_def ipv6_int_from_string_def
        split_on_append_free partition_on_simps Let_def)
qed

lemma rstrip_dots: "CHR ''.'' \<notin> set s \<Longrightarrow> rstrip_char (CHR ''.'') (s @ replicate k (CHR ''.'')) = s"
proof -
  assume s: "CHR ''.'' \<notin> set s"
  have "dropWhile (\<lambda>c. c = CHR ''.'') (replicate k (CHR ''.'') @ t) = dropWhile (\<lambda>c. c = CHR ''.'') t" for t
    by (induction k) simp_all
  then have "dropWhile (\<lambda>c. c = CHR ''.'') (rev (s @ replicate k (CHR ''.''))) = dropWhile (\<lambda>c. c = CHR ''.'') (rev s)"
    by simp
  also have "\<dots> = rev s" using s by (cases "rev s") auto
  finally show ?thesis by (simp add: rstrip_char_def)
qed

lemma legacy_single:
  assumes "CHR ''.'' \<notin> set s" and "s \<noteq> []" and "parse_ipv4_component s = Some (int n)" and "n < 2 ^ 32"
  shows "parse_legacy_ipv4_literal s = Some (Some (IPv4 (of_nat n)))"
  using assms by (simp add: parse_legacy_ipv4_literal_def split_on_append_free Let_def ipv4_from_int_def)

lemma component_dec: "parse_ipv4_component (base_text 10 n) = Some (int n)"
proof -
  have low: "py_lower (base_text 10 n) = base_text 10 n" using base_text_plain(4) [of 10] by (intro lower_plain) auto
  have "CHR ''x'' \<notin> set (base_text 10 n)" using base_text_plain(3) [of 10 "CHR ''x''" n] by auto
  then have "\<not> py_startswith (base_text 10 n) ''0x''"
    by (cases "base_text 10 n"; cases "tl (base_text 10 n)") (auto simp: py_startswith_def)
  moreover have "\<not> (1 < length (base_text 10 n) \<and> py_startswith (base_text 10 n) ''0'')"
    using py_str_nat_head [of n] unfolding base_text_10
    by (cases "py_str_nat n") (auto simp: py_startswith_def)
  ultimately show ?thesis unfolding parse_ipv4_component_def low Let_def using py_int_dec [of n] by auto
qed

lemma component_hex: "parse_ipv4_component (''0x'' @ base_text 16 n) = Some (int n)"
proof -
  have low: "py_lower (''0x'' @ base_text 16 n) = ''0x'' @ base_text 16 n"
    using base_text_plain(4) [of 16] by (intro lower_plain) (auto simp: lower_char_def)
  show ?thesis unfolding parse_ipv4_component_def low Let_def using py_int_hex [of n] by (simp add: py_startswith_def)
qed

lemma component_oct: "parse_ipv4_component (''0'' @ base_text 8 n) = Some (int n)"
proof -
  have low: "py_lower (''0'' @ base_text 8 n) = ''0'' @ base_text 8 n"
    using base_text_plain(4) [of 8] by (intro lower_plain) (auto simp: lower_char_def)
  have "hd (base_text 8 n) \<noteq> CHR ''x''" using base_text_plain(3) [OF _ _ text_hd, of 8 n] by auto
  then have "\<not> py_startswith (''0'' @ base_text 8 n) ''0x''"
    using base_text_nonempty [of 8 n] by (cases "base_text 8 n") (auto simp: py_startswith_def)
  then show ?thesis
    unfolding parse_ipv4_component_def low Let_def
    using py_int_oct [of n] base_text_nonempty [of 8 n] by (auto simp: py_startswith_def)
qed

lemma literal_number:
  assumes "\<forall>c\<in>set s. c \<notin> set ''.:%/''" and "s \<noteq> []" and "parse_ipv4_component s = Some (int n)" and "n < 2 ^ 32"
  shows "parse_ip_literal (s @ replicate k (CHR ''.'')) = Some (Some (IPv4 (of_nat n)))"
proof -
  have dot: "CHR ''.'' \<notin> set s" using assms(1) by auto
  show ?thesis
    using legacy_single [OF dot assms(2-4)] ip_address_number [OF assms(1)]
    by (simp add: parse_ip_literal_def rstrip_dots [OF dot])
qed

text \<open>
  A host that is a number is read as the IPv4 address it denotes, however it is written: dotted
  decimals, one decimal number, one hexadecimal number, one octal number, the numbers with any trailing
  dots.  A blocked address cannot be reached by spelling it differently.
\<close>

theorem ipv4_spellings:
  "parse_ip_literal (ipv4_text w) = Some (Some (IPv4 w)) \<and>
   parse_ip_literal (base_text 10 (unat w) @ replicate k (CHR ''.'')) = Some (Some (IPv4 w)) \<and>
   parse_ip_literal (''0x'' @ base_text 16 (unat w) @ replicate k (CHR ''.'')) = Some (Some (IPv4 w)) \<and>
   parse_ip_literal (''0'' @ base_text 8 (unat w) @ replicate k (CHR ''.'')) = Some (Some (IPv4 w))"
proof (intro conjI)
  have n: "unat w < 2 ^ 32" using unsigned_less [of w, where ?'a = nat] by simp
  have "last (py_str_nat m) \<noteq> CHR ''.''" for m
    using dot_not_digit [of m] last_in_set [OF py_str_nat_nonempty [of m]] by metis
  then have last: "last (ipv4_text w) \<noteq> CHR ''.''" "ipv4_text w \<noteq> []"
    using py_str_nat_nonempty by (simp_all add: ipv4_text_def)
  then have "rstrip_char (CHR ''.'') (ipv4_text w) = ipv4_text w"
    by (cases "ipv4_text w" rule: rev_cases) (auto simp: rstrip_char_def)
  then show "parse_ip_literal (ipv4_text w) = Some (Some (IPv4 w))"
    by (simp add: parse_ip_literal_def ip_address_ipv4_text)
  have p: "\<forall>c\<in>set (base_text b (unat w)). c \<notin> set ''.:%/''" if "2 \<le> b" "b \<le> 16" for b
    using base_text_plain(3) [OF that] by auto
  show "parse_ip_literal (base_text 10 (unat w) @ replicate k (CHR ''.'')) = Some (Some (IPv4 w))"
    using literal_number [OF p base_text_nonempty component_dec n] by simp
  have "\<forall>c\<in>set (''0x'' @ base_text 16 (unat w)). c \<notin> set ''.:%/''" using p [of 16] by auto
  from literal_number [OF this _ component_hex n]
  show "parse_ip_literal (''0x'' @ base_text 16 (unat w) @ replicate k (CHR ''.'')) = Some (Some (IPv4 w))" by simp
  have "\<forall>c\<in>set (''0'' @ base_text 8 (unat w)). c \<notin> set ''.:%/''" using p [of 8] by auto
  from literal_number [OF this _ component_oct n]
  show "parse_ip_literal (''0'' @ base_text 8 (unat w) @ replicate k (CHR ''.'')) = Some (Some (IPv4 w))" by simp
qed

text \<open>A sign in a component makes \<open>IPv4Address\<close> raise where the caller expects an answer.\<close>

lemma signed_component_raises: "parse_ip_literal ''-1.2.3.4'' = None"
  by code_simp

section \<open>Embedded addresses\<close>

text \<open>The IPv6 addresses that carry the IPv4 address \<open>v\<close>: mapped, behind a /96 prefix, 6to4.\<close>

definition mapped_form :: "32 word \<Rightarrow> 128 word" where
  "mapped_form v = push_bit 32 0xFFFF OR ucast v"

definition prefixed_form :: "ip_network \<Rightarrow> 32 word \<Rightarrow> 128 word" where
  "prefixed_form n v = push_bit 32 (drop_bit 32 (net_address n)) OR ucast v"

definition six_to_four_form :: "32 word \<Rightarrow> 80 word \<Rightarrow> 128 word" where
  "six_to_four_form v rest = push_bit 112 0x2002 OR push_bit 80 (ucast v) OR ucast rest"

lemma low_mask: "(0xFFFFFFFF :: 128 word) = mask 32"
  by (simp add: mask_eq_exp_minus_1)

lemma low_word: "ucast ((push_bit 32 h OR ucast v) AND 0xFFFFFFFF :: 128 word) = (v :: 32 word)"
  "ucast (push_bit 32 h OR ucast v :: 128 word) = (v :: 32 word)"
  unfolding low_mask by (rule bit_word_eqI; auto simp: bit_simps)+

lemma high_bits: "drop_bit 32 (push_bit 32 h OR ucast (v :: 32 word) :: 128 word) = drop_bit 32 (push_bit 32 h)"
  by (rule bit_word_eqI) (auto simp: bit_simps dest: bit_imp_le_length)

lemma six_to_four_bits:
  "ucast (drop_bit 80 (push_bit 112 h OR push_bit 80 (ucast v) OR ucast (rest :: 80 word) :: 128 word) AND mask 32) = (v :: 32 word)"
  "drop_bit 112 (push_bit 112 h OR push_bit 80 (ucast v) OR ucast rest :: 128 word) = drop_bit 112 (push_bit 112 h)"
  by (rule bit_word_eqI; auto simp: bit_simps dest: bit_imp_le_length)+

lemma six_to_four_not_mapped: "drop_bit 32 (six_to_four_form v rest) \<noteq> 0xFFFF"
proof
  have d: "drop_bit 112 w = drop_bit 80 (drop_bit 32 w)" for w :: "128 word"
    by (rule bit_word_eqI) (simp add: bit_simps)
  assume "drop_bit 32 (six_to_four_form v rest) = 0xFFFF"
  then have "drop_bit 112 (six_to_four_form v rest) = drop_bit 80 0xFFFF" unfolding d by simp
  moreover have "drop_bit 80 (0xFFFF :: 128 word) = 0" by (simp add: drop_bit_eq_div)
  moreover have "drop_bit 112 (push_bit 112 0x2002 :: 128 word) = 0x2002"
    by (simp add: push_bit_eq_mult drop_bit_eq_div)
  ultimately show False using six_to_four_bits(2) [of "0x2002" v rest] by (simp add: six_to_four_form_def)
qed

lemma unsafe_candidate:
  "b \<in> set (expand_ip_candidates a pol) \<Longrightarrow> \<not> is_safe_ip_candidate cat pol b \<Longrightarrow> \<not> is_safe_ip cat pol a"
  by (auto simp: is_safe_ip_def list_all_iff)

text \<open>
  C19. An IPv4 address that is blocked is blocked in every IPv6 address that carries it: IPv4-mapped, behind
  any configured NAT64 or IPv4-compatible /96 prefix, and, with 2002::/16 configured, in any 6to4 address
  that no such prefix covers, whatever its zone.
\<close>

theorem embedded_ipv4_blocked:
  assumes "\<not> is_safe_ip cat pol (IPv4 v)"
  shows "\<not> is_safe_ip cat pol (IPv6 (mapped_form v) zone) \<and>
    (\<forall>n\<in>set (nat64_networks pol @ ipv4_compat_networks pol). net_prefix n = 96 \<longrightarrow>
       \<not> is_safe_ip cat pol (IPv6 (prefixed_form n v) zone)) \<and>
    (\<forall>n\<in>set (six_to_four_networks pol). net_prefix n = 16 \<and> net_address n = push_bit 112 0x2002 \<and>
       \<not> list_ex (in_network (IPv6 (six_to_four_form v rest) zone)) (nat64_networks pol @ ipv4_compat_networks pol) \<longrightarrow>
       \<not> is_safe_ip cat pol (IPv6 (six_to_four_form v rest) zone))"
proof (intro conjI ballI impI)
  have v: "\<not> is_safe_ip_candidate cat pol (IPv4 v)"
    using assms by (simp add: is_safe_ip_def expand_ip_candidates_def)
  have "drop_bit 32 (push_bit 32 0xFFFF :: 128 word) = 0xFFFF" by (simp add: push_bit_eq_mult drop_bit_eq_div)
  then have "drop_bit 32 (mapped_form v) = 0xFFFF" unfolding mapped_form_def high_bits .
  moreover have "ucast (mapped_form v) = v" unfolding mapped_form_def by (rule low_word(2))
  ultimately show "\<not> is_safe_ip cat pol (IPv6 (mapped_form v) zone)"
    by (intro unsafe_candidate [OF _ v]) (simp add: expand_ip_candidates_def ipv4_mapped_def)
  fix n assume n: "n \<in> set (nat64_networks pol @ ipv4_compat_networks pol)" "net_prefix n = 96"
  have "drop_bit 32 (prefixed_form n v) = drop_bit 32 (net_address n)"
    unfolding prefixed_form_def high_bits by (rule bit_word_eqI) (auto simp: bit_simps dest: bit_imp_le_length)
  then have "in_network (IPv6 (prefixed_form n v) zone) n"
    by (simp add: in_network_def n(2))
  then have "list_ex (in_network (IPv6 (prefixed_form n v) zone)) (nat64_networks pol @ ipv4_compat_networks pol)"
    using n(1) by (auto simp: list_ex_iff)
  then have "IPv4 v \<in> set (expand_ip_candidates (IPv6 (prefixed_form n v) zone) pol)"
    by (simp add: expand_ip_candidates_def ipv4_mapped_def prefixed_form_def low_word del: list_ex_append)
  then show "\<not> is_safe_ip cat pol (IPv6 (prefixed_form n v) zone)" by (rule unsafe_candidate [OF _ v])
next
  have v: "\<not> is_safe_ip_candidate cat pol (IPv4 v)"
    using assms by (simp add: is_safe_ip_def expand_ip_candidates_def)
  fix n assume n: "n \<in> set (six_to_four_networks pol)"
    and a: "net_prefix n = 16 \<and> net_address n = push_bit 112 0x2002 \<and>
      \<not> list_ex (in_network (IPv6 (six_to_four_form v rest) zone)) (nat64_networks pol @ ipv4_compat_networks pol)"
  have "in_network (IPv6 (six_to_four_form v rest) zone) n"
    using a six_to_four_bits(2) [of "0x2002" v rest] by (simp add: in_network_def six_to_four_form_def)
  then have "list_ex (in_network (IPv6 (six_to_four_form v rest) zone)) (six_to_four_networks pol)"
    using n by (auto simp: list_ex_iff)
  moreover have "ucast (drop_bit 80 (six_to_four_form v rest) AND 0xFFFFFFFF) = v"
    unfolding low_mask six_to_four_form_def by (rule six_to_four_bits(1))
  ultimately have "IPv4 v \<in> set (expand_ip_candidates (IPv6 (six_to_four_form v rest) zone) pol)"
    using a six_to_four_not_mapped [of v rest]
    by (simp add: expand_ip_candidates_def ipv4_mapped_def del: list_ex_append)
  then show "\<not> is_safe_ip cat pol (IPv6 (six_to_four_form v rest) zone)" by (rule unsafe_candidate [OF _ v])
qed

definition demo_policy :: safety_policy where
  "demo_policy = \<lparr>blocked_categories = [Loopback], blocked_special = [IPv4 0xA9FEA9FE],
     nat64_networks = [\<lparr>net_address = push_bit 96 0x0064FF9B, net_prefix = 96\<rparr>],
     six_to_four_networks = [\<lparr>net_address = push_bit 112 0x2002, net_prefix = 16\<rparr>], ipv4_compat_networks = []\<rparr>"

theorem embedded_ipv4_blocked_witness:
  "\<not> is_safe_ip (\<lambda>c a. False) demo_policy (IPv6 (mapped_form 0xA9FEA9FE) None)"
proof -
  have "\<not> is_safe_ip (\<lambda>c a. False) demo_policy (IPv4 0xA9FEA9FE)"
    by (simp add: is_safe_ip_def expand_ip_candidates_def is_safe_ip_candidate_def demo_policy_def)
  from embedded_ipv4_blocked [OF this] show ?thesis by blast
qed

section \<open>The two checks agree\<close>

definition policy_of :: "proxy_settings \<Rightarrow> safety_policy" where
  "policy_of s = \<lparr>blocked_categories = proxy_blocked_categories s, blocked_special = proxy_blocked_special s,
     nat64_networks = proxy_nat64 s, six_to_four_networks = proxy_six_to_four s,
     ipv4_compat_networks = proxy_ipv4_compat s\<rparr>"

lemma no_candidate_blocked_all:
  "no_candidate_blocked cat s cs = list_all (is_safe_ip_candidate cat (policy_of s)) cs"
  by (induction cs) (auto simp: is_safe_ip_candidate_def policy_of_def)

lemma proxy_legacy_eq: "proxy_legacy_ipv4_literal = parse_legacy_ipv4_literal"
proof -
  have c: "proxy_ipv4_component = parse_ipv4_component"
    by (intro ext) (simp only: proxy_ipv4_component_def parse_ipv4_component_def)
  have f: "proxy_ipv4_from_int = ipv4_from_int"
    by (intro ext) (simp only: proxy_ipv4_from_int_def ipv4_from_int_def)
  show ?thesis by (intro ext) (simp only: proxy_legacy_ipv4_literal_def parse_legacy_ipv4_literal_def c f)
qed

lemma proxy_safe_eq: "proxy_is_safe_ip cat s a = is_safe_ip cat (policy_of s) a"
  by (cases a) (simp_all add: proxy_is_safe_ip_def no_candidate_blocked_all is_safe_ip_def expanded_ip_candidates_def
      expand_ip_candidates_def policy_of_def cong: option.case_cong)


section \<open>What the proxy connects to\<close>

lemma safe_connect_address:
  assumes "safe_connect_ip env s host port = Some (Some addr)"
  shows "\<exists>a. addr = ip_text (env_v6 env) a \<and> proxy_is_safe_ip (env_category env) s a"
proof -
  have "list_ex (\<lambda>a. \<not> proxy_is_safe_ip (env_category env) s a) ips \<or> ips = [] \<or>
      proxy_is_safe_ip (env_category env) s (hd ips)" for ips
    by (cases ips) auto
  then show ?thesis using assms
    by (auto simp: safe_connect_ip_def split: option.splits looked_up.splits if_splits)
qed

text \<open>
  C20. Whatever a client sends, the proxy opens a connection only to the text of an address that is not
  blocked: neither the address nor any IPv4 address it embeds is on the list of special addresses or in a
  blocked category.  For a host name this holds of the very address it connects to, so a name that
  resolves differently later gains nothing.
\<close>

theorem proxy_connects_only_safe:
  assumes "handle_client env s chunks = Tunnel addr port sent"
  shows "\<exists>a. addr = ip_text (env_v6 env) a \<and>
    (\<forall>b\<in>set (expanded_ip_candidates a s). b \<notin> set (proxy_blocked_special s) \<and>
       (\<forall>c\<in>set (proxy_blocked_categories s). \<not> env_category env c b))"
proof -
  have "\<exists>host. safe_connect_ip env s host port = Some (Some addr)"
    using assms by (auto simp: handle_client_def split: option.splits if_splits prod.splits)
  then obtain a where a: "addr = ip_text (env_v6 env) a" "proxy_is_safe_ip (env_category env) s a"
    using safe_connect_address by blast
  then have "list_all (is_safe_ip_candidate (env_category env) (policy_of s)) (expanded_ip_candidates a s)"
    by (simp add: proxy_is_safe_ip_def no_candidate_blocked_all)
  then show ?thesis using a(1)
    by (intro exI [of _ a]) (auto simp: list_all_iff list_ex_iff is_safe_ip_candidate_def policy_of_def)
qed

definition demo_settings :: proxy_settings where
  "demo_settings = \<lparr>listen_port = 8080, max_header_bytes = 1000, read_chunk_bytes = 10, relay_chunk_bytes = 10,
     proxy_blocked_categories = [], proxy_blocked_special = [IPv4 0], proxy_nat64 = [], proxy_six_to_four = [],
     proxy_ipv4_compat = []\<rparr>"

definition demo_env :: proxy_env where
  "demo_env = \<lparr>env_category = (\<lambda>c a. False), env_look = (\<lambda>h p. Os_Error), env_idna = Some, env_v6 = (\<lambda>w. [])\<rparr>"

definition demo_connect :: string where
  "demo_connect = ''CONNECT 1:443 HTTP/1.1'' @ crlf @ crlf"

lemma demo_handle: "handle_client demo_env demo_settings [demo_connect] = Tunnel ''0.0.0.1'' 443 []"
proof -
  have rd: "read_headers demo_settings [demo_connect] [] = Some demo_connect" by code_simp
  have hd: "(case parse_headers demo_connect of None \<Rightarrow> False
      | Some r \<Rightarrow> py_upper (req_method r) = ''CONNECT'' \<and> req_target r = ''1:443'')" by code_simp
  have tg: "parse_connect_target ''1:443'' = Some (''1'', 443)" by code_simp
  have l1: "proxy_ip_literal ''1'' = Some (Some (IPv4 1))" "rstrip_char (CHR ''.'') (strip_brackets ''1'') = ''1''"
    by code_simp+
  have dotted: "ipv4_text 1 = ''0.0.0.1''" by (simp add: ipv4_text_def py_str_nat.simps) code_simp
  have l2: "proxy_ip_literal ''0.0.0.1'' = Some (Some (IPv4 1))"
  proof -
    have "rstrip_char (CHR ''.'') (strip_brackets ''0.0.0.1'') = ''0.0.0.1''" by code_simp
    then show ?thesis using ip_address_ipv4_text [of 1] by (simp add: proxy_ip_literal_def dotted)
  qed
  have "proxy_is_safe_ip (env_category demo_env) demo_settings (IPv4 1)"
    by (simp add: proxy_is_safe_ip_def expanded_ip_candidates_def demo_settings_def)
  then have "safe_connect_ip demo_env demo_settings ''1'' 443 = Some (Some ''0.0.0.1'')"
    using l1 l2 dotted by (simp add: safe_connect_ip_def normalize_hostname_def Let_def ip_text_def demo_env_def)
  then show ?thesis using rd hd tg by (auto simp: handle_client_def split: option.splits)
qed

theorem proxy_connects_only_safe_witness:
  "\<exists>a. ''0.0.0.1'' = ip_text (env_v6 demo_env) a \<and>
     (\<forall>b\<in>set (expanded_ip_candidates a demo_settings). b \<notin> set (proxy_blocked_special demo_settings))"
  using proxy_connects_only_safe [OF demo_handle] by blast

end
