(* ===== verification/Url_Identity.thy ===== *)
theory Url_Identity
  imports Url_Safety
begin

text \<open>
  \<open>orchestrator/url_identity.py\<close> and the host part of \<open>orchestrator/normalize.py\<close>: the key under which
  two URLs count as one, and the identities of URLs, cache entries, documents and evidence, which their
  validators recompute.  Arguments: the IDNA codecs, the text of an IPv6 address, and SHA-256 as a
  function from bytes to 32 bytes.  \<open>None\<close> stands for a \<open>ValueError\<close>.  \<open>normalize_url\<close>, which decodes and
  re-encodes a query through UTF-8, is not modelled.
\<close>

record url_env =
  idna_uts46 :: "string \<Rightarrow> string option"
  idna_2003 :: "string \<Rightarrow> string option"
  ipv6_string :: "128 word \<Rightarrow> string"
  sha256 :: "string \<Rightarrow> string"

section \<open>Hosts\<close>

text \<open>\<open>url_identity._canonical_host\<close>, and \<open>normalize.canonical_host\<close>, where a codec error gives no host.\<close>

definition canonical_host_of :: "url_env \<Rightarrow> string option \<Rightarrow> string option" where
  "canonical_host_of env host =
     (case host of
        None \<Rightarrow> Some []
      | Some h \<Rightarrow>
          if h = [] then Some []
          else (let n = py_lower (rstrip_char (CHR ''.'') h)
                in case parse_ip_literal n of
                     None \<Rightarrow> None
                   | Some (Some a) \<Rightarrow> Some (ip_text (ipv6_string env) a)
                   | Some None \<Rightarrow> idna_uts46 env n))"

definition canonical_host :: "url_env \<Rightarrow> string option \<Rightarrow> string option" where
  "canonical_host env host =
     (case host of
        None \<Rightarrow> Some []
      | Some h \<Rightarrow>
          if h = [] then Some []
          else (let n = py_lower (rstrip_char (CHR ''.'') h)
                in case parse_ip_literal n of
                     None \<Rightarrow> None
                   | Some (Some a) \<Rightarrow> Some (ip_text (ipv6_string env) a)
                   | Some None \<Rightarrow> Some (case idna_2003 env n of None \<Rightarrow> [] | Some t \<Rightarrow> t)))"

definition host_for :: "url_env \<Rightarrow> string \<Rightarrow> string option" where
  "host_for env url = (case urlsplit url of None \<Rightarrow> None | Some u \<Rightarrow> canonical_host env (hostname u))"

section \<open>Keys\<close>

definition safety_target_for :: "string \<Rightarrow> string option" where
  "safety_target_for url = urldefrag url"

text \<open>
  \<open>unquote_plus\<close>, octet by octet.  The code only asks whether the text starts with four ASCII letters, and
  an octet above 127 decodes to no ASCII letter, whatever the encoding makes of it.
\<close>

fun unquote_plus :: "string \<Rightarrow> string" where
  "unquote_plus [] = []"
| "unquote_plus (c # s) =
     (if c = CHR ''+'' then CHR '' '' # unquote_plus s
      else if c = CHR 0x25 then
        (case s of
           a # b # t \<Rightarrow>
             (case (hex_value a, hex_value b) of
                (Some x, Some y) \<Rightarrow> char_of (16 * x + y) # unquote_plus t
              | _ \<Rightarrow> c # unquote_plus s)
         | _ \<Rightarrow> c # unquote_plus s)
      else c # unquote_plus s)"

definition tracking_component :: "string \<Rightarrow> bool" where
  "tracking_component part \<longleftrightarrow> py_startswith (py_lower (unquote_plus (fst (partition_on (CHR ''='') part)))) ''utm_''"

definition dedup_query :: "string \<Rightarrow> string \<times> bool" where
  "dedup_query q =
     (let retained = filter (\<lambda>c. \<not> tracking_component c) (split_on (CHR ''&'') q)
      in (join_on ''&'' retained, retained \<noteq> []))"

definition default_port :: "string \<Rightarrow> nat \<Rightarrow> bool" where
  "default_port scheme port \<longleftrightarrow> scheme = ''http'' \<and> port = 80 \<or> scheme = ''https'' \<and> port = 443"

definition dedup_netloc :: "url_env \<Rightarrow> split_url \<Rightarrow> string \<Rightarrow> string option" where
  "dedup_netloc env u scheme =
     (case canonical_host_of env (hostname u) of
        None \<Rightarrow> None
      | Some host \<Rightarrow>
          if host = [] then Some (netloc u)
          else case url_port u of
            None \<Rightarrow> None
          | Some port \<Rightarrow>
              (let base = (if CHR '':'' \<in> set host then ''['' @ host @ '']'' else host);
                   net = (case port of
                       Some p \<Rightarrow> if default_port scheme p then base else base @ '':'' @ py_str_nat p
                     | None \<Rightarrow> base);
                   (info, has_info, _) = rpartition_on (CHR ''@'') (netloc u)
               in Some (if has_info then info @ ''@'' @ net else net)))"

definition dedup_key_for :: "url_env \<Rightarrow> string \<Rightarrow> string option" where
  "dedup_key_for env url =
     (case safety_target_for url of
        None \<Rightarrow> None
      | Some plain \<Rightarrow>
          (case urlsplit plain of
             None \<Rightarrow> None
           | Some u \<Rightarrow>
               (let (q, has_retained) = dedup_query (query u);
                    scheme = py_lower (url_scheme u);
                    net = (if netloc u = [] then Some (netloc u) else dedup_netloc env u scheme)
                in case net of
                     None \<Rightarrow> None
                   | Some n \<Rightarrow>
                       Some (urlunsplit \<lparr>url_scheme = scheme, netloc = n, url_path = url_path u, query = q, fragment = []\<rparr>
                         @ (if CHR ''?'' \<in> set plain \<and> has_retained \<and> q = [] then ''?'' else [])))))"

section \<open>Identities\<close>

record url_identity =
  id_requested :: string
  id_final :: string
  id_display :: string
  id_canonical :: "string option"

definition valid_roles :: "url_identity \<Rightarrow> bool" where
  "valid_roles i \<longleftrightarrow>
     safety_target_for (id_final i) = Some (id_final i) \<and> safety_target_for (id_display i) = Some (id_final i)"

definition build_url_identity :: "string \<Rightarrow> string \<Rightarrow> string option \<Rightarrow> url_identity option" where
  "build_url_identity requested final canonical =
     (case safety_target_for final of
        None \<Rightarrow> None
      | Some t \<Rightarrow>
          (let i = \<lparr>id_requested = requested, id_final = t, id_display = final, id_canonical = canonical\<rparr>
           in if valid_roles i then Some i else None))"

record cache_identity =
  cache_key :: string
  retrieval_variant :: string
  extraction_variant :: string

definition build_cache_identity :: "url_env \<Rightarrow> url_identity \<Rightarrow> string \<Rightarrow> string \<Rightarrow> cache_identity option" where
  "build_cache_identity env i retrieval extraction =
     (case dedup_key_for env (id_final i) of
        None \<Rightarrow> None
      | Some k \<Rightarrow>
          if k \<noteq> [] \<and> retrieval \<noteq> [] \<and> extraction \<noteq> []
          then Some \<lparr>cache_key = k, retrieval_variant = retrieval, extraction_variant = extraction\<rparr> else None)"

text \<open>\<open>bytes.hex()\<close> and \<open>bytes.fromhex\<close> of an even number of lower-case digits; UTF-8 of the code points below 256.\<close>

definition hexdigest :: "string \<Rightarrow> string" where
  "hexdigest b = concat (map (\<lambda>c. [hex_digit (of_char c div 16), hex_digit (of_char c mod 16)]) b)"

fun fromhex :: "string \<Rightarrow> string" where
  "fromhex (a # b # s) =
     char_of (16 * (case hex_value a of None \<Rightarrow> 0 | Some x \<Rightarrow> x) + (case hex_value b of None \<Rightarrow> 0 | Some y \<Rightarrow> y)) # fromhex s"
| "fromhex _ = []"

definition utf8 :: "string \<Rightarrow> string" where
  "utf8 s = concat (map (\<lambda>c. if of_char c < (128::nat) then [c]
     else [char_of (192 + of_char c div 64 :: nat), char_of (128 + of_char c mod 64 :: nat)]) s)"

text \<open>The pattern \<open>^[0-9a-f]{64}$\<close> of the digests.\<close>

definition sha256_pattern :: "string \<Rightarrow> bool" where
  "sha256_pattern s \<longleftrightarrow> length s = 64 \<and> list_all (\<lambda>c. c \<in> set ''0123456789abcdef'') s"

definition document_id_from_digest :: "url_env \<Rightarrow> string \<Rightarrow> string \<Rightarrow> string" where
  "document_id_from_digest env url digest = hexdigest (sha256 env (utf8 url @ [CHR 0x00] @ digest))"

definition evidence_id_from_digest :: "url_env \<Rightarrow> string \<Rightarrow> string \<Rightarrow> int \<Rightarrow> int \<Rightarrow> string" where
  "evidence_id_from_digest env url digest i j =
     hexdigest (sha256 env (utf8 url @ [CHR 0x00] @ digest @ [CHR 0x00] @ py_str_int i @ '':'' @ py_str_int j))"

definition cleaned_markdown_sha256 :: "url_env \<Rightarrow> string \<Rightarrow> string" where
  "cleaned_markdown_sha256 env md = hexdigest (sha256 env (utf8 md))"

definition document_id_for :: "url_env \<Rightarrow> string \<Rightarrow> string \<Rightarrow> string option" where
  "document_id_for env final md =
     map_option (\<lambda>t. document_id_from_digest env t (sha256 env (utf8 md))) (safety_target_for final)"

record document_identity =
  doc_url :: string
  doc_sha :: string
  doc_id :: string

definition valid_document :: "url_env \<Rightarrow> document_identity \<Rightarrow> bool" where
  "valid_document env d \<longleftrightarrow>
     sha256_pattern (doc_sha d) \<and> sha256_pattern (doc_id d) \<and>
     safety_target_for (doc_url d) = Some (doc_url d) \<and>
     doc_id d = document_id_from_digest env (doc_url d) (fromhex (doc_sha d))"

definition build_document_identity :: "url_env \<Rightarrow> string \<Rightarrow> string \<Rightarrow> document_identity option" where
  "build_document_identity env final md =
     (case safety_target_for final of
        None \<Rightarrow> None
      | Some t \<Rightarrow>
          (case document_id_for env t md of
             None \<Rightarrow> None
           | Some i \<Rightarrow>
               (let d = \<lparr>doc_url = t, doc_sha = cleaned_markdown_sha256 env md, doc_id = i\<rparr>
                in if valid_document env d then Some d else None)))"

record evidence_identity = document_identity +
  start_index :: int
  end_index :: int
  evidence_id :: string

definition valid_evidence :: "url_env \<Rightarrow> evidence_identity \<Rightarrow> bool" where
  "valid_evidence env e \<longleftrightarrow>
     sha256_pattern (doc_sha e) \<and> sha256_pattern (doc_id e) \<and> 0 \<le> start_index e \<and> 0 < end_index e \<and>
     sha256_pattern (evidence_id e) \<and> start_index e < end_index e \<and>
     doc_id e = document_id_from_digest env (doc_url e) (fromhex (doc_sha e)) \<and>
     evidence_id e = evidence_id_from_digest env (doc_url e) (fromhex (doc_sha e)) (start_index e) (end_index e)"

definition evidence_id_for :: "url_env \<Rightarrow> string \<Rightarrow> string \<Rightarrow> int \<Rightarrow> int \<Rightarrow> string option" where
  "evidence_id_for env final digest i j =
     (if i < 0 \<or> j \<le> i then None
      else if \<not> sha256_pattern digest then None
      else map_option (\<lambda>t. evidence_id_from_digest env t (fromhex digest) i j) (safety_target_for final))"

definition build_evidence_identity :: "url_env \<Rightarrow> string \<Rightarrow> string \<Rightarrow> int \<Rightarrow> int \<Rightarrow> evidence_identity option" where
  "build_evidence_identity env final md i j =
     (case build_document_identity env final md of
        None \<Rightarrow> None
      | Some d \<Rightarrow>
          (case evidence_id_for env (doc_url d) (doc_sha d) i j of
             None \<Rightarrow> None
           | Some ev \<Rightarrow>
               (let e = \<lparr>doc_url = doc_url d, doc_sha = doc_sha d, doc_id = doc_id d,
                          start_index = i, end_index = j, evidence_id = ev\<rparr>
                in if valid_evidence env e then Some e else None)))"

section \<open>Identities are what they are built from\<close>

lemma hexdigest_fromhex: "fromhex (hexdigest b) = b"
proof (induction b)
  case (Cons c b)
  have d: "hex_value (hex_digit n) = Some n" if "n < 16" for n
  proof -
    have "list_all (\<lambda>n. hex_value (hex_digit n) = Some n) [0..<16]" by code_simp
    then show ?thesis using that by (simp add: list_all_iff)
  qed
  have "of_char c < (256::nat)" by simp
  then have "of_char c div 16 < (16::nat)" by (simp add: less_mult_imp_div_less)
  moreover have "16 * (of_char c div 16) + of_char c mod 16 = (of_char c :: nat)" by simp
  ultimately show ?case using Cons.IH by (simp add: hexdigest_def d)
qed (simp add: hexdigest_def)

lemma hexdigest_pattern: "length b = 32 \<Longrightarrow> sha256_pattern (hexdigest b)"
proof -
  have "length (hexdigest b) = 2 * length b" by (induction b) (simp_all add: hexdigest_def)
  moreover have all: "\<forall>c\<in>set (hexdigest b). c \<in> A" if A: "\<And>n. n < 16 \<Longrightarrow> hex_digit n \<in> A" for A
    using A by (induction b) (auto simp: hexdigest_def less_mult_imp_div_less)
  have "\<forall>c\<in>set (hexdigest b). c \<in> set ''0123456789abcdef''"
    by (rule all) (unfold hex_digit_def, intro nth_mem, simp)
  ultimately show "length b = 32 \<Longrightarrow> sha256_pattern (hexdigest b)" by (simp add: sha256_pattern_def list_all_iff)
qed

lemma hexdigest_inject: "hexdigest a = hexdigest b \<Longrightarrow> a = b"
  by (metis hexdigest_fromhex)

text \<open>UTF-8 is injective.\<close>

lemma utf8_inject: "utf8 s = utf8 t \<Longrightarrow> s = t"
proof (induction s arbitrary: t)
  case Nil
  then show ?case by (cases t) (auto simp: utf8_def split: if_splits)
next
  case (Cons c s)
  then obtain d t' where t: "t = d # t'" by (cases t) (auto simp: utf8_def split: if_splits)
  have b: "of_char c < (256::nat)" "of_char d < (256::nat)" by simp_all
  have tail: "utf8 (x # xs) = (if of_char x < (128::nat) then [x]
      else [char_of (192 + of_char x div 64 :: nat), char_of (128 + of_char x mod 64 :: nat)]) @ utf8 xs" for x xs
    by (simp add: utf8_def)
  have hi: "of_char (char_of (192 + of_char x div 64 :: nat)) = (192 + of_char x div 64 :: nat)"
    "of_char (char_of (128 + of_char x mod 64 :: nat)) = (128 + of_char x mod 64 :: nat)" for x
  proof -
    have "of_char x < (256::nat)" by simp
    then have "of_char x div 64 < (4::nat)" by (simp add: less_mult_imp_div_less)
    then show "of_char (char_of (192 + of_char x div 64 :: nat)) = (192 + of_char x div 64 :: nat)" by simp
    have "of_char x mod 64 < (64::nat)" by simp
    then show "of_char (char_of (128 + of_char x mod 64 :: nat)) = (128 + of_char x mod 64 :: nat)" by simp
  qed
  have eq: "utf8 (c # s) = utf8 (d # t')" using Cons.prems t by simp
  show ?case
  proof (cases "of_char c < (128::nat)"; cases "of_char d < (128::nat)")
    assume "of_char c < (128::nat)" "of_char d < (128::nat)"
    then show ?thesis using eq Cons.IH t unfolding tail by simp
  next
    assume a: "of_char c < (128::nat)" "\<not> of_char d < (128::nat)"
    then have "c = char_of (192 + of_char d div 64 :: nat)" using eq unfolding tail by simp
    then have "of_char c = (192 + of_char d div 64 :: nat)" using hi(1) by metis
    then show ?thesis using a by simp
  next
    assume a: "\<not> of_char c < (128::nat)" "of_char d < (128::nat)"
    then have "d = char_of (192 + of_char c div 64 :: nat)" using eq unfolding tail by simp
    then have "of_char d = (192 + of_char c div 64 :: nat)" using hi(1) by metis
    then show ?thesis using a by simp
  next
    assume a: "\<not> of_char c < (128::nat)" "\<not> of_char d < (128::nat)"
    then have e: "char_of (192 + of_char c div 64 :: nat) = (char_of (192 + of_char d div 64 :: nat) :: char)"
      "char_of (128 + of_char c mod 64 :: nat) = (char_of (128 + of_char d mod 64 :: nat) :: char)" "utf8 s = utf8 t'"
      using eq unfolding tail by simp_all
    have "of_char c div 64 = (of_char d div 64 :: nat)" using arg_cong [OF e(1), of "of_char :: char \<Rightarrow> nat"] hi(1) by simp
    moreover have "of_char c mod 64 = (of_char d mod 64 :: nat)" using arg_cong [OF e(2), of "of_char :: char \<Rightarrow> nat"] hi(2) by simp
    ultimately have "of_char c = (of_char d :: nat)" by (metis div_mult_mod_eq)
    then have "c = d" by simp
    then show ?thesis using Cons.IH [OF e(3)] t by simp
  qed
qed

end
