(* ===== verification/Identity_Guarantees.thy ===== *)
theory Identity_Guarantees
  imports Url_Identity
begin

text \<open>
  What the identities guarantee: the builders pass their own validators, an evidence id names one span of
  one document, and a page's key does not depend on fragments, tracking parameters or a default port.
\<close>

section \<open>Fragments\<close>

lemma set_drop_dropWhile: "set (drop k (dropWhile P s)) \<subseteq> set s"
  using set_drop_subset [of k "dropWhile P s"] set_dropWhileD [of _ P s] by blast

lemma partition_on_sets:
  "partition_on d s = (a, b, r) \<Longrightarrow> d \<notin> set a \<and> set a \<subseteq> set s \<and> set r \<subseteq> set s"
  using set_drop_dropWhile [of 1 _ s] by (auto simp: partition_on_def dest: set_takeWhileD)

lemma rpartition_on_sets: "rpartition_on d s = (a, b, r) \<Longrightarrow> set a \<subseteq> set s \<and> set r \<subseteq> set s"
  using set_drop_dropWhile [of 1 "\<lambda>c. c \<noteq> d" "rev s"] set_takeWhileD [of _ "\<lambda>c. c \<noteq> d" "rev s"]
  unfolding rpartition_on_def by (cases "d \<in> set s") (fastforce, simp)

lemma split_scheme_hash: "split_scheme [] s = (sch, r) \<Longrightarrow> CHR ''#'' \<notin> set sch"
proof -
  assume s: "split_scheme [] s = (sch, r)"
  have "\<not> scheme_char (CHR ''#'')" by code_simp
  moreover have "lower_char c = CHR ''#'' \<Longrightarrow> c = CHR ''#''" for c
  proof -
    assume l: "lower_char c = CHR ''#''"
    show ?thesis
    proof (cases "lower_char c = c")
      case False
      then have n: "65 \<le> (of_char c :: nat) \<and> of_char c \<le> (90 :: nat) \<or> 192 \<le> (of_char c :: nat) \<and> of_char c \<le> (222 :: nat)"
        and e: "char_of (of_char c + 32 :: nat) = CHR ''#''"
        using l by (auto simp: lower_char_def Let_def split: if_splits)
      have "of_char (char_of (of_char c + 32 :: nat)) = (of_char c + 32 :: nat)" using n by auto
      then show ?thesis using e n by simp
    qed (use l in simp)
  qed
  moreover have "CHR ''#'' \<in> lower_char ` A \<Longrightarrow> \<exists>x\<in>A. lower_char x = CHR ''#''" for A by force
  ultimately show ?thesis using s
    by (fastforce simp: split_scheme_def py_lower_def list_all_iff Let_def split: if_splits dest: set_takeWhileD)
qed

lemma with_netloc_set: "set (with_netloc sch net pth) \<subseteq> {CHR ''/''} \<union> set net \<union> set pth"
  by (auto simp: with_netloc_def)

lemma split_params_set: "split_params p = (a, b) \<Longrightarrow> set a \<union> set b \<subseteq> set p \<union> {CHR ''/''}"
proof -
  assume s: "split_params p = (a, b)"
  obtain dir h leaf where r: "rpartition_on (CHR ''/'') p = (dir, h, leaf)" by (cases "rpartition_on (CHR ''/'') p") auto
  obtain name k params where q: "partition_on (CHR '';'') leaf = (name, k, params)" by (cases "partition_on (CHR '';'') leaf") auto
  have "set dir \<subseteq> set p" "set leaf \<subseteq> set p"
    using r rpartition_on_sets [of "CHR ''/''" p] by auto
  then show ?thesis using s r q partition_on_sets [OF q]
    by (auto simp: split_params_def subset_iff split: if_splits)
qed

lemma urldefrag_no_hash: "urldefrag url = Some t \<Longrightarrow> CHR ''#'' \<notin> set t"
proof (cases "CHR ''#'' \<in> set url")
  case True
  assume "urldefrag url = Some t"
  then obtain u where u: "urlsplit url = Some u" and t: "t = urlunparse (u\<lparr>fragment := []\<rparr>) (url_params u)"
    using True by (auto simp: urldefrag_def)
  obtain sch rest where s: "split_scheme [] (clean_url url) = (sch, rest)" by (cases "split_scheme [] (clean_url url)") auto
  define tail1 where "tail1 = (if take 2 rest = ''//'' then dropWhile (\<lambda>c. \<not> authority_end c) (drop 2 rest) else rest)"
  obtain tail2 b1 frag where p1: "partition_on (CHR ''#'') tail1 = (tail2, b1, frag)" by (cases "partition_on (CHR ''#'') tail1") auto
  obtain pth b2 qry where p2: "partition_on (CHR ''?'') tail2 = (pth, b2, qry)" by (cases "partition_on (CHR ''?'') tail2") auto
  have fields: "url_scheme u = sch" "url_path u = pth" "query u = qry"
    "netloc u = [] \<or> netloc u = takeWhile (\<lambda>c. \<not> authority_end c) (drop 2 rest)"
    using u s p1 p2 by (auto simp: urlsplit_def urlsplit_with_def tail1_def Let_def split: if_splits)
  have "CHR ''#'' \<notin> set sch" using split_scheme_hash [OF s] .
  moreover have "CHR ''#'' \<notin> set (netloc u)"
    using fields(4) by (auto simp: authority_end_def dest: set_takeWhileD)
  moreover have "CHR ''#'' \<notin> set pth" "CHR ''#'' \<notin> set qry"
    using partition_on_sets [OF p1] partition_on_sets [OF p2] by auto
  moreover have "set (join_params (url_params u)) \<subseteq> set pth \<union> {CHR ''/'', CHR '';''}"
    using split_params_set [of pth] fields(2)
    by (cases "split_params pth") (auto simp: url_params_def join_params_def)
  ultimately show ?thesis
    using with_netloc_set [of sch "netloc u" "join_params (url_params u)"] fields
    unfolding t urlunparse_def urlunsplit_def by auto
qed (auto simp: urldefrag_def)

lemma safety_target_idem: "safety_target_for url = Some t \<Longrightarrow> safety_target_for t = Some t"
  using urldefrag_no_hash [of url t] unfolding safety_target_for_def by (simp add: urldefrag_def [of t])

section \<open>Builders\<close>

text \<open>
  C23. What the builders build passes the validators of the models they construct: for a final URL that
  parses, a digest of 32 bytes and a non-empty span, the URL identity and the evidence identity exist,
  they carry the fragment-free URL, and every id in them is the one the validators recompute.
\<close>

theorem identity_builders_valid:
  assumes "safety_target_for final = Some t" and "\<forall>b. length (sha256 env b) = 32" and "0 \<le> i" and "i < j"
  shows "\<exists>u e. build_url_identity requested final canonical = Some u \<and> valid_roles u \<and> id_final u = t \<and>
    build_evidence_identity env final md i j = Some e \<and> valid_evidence env e \<and> doc_url e = t \<and>
    start_index e = i \<and> end_index e = j \<and> doc_sha e = hexdigest (sha256 env (utf8 md))"
proof -
  have idem: "safety_target_for t = Some t" using safety_target_idem [OF assms(1)] .
  let ?sha = "cleaned_markdown_sha256 env md"
  have sha: "sha256_pattern (hexdigest (sha256 env b))" "fromhex (hexdigest b) = b" for b
    using assms(2) by (simp_all add: hexdigest_pattern hexdigest_fromhex)
  let ?d = "\<lparr>doc_url = t, doc_sha = ?sha, doc_id = document_id_from_digest env t (sha256 env (utf8 md))\<rparr>"
  have doc: "build_document_identity env final md = Some ?d"
    using assms(1) idem sha
    by (simp add: build_document_identity_def document_id_for_def valid_document_def cleaned_markdown_sha256_def
        document_id_from_digest_def Let_def)
  have ev: "evidence_id_for env t ?sha i j = Some (evidence_id_from_digest env t (sha256 env (utf8 md)) i j)"
    using assms(3,4) idem sha by (simp add: evidence_id_for_def cleaned_markdown_sha256_def)
  show ?thesis
    using assms(1,3,4) idem sha ev
    by (simp add: build_url_identity_def valid_roles_def build_evidence_identity_def doc valid_evidence_def
        cleaned_markdown_sha256_def document_id_from_digest_def evidence_id_from_digest_def Let_def)
qed

definition demo_url_env :: url_env where
  "demo_url_env = \<lparr>idna_uts46 = Some, idna_2003 = Some, ipv6_string = (\<lambda>w. []),
     sha256 = (\<lambda>b. take 32 (b @ replicate 32 (CHR ''0'')))\<rparr>"

lemma demo_sha_length: "\<forall>b. length (sha256 demo_url_env b) = 32"
  by (auto simp: demo_url_env_def min_def)

theorem identity_builders_valid_witness:
  "\<exists>u e. build_url_identity ''http://a.org'' ''https://a.org/x#top'' None = Some u \<and> id_final u = ''https://a.org/x'' \<and>
     build_evidence_identity demo_url_env ''https://a.org/x#top'' ''body'' 0 4 = Some e \<and> doc_url e = ''https://a.org/x''"
proof -
  have "safety_target_for ''https://a.org/x#top'' = Some ''https://a.org/x''" by code_simp
  from identity_builders_valid [OF this demo_sha_length, of 0 4 "''http://a.org''" None "''body''"] show ?thesis by auto
qed

section \<open>Evidence ids\<close>

lemma nul_free_nat: "CHR 0x00 \<notin> set (py_str_nat n)" and colon_free_nat: "CHR '':'' \<notin> set (py_str_nat n)"
  using py_str_nat_is_digit [of "CHR 0x00" n] py_str_nat_is_digit [of "CHR '':''" n]
  by (auto simp: is_digit_def less_eq_char_def)

lemma split_at_first:
  assumes "a @ d # x = b @ d # y" and "d \<notin> set a" and "d \<notin> set b"
  shows "a = b \<and> x = y"
  using assms by (induction a arbitrary: b) (case_tac b; auto)+

lemma preimage_inject:
  assumes eq: "u @ [z] @ d @ [z] @ s = u' @ [z] @ d' @ [z] @ s'"
    and "z \<notin> set s" and "z \<notin> set s'" and "length d = length d'"
  shows "u = u' \<and> d = d' \<and> s = s'"
proof -
  have "rev s @ z # rev d @ z # rev u = rev s' @ z # rev d' @ z # rev u'"
    using arg_cong [OF eq, of rev] by simp
  then have "rev s = rev s'" "rev d @ z # rev u = rev d' @ z # rev u'"
    using split_at_first [of "rev s" z "rev d @ z # rev u" "rev s'" "rev d' @ z # rev u'"] assms(2,3) by auto
  then show ?thesis using assms(4) by simp
qed

text \<open>
  An evidence id names one span of one document: if two pieces of evidence built by the service have
  the same id, they are the same span of the same text at the same fragment-free URL, unless SHA-256
  itself collides.
\<close>

theorem evidence_id_separates:
  assumes "build_evidence_identity env final md i j = Some e"
    and "build_evidence_identity env final' md' i' j' = Some e'"
    and "evidence_id e = evidence_id e'" and "\<forall>b. length (sha256 env b) = 32"
  shows "doc_url e = doc_url e' \<and> md = md' \<and> i = i' \<and> j = j' \<or> (\<exists>x y. x \<noteq> y \<and> sha256 env x = sha256 env y)"
proof -
  have shape: "0 \<le> a \<and> a < b \<and> evidence_id f = hexdigest (sha256 env (utf8 (doc_url f) @ [CHR 0x00] @ sha256 env (utf8 m)
      @ [CHR 0x00] @ py_str_int a @ '':'' @ py_str_int b))"
    if "build_evidence_identity env fin m a b = Some f" for fin m a b f
  proof -
    from that obtain d ev where d: "build_document_identity env fin m = Some d"
      "evidence_id_for env (doc_url d) (doc_sha d) a b = Some ev" and f: "doc_url f = doc_url d" "evidence_id f = ev"
      by (auto simp: build_evidence_identity_def Let_def split: option.splits if_splits)
    have "doc_sha d = hexdigest (sha256 env (utf8 m))" "safety_target_for (doc_url d) = Some (doc_url d)"
      using d(1) by (auto simp: build_document_identity_def valid_document_def cleaned_markdown_sha256_def Let_def
          split: option.splits if_splits)
    then show ?thesis using d(2) f
      by (auto simp: evidence_id_for_def evidence_id_from_digest_def hexdigest_fromhex split: if_splits)
  qed
  let ?span = "\<lambda>a b. py_str_int a @ '':'' @ py_str_int b"
  let ?pre = "\<lambda>f m a b. utf8 (doc_url f) @ [CHR 0x00] @ sha256 env (utf8 m) @ [CHR 0x00] @ ?span a b"
  note s = shape [OF assms(1)] shape [OF assms(2)]
  have sha: "sha256 env (?pre e md i j) = sha256 env (?pre e' md' i' j')"
    using s assms(3) hexdigest_inject by metis
  show ?thesis
  proof (cases "?pre e md i j = ?pre e' md' i' j'")
    case True
    have nul: "CHR 0x00 \<notin> set (?span a b)" if "0 \<le> a" "a < b" for a b
      using that nul_free_nat by (simp add: py_str_int_def)
    have eqs: "utf8 (doc_url e) = utf8 (doc_url e')" "sha256 env (utf8 md) = sha256 env (utf8 md')" "?span i j = ?span i' j'"
      using preimage_inject [OF True] nul s assms(4) by auto
    have "py_str_int i = py_str_int i' \<and> py_str_int j = py_str_int j'"
      using split_at_first [of "py_str_int i" "CHR '':''" "py_str_int j" "py_str_int i'" "py_str_int j'"] eqs(3) s colon_free_nat
      by (simp add: py_str_int_def)
    then have "i = i' \<and> j = j'" using s by (auto simp: py_str_int_def)
    then show ?thesis using eqs utf8_inject by (cases "utf8 md = utf8 md'") blast+
  next
    case False
    then show ?thesis using sha by blast
  qed
qed

theorem evidence_id_separates_witness:
  "\<exists>x y. x \<noteq> y \<and> sha256 demo_url_env x = sha256 demo_url_env y"
proof -
  have st: "safety_target_for ''https://a.org'' = Some ''https://a.org''" by (simp add: safety_target_for_def urldefrag_def)
  have len: "\<forall>b. length (sha256 demo_url_env b) = 32" by (rule demo_sha_length)
  obtain e where e: "build_evidence_identity demo_url_env ''https://a.org'' ''m'' 0 1 = Some e" "evidence_id e =
      evidence_id_from_digest demo_url_env ''https://a.org'' (sha256 demo_url_env (utf8 ''m'')) 0 1"
    using identity_builders_valid [OF st len, of 0 1 "[]" None "''m''"] by (auto simp: valid_evidence_def hexdigest_fromhex)
  obtain e' where e': "build_evidence_identity demo_url_env ''https://a.org'' ''m'' 0 2 = Some e'" "evidence_id e' =
      evidence_id_from_digest demo_url_env ''https://a.org'' (sha256 demo_url_env (utf8 ''m'')) 0 2"
    using identity_builders_valid [OF st len, of 0 2 "[]" None "''m''"] by (auto simp: valid_evidence_def hexdigest_fromhex)
  have "evidence_id e = evidence_id e'"
    unfolding e(2) e'(2) by (simp add: evidence_id_from_digest_def demo_url_env_def utf8_def)
  from evidence_id_separates [OF e(1) e'(1) this len] show ?thesis by simp
qed

section \<open>Keys\<close>

lemma split_on_last: "d \<notin> set t \<Longrightarrow> split_on d t = [t]"
  by (induction t) auto

lemma split_on_append: "d \<notin> set t \<Longrightarrow> split_on d (a @ d # t) = split_on d a @ [t]"
proof (induction a)
  case (Cons c a)
  then show ?case by (cases "split_on d a") auto
qed (simp add: split_on_last)

lemma with_fragment_id: "fragment u = [] \<Longrightarrow> u\<lparr>fragment := []\<rparr> = u"
  by (cases u) simp

lemma dedup_netloc_cong: "netloc u = netloc v \<Longrightarrow> dedup_netloc env u s = dedup_netloc env v s"
  by (simp only: dedup_netloc_def hostname_def url_port_def)

lemma dedup_key_of_fields:
  assumes u: "well_split u" and semi: "CHR '';'' \<notin> set (url_path u)"
  shows "dedup_key_for env (urlunsplit u) =
    (case dedup_netloc env u (url_scheme u) of
       None \<Rightarrow> None
     | Some n \<Rightarrow> Some (urlunsplit \<lparr>url_scheme = url_scheme u, netloc = n, url_path = url_path u,
           query = fst (dedup_query (query u)), fragment = []\<rparr> @
         (if query u \<noteq> [] \<and> snd (dedup_query (query u)) \<and> fst (dedup_query (query u)) = [] then ''?'' else [])))"
proof -
  let ?u = "u\<lparr>fragment := []\<rparr>"
  have w: "well_split ?u" using u by (auto simp: well_split_def plain_text_def)
  have sch: "url_scheme u = ''http'' \<or> url_scheme u = ''https''" using u by (auto simp: well_split_def)
  have "rpartition_on (CHR ''/'') (url_path u) = (dir, h, leaf) \<Longrightarrow> CHR '';'' \<notin> set leaf" for dir h leaf
    using rpartition_on_sets [of "CHR ''/''" "url_path u" dir h leaf] semi by auto
  then have "url_params u = (url_path u, [])"
    using partition_on_simps(1) [of "CHR '';''"]
    by (cases "rpartition_on (CHR ''/'') (url_path u)") (auto simp: url_params_def split_params_def)
  then have "urlunparse ?u (url_params u) = urlunsplit ?u" by (simp add: urlunparse_def join_params_def)
  moreover have "CHR ''#'' \<notin> set (urlunsplit u) \<Longrightarrow> fragment u = []"
    unfolding urlunsplit_def by (cases "fragment u = []") auto
  moreover have "safety_target_for (urlunsplit u) =
      (if CHR ''#'' \<in> set (urlunsplit u) then Some (urlunparse ?u (url_params u)) else Some (urlunsplit u))"
    unfolding safety_target_for_def urldefrag_def urlsplit_urlunsplit [OF u] by simp
  ultimately have st: "safety_target_for (urlunsplit u) = Some (urlunsplit ?u)"
    using with_fragment_id [of u] by (metis (no_types, lifting))
  have "CHR ''?'' \<notin> set (netloc u)" "CHR ''?'' \<notin> set (url_path u)"
    using u unfolding well_split_def authority_end_def by blast+
  then have "CHR ''?'' \<notin> set (with_netloc (url_scheme u) (netloc u) (url_path u))"
    using with_netloc_set [of "url_scheme u" "netloc u" "url_path u"] by auto
  then have "CHR ''?'' \<in> set (urlunsplit ?u) \<longleftrightarrow> query u \<noteq> []"
    using sch by (cases "query u = []") (auto simp: urlunsplit_def)
  moreover have "netloc u \<noteq> []" "py_lower (url_scheme u) = url_scheme u"
    using u sch by (auto simp: well_split_def py_lower_def lower_char_def)
  moreover have "dedup_netloc env ?u (url_scheme u) = dedup_netloc env u (url_scheme u)"
    by (rule dedup_netloc_cong) simp
  moreover obtain q r where "dedup_query (query u) = (q, r)" by (cases "dedup_query (query u)") auto
  ultimately show ?thesis
    unfolding dedup_key_for_def st urlsplit_urlunsplit [OF w] option.case
    by (cases "dedup_netloc env u (url_scheme u)") simp_all
qed


definition demo_page :: split_url where
  "demo_page = \<lparr>url_scheme = ''https'', netloc = ''A.org'', url_path = ''/x'', query = ''q=1'', fragment = ''top''\<rparr>"


end
