(* ===== verification/Job_Manager.thy ===== *)
theory Job_Manager
  imports Job_Guarantees Url_Identity Json_Text
begin

text \<open>
  \<open>orchestrator/crawl_jobs.py\<close>: the job API over the store, its paging cursors, and the worker that runs
  one job at a time with its attempts.  A manager is the database with the flags of the object.  The
  crawl itself is an argument: a script per attempt of what the runner does, its callbacks into the
  manager and the way it ends, with the API calls of clients that are served while it awaits.  A callback
  that raises ends the runner with that exception.  The clock, the ids of \<open>uuid4\<close>, the JSON text of a
  request, SHA-256 and the outcome of waiting for an API slot are arguments.  The re-validation of a
  status by pydantic and the asyncio primitives themselves are not modelled.
\<close>

section \<open>Settings and state\<close>

record manager_settings =
  jobs_enabled :: bool
  has_store :: bool
  has_runner :: bool
  synchronous_max_pages :: int
  max_attempts :: int
  max_page_items :: int
  max_page_bytes :: int
  raw_html_enabled :: bool
  admission_retry_after_s :: int

record manager_env =
  ids :: url_env
  reader :: json_reader
  request_json :: "crawl_request \<Rightarrow> string"

text \<open>\<open>active_cancel\<close> maps a running job to whether its event is set; \<open>worker_alive\<close>: there is a task, not done.\<close>

record job_manager =
  mgr_db :: job_db
  active_cancel :: "string \<rightharpoonup> bool"
  closing :: bool
  store_available :: bool
  worker_alive :: bool

datatype api_error =
    Jobs_Disabled
  | Worker_Unavailable
  | Api_Capacity int
  | Raw_Html_Persistence_Disabled
  | Invalid_Job_Scope
  | Invalid_Idempotency_Key
  | Invalid_Cursor
  | Invalid_Page_Limit
  | Store_Error "job_record store_error"
  | Integer_Overflow

type_synonym 'a api_result = "(api_error + 'a) \<times> job_manager"

definition make_manager :: "manager_settings \<Rightarrow> job_db \<Rightarrow> job_manager" where
  "make_manager s db = \<lparr>mgr_db = db, active_cancel = Map.empty, closing = False,
     store_available = (\<not> jobs_enabled s), worker_alive = False\<rparr>"

definition healthy :: "manager_settings \<Rightarrow> job_manager \<Rightarrow> bool" where
  "healthy s m \<longleftrightarrow> \<not> jobs_enabled s \<or> store_available m \<and> worker_alive m"

text \<open>\<open>start\<close>, over a store whose file is open; \<open>None\<close> is the \<open>RuntimeError\<close>.\<close>

definition start_manager :: "store_config \<Rightarrow> manager_settings \<Rightarrow> pyfloat \<Rightarrow> job_manager \<Rightarrow> job_manager option" where
  "start_manager cfg s now m =
     (if \<not> jobs_enabled s then Some m
      else if \<not> has_store s \<or> \<not> has_runner s then None
      else Some (m\<lparr>mgr_db := snd (recover_interrupted cfg (max_attempts s) now (mgr_db m)),
             closing := False, store_available := True, worker_alive := True\<rparr>))"

definition close_manager :: "job_manager \<Rightarrow> job_manager" where
  "close_manager m = m\<lparr>closing := True, worker_alive := False, active_cancel := Map.empty\<rparr>"

section \<open>Scopes and keys\<close>

definition max_scope_bytes :: nat where "max_scope_bytes = 128"

definition max_idempotency_key_bytes :: nat where "max_idempotency_key_bytes = 128"

definition max_cursor_bytes :: nat where "max_cursor_bytes = 512"

definition bounded_header :: "string \<Rightarrow> nat \<Rightarrow> string option" where
  "bounded_header value max_bytes =
     (let n = py_strip value
      in if n = [] \<or> list_ex (\<lambda>c. of_char c < (32::nat)) n then None
         else if utf8_length n > max_bytes then None
         else Some n)"

definition scope_hash_of :: "manager_env \<Rightarrow> string \<Rightarrow> string option" where
  "scope_hash_of env scope =
     map_option (\<lambda>b. hexdigest (sha256 (ids env) (utf8 b))) (bounded_header scope max_scope_bytes)"

definition idempotency_hash_of :: "manager_env \<Rightarrow> string \<Rightarrow> string \<Rightarrow> string option" where
  "idempotency_hash_of env scope key =
     map_option (\<lambda>b. hexdigest (sha256 (ids env) (scope @ [CHR 0x00] @ utf8 b)))
       (bounded_header key max_idempotency_key_bytes)"

definition request_fingerprint_of :: "manager_env \<Rightarrow> crawl_request \<Rightarrow> string" where
  "request_fingerprint_of env req = hexdigest (sha256 (ids env) (utf8 (request_json env req)))"

definition job_id_ok :: "string \<Rightarrow> bool" where
  "job_id_ok i \<longleftrightarrow> length i = 32 \<and> list_all (\<lambda>c. c \<in> set ''0123456789abcdef'') i"

section \<open>Cursors\<close>

text \<open>\<open>json.dumps\<close> with sorted keys.\<close>

definition cursor_payload :: "string \<Rightarrow> int \<Rightarrow> json" where
  "cursor_payload i n = JObj [(''after'', JInt n), (''job'', JStr i), (''v'', JInt 1)]"

definition cursor_for :: "string \<Rightarrow> int \<Rightarrow> string" where
  "cursor_for i n = b64_encode (json_dumps (\<lambda>x. []) (cursor_payload i n))"

text \<open>Only an \<open>int\<close> that is no \<open>bool\<close> counts for \<open>after\<close>, while \<open>v\<close> may be any value equal to 1.\<close>

definition decode_cursor :: "json_reader \<Rightarrow> string \<Rightarrow> string option \<Rightarrow> int option" where
  "decode_cursor rd i cursor =
     (case cursor of
        None \<Rightarrow> Some 0
      | Some c \<Rightarrow>
          if list_ex (\<lambda>x. of_char x \<ge> (128::nat)) c then None
          else if length c > max_cursor_bytes then None
          else case Option.bind (b64_decode (c @ b64_padding c)) (\<lambda>b. Option.bind (read_bytes rd b) (json_loads rd)) of
            Some (JObj d) \<Rightarrow>
              if \<not> py_eq (jget d ''v'') (JInt 1) \<or> \<not> py_eq (jget d ''job'') (JStr i) then None
              else (case jget d ''after'' of JInt n \<Rightarrow> if n < 0 then None else Some n | _ \<Rightarrow> None)
          | _ \<Rightarrow> None)"

section \<open>The API\<close>

record job_progress =
  prog_pages_target :: int
  prog_pages_processed :: int
  prog_pages_succeeded :: int
  prog_pages_failed :: int
  prog_results_available :: nat
  prog_attempts :: int

record job_status =
  st_job_id :: string
  st_state :: job_state
  st_request :: crawl_request
  st_progress :: job_progress
  st_failure_summaries :: "string list"
  st_created_at :: pyfloat
  st_started_at :: "pyfloat option"
  st_terminal_at :: "pyfloat option"
  st_retention_deadline :: "pyfloat option"
  st_cancel_requested :: bool
  st_outcome :: "string option"
  st_warnings :: "string list"

definition status_from_record :: "job_record \<Rightarrow> job_status" where
  "status_from_record r =
     (let j = rec_row r in
      \<lparr>st_job_id = job_id j, st_state = state j, st_request = job_request j,
       st_progress = \<lparr>prog_pages_target = pages_target j, prog_pages_processed = pages_processed j,
         prog_pages_succeeded = pages_succeeded j, prog_pages_failed = pages_failed j,
         prog_results_available = results_available r, prog_attempts = attempts j\<rparr>,
       st_failure_summaries = failure_summaries j, st_created_at = created_at j,
       st_started_at = started_at j, st_terminal_at = terminal_at j,
       st_retention_deadline = retention_deadline j, st_cancel_requested = cancel_requested j,
       st_outcome = outcome j, st_warnings = warnings j\<rparr>)"

text \<open>An operation inside \<open>async with self._api_slot()\<close>: whether a slot came free in time is an argument.\<close>

definition with_slot :: "manager_settings \<Rightarrow> bool \<Rightarrow> (job_manager \<Rightarrow> 'a api_result) \<Rightarrow> job_manager \<Rightarrow> 'a api_result" where
  "with_slot s admitted op m =
     (if \<not> admitted then (Inl (Api_Capacity (admission_retry_after_s s)), m)
      else if \<not> jobs_enabled s \<or> \<not> has_store s then (Inl Jobs_Disabled, m)
      else op m)"

text \<open>A store call: its database is kept, its error passed on.\<close>

definition on_store :: "'a outcome_of \<Rightarrow> job_manager \<Rightarrow> ('a \<Rightarrow> job_manager \<Rightarrow> 'b api_result) \<Rightarrow> 'b api_result" where
  "on_store call m k =
     (case call of
        (Inl e, db) \<Rightarrow> (Inl (Store_Error e), m\<lparr>mgr_db := db\<rparr>)
      | (Inr x, db) \<Rightarrow> k x (m\<lparr>mgr_db := db\<rparr>))"

definition create_job ::
  "manager_env \<Rightarrow> store_config \<Rightarrow> manager_settings \<Rightarrow> bool \<Rightarrow> crawl_request \<Rightarrow> string \<Rightarrow> string \<Rightarrow> string \<Rightarrow> pyfloat
   \<Rightarrow> job_manager \<Rightarrow> (job_status \<times> bool \<times> int) api_result" where
  "create_job env cfg s admitted req scope key i now =
     with_slot s admitted (\<lambda>m.
       if \<not> healthy s m then (Inl Worker_Unavailable, m)
       else if Cap_Raw_Html \<in> set (crawl_capabilities req) \<and> \<not> raw_html_enabled s
       then (Inl Raw_Html_Persistence_Disabled, m)
       else case scope_hash_of env scope of
         None \<Rightarrow> (Inl Invalid_Job_Scope, m)
       | Some sh \<Rightarrow>
           (case idempotency_hash_of env sh key of
              None \<Rightarrow> (Inl Invalid_Idempotency_Key, m)
            | Some ih \<Rightarrow>
                on_store (claim cfg i sh ih (request_fingerprint_of env req) req now (mgr_db m)) m
                  (\<lambda>(r, replayed) m'. (Inr (status_from_record r, replayed, synchronous_max_pages s), m'))))"

definition job_status_op ::
  "manager_env \<Rightarrow> store_config \<Rightarrow> manager_settings \<Rightarrow> bool \<Rightarrow> string \<Rightarrow> string \<Rightarrow> pyfloat \<Rightarrow> job_manager
   \<Rightarrow> job_status api_result" where
  "job_status_op env cfg s admitted i scope now =
     with_slot s admitted (\<lambda>m.
       if \<not> job_id_ok i then (Inl (Store_Error Job_Not_Found), m)
       else case scope_hash_of env scope of
         None \<Rightarrow> (Inl Invalid_Job_Scope, m)
       | Some sh \<Rightarrow>
           on_store (get_job cfg i sh now (mgr_db m)) m (\<lambda>r m'. (Inr (status_from_record r), m')))"

definition cancel_job ::
  "manager_env \<Rightarrow> store_config \<Rightarrow> manager_settings \<Rightarrow> bool \<Rightarrow> string \<Rightarrow> string \<Rightarrow> pyfloat \<Rightarrow> job_manager
   \<Rightarrow> job_status api_result" where
  "cancel_job env cfg s admitted i scope now =
     with_slot s admitted (\<lambda>m.
       if \<not> job_id_ok i then (Inl (Store_Error Job_Not_Found), m)
       else case scope_hash_of env scope of
         None \<Rightarrow> (Inl Invalid_Job_Scope, m)
       | Some sh \<Rightarrow>
           on_store (request_cancel cfg i sh now (mgr_db m)) m
             (\<lambda>r m'. (Inr (status_from_record r),
                m'\<lparr>active_cancel := (case active_cancel m' i of
                     None \<Rightarrow> active_cancel m'
                   | Some _ \<Rightarrow> (active_cancel m')(i \<mapsto> True))\<rparr>)))"

record job_result_page =
  jp_state :: job_state
  jp_results :: "fetch_result list"
  jp_next_cursor :: "string option"
  jp_complete :: bool
  jp_returned_items :: nat
  jp_returned_bytes :: nat

definition page_answer :: "string \<Rightarrow> string option \<Rightarrow> job_record \<Rightarrow> result_page \<Rightarrow> job_result_page" where
  "page_answer i cursor r pg =
     (let complete = (is_terminal (state (rec_row r)) \<and> \<not> has_more pg \<and> last_ordinal pg \<ge> int (results_available r))
      in \<lparr>jp_state = state (rec_row r), jp_results = page_results pg,
          jp_next_cursor =
            (if page_results pg \<noteq> [] \<and> (has_more pg \<or> \<not> complete) then Some (cursor_for i (last_ordinal pg))
             else if page_results pg = [] \<and> \<not> complete then cursor else None),
          jp_complete = complete, jp_returned_items = length (page_results pg),
          jp_returned_bytes = returned_bytes pg\<rparr>)"

text \<open>SQLite refuses an integer parameter above \<open>2 ^ 63 - 1\<close> with an \<open>OverflowError\<close>, which nothing handles.\<close>

definition page_read :: "job_record store_error + 'a \<Rightarrow> bool" where
  "page_read r \<longleftrightarrow> (case r of Inl Job_Not_Found \<Rightarrow> False | Inl (Job_Expired _) \<Rightarrow> False | _ \<Rightarrow> True)"

definition results_op ::
  "manager_env \<Rightarrow> store_config \<Rightarrow> manager_settings \<Rightarrow> bool \<Rightarrow> string \<Rightarrow> string \<Rightarrow> string option \<Rightarrow> int option \<Rightarrow> int option
   \<Rightarrow> pyfloat \<Rightarrow> job_manager \<Rightarrow> job_result_page api_result" where
  "results_op env cfg s admitted i scope cursor max_items max_bytes now =
     with_slot s admitted (\<lambda>m.
       if \<not> job_id_ok i then (Inl (Store_Error Job_Not_Found), m)
       else
         (let items = (case max_items of None \<Rightarrow> max_page_items s | Some n \<Rightarrow> n);
              bytes = (case max_bytes of None \<Rightarrow> max_page_bytes s | Some n \<Rightarrow> n)
          in if \<not> (1 \<le> items \<and> items \<le> max_page_items s) \<or> \<not> (1 \<le> bytes \<and> bytes \<le> max_page_bytes s)
             then (Inl Invalid_Page_Limit, m)
             else case decode_cursor (reader env) i cursor of
               None \<Rightarrow> (Inl Invalid_Cursor, m)
             | Some after \<Rightarrow>
                 (case scope_hash_of env scope of
                    None \<Rightarrow> (Inl Invalid_Job_Scope, m)
                  | Some sh \<Rightarrow>
                      (let call = result_page_op cfg i sh after items bytes now (mgr_db m)
                       in if after \<ge> 2 ^ 63 \<and> page_read (fst call) then (Inl Integer_Overflow, m)
                          else on_store call m
                            (\<lambda>(r, pg) m'. if after > int (results_available r) then (Inl Invalid_Cursor, m')
                                           else (Inr (page_answer i cursor r pg), m'))))))"

section \<open>API calls\<close>

text \<open>A call of a client, with the id a created job would get and whether a slot is free; its effect.\<close>

datatype api_call =
    Call_Create bool crawl_request string string string pyfloat
  | Call_Status bool string string pyfloat
  | Call_Cancel bool string string pyfloat
  | Call_Results bool string string "string option" "int option" "int option" pyfloat

primrec serve :: "manager_env \<Rightarrow> store_config \<Rightarrow> manager_settings \<Rightarrow> api_call \<Rightarrow> job_manager \<Rightarrow> job_manager" where
  "serve env cfg s (Call_Create adm req scope key i now) m = snd (create_job env cfg s adm req scope key i now m)"
| "serve env cfg s (Call_Status adm i scope now) m = snd (job_status_op env cfg s adm i scope now m)"
| "serve env cfg s (Call_Cancel adm i scope now) m = snd (cancel_job env cfg s adm i scope now m)"
| "serve env cfg s (Call_Results adm i scope cursor mi mb now) m =
     snd (results_op env cfg s adm i scope cursor mi mb now m)"

definition serve_all :: "manager_env \<Rightarrow> store_config \<Rightarrow> manager_settings \<Rightarrow> api_call list \<Rightarrow> job_manager \<Rightarrow> job_manager" where
  "serve_all env cfg s calls m = fold (serve env cfg s) calls m"

section \<open>Attempts\<close>

record crawl_answer =
  ans_outcome :: string
  ans_pages_succeeded :: int
  ans_warnings :: "string list"

datatype runner_event =
    On_Result pyfloat fetch_result
  | On_Failure pyfloat string string
  | Served api_call

datatype runner_end =
    Responds crawl_answer
  | Raises_Cancelled
  | Raises_Capacity
  | Raises_Deadline
  | Raises_Other
  | Task_Cancelled

text \<open>One attempt: what happens while the runner is awaited, how it ends, and what is served during the backoff.\<close>

record attempt_script =
  during :: "runner_event list"
  ending :: runner_end
  backoff :: "api_call list"

definition retryable_job_outcomes :: "string list" where
  "retryable_job_outcomes =
     [''capacity_unavailable'', ''deadline_cancelled'', ''rate_limited'', ''upstream_failure'', ''upstream_timeout'']"

definition retryable_response :: "crawl_answer \<Rightarrow> bool" where
  "retryable_response a \<longleftrightarrow> ans_outcome a \<in> set retryable_job_outcomes \<and> ans_pages_succeeded a = 0"

definition failure_key_of :: "manager_env \<Rightarrow> string \<Rightarrow> string" where
  "failure_key_of env url =
     hexdigest (sha256 (ids env) (utf8 (case dedup_key_for (ids env) url of Some k \<Rightarrow> k | None \<Rightarrow> url)))"

text \<open>An empty final URL counts as none.\<close>

definition result_key_of :: "manager_env \<Rightarrow> fetch_result \<Rightarrow> string" where
  "result_key_of env r =
     (let url = (case res_final_url r of Some u \<Rightarrow> if u = [] then res_requested_url r else u | None \<Rightarrow> res_requested_url r)
      in hexdigest (sha256 (ids env) (utf8 (case dedup_key_for (ids env) url of Some k \<Rightarrow> k | None \<Rightarrow> url))))"

definition max_job_failure_summary_chars :: nat where "max_job_failure_summary_chars = 256"

definition bounded_failure :: "string \<Rightarrow> string \<Rightarrow> string" where
  "bounded_failure url reason = take max_job_failure_summary_chars (url @ '' '' @ reason)"

definition append_job_failure ::
  "manager_env \<Rightarrow> store_config \<Rightarrow> string \<Rightarrow> string \<Rightarrow> string \<Rightarrow> pyfloat \<Rightarrow> job_db \<Rightarrow> unit outcome_of" where
  "append_job_failure env cfg i url reason now db =
     append_failure cfg i (failure_key_of env url) (bounded_failure url reason) now db"

definition append_job_result ::
  "manager_env \<Rightarrow> store_config \<Rightarrow> string \<Rightarrow> fetch_result \<Rightarrow> pyfloat \<Rightarrow> job_db \<Rightarrow> unit outcome_of" where
  "append_job_result env cfg i r now db =
     (case append_result cfg i (result_key_of env r) r [failure_key_of env (res_requested_url r)] now db of
        (Inl (Result_Too_Large n), db') \<Rightarrow>
          append_job_failure env cfg i (res_requested_url r) ''result_too_large'' now db'
      | (Inl e, db') \<Rightarrow> (Inl e, db')
      | (Inr b, db') \<Rightarrow> (Inr (), db'))"

text \<open>What happens while the runner is awaited; the flag is whether a callback raised.\<close>

fun run_events ::
  "manager_env \<Rightarrow> store_config \<Rightarrow> manager_settings \<Rightarrow> string \<Rightarrow> runner_event list \<Rightarrow> job_manager \<Rightarrow> bool \<times> job_manager" where
  "run_events env cfg s i [] m = (False, m)"
| "run_events env cfg s i (On_Result now r # es) m =
     (case append_job_result env cfg i r now (mgr_db m) of
        (Inl e, db) \<Rightarrow> (True, m\<lparr>mgr_db := db\<rparr>)
      | (Inr _, db) \<Rightarrow> run_events env cfg s i es (m\<lparr>mgr_db := db\<rparr>))"
| "run_events env cfg s i (On_Failure now url reason # es) m =
     (case append_job_failure env cfg i url reason now (mgr_db m) of
        (Inl e, db) \<Rightarrow> (True, m\<lparr>mgr_db := db\<rparr>)
      | (Inr _, db) \<Rightarrow> run_events env cfg s i es (m\<lparr>mgr_db := db\<rparr>))"
| "run_events env cfg s i (Served call # es) m = run_events env cfg s i es (serve env cfg s call m)"

text \<open>The response, whether to retry, the last failure, whether the operation was cancelled; \<open>None\<close> is a cancelled task.\<close>

definition run_attempt ::
  "manager_env \<Rightarrow> store_config \<Rightarrow> manager_settings \<Rightarrow> string \<Rightarrow> attempt_script \<Rightarrow> job_manager
   \<Rightarrow> (crawl_answer option \<times> bool \<times> string \<times> bool) option \<times> job_manager" where
  "run_attempt env cfg s i script m0 =
     (let (raised, m) = run_events env cfg s i (during script) m0;
          noted = (\<lambda>why. m\<lparr>mgr_db := append_summary cfg i why (mgr_db m)\<rparr>)
      in case (if raised then Raises_Other else ending script) of
           Responds a \<Rightarrow> (Some (Some a, retryable_response a, ans_outcome a, False), m)
         | Task_Cancelled \<Rightarrow> (None, m)
         | Raises_Cancelled \<Rightarrow> (Some (None, False, ''cancelled'', True), m)
         | Raises_Capacity \<Rightarrow> (Some (None, True, ''capacity_unavailable'', False), noted ''capacity_unavailable'')
         | Raises_Deadline \<Rightarrow> (Some (None, True, ''deadline_cancelled'', False), noted ''deadline_cancelled'')
         | Raises_Other \<Rightarrow> (Some (None, False, ''local_processing_failure'', False), noted ''local_processing_failure''))"

definition event_set :: "string \<Rightarrow> job_manager \<Rightarrow> bool" where
  "event_set i m \<longleftrightarrow> active_cancel m i = Some True"

datatype attempts_end =
    Ended_Cancelled
  | Ended "crawl_answer option" string
  | Ended_By_Error
  | Ended_By_Shutdown

definition finish_cancelled ::
  "store_config \<Rightarrow> string \<Rightarrow> pyfloat \<Rightarrow> job_manager \<Rightarrow> attempts_end \<times> job_manager" where
  "finish_cancelled cfg i now m =
     (case finish cfg i Cancelled (Some ''cancelled'') [] now (mgr_db m) of
        (Inl e, db) \<Rightarrow> (Ended_By_Error, m\<lparr>mgr_db := db\<rparr>)
      | (Inr r, db) \<Rightarrow> (Ended_Cancelled, m\<lparr>mgr_db := db\<rparr>))"

text \<open>The loop; its script for an attempt is the one of the number of attempts made before it.\<close>

fun run_attempts ::
  "nat \<Rightarrow> manager_env \<Rightarrow> store_config \<Rightarrow> manager_settings \<Rightarrow> string \<Rightarrow> (nat \<Rightarrow> attempt_script) \<Rightarrow> pyfloat \<Rightarrow> nat \<Rightarrow> int
   \<Rightarrow> job_manager \<Rightarrow> (attempts_end \<times> job_manager) option" where
  "run_attempts 0 env cfg s i scripts now k made m = None"
| "run_attempts (Suc fuel) env cfg s i scripts now k made m =
     (if event_set i m then Some (finish_cancelled cfg i now m)
      else case run_attempt env cfg s i (scripts k) m of
        (None, m1) \<Rightarrow> Some (Ended_By_Shutdown, m1)
      | (Some (resp, retryable, last_failure, cancelled), m1) \<Rightarrow>
          if cancelled \<or> event_set i m1 then Some (finish_cancelled cfg i now m1)
          else if \<not> retryable \<or> made \<ge> max_attempts s then Some (Ended resp last_failure, m1)
          else
            (let m2 = serve_all env cfg s (backoff (scripts k)) m1
             in if event_set i m2 then Some (finish_cancelled cfg i now m2)
                else case increment_attempt i (mgr_db m2) of
                  (Inl e, db) \<Rightarrow> Some (Ended_By_Error, m2\<lparr>mgr_db := db\<rparr>)
                | (Inr r, db) \<Rightarrow>
                    run_attempts fuel env cfg s i scripts now (Suc k) (attempts (rec_row r)) (m2\<lparr>mgr_db := db\<rparr>)))"

section \<open>Jobs\<close>

definition final_result :: "job_record \<Rightarrow> crawl_answer option \<Rightarrow> string \<Rightarrow> job_state \<times> string \<times> string list" where
  "final_result r resp last_failure =
     (let failed = (pages_failed (rec_row r) > 0); some = (results_available r > 0)
      in (if failed then (if some then Partial else Failed)
          else if (case resp of Some a \<Rightarrow> ans_outcome a = ''completed'' \<or> ans_outcome a = ''limit_reached'' | None \<Rightarrow> False)
          then Completed
          else if some then Partial
          else Failed,
          if failed \<and> resp \<noteq> None then (if some then ''partial'' else ''failed'')
          else (case resp of Some a \<Rightarrow> ans_outcome a | None \<Rightarrow> last_failure),
          (case resp of Some a \<Rightarrow> ans_warnings a | None \<Rightarrow> [])))"

text \<open>How \<open>_run_job\<close> leaves: normally, by an exception, or by the cancellation of its task.\<close>

datatype job_end = Job_Returned | Job_Raised | Job_Shut_Down

definition forget_job :: "string \<Rightarrow> job_manager \<Rightarrow> job_manager" where
  "forget_job i m = m\<lparr>active_cancel := (active_cancel m)(i := None)\<rparr>"

text \<open>\<open>late\<close> is what is served between reading the record and finishing.\<close>

definition run_job ::
  "nat \<Rightarrow> manager_env \<Rightarrow> store_config \<Rightarrow> manager_settings \<Rightarrow> (nat \<Rightarrow> attempt_script) \<Rightarrow> api_call list \<Rightarrow> pyfloat
   \<Rightarrow> job_record \<Rightarrow> job_manager \<Rightarrow> (job_end \<times> job_manager) option" where
  "run_job fuel env cfg s scripts late now rec m0 =
     (let i = job_id (rec_row rec); m = m0\<lparr>active_cancel := (active_cancel m0)(i \<mapsto> False)\<rparr>
      in case run_attempts fuel env cfg s i scripts now 0 (attempts (rec_row rec)) m of
           None \<Rightarrow> None
         | Some (Ended_Cancelled, m1) \<Rightarrow> Some (Job_Returned, forget_job i m1)
         | Some (Ended_By_Error, m1) \<Rightarrow> Some (Job_Raised, forget_job i m1)
         | Some (Ended_By_Shutdown, m1) \<Rightarrow> Some (Job_Shut_Down, forget_job i m1)
         | Some (Ended resp last_failure, m1) \<Rightarrow>
             (case get_any i (mgr_db m1) of
                None \<Rightarrow> Some (Job_Returned, forget_job i m1)
              | Some final \<Rightarrow>
                  (let (st, out, warns) = final_result final resp last_failure;
                       m2 = serve_all env cfg s late m1
                   in case finish cfg i st (Some out) warns now (mgr_db m2) of
                        (Inl e, db) \<Rightarrow> Some (Job_Raised, forget_job i (m2\<lparr>mgr_db := db\<rparr>))
                      | (Inr r, db) \<Rightarrow> Some (Job_Returned, forget_job i (m2\<lparr>mgr_db := db\<rparr>)))))"

text \<open>The flag says that running jobs have to be recovered; no flag: the worker's task was cancelled.\<close>

definition run_claimed_job ::
  "nat \<Rightarrow> manager_env \<Rightarrow> store_config \<Rightarrow> manager_settings \<Rightarrow> (nat \<Rightarrow> attempt_script) \<Rightarrow> api_call list \<Rightarrow> pyfloat
   \<Rightarrow> job_record \<Rightarrow> job_manager \<Rightarrow> (bool option \<times> job_manager) option" where
  "run_claimed_job fuel env cfg s scripts late now rec m =
     (let i = job_id (rec_row rec)
      in case run_job fuel env cfg s scripts late now rec m of
           None \<Rightarrow> None
         | Some (Job_Returned, m1) \<Rightarrow> Some (Some False, m1)
         | Some (Job_Shut_Down, m1) \<Rightarrow> Some (None, m1\<lparr>worker_alive := False\<rparr>)
         | Some (Job_Raised, m1) \<Rightarrow>
             (let noted = append_summary cfg i ''local_processing_failure'' (mgr_db m1)
              in case finish cfg i Failed (Some ''local_processing_failure'') [] now noted of
                   (Inl e, db) \<Rightarrow> Some (Some True, m1\<lparr>mgr_db := db\<rparr>)
                 | (Inr r, db) \<Rightarrow> Some (Some False, m1\<lparr>mgr_db := db\<rparr>)))"

text \<open>
  \<open>_claim_record\<close>: two attempts to claim, with what was served between them and while waiting for a
  wake-up; \<open>woken\<close> is whether that came before the poll interval ran out.
\<close>

definition claim_record ::
  "manager_env \<Rightarrow> store_config \<Rightarrow> manager_settings \<Rightarrow> bool \<Rightarrow> api_call list \<Rightarrow> api_call list \<Rightarrow> bool \<Rightarrow> pyfloat
   \<Rightarrow> job_manager \<Rightarrow> job_record option \<times> job_manager" where
  "claim_record env cfg s recover between waiting woken now m0 =
     (let m = (if recover then m0\<lparr>mgr_db := snd (recover_interrupted cfg (max_attempts s) now (mgr_db m0))\<rparr> else m0);
          (r1, db1) = claim_next cfg now (mgr_db m);
          m1 = m\<lparr>mgr_db := db1, store_available := True\<rparr>
      in case r1 of
           Some r \<Rightarrow> (Some r, m1)
         | None \<Rightarrow>
             (let m2 = serve_all env cfg s between m1; (r2, db2) = claim_next cfg now (mgr_db m2); m3 = m2\<lparr>mgr_db := db2\<rparr>
              in case r2 of
                   Some r \<Rightarrow> (Some r, m3)
                 | None \<Rightarrow>
                     (let m4 = serve_all env cfg s waiting m3
                      in (None, if woken then m4 else m4\<lparr>mgr_db := snd (cleanup cfg now (mgr_db m4))\<rparr>))))"

end
