(* ===== verification/Cursor_Guarantees.thy ===== *)
theory Cursor_Guarantees
  imports Job_Manager
begin

text \<open>
  Paging cursors: what \<open>_cursor\<close> writes \<open>_decode_cursor\<close> reads back, for that job only, and a client that
  follows them sees every result of a closed job once.
\<close>

section \<open>Reading a cursor back\<close>

definition plain_char :: "char \<Rightarrow> bool" where
  "plain_char c \<longleftrightarrow> c \<noteq> CHR 0x22 \<and> c \<noteq> CHR 0x5C \<and> 32 \<le> (of_char c :: nat)"

lemma skip_ws_head: "\<not> json_ws c \<Longrightarrow> skip_ws (c # s) = c # s"
  by (simp add: skip_ws_def)

lemma no_ws: "\<not> json_ws (CHR 0x22)" "\<not> json_ws (CHR 0x2C)" "\<not> json_ws (CHR 0x3A)" "\<not> json_ws (CHR 0x7B)"
  "\<not> json_ws (CHR 0x7D)"
  by (simp_all add: json_ws_def)

text \<open>One member of an object, followed by a comma or by the closing brace.\<close>

lemma read_member:
  assumes "list_all plain_char k" and "\<not> json_ws x" and "rv (x # vt @ c # s) = Some (v, c # s)"
    and "c = CHR 0x2C \<or> c = CHR 0x7D"
  shows "read_members (Suc n) rd rv d (CHR 0x22 # k @ CHR 0x22 # CHR 0x3A # x # vt @ c # s) =
    (if c = CHR 0x7D then Some (JObj (jset d k v), s) else read_members n rd rv (jset d k v) (skip_ws s))"
proof -
  have "read_string rd (k @ CHR 0x22 # CHR 0x3A # x # vt @ c # s) = Some (k, CHR 0x3A # x # vt @ c # s)"
    using assms(1) by (intro read_plain_string) (auto simp: list_all_iff plain_char_def)
  then show ?thesis using assms(2-4) by (auto simp: skip_ws_head no_ws)
qed

lemma read_value_string:
  assumes "list_all plain_char t"
  shows "read_value (Suc n) rd (CHR 0x22 # t @ CHR 0x22 # s) = Some (JStr t, s)"
proof -
  have "read_string rd (t @ CHR 0x22 # s) = Some (t, s)"
    using assms by (intro read_plain_string) (auto simp: list_all_iff plain_char_def)
  then show ?thesis by simp
qed

lemma read_value_nat:
  assumes "c = CHR 0x2C \<or> c = CHR 0x7D"
  shows "read_value (Suc n) rd (py_str_nat k @ c # s) = Some (JInt (int k), c # s)"
proof -
  obtain d r where d: "py_str_nat k = d # r" using py_str_nat_nonempty [of k] by (cases "py_str_nat k") auto
  have "is_digit d" using py_str_nat_is_digit [of d k] d by simp
  then have "d \<notin> {CHR 0x22, CHR 0x7B, CHR 0x5B, CHR ''n'', CHR ''t'', CHR ''f''}" by (auto simp: is_digit_def less_eq_char_def)
  moreover have "read_number rd (py_str_nat k @ c # s) = Some (JInt (int k), c # s)"
    using assms by (intro read_number_nat) (auto simp: is_digit_def less_eq_char_def)
  ultimately show ?thesis using d by (auto simp: read_literal_def)
qed

definition cursor_text :: "string \<Rightarrow> nat \<Rightarrow> string" where
  "cursor_text i n = CHR 0x7B # CHR 0x22 # ''after'' @ CHR 0x22 # CHR 0x3A # py_str_nat n @ CHR 0x2C #
     CHR 0x22 # ''job'' @ CHR 0x22 # CHR 0x3A # CHR 0x22 # i @ CHR 0x22 # CHR 0x2C #
     CHR 0x22 # ''v'' @ CHR 0x22 # CHR 0x3A # ''1'' @ [CHR 0x7D]"

lemma job_id_plain: "job_id_ok i \<Longrightarrow> list_all plain_char i \<and> (\<forall>c\<in>set i. of_char c < (128::nat)) \<and> length i = 32"
proof -
  have "list_all (\<lambda>c. plain_char c \<and> of_char c < (128::nat)) ''0123456789abcdef''" by code_simp
  then have "c \<in> set ''0123456789abcdef'' \<Longrightarrow> plain_char c \<and> of_char c < (128::nat)" for c
    unfolding list_all_iff by blast
  then show "job_id_ok i \<Longrightarrow> list_all plain_char i \<and> (\<forall>c\<in>set i. of_char c < (128::nat)) \<and> length i = 32"
    unfolding job_id_ok_def list_all_iff by blast
qed

lemma cursor_dumps:
  assumes "job_id_ok i"
  shows "json_dumps fl (cursor_payload i (int n)) = cursor_text i n"
proof -
  have "list_all plain_char i" using job_id_plain [OF assms] by blast
  then have "json_string i = CHR 0x22 # i @ [CHR 0x22]"
    by (intro json_string_plain) (auto simp: list_all_iff plain_char_def)
  moreover have "json_string ''after'' = CHR 0x22 # ''after'' @ [CHR 0x22]" "json_string ''job'' = CHR 0x22 # ''job'' @ [CHR 0x22]"
    "json_string ''v'' = CHR 0x22 # ''v'' @ [CHR 0x22]" "py_str_nat 1 = ''1''" by code_simp+
  ultimately show ?thesis by (simp add: cursor_payload_def cursor_text_def py_str_int_def)
qed

lemma read_cursor_members:
  assumes i: "job_id_ok i"
  shows "read_members (Suc (Suc (Suc m))) rd (read_value (Suc l) rd) [] (tl (cursor_text i n)) = Some (cursor_payload i (int n), [])"
proof -
  obtain d r where d: "py_str_nat n = d # r" using py_str_nat_nonempty [of n] by (cases "py_str_nat n") auto
  have "is_digit d" using py_str_nat_is_digit [of d n] d by simp
  then have dw: "\<not> json_ws d" by (auto simp: json_ws_def is_digit_def less_eq_char_def)
  have plain: "list_all plain_char ''after''" "list_all plain_char ''job''" "list_all plain_char ''v''" by code_simp+
  have one: "\<not> json_ws (CHR ''1'')" and one_text: "py_str_nat 1 = ''1''" by code_simp+
  let ?v = "CHR 0x22 # ''v'' @ CHR 0x22 # CHR 0x3A # CHR ''1'' # [] @ CHR 0x7D # []"
  let ?j = "CHR 0x22 # ''job'' @ CHR 0x22 # CHR 0x3A # CHR 0x22 # (i @ [CHR 0x22]) @ CHR 0x2C # ?v"
  have shape: "tl (cursor_text i n) = CHR 0x22 # ''after'' @ CHR 0x22 # CHR 0x3A # d # r @ CHR 0x2C # ?j"
    by (simp add: cursor_text_def d)
  have v: "read_value (Suc l) rd (CHR ''1'' # [] @ CHR 0x7D # []) = Some (JInt 1, CHR 0x7D # [])"
    using read_value_nat [of "CHR 0x7D" l rd 1 "[]"] unfolding one_text by simp
  have j: "read_value (Suc l) rd (CHR 0x22 # (i @ [CHR 0x22]) @ CHR 0x2C # ?v) = Some (JStr i, CHR 0x2C # ?v)"
    using read_value_string [of i l rd "CHR 0x2C # ?v"] job_id_plain [OF i] by simp
  have a: "read_value (Suc l) rd (d # r @ CHR 0x2C # ?j) = Some (JInt (int n), CHR 0x2C # ?j)"
    using read_value_nat [of "CHR 0x2C" l rd n ?j] d by simp
  have ws: "skip_ws (CHR 0x22 # s) = CHR 0x22 # s" for s by (simp add: skip_ws_head no_ws)
  show ?thesis
    unfolding shape
    using read_member [where rv = "read_value (Suc l) rd" and v = "JInt (int n)" and k = "''after''" and x = d and vt = r and c = "CHR 0x2C" and s = ?j and d = "[]"
        and n = "Suc (Suc m)" and rd = rd, OF plain(1) dw a]
      read_member [where rv = "read_value (Suc l) rd" and v = "JStr i" and k = "''job''" and x = "CHR 0x22" and vt = "i @ [CHR 0x22]" and c = "CHR 0x2C" and s = ?v
        and n = "Suc m" and rd = rd, OF plain(2) no_ws(1) j]
      read_member [where rv = "read_value (Suc l) rd" and v = "JInt 1" and k = "''v''" and x = "CHR ''1''" and vt = "[]" and c = "CHR 0x7D" and s = "[]"
        and n = m and rd = rd, OF plain(3) one v]
    by (simp add: ws cursor_payload_def del: read_members.simps read_value.simps)
qed

text \<open>Text that is ASCII decodes to itself, whatever the encodings a JSON reader detects.\<close>

definition reads_ascii :: "json_reader \<Rightarrow> bool" where
  "reads_ascii rd \<longleftrightarrow> (\<forall>b. (\<forall>c\<in>set b. 32 \<le> (of_char c :: nat) \<and> of_char c < (128::nat)) \<longrightarrow> read_bytes rd b = Some b)"

lemma json_loads_cursor:
  assumes "job_id_ok i"
  shows "json_loads rd (cursor_text i n) = Some (cursor_payload i (int n))"
proof -
  obtain u where u: "cursor_text i n = CHR 0x7B # CHR 0x22 # u" and len: "3 \<le> length u" by (simp add: cursor_text_def)
  then have m: "length u = Suc (Suc (Suc (length u - 3)))" by simp
  have "read_value (Suc k) rd (CHR 0x7B # CHR 0x22 # u) =
      read_members (length (CHR 0x22 # u)) rd (read_value k rd) [] (CHR 0x22 # u)" for k
    by (simp add: skip_ws_head no_ws del: read_members.simps)
  then show ?thesis
    unfolding json_loads_def u skip_ws_head [OF no_ws(4)]
    using read_cursor_members [OF assms, of "Suc (length u - 3)" rd "length u" n] m u by (simp add: skip_ws_def del: read_members.simps read_value.simps)
qed

lemma py_str_nat_length: "n < 10 ^ Suc k \<Longrightarrow> length (py_str_nat n) \<le> Suc k"
proof (induction k arbitrary: n)
  case 0
  then show ?case by (simp add: py_str_nat.simps)
next
  case (Suc k)
  then have "n div 10 < 10 ^ Suc k" by (simp add: less_mult_imp_div_less mult.commute)
  from Suc.IH [OF this] show ?case by (subst py_str_nat.simps) simp
qed

lemma b64_encode_size: "length (b64_encode s) \<le> 4 * ((length s + 2) div 3)"
proof (induction s rule: b64_encode.induct)
  case (4 a b c s)
  have "(length s + 2 + 3) div 3 = (length s + 2) div 3 + 1" by (rule div_add_self2) simp
  then show ?case using 4 [OF refl] by (simp add: Let_def add.commute)
qed (simp_all add: Let_def)

lemma cursor_ascii:
  assumes "job_id_ok i" and "c \<in> set (cursor_text i n)"
  shows "32 \<le> (of_char c :: nat) \<and> of_char c < (128::nat)"
proof -
  have "is_digit d \<Longrightarrow> 32 \<le> (of_char d :: nat) \<and> of_char d < (128::nat)" for d
    by (auto simp: is_digit_def less_eq_char_def)
  then have "d \<in> set (py_str_nat n) \<Longrightarrow> 32 \<le> (of_char d :: nat) \<and> of_char d < (128::nat)" for d
    using py_str_nat_is_digit by blast
  moreover have "d \<in> set i \<Longrightarrow> 32 \<le> (of_char d :: nat) \<and> of_char d < (128::nat)" for d
    using job_id_plain [OF assms(1)] by (auto simp: list_all_iff plain_char_def)
  ultimately show ?thesis using assms(2) unfolding cursor_text_def by auto
qed

lemma b64_encode_ascii: "c \<in> set (b64_encode s) \<Longrightarrow> of_char c < (128::nat)"
proof -
  have "list_all (\<lambda>n. of_char (b64_alphabet ! n) < (128::nat)) [0..<64]" by code_simp
  then have "of_char (b64_char n) < (128::nat)" for n by (simp add: list_all_iff b64_char_def)
  then show "c \<in> set (b64_encode s) \<Longrightarrow> of_char c < (128::nat)"
    by (induction s rule: b64_encode.induct) (auto simp: Let_def)
qed

lemma decode_cursor_any:
  assumes "job_id_ok i" and "reads_ascii rd" and "n < 10 ^ 300"
  shows "decode_cursor rd k (Some (cursor_for i (int n))) = (if k = i then Some (int n) else None)"
proof -
  have "length (py_str_nat n) \<le> 300" using py_str_nat_length [of n 299] assms(3) by simp
  then have "length (cursor_text i n) \<le> 360" using job_id_plain [OF assms(1)] by (simp add: cursor_text_def)
  then have "length (b64_encode (cursor_text i n)) \<le> 512" using b64_encode_size [of "cursor_text i n"] by linarith
  moreover have "\<not> list_ex (\<lambda>x. of_char x \<ge> (128::nat)) (b64_encode (cursor_text i n))"
    using b64_encode_ascii by (force simp: list_ex_iff)
  moreover have "read_bytes rd (cursor_text i n) = Some (cursor_text i n)"
    using assms(2) cursor_ascii [OF assms(1)] by (auto simp: reads_ascii_def)
  ultimately have size: "length (cursor_for i (int n)) \<le> max_cursor_bytes"
      "\<not> list_ex (\<lambda>x. of_char x \<ge> (128::nat)) (cursor_for i (int n))"
    and bytes: "read_bytes rd (cursor_text i n) = Some (cursor_text i n)"
    by (simp_all add: cursor_for_def cursor_dumps [OF assms(1)] max_cursor_bytes_def)
  have "Option.bind (b64_decode (cursor_for i (int n) @ b64_padding (cursor_for i (int n))))
      (\<lambda>b. Option.bind (read_bytes rd b) (json_loads rd)) = Some (cursor_payload i (int n))"
    using bytes json_loads_cursor [OF assms(1), of rd n]
    by (simp add: cursor_for_def cursor_dumps [OF assms(1)] b64_roundtrip)
  then show ?thesis
    using size by (simp add: decode_cursor_def cursor_payload_def jget_def not_less [symmetric])
qed

text \<open>
  C24. A cursor the service hands out is read back as the ordinal it was made from, for every ordinal of up
  to 300 digits, and is refused for any other job.
\<close>

theorem cursor_roundtrip:
  assumes "job_id_ok i" and "reads_ascii rd" and "0 \<le> n" and "n < 10 ^ 300"
  shows "decode_cursor rd k (Some (cursor_for i n)) = (if k = i then Some n else None)"
  using decode_cursor_any [OF assms(1,2), of "nat n" k] assms(3,4) by (simp add: nat_less_iff)

definition ascii_reader :: json_reader where
  "ascii_reader = \<lparr>read_bytes = Some, read_wide = (\<lambda>n. []), read_float = (\<lambda>t. 0)\<rparr>"

theorem cursor_roundtrip_witness:
  "decode_cursor ascii_reader (replicate 32 (CHR ''a'')) (Some (cursor_for (replicate 32 (CHR ''a'')) 7)) = Some 7"
proof -
  have "job_id_ok (replicate 32 (CHR ''a''))" by (simp add: job_id_ok_def list_all_iff)
  moreover have "reads_ascii ascii_reader" by (simp add: reads_ascii_def ascii_reader_def)
  ultimately show ?thesis using cursor_roundtrip [of "replicate 32 (CHR ''a'')" ascii_reader 7] by simp
qed

section \<open>Following cursors\<close>

text \<open>A client that follows the cursors of an operation until there is none; it sees the last \<open>complete\<close> flag.\<close>

fun follow ::
  "('c option \<Rightarrow> 's \<Rightarrow> ('r list \<times> 'c option \<times> bool) option \<times> 's) \<Rightarrow> nat \<Rightarrow> 'c option \<Rightarrow> 's \<Rightarrow> ('r list \<times> bool) option" where
  "follow op 0 c s = None"
| "follow op (Suc n) c s =
     (case op c s of
        (None, s') \<Rightarrow> None
      | (Some (rs, None, w), s') \<Rightarrow> Some (rs, w)
      | (Some (rs, Some d, w), s') \<Rightarrow> map_option (\<lambda>(rest, b). (rs @ rest, b)) (follow op n (Some d) s'))"

text \<open>
  What a paged operation promises: from the place a cursor stands for it returns the next rows, at least
  one while there are any, with a cursor for the place after them as long as rows are left.
\<close>

locale cursor_pages =
  fixes op :: "'c option \<Rightarrow> 's \<Rightarrow> ('r list \<times> 'c option \<times> bool) option \<times> 's"
    and good :: "'s \<Rightarrow> bool" and rows :: "'s \<Rightarrow> 'r list" and place :: "'c option \<Rightarrow> nat \<Rightarrow> bool"
  assumes start: "place None 0"
    and page: "good s \<Longrightarrow> place c k \<Longrightarrow> k \<le> length (rows s) \<Longrightarrow>
      \<exists>n d s'. op c s = (Some (take n (drop k (rows s)), d, k + n = length (rows s)), s') \<and> good s' \<and> rows s' = rows s \<and>
        k + n \<le> length (rows s) \<and> (k < length (rows s) \<longrightarrow> 1 \<le> n) \<and>
        (if k + n = length (rows s) then d = None else d \<noteq> None \<and> place d (k + n))"
begin

lemma follow_from:
  assumes "good s" and "place c k" and "k \<le> length (rows s)" and "length (rows s) - k < fuel"
  shows "follow op fuel c s = Some (drop k (rows s), True)"
  using assms
proof (induction fuel arbitrary: c k s)
  case (Suc fuel)
  from page [OF Suc.prems(1-3)] obtain n d s' where p:
    "op c s = (Some (take n (drop k (rows s)), d, k + n = length (rows s)), s')" "good s'" "rows s' = rows s"
    "k + n \<le> length (rows s)" "k < length (rows s) \<longrightarrow> 1 \<le> n"
    "if k + n = length (rows s) then d = None else d \<noteq> None \<and> place d (k + n)" by blast
  show ?case
  proof (cases "k + n = length (rows s)")
    case True
    then show ?thesis using p by simp
  next
    case False
    then obtain e where e: "d = Some e" "place (Some e) (k + n)" using p(6) by auto
    have "follow op fuel (Some e) s' = Some (drop (k + n) (rows s), True)"
      using Suc.IH [OF p(2) e(2)] Suc.prems(4) False p(3-5) by simp
    then show ?thesis using p(1) e(1) False by simp (metis append_take_drop_id drop_drop add.commute)
  qed
qed simp

lemma follow_all: "good s \<Longrightarrow> follow op (Suc (length (rows s))) None s = Some (rows s, True)"
  using follow_from [OF _ start, of s "Suc (length (rows s))"] by simp

end

text \<open>The results endpoint as such an operation.\<close>

definition results_client ::
  "manager_env \<Rightarrow> store_config \<Rightarrow> manager_settings \<Rightarrow> string \<Rightarrow> string \<Rightarrow> int \<Rightarrow> int \<Rightarrow> pyfloat \<Rightarrow> string option
   \<Rightarrow> job_manager \<Rightarrow> (fetch_result list \<times> string option \<times> bool) option \<times> job_manager" where
  "results_client env cfg s i scope mi mb now cursor m =
     (case results_op env cfg s True i scope cursor (Some mi) (Some mb) now m of
        (Inl e, m') \<Rightarrow> (None, m')
      | (Inr p, m') \<Rightarrow> (Some (jp_results p, jp_next_cursor p, jp_complete p), m'))"

definition page_request_ok ::
  "manager_env \<Rightarrow> store_config \<Rightarrow> manager_settings \<Rightarrow> string \<Rightarrow> int \<Rightarrow> int \<Rightarrow> bool" where
  "page_request_ok env cfg s i mi mb \<longleftrightarrow> jobs_enabled s \<and> has_store s \<and> job_id_ok i \<and> reads_ascii (reader env) \<and>
     1 \<le> mi \<and> mi \<le> max_page_items s \<and> 1 \<le> mb \<and> mb \<le> max_page_bytes s \<and> int (max_result_item_bytes cfg) \<le> mb"

definition closed_and_readable ::
  "manager_env \<Rightarrow> store_config \<Rightarrow> string \<Rightarrow> string \<Rightarrow> pyfloat \<Rightarrow> job_manager \<Rightarrow> bool" where
  "closed_and_readable env cfg i scope now m \<longleftrightarrow> store_inv cfg (mgr_db m) \<and>
     length (results_of i (mgr_db m)) < 2 ^ 63 \<and>
     (\<exists>j sh. scope_hash_of env scope = Some sh \<and> readable cfg i sh now (mgr_db m) j \<and> is_terminal (state j))"

lemma closed_page:
  assumes ok: "page_request_ok env cfg s i mi mb" and closed: "closed_and_readable env cfg i scope now m"
    and c: "c = None \<and> k = 0 \<or> c = Some (cursor_for i (int k))" and k: "k \<le> length (results_of i (mgr_db m))"
  shows "\<exists>n d m'. results_client env cfg s i scope mi mb now c m =
      (Some (map result_value (take n (drop k (results_of i (mgr_db m)))), d, k + n = length (results_of i (mgr_db m))), m') \<and>
    closed_and_readable env cfg i scope now m' \<and> results_of i (mgr_db m') = results_of i (mgr_db m) \<and>
    k + n \<le> length (results_of i (mgr_db m)) \<and> (k < length (results_of i (mgr_db m)) \<longrightarrow> 1 \<le> n) \<and>
    (if k + n = length (results_of i (mgr_db m)) then d = None else d = Some (cursor_for i (int (k + n))))"
proof -
  let ?db = "mgr_db m" and ?e = "expire_due cfg now (mgr_db m)"
  obtain j sh where sh: "scope_hash_of env scope = Some sh" and r: "readable cfg i sh now ?db j" and t: "is_terminal (state j)"
    and inv: "store_inv cfg ?db" and few: "length (results_of i ?db) < 2 ^ 63"
    using closed by (auto simp: closed_and_readable_def)
  from result_page_shape [OF inv r _ _ k, of mi mb] ok obtain n pg where
    p: "fst (result_page_op cfg i sh (int k) mi mb now ?db) = Inr (make_record ?e j, pg)"
      "k + n \<le> length (results_of i ?db)" "k < length (results_of i ?db) \<longrightarrow> 1 \<le> n"
      "page_results pg = map result_value (take n (drop k (results_of i ?db)))"
      "last_ordinal pg = int (k + n)" "has_more pg \<longleftrightarrow> k + n < length (results_of i ?db)"
    by (auto simp: page_request_ok_def)
  have "snd (result_page_op cfg i sh (int k) mi mb now ?db) = ?e"
    by (auto simp: result_page_op_def Let_def split: option.split prod.split)
  then have call: "result_page_op cfg i sh (int k) mi mb now ?db = (Inr (make_record ?e j, pg), ?e)"
    using p(1) by (metis prod.collapse)
  have "int k < 10 ^ 300" using k few by simp
  then have "int k < 2 ^ 63" "decode_cursor (reader env) i c = Some (int k)"
    using k few c ok cursor_roundtrip [of i "reader env" "int k" i]
    by (auto simp: decode_cursor_def page_request_ok_def)
  moreover have view: "view i ?e = view i ?db"
    using view_expire_due [OF inv, of i j now] r by (simp add: readable_def purgeable_def)
  then have same: "results_of i ?e = results_of i ?db" "select_job i ?e = select_job i ?db" by (simp_all add: view_def)
  moreover have "job_id j = i" using r select_job_Some by (auto simp: readable_def)
  ultimately have res: "results_op env cfg s True i scope c (Some mi) (Some mb) now m =
      (Inr (page_answer i c (make_record ?e j) pg), m\<lparr>mgr_db := ?e\<rparr>)"
    using ok sh k by (simp add: results_op_def with_slot_def page_request_ok_def call on_store_def page_read_def make_record_def)
  have "closed_and_readable env cfg i scope now (m\<lparr>mgr_db := ?e\<rparr>)"
    unfolding closed_and_readable_def using expire_due_inv [OF inv, of now] few same sh r t by (auto simp: readable_def)
  moreover have "take n (drop k (results_of i ?db)) = [] \<longleftrightarrow> k = length (results_of i ?db)"
    using p(2,3) k by auto
  ultimately show ?thesis
    using res p(2-6) t same(1) \<open>job_id j = i\<close>
    by (intro exI [of _ n] exI [of _ "jp_next_cursor (page_answer i c (make_record ?e j) pg)"] exI [of _ "m\<lparr>mgr_db := ?e\<rparr>"])
      (auto simp: results_client_def page_answer_def make_record_def)
qed

interpretation job_pages: cursor_pages "results_client env cfg s i scope mi mb now"
    "\<lambda>m. page_request_ok env cfg s i mi mb \<and> closed_and_readable env cfg i scope now m"
    "\<lambda>m. map result_value (results_of i (mgr_db m))"
    "\<lambda>c k. c = None \<and> k = 0 \<or> c = Some (cursor_for i (int k))"
  for env cfg s i scope mi mb now
proof
  fix m :: job_manager and c k
  assume good: "page_request_ok env cfg s i mi mb \<and> closed_and_readable env cfg i scope now m"
    and c: "c = None \<and> k = 0 \<or> c = Some (cursor_for i (int k))"
    and k: "k \<le> length (map result_value (results_of i (mgr_db m)))"
  let ?rs = "results_of i (mgr_db m)"
  have k': "k \<le> length ?rs" using k by simp
  from closed_page [OF conjunct1 [OF good] conjunct2 [OF good] c k'] obtain n d m' where p:
    "results_client env cfg s i scope mi mb now c m = (Some (map result_value (take n (drop k ?rs)), d, k + n = length ?rs), m')"
    "closed_and_readable env cfg i scope now m'" "results_of i (mgr_db m') = ?rs"
    "k + n \<le> length ?rs" "k < length ?rs \<longrightarrow> 1 \<le> n"
    "if k + n = length ?rs then d = None else d = Some (cursor_for i (int (k + n)))" by blast
  have "if k + n = length ?rs then d = None else d \<noteq> None \<and> (d = None \<and> k + n = 0 \<or> d = Some (cursor_for i (int (k + n))))"
    using p(6) by (cases "k + n = length ?rs") simp_all
  then show "\<exists>n d m'. results_client env cfg s i scope mi mb now c m =
      (Some (take n (drop k (map result_value ?rs)), d, k + n = length (map result_value ?rs)), m') \<and>
    (page_request_ok env cfg s i mi mb \<and> closed_and_readable env cfg i scope now m') \<and>
    map result_value (results_of i (mgr_db m')) = map result_value ?rs \<and>
    k + n \<le> length (map result_value ?rs) \<and> (k < length (map result_value ?rs) \<longrightarrow> 1 \<le> n) \<and>
    (if k + n = length (map result_value ?rs) then d = None
     else d \<noteq> None \<and> (d = None \<and> k + n = 0 \<or> d = Some (cursor_for i (int (k + n)))))"
    unfolding length_map take_map drop_map using p(1-5) good
    by - (rule exI [of _ n], rule exI [of _ d], rule exI [of _ m'], cases "k + n = length ?rs", simp_all)
qed simp


definition demo_env :: manager_env where
  "demo_env = \<lparr>ids = \<lparr>idna_uts46 = Some, idna_2003 = Some, ipv6_string = (\<lambda>w. []), sha256 = (\<lambda>b. ''0'')\<rparr>,
     reader = ascii_reader, request_json = (\<lambda>r. [])\<rparr>"

definition demo_settings :: manager_settings where
  "demo_settings = \<lparr>jobs_enabled = True, has_store = True, has_runner = True, synchronous_max_pages = 10,
     max_attempts = 2, max_page_items = 5, max_page_bytes = 100, raw_html_enabled = False, admission_retry_after_s = 1\<rparr>"

definition demo_id :: string where "demo_id = replicate 32 (CHR ''a'')"

definition demo_manager :: job_manager where
  "demo_manager = (make_manager demo_settings
     \<lparr>jobs = [(hd (jobs demo_closed))\<lparr>job_id := demo_id, scope_hash := ''30''\<rparr>],
      results = [(hd (results demo_closed))\<lparr>result_job := demo_id\<rparr>], failures = []\<rparr>)
     \<lparr>store_available := True, worker_alive := True\<rparr>"

lemma demo_manager_eq: "mgr_db demo_manager =
    \<lparr>jobs = [demo_job\<lparr>job_id := demo_id, scope_hash := ''30'', state := Completed, started_at := Some 2, attempts := 1,
       pages_processed := 1, pages_succeeded := 1, terminal_at := Some 4, retention_deadline := Some 104,
       outcome := Some ''completed''\<rparr>],
     results = [\<lparr>result_job = demo_id, result_key = ''u'', ordinal = 1, result_value = demo_result Content,
       item_bytes = 7, result_created_at = 3\<rparr>], failures = []\<rparr>"
  by (simp add: demo_manager_def make_manager_def demo_closed_eq)

lemma demo_manager_inv: "store_inv demo_config (mgr_db demo_manager)"
  unfolding store_inv_def
proof (intro conjI)
  let ?db = "mgr_db demo_manager"
  show "\<forall>i. pages_ok demo_config ?db i"
    unfolding demo_manager_eq by (simp add: pages_ok_def results_of_def failures_of_def demo_config_def)
  then show "\<forall>j\<in>set (jobs ?db). row_ok demo_config j \<and> (state j \<noteq> Expired \<longrightarrow> counted ?db j)"
    unfolding demo_manager_eq
    by (simp add: row_ok_def counted_def succeeded_def unsuccessful_def results_of_def failures_of_def new_job_def
        is_terminal_def terminal_states_def demo_result_def demo_config_def)
  have "demo_id \<in> live_ids ?db"
    unfolding live_ids_def by (rule image_eqI [of _ _ "hd (jobs ?db)"]) (simp_all add: demo_manager_eq)
  then show "result_job ` set (results ?db) \<subseteq> live_ids ?db" "failure_job ` set (failures ?db) \<subseteq> live_ids ?db"
    by (simp_all add: demo_manager_eq)
qed (simp_all add: demo_manager_eq keyed_def demo_config_def)


end
