(* ===== verification/Job_Run_Guarantees.thy ===== *)
theory Job_Run_Guarantees
  imports Cursor_Guarantees
begin

text \<open>
  Running a job: whatever the runner does on each attempt, and whatever clients call meanwhile, the worker
  settles the job it claimed, within its attempts, with a verdict that agrees with what is stored.  The
  last section is about callers of other scopes.
\<close>

section \<open>A job in hand\<close>

text \<open>The job is running and has been attempted \<open>n\<close> times.\<close>

definition held :: "string \<Rightarrow> int \<Rightarrow> job_db \<Rightarrow> bool" where
  "held i n db \<longleftrightarrow> (\<exists>j. select_job i db = Some j \<and> state j = Running \<and> attempts j = n)"

lemma held_expire: "store_inv cfg db \<Longrightarrow> held i n db \<Longrightarrow> held i n (expire_due cfg now db)"
  using running_expire by (auto simp: held_def)

lemma held_update:
  assumes "held i n db" and "\<And>j. job_id (f j) = job_id j"
    and "\<And>j. p j \<Longrightarrow> state j = Running \<Longrightarrow> state (f j) = Running \<and> attempts (f j) = attempts j"
  shows "held i n (update_jobs p f db)"
proof -
  obtain j where "select_job i db = Some j" "state j = Running" "attempts j = n" using assms(1) by (auto simp: held_def)
  then show ?thesis using assms(3) [of j] by (cases "p j") (simp_all add: held_def select_update assms(2))
qed

lemma held_tables [simp]: "held i n (db\<lparr>results := rs\<rparr>) = held i n db" "held i n (db\<lparr>failures := fs\<rparr>) = held i n db"
  "held i n (db\<lparr>results := rs, failures := fs\<rparr>) = held i n db"
  by (simp_all add: held_def select_job_def)

lemma held_claim:
  assumes "store_inv cfg db" and "held i n db"
  shows "held i n (snd (claim cfg k scope idem fp req now db))"
proof -
  have e: "held i n (expire_due cfg now db)" using assms by (rule held_expire)
  then have "held i n ((expire_due cfg now db)\<lparr>jobs := jobs (expire_due cfg now db) @ [x]\<rparr>)" for x
    using select_append by (fastforce simp: held_def)
  then show ?thesis using e assms(2) by (auto simp: claim_def Let_def split: option.split)
qed

lemma held_get: "store_inv cfg db \<Longrightarrow> held i n db \<Longrightarrow> held i n (snd (get_job cfg k scope now db))"
  using held_expire by (auto simp: get_job_def Let_def split: option.split)

lemma held_page: "store_inv cfg db \<Longrightarrow> held i n db \<Longrightarrow> held i n (snd (result_page_op cfg k scope after mi mb now db))"
  using held_expire by (auto simp: result_page_op_def Let_def split: option.split prod.split)

lemma held_cancel:
  assumes "store_inv cfg db" and "held i n db"
  shows "held i n (snd (request_cancel cfg k scope now db))"
proof -
  have e: "held i n (expire_due cfg now db)" using assms by (rule held_expire)
  have "held i n (update_jobs (\<lambda>j. job_id j = k \<and> state j = Queued)
      (\<lambda>j. (close_row cfg now Cancelled (Some ''cancelled'') j)\<lparr>cancel_requested := False\<rparr>) (expire_due cfg now db))"
    using e by (rule held_update) (simp_all add: close_row_def)
  moreover have "held i n (update_jobs (\<lambda>j. job_id j = k) (\<lambda>j. j\<lparr>cancel_requested := True\<rparr>) (expire_due cfg now db))"
    using e by (rule held_update) simp_all
  ultimately show ?thesis using e by (auto simp: request_cancel_def Let_def split: option.split)
qed

lemma held_summary: "held i n db \<Longrightarrow> held i n (append_summary cfg k tx db)"
  unfolding append_summary_def Let_def by (rule held_update) simp_all

lemma held_result:
  assumes "held i n db"
  shows "held i n (snd (append_result cfg i key res keys now db)) \<and>
    (\<forall>e. fst (append_result cfg i key res keys now db) = Inl e \<longrightarrow> (\<exists>b. e = Result_Too_Large b))"
proof -
  have "held i n (update_jobs (\<lambda>j. job_id j = i \<and> state j = Running) (\<lambda>j. j\<lparr>pages_processed := a j, pages_succeeded := b j,
      pages_failed := c j\<rparr>) (db\<lparr>results := rs, failures := fs\<rparr>))" for a b c rs fs
    by (rule held_update) (use assms in simp_all)
  then show ?thesis using assms by (auto simp: append_result_def Let_def held_def)
qed

lemma held_failure:
  assumes "held i n db"
  shows "held i n (snd (append_failure cfg i key tx now db)) \<and> (\<exists>u. fst (append_failure cfg i key tx now db) = Inr u)"
proof -
  obtain j where "select_job i db = Some j" using assms by (auto simp: held_def)
  moreover have "held i n (update_jobs (\<lambda>j. job_id j = i \<and> state j = Running) (\<lambda>j. j\<lparr>failure_summaries := a,
      pages_processed := pages_processed j + b, pages_failed := pages_failed j + c\<rparr>) (db\<lparr>failures := fs\<rparr>))" for a b c fs
    by (rule held_update) (use assms in simp_all)
  moreover have "held i n (update_jobs (\<lambda>j. job_id j = i \<and> state j = Running) (\<lambda>j. j\<lparr>failure_summaries := a\<rparr>)
      (db\<lparr>failures := fs\<rparr>))" for a fs
    by (rule held_update) (use assms in simp_all)
  ultimately show ?thesis using assms unfolding append_failure_def Let_def
    by (simp del: update_jobs_simps split: option.split)
qed

section \<open>While the runner is awaited\<close>

definition tended :: "store_config \<Rightarrow> string \<Rightarrow> int \<Rightarrow> job_manager \<Rightarrow> bool" where
  "tended cfg i n m \<longleftrightarrow> store_inv cfg (mgr_db m) \<and> held i n (mgr_db m)"

lemma tended_db: "tended cfg i n (m\<lparr>mgr_db := db\<rparr>) \<longleftrightarrow> store_inv cfg db \<and> held i n db"
  by (simp add: tended_def)

lemma tended_cancel_map [simp]: "tended cfg i n (m\<lparr>active_cancel := a\<rparr>) = tended cfg i n m"
  by (simp add: tended_def)

text \<open>An API call ends with the database its store call leaves, or with the one it found.\<close>

lemma with_slot_keeps:
  assumes "P m" and "P (snd (op m))"
  shows "P (snd (with_slot s adm op m))"
  using assms by (simp add: with_slot_def)

lemma on_store_keeps:
  assumes "P (m\<lparr>mgr_db := snd call\<rparr>)" and "\<And>x. P (snd (k x (m\<lparr>mgr_db := snd call\<rparr>)))"
  shows "P (snd (on_store call m k))"
  using assms by (cases call) (auto simp: on_store_def split: sum.split)

lemma case_keeps:
  "P (snd a) \<Longrightarrow> (\<And>x. P (snd (b x))) \<Longrightarrow> P (snd (case y of None \<Rightarrow> a | Some x \<Rightarrow> b x))"
  by (simp split: option.split)

lemma if_keeps: "P (snd a) \<Longrightarrow> P (snd b) \<Longrightarrow> P (snd (if c then a else b))"
  by simp

text \<open>Nor does it touch the results and failures of a job in hand.\<close>

definition tables :: "string \<Rightarrow> job_db \<Rightarrow> result_row list \<times> failure_row list" where
  "tables i db = (results_of i db, failures_of i db)"

definition tended_with :: "store_config \<Rightarrow> string \<Rightarrow> int \<Rightarrow> result_row list \<times> failure_row list \<Rightarrow> job_manager \<Rightarrow> bool" where
  "tended_with cfg i n T m \<longleftrightarrow> tended cfg i n m \<and> tables i (mgr_db m) = T"

lemma tables_expire:
  assumes "store_inv cfg db" and "held i n db"
  shows "tables i (expire_due cfg now db) = tables i db"
proof -
  obtain j where "select_job i db = Some j" "state j = Running" using assms(2) by (auto simp: held_def)
  then show ?thesis using expire_active [OF assms(1), of i j now] by (simp add: tables_def view_def active_def)
qed

lemma tables_update [simp]: "tables i (update_jobs p f db) = tables i db" "tables i (db\<lparr>jobs := js\<rparr>) = tables i db"
  by (simp_all add: tables_def results_of_def failures_of_def)

lemma tables_calls:
  assumes "store_inv cfg db" and "held i n db"
  shows "tables i (snd (claim cfg k scope idem fp req now db)) = tables i db"
    and "tables i (snd (get_job cfg k scope now db)) = tables i db"
    and "tables i (snd (request_cancel cfg k scope now db)) = tables i db"
    and "tables i (snd (result_page_op cfg k scope after mi mb now db)) = tables i db"
  using tables_expire [OF assms, of now]
  by (auto simp: claim_def get_job_def request_cancel_def result_page_op_def Let_def split: option.split prod.split)

lemma serve_tended_with:
  assumes t: "tended_with cfg i n T m"
  shows "tended_with cfg i n T (serve env cfg s call m)"
proof -
  have inv: "store_inv cfg (mgr_db m)" and h: "held i n (mgr_db m)" and T: "tables i (mgr_db m) = T"
    using t by (simp_all add: tended_with_def tended_def)
  note keeps = with_slot_keeps [where P = "tended_with cfg i n T"] if_keeps [where P = "tended_with cfg i n T"]
    case_keeps [where P = "tended_with cfg i n T"] on_store_keeps [where P = "tended_with cfg i n T"]
  show ?thesis
  proof (cases call)
    case (Call_Create adm req scope key k now)
    have "tended_with cfg i n T (m\<lparr>mgr_db := snd (claim cfg k sh ih fp req now (mgr_db m))\<rparr>)" for sh ih fp
      using held_claim [OF inv h] claim_inv [OF inv] tables_calls [OF inv h] T by (simp add: tended_with_def tended_db)
    then show ?thesis using t unfolding Call_Create serve.simps create_job_def
      by (intro keeps) (simp_all add: tended_with_def split: prod.split)
  next
    case (Call_Status adm k scope now)
    have "tended_with cfg i n T (m\<lparr>mgr_db := snd (get_job cfg k sh now (mgr_db m))\<rparr>)" for sh
      using held_get [OF inv h] get_inv [OF inv] tables_calls [OF inv h] T by (simp add: tended_with_def tended_db)
    then show ?thesis using t unfolding Call_Status serve.simps job_status_op_def
      by (intro keeps) (simp_all add: tended_with_def split: prod.split)
  next
    case (Call_Cancel adm k scope now)
    have "tended_with cfg i n T (m\<lparr>mgr_db := snd (request_cancel cfg k sh now (mgr_db m))\<rparr>)" for sh
      using held_cancel [OF inv h] cancel_inv [OF inv] tables_calls [OF inv h] T by (simp add: tended_with_def tended_db)
    then show ?thesis using t unfolding Call_Cancel serve.simps cancel_job_def
      by (intro keeps) (simp_all add: tended_with_def split: prod.split)
  next
    case (Call_Results adm k scope cursor mi mb now)
    have "tended_with cfg i n T (m\<lparr>mgr_db := snd (result_page_op cfg k sh a b c now (mgr_db m))\<rparr>)" for sh a b c
      using held_page [OF inv h] page_inv [OF inv] tables_calls [OF inv h] T by (simp add: tended_with_def tended_db)
    then show ?thesis using t unfolding Call_Results serve.simps results_op_def Let_def
      by (intro keeps) (simp_all add: tended_with_def split: prod.split)
  qed
qed

lemma serve_tended: "tended cfg i n m \<Longrightarrow> tended cfg i n (serve env cfg s call m)"
  using serve_tended_with [of cfg i n "tables i (mgr_db m)" m] by (simp add: tended_with_def)

lemma serve_all_tended_with: "tended_with cfg i n T m \<Longrightarrow> tended_with cfg i n T (serve_all env cfg s calls m)"
  unfolding serve_all_def by (induction calls arbitrary: m) (simp_all add: serve_tended_with)

lemma serve_all_tended: "tended cfg i n m \<Longrightarrow> tended cfg i n (serve_all env cfg s calls m)"
  unfolding serve_all_def by (induction calls arbitrary: m) (simp_all add: serve_tended)

lemma append_failure_tended:
  assumes "tended cfg i n m"
  shows "\<exists>u db. append_job_failure env cfg i url reason now (mgr_db m) = (Inr u, db) \<and> tended cfg i n (m\<lparr>mgr_db := db\<rparr>)"
proof -
  have h: "held i n (mgr_db m)" and inv: "store_inv cfg (mgr_db m)" using assms by (simp_all add: tended_def)
  obtain j where "select_job i (mgr_db m) = Some j" "state j = Running" using h by (auto simp: held_def)
  from append_failure_inv [OF inv this] held_failure [OF h] show ?thesis
    unfolding append_job_failure_def tended_db by (metis prod.collapse)
qed

lemma append_result_tended:
  assumes "tended cfg i n m"
  shows "\<exists>u db. append_job_result env cfg i r now (mgr_db m) = (Inr u, db) \<and> tended cfg i n (m\<lparr>mgr_db := db\<rparr>)"
proof -
  have h: "held i n (mgr_db m)" and inv: "store_inv cfg (mgr_db m)" using assms by (simp_all add: tended_def)
  obtain j where j: "select_job i (mgr_db m) = Some j" "state j = Running" using h by (auto simp: held_def)
  obtain x db where x: "append_result cfg i (result_key_of env r) r [failure_key_of env (res_requested_url r)] now (mgr_db m) = (x, db)"
    by (cases "append_result cfg i (result_key_of env r) r [failure_key_of env (res_requested_url r)] now (mgr_db m)") auto
  have t: "tended cfg i n (m\<lparr>mgr_db := db\<rparr>)"
    using append_result_inv [OF inv j, of "result_key_of env r" r "[failure_key_of env (res_requested_url r)]" now]
      held_result [OF h, of cfg "result_key_of env r" r "[failure_key_of env (res_requested_url r)]" now] x
    by (simp add: tended_db)
  show ?thesis
  proof (cases x)
    case (Inl e)
    then obtain b where "e = Result_Too_Large b"
      using held_result [OF h, of cfg "result_key_of env r" r "[failure_key_of env (res_requested_url r)]" now] x by auto
    then show ?thesis using append_failure_tended [OF t, of env "res_requested_url r" "''result_too_large''" now] x Inl
      by (simp add: append_job_result_def)
  next
    case (Inr b)
    then show ?thesis using x t by (simp add: append_job_result_def)
  qed
qed

lemma run_events_tended:
  assumes "tended cfg i n m"
  shows "\<exists>m'. run_events env cfg s i es m = (False, m') \<and> tended cfg i n m'"
  using assms
proof (induction env cfg s i es m rule: run_events.induct)
  case (2 env cfg s i now r es m)
  then show ?case using append_result_tended [OF 2(2), of env r now] by auto
next
  case (3 env cfg s i now url reason es m)
  then show ?case using append_failure_tended [OF 3(2), of env url reason now] by auto
next
  case (4 env cfg s i call es m)
  then show ?case using serve_tended by simp
qed simp

lemma run_attempt_tended:
  assumes t: "tended cfg i n m" and "ending script \<noteq> Task_Cancelled"
  shows "\<exists>r m'. run_attempt env cfg s i script m = (Some r, m') \<and> tended cfg i n m'"
proof -
  obtain m1 where m1: "run_events env cfg s i (during script) m = (False, m1)" "tended cfg i n m1"
    using run_events_tended [OF t] by blast
  then have "tended cfg i n (m1\<lparr>mgr_db := append_summary cfg i why (mgr_db m1)\<rparr>)" for why
    by (simp add: tended_def held_summary append_summary_inv)
  then show ?thesis using m1 assms(2) by (cases "ending script") (auto simp: run_attempt_def)
qed

section \<open>Settling\<close>

text \<open>Finishing a job in hand closes its row and keeps its tables.\<close>

lemma finish_held:
  assumes inv: "store_inv cfg db" and j: "select_job i db = Some j" "state j = Running" and st: "is_terminal st"
  shows "\<exists>r db' j'. finish cfg i st out warns now db = (Inr r, db') \<and> store_inv cfg db' \<and> select_job i db' = Some j' \<and>
    state j' = (if cancel_requested j then Cancelled else st) \<and> attempts j' = attempts j \<and>
    results_of i db' = results_of i db \<and> failures_of i db' = failures_of i db"
proof -
  let ?f = "\<lambda>j'. (close_row cfg now (if cancel_requested j then Cancelled else st) out j')\<lparr>warnings := take 32 warns, cancel_requested := False\<rparr>"
  let ?db' = "update_jobs (\<lambda>j. job_id j = i \<and> state j \<in> {Queued, Running}) ?f db"
  have "job_id j = i" using select_job_Some [OF j(1)] by blast
  then have sel: "select_job i ?db' = Some (?f j)" using j by (simp add: select_update close_row_def)
  then have "finish cfg i st out warns now db = (Inr (make_record ?db' (?f j)), ?db')"
    using j unfolding finish_def Let_def by (simp add: is_terminal_def terminal_states_def del: update_jobs_simps)
  moreover from this have "store_inv cfg ?db'" using finish_inv [OF inv st, of i out warns now] by simp
  ultimately show ?thesis using sel by (auto simp: close_row_def)
qed

text \<open>The job is closed, with no more attempts than \<open>b\<close> and at least \<open>a\<close>, and forgotten by nobody but the store.\<close>

definition settled :: "store_config \<Rightarrow> string \<Rightarrow> int \<Rightarrow> int \<Rightarrow> job_manager \<Rightarrow> job_state set \<Rightarrow> bool" where
  "settled cfg i a b m sts \<longleftrightarrow> store_inv cfg (mgr_db m) \<and>
     (\<exists>j. select_job i (mgr_db m) = Some j \<and> state j \<in> sts \<and> a \<le> attempts j \<and> attempts j \<le> b)"

lemma finish_cancelled_settles:
  assumes t: "tended cfg i n m" and "a \<le> n" "n \<le> b"
  shows "\<exists>m'. finish_cancelled cfg i now m = (Ended_Cancelled, m') \<and> settled cfg i a b m' {Cancelled}"
proof -
  obtain j where j: "select_job i (mgr_db m) = Some j" "state j = Running" "attempts j = n" and inv: "store_inv cfg (mgr_db m)"
    using t by (auto simp: tended_def held_def)
  from finish_held [OF inv j(1,2), of Cancelled "Some ''cancelled''" "[]" now] obtain r db' j' where
    "finish cfg i Cancelled (Some ''cancelled'') [] now (mgr_db m) = (Inr r, db')" "store_inv cfg db'"
    "select_job i db' = Some j'" "state j' = Cancelled" "attempts j' = n"
    by (auto simp: is_terminal_def terminal_states_def j(3))
  then show ?thesis using assms(2,3) by (auto simp: finish_cancelled_def settled_def)
qed

lemma increment_held:
  assumes t: "tended cfg i n m"
  shows "\<exists>r db. increment_attempt i (mgr_db m) = (Inr r, db) \<and> attempts (rec_row r) = n + 1 \<and>
    tended cfg i (n + 1) (m\<lparr>mgr_db := db\<rparr>)"
proof -
  obtain j where j: "select_job i (mgr_db m) = Some j" "state j = Running" "attempts j = n" and inv: "store_inv cfg (mgr_db m)"
    using t by (auto simp: tended_def held_def)
  have "job_id j = i" using select_job_Some [OF j(1)] by blast
  then show ?thesis using j increment_inv [OF inv, of i]
    by (auto simp: increment_attempt_def select_update make_record_def tended_db held_def)
qed

lemma run_attempts_end:
  assumes "tended cfg i n m" and "\<And>k. ending (scripts k) \<noteq> Task_Cancelled" and "nat (max_attempts s - n) < fuel"
    and "a \<le> n" "n \<le> max a (max_attempts s)"
  shows "\<exists>e m'. run_attempts fuel env cfg s i scripts now k n m = Some (e, m') \<and>
    (e = Ended_Cancelled \<and> settled cfg i a (max a (max_attempts s)) m' {Cancelled} \<or>
     (\<exists>resp l n'. e = Ended resp l \<and> a \<le> n' \<and> n' \<le> max a (max_attempts s) \<and> tended cfg i n' m'))"
  using assms
proof (induction fuel arbitrary: n m k)
  case (Suc fuel)
  note cancelled = finish_cancelled_settles [where a = a and b = "max a (max_attempts s)", OF _ Suc.prems(4,5)]
  obtain resp retryable l cancel m1 where m1: "run_attempt env cfg s i (scripts k) m = (Some (resp, retryable, l, cancel), m1)"
    "tended cfg i n m1" using run_attempt_tended [OF Suc.prems(1,2)] by (metis prod.collapse)
  let ?m2 = "serve_all env cfg s (backoff (scripts k)) m1"
  have m2: "tended cfg i n ?m2" using m1(2) by (rule serve_all_tended)
  obtain r db where inc: "increment_attempt i (mgr_db ?m2) = (Inr r, db)" "attempts (rec_row r) = n + 1"
    "tended cfg i (n + 1) (?m2\<lparr>mgr_db := db\<rparr>)" using increment_held [OF m2] by blast
  consider "event_set i m" | "\<not> event_set i m" "cancel \<or> event_set i m1"
    | "\<not> event_set i m" "\<not> (cancel \<or> event_set i m1)" "\<not> retryable \<or> n \<ge> max_attempts s"
    | "\<not> event_set i m" "\<not> (cancel \<or> event_set i m1)" "\<not> (\<not> retryable \<or> n \<ge> max_attempts s)" "event_set i ?m2"
    | "\<not> event_set i m" "\<not> (cancel \<or> event_set i m1)" "\<not> (\<not> retryable \<or> n \<ge> max_attempts s)" "\<not> event_set i ?m2"
    by blast
  then show ?case
  proof cases
    case 1
    then show ?thesis using cancelled [OF Suc.prems(1), of now] by auto
  next
    case 2
    then show ?thesis using cancelled [OF m1(2), of now] m1(1) by auto
  next
    case 3
    then show ?thesis using m1 Suc.prems(4,5) by auto
  next
    case 4
    then show ?thesis using cancelled [OF m2, of now] m1(1) by auto
  next
    case 5
    then show ?thesis using Suc.IH [OF inc(3) Suc.prems(2), of "Suc k"] Suc.prems(3-5) m1(1) inc(1,2) by auto
  qed
qed simp

text \<open>The verdict agrees with what is stored.\<close>

definition verdict_true :: "string \<Rightarrow> job_db \<Rightarrow> job_state \<Rightarrow> bool" where
  "verdict_true i db st \<longleftrightarrow>
     (st = Completed \<longrightarrow> failures_of i db = [] \<and> (\<forall>r\<in>set (results_of i db). res_outcome (result_value r) = Content)) \<and>
     (st = Partial \<longrightarrow> results_of i db \<noteq> []) \<and> (st = Failed \<longrightarrow> results_of i db = [])"

lemma final_result_true:
  assumes inv: "store_inv cfg db" and j: "select_job i db = Some j" "state j = Running"
  shows "is_terminal (fst (final_result (make_record db j) resp l)) \<and> verdict_true i db (fst (final_result (make_record db j) resp l))"
proof -
  have "j \<in> set (jobs db)" "job_id j = i" using select_job_Some [OF j(1)] by auto
  then have c: "counted db j" using inv j(2) by (auto simp: store_inv_def)
  have "\<not> pages_failed j > 0 \<Longrightarrow> failures_of i db = [] \<and> (\<forall>r\<in>set (results_of i db). res_outcome (result_value r) = Content)"
  proof -
    assume "\<not> pages_failed j > 0"
    moreover have "pages_failed j = int (length (failures_of i db) + unsuccessful i db)"
      using c \<open>job_id j = i\<close> by (simp add: counted_def)
    ultimately have "length (failures_of i db) + unsuccessful i db = 0" by linarith
    then show ?thesis by (auto simp: unsuccessful_def filter_empty_conv)
  qed
  then show ?thesis using \<open>job_id j = i\<close>
    by (auto simp: final_result_def make_record_def verdict_true_def is_terminal_def terminal_states_def Let_def)
qed

lemma settled_forget [simp]: "settled cfg i a b (forget_job k m) sts = settled cfg i a b m sts"
  by (simp add: settled_def forget_job_def)

lemma run_job_settles:
  assumes inv: "store_inv cfg (mgr_db m)" and j: "select_job i (mgr_db m) = Some j" "state j = Running"
    and scripts: "\<And>k. ending (scripts k) \<noteq> Task_Cancelled" and fuel: "nat (max_attempts s - attempts j) < fuel"
  shows "\<exists>m' j'. run_job fuel env cfg s scripts late now (make_record (mgr_db m) j) m = Some (Job_Returned, m') \<and>
    store_inv cfg (mgr_db m') \<and> active_cancel m' i = None \<and> select_job i (mgr_db m') = Some j' \<and> is_terminal (state j') \<and>
    verdict_true i (mgr_db m') (state j') \<and> attempts j \<le> attempts j' \<and> attempts j' \<le> max (attempts j) (max_attempts s)"
proof -
  have i: "job_id j = i" using select_job_Some [OF j(1)] by blast
  let ?m = "m\<lparr>active_cancel := (active_cancel m)(i \<mapsto> False)\<rparr>"
  have t: "tended cfg i (attempts j) ?m" using inv j by (auto simp: tended_def held_def)
  from run_attempts_end [where a = "attempts j" and k = 0 and env = env and now = now and scripts = scripts, OF t scripts fuel]
  obtain e m1 where run: "run_attempts fuel env cfg s i scripts now 0 (attempts j) ?m = Some (e, m1)" and
    e: "e = Ended_Cancelled \<and> settled cfg i (attempts j) (max (attempts j) (max_attempts s)) m1 {Cancelled} \<or>
      (\<exists>resp l n'. e = Ended resp l \<and> attempts j \<le> n' \<and> n' \<le> max (attempts j) (max_attempts s) \<and> tended cfg i n' m1)"
    by auto
  from e show ?thesis
  proof (elim disjE conjE exE)
    assume "e = Ended_Cancelled" "settled cfg i (attempts j) (max (attempts j) (max_attempts s)) m1 {Cancelled}"
    then show ?thesis using run i
      by (auto simp: run_job_def make_record_def settled_def forget_job_def verdict_true_def is_terminal_def terminal_states_def)
  next
    fix resp l n
    assume e: "e = Ended resp l" and n: "attempts j \<le> n" "n \<le> max (attempts j) (max_attempts s)" and t1: "tended cfg i n m1"
    then obtain j1 where j1: "select_job i (mgr_db m1) = Some j1" "state j1 = Running" and inv1: "store_inv cfg (mgr_db m1)"
      by (auto simp: tended_def held_def)
    obtain st out warns where fin: "final_result (make_record (mgr_db m1) j1) resp l = (st, out, warns)"
      by (cases "final_result (make_record (mgr_db m1) j1) resp l") auto
    with final_result_true [OF inv1 j1, of resp l] have st: "is_terminal st" "verdict_true i (mgr_db m1) st" by simp_all
    let ?m2 = "serve_all env cfg s late m1"
    have t2: "tended_with cfg i n (tables i (mgr_db m1)) ?m2"
      using t1 by (intro serve_all_tended_with) (simp add: tended_with_def)
    then obtain j2 where j2: "select_job i (mgr_db ?m2) = Some j2" "state j2 = Running" "attempts j2 = n" and inv2: "store_inv cfg (mgr_db ?m2)"
      by (auto simp: tended_with_def tended_def held_def)
    from finish_held [OF inv2 j2(1,2) st(1), of "Some out" warns now] obtain r db j' where
      f: "finish cfg i st (Some out) warns now (mgr_db ?m2) = (Inr r, db)" "store_inv cfg db" "select_job i db = Some j'"
        "state j' = (if cancel_requested j2 then Cancelled else st)" "attempts j' = n"
        "results_of i db = results_of i (mgr_db ?m2)" "failures_of i db = failures_of i (mgr_db ?m2)"
      using j2(3) by blast
    have "verdict_true i db (state j')"
      using t2 st(2) f(4,6,7) by (auto simp: tended_with_def tables_def verdict_true_def)
    moreover have "is_terminal (state j')" using f(4) st(1) by (simp add: is_terminal_def terminal_states_def)
    moreover have "run_job fuel env cfg s scripts late now (make_record (mgr_db m) j) m = Some (Job_Returned, forget_job i (?m2\<lparr>mgr_db := db\<rparr>))"
      using run e i j1(1) fin f(1) by (simp add: run_job_def make_record_def get_any_def)
    ultimately show ?thesis using f n by (auto simp: forget_job_def)
  qed
qed

text \<open>
  C26. Running a claimed job always ends, and ends it: whatever the runner does on each attempt short of the
  shutdown of the worker, and whatever clients call while it is awaited, the job is closed after at most
  \<open>max_attempts\<close> attempts and its cancel event is gone.  Its verdict is true of the tables: a completed job
  has no failure and only content, a partial one has results, a failed one has none.
\<close>

theorem job_run_settles:
  assumes "reachable cfg (mgr_db m)" and "select_job i (mgr_db m) = Some j" and "state j = Running"
    and "\<forall>k. ending (scripts k) \<noteq> Task_Cancelled" and "nat (max_attempts s - attempts j) < fuel"
  shows "\<exists>m' j'. run_claimed_job fuel env cfg s scripts late now (make_record (mgr_db m) j) m = Some (Some False, m') \<and>
    active_cancel m' i = None \<and> select_job i (mgr_db m') = Some j' \<and> is_terminal (state j') \<and>
    attempts j \<le> attempts j' \<and> attempts j' \<le> max (attempts j) (max_attempts s) \<and>
    (state j' = Completed \<longrightarrow> failures_of i (mgr_db m') = [] \<and>
       (\<forall>r\<in>set (results_of i (mgr_db m')). res_outcome (result_value r) = Content)) \<and>
    (state j' = Partial \<longrightarrow> results_of i (mgr_db m') \<noteq> []) \<and> (state j' = Failed \<longrightarrow> results_of i (mgr_db m') = [])"
proof -
  from run_job_settles [OF reachable_inv [OF assms(1)] assms(2,3) _ assms(5), of scripts env late now] assms(4)
  obtain m' j' where "run_job fuel env cfg s scripts late now (make_record (mgr_db m) j) m = Some (Job_Returned, m')"
    "active_cancel m' i = None" "select_job i (mgr_db m') = Some j'" "is_terminal (state j')" "verdict_true i (mgr_db m') (state j')"
    "attempts j \<le> attempts j'" "attempts j' \<le> max (attempts j) (max_attempts s)" by blast
  then show ?thesis by (auto simp: run_claimed_job_def verdict_true_def)
qed

text \<open>A runner that never gets a capacity slot uses up both attempts.\<close>

theorem job_run_settles_witness:
  "\<exists>m' j'. run_claimed_job 3 demo_env demo_config demo_settings
      (\<lambda>k. \<lparr>during = [], ending = Raises_Capacity, backoff = []\<rparr>) [] 9 (make_record demo_running (hd (jobs demo_running)))
      (make_manager demo_settings demo_running) = Some (Some False, m') \<and>
    select_job ''j'' (mgr_db m') = Some j' \<and> attempts j' \<le> 2 \<and> is_terminal (state j')"
proof -
  have "reachable demo_config (mgr_db (make_manager demo_settings demo_running))"
    using demo_reachable(2) by (simp add: make_manager_def)
  moreover have "select_job ''j'' (mgr_db (make_manager demo_settings demo_running)) = Some (hd (jobs demo_running))"
    "state (hd (jobs demo_running)) = Running" "attempts (hd (jobs demo_running)) = 1"
    by (simp_all add: demo_running_eq make_manager_def select_job_def new_job_def)
  ultimately show ?thesis
    using job_run_settles [of demo_config "make_manager demo_settings demo_running" "''j''" "hd (jobs demo_running)"
        "\<lambda>k. \<lparr>during = [], ending = Raises_Capacity, backoff = []\<rparr>" demo_settings 3 demo_env "[]" 9]
    by (auto simp: make_manager_def demo_settings_def)
qed

section \<open>Other scopes\<close>

text \<open>
  C27. A caller from another scope cannot see or touch a job: asking for its status, cancelling it and
  reading its results all answer that there is no such job, and cancelling sets no event.
\<close>

theorem scopes_isolated:
  assumes "reachable cfg (mgr_db m)" and "select_job i (mgr_db m) = Some j" and "job_id_ok i"
    and "scope_hash_of env scope = Some sh" and "scope_hash j \<noteq> sh" and "jobs_enabled s" and "has_store s"
    and "decode_cursor (reader env) i cursor = Some after" and "1 \<le> mi" and "mi \<le> max_page_items s" and "1 \<le> mb" and "mb \<le> max_page_bytes s"
  shows "fst (job_status_op env cfg s True i scope now m) = Inl (Store_Error Job_Not_Found) \<and>
    fst (cancel_job env cfg s True i scope now m) = Inl (Store_Error Job_Not_Found) \<and>
    fst (results_op env cfg s True i scope cursor (Some mi) (Some mb) now m) = Inl (Store_Error Job_Not_Found) \<and>
    snd (cancel_job env cfg s True i scope now m) = m\<lparr>mgr_db := expire_due cfg now (mgr_db m)\<rparr>"
proof -
  let ?e = "expire_due cfg now (mgr_db m)"
  have inv: "store_inv cfg (mgr_db m)" using assms(1) by (rule reachable_inv)
  have keyed: "keyed (jobs ?e)" using expire_due_inv [OF inv, of now] by (simp add: store_inv_def)
  have "select_scoped_job i sh ?e = None"
  proof (rule ccontr)
    assume "select_scoped_job i sh ?e \<noteq> None"
    then obtain k where k: "k \<in> set (jobs ?e)" "job_id k = i" "scope_hash k = sh"
      by (auto simp: select_scoped_job_def dest: find_Some_mem)
    then have "select_job i ?e = Some k" using select_job_iff [OF keyed] by blast
    then show False using view_expire_due [OF inv assms(2), of now] k(3) assms(2,5)
      by (auto simp: view_def Let_def expired_row_def split: if_splits)
  qed
  then show ?thesis using assms(3,4,6-)
    by (simp add: job_status_op_def cancel_job_def results_op_def with_slot_def on_store_def get_job_def request_cancel_def
        result_page_op_def page_read_def Let_def)
qed

theorem scopes_isolated_witness:
  "fst (job_status_op demo_env demo_config demo_settings True demo_id ''me'' 3
      (make_manager demo_settings (snd (claim demo_config demo_id ''other'' ''k'' ''f'' demo_request 1 empty_db)))) =
     Inl (Store_Error Job_Not_Found)"
proof -
  let ?db = "snd (claim demo_config demo_id ''other'' ''k'' ''f'' demo_request 1 empty_db)"
  have "select_job demo_id empty_db = None" by (simp add: select_job_def empty_db_def)
  then have "reachable demo_config ?db" by (intro reach_step [OF reach_empty] step_claim)
  moreover have "?db = \<lparr>jobs = [new_job demo_id ''other'' ''k'' ''f'' demo_request 1], results = [], failures = []\<rparr>"
    by (simp add: claim_def expire_due_def demo_defs)
  moreover have "job_id_ok demo_id" by (simp add: job_id_ok_def demo_id_def list_all_iff)
  moreover have "scope_hash_of demo_env ''me'' = Some ''30''" by code_simp
  moreover have "decode_cursor (reader demo_env) demo_id None = Some 0" by (simp add: decode_cursor_def)
  ultimately show ?thesis
    using scopes_isolated [of demo_config "make_manager demo_settings ?db" demo_id "new_job demo_id ''other'' ''k'' ''f'' demo_request 1"
        demo_env "''me''" "''30''" demo_settings None 0 1 50 3]
    by (simp add: make_manager_def demo_settings_def select_job_def new_job_def)
qed

end
