(* ===== verification/Posix_Glob.thy ===== *)
theory Posix_Glob
  imports Url
begin

text \<open>
  The two standard-library pieces the crawl policy uses on URL paths: \<open>fnmatch.fnmatchcase\<close> (as the
  regular expression \<open>fnmatch.translate\<close> builds, character classes included) and \<open>pathlib.PurePosixPath\<close>
  (\<open>str\<close>, \<open>parent\<close>, \<open>suffix\<close>).  The glob matcher is related to a declarative reading of the pattern.
\<close>

section \<open>Glob patterns\<close>

datatype glob_token =
    Star
  | Any_One
  | Never
  | One char
  | Char_Class bool "string list"

text \<open>
  The text between the brackets is cut at the hyphens that make ranges: the first range may start after
  one character (two, when the class is negated), every later one after two.
\<close>

function class_cuts :: "nat \<Rightarrow> string \<Rightarrow> string list" where
  "class_cuts skip s =
     (let pre = takeWhile (\<lambda>c. c \<noteq> CHR ''-'') (drop skip s)
      in if CHR ''-'' \<in> set (drop skip s)
         then (take skip s @ pre) # class_cuts 2 (drop (Suc (skip + length pre)) s)
         else [s])"
  by pat_completeness auto
termination
proof (relation "measure (\<lambda>(skip, s). length s)")
  fix skip and s :: string and pre
  assume "CHR ''-'' \<in> set (drop skip s)"
  then have "s \<noteq> []" by auto
  then show "((2, drop (Suc (skip + length pre)) s), skip, s) \<in> measure (\<lambda>(skip, s). length s)"
    by (cases s) (auto simp: less_Suc_eq_le)
qed simp

definition class_chunks :: "string \<Rightarrow> string list" where
  "class_chunks s =
     (let cs = class_cuts (if take 1 s = ''!'' then 2 else 1) s
      in if 2 \<le> length cs \<and> last cs = [] then butlast (butlast cs) @ [last (butlast cs) @ ''-''] else cs)"

text \<open>Chunks around an empty range are joined, from the last one backwards.\<close>

fun join_empty_ranges :: "string list \<Rightarrow> string list" where
  "join_empty_ranges [] = []"
| "join_empty_ranges (c # cs) =
     (case join_empty_ranges cs of
        [] \<Rightarrow> [c]
      | d # ds \<Rightarrow> if hd d < last c then (butlast c @ tl d) # ds else c # d # ds)"

definition class_token :: "string \<Rightarrow> glob_token" where
  "class_token s =
     (case join_empty_ranges (class_chunks s) of
        [] \<Rightarrow> Never
      | c # cs \<Rightarrow>
          if c = [] \<and> cs = [] then Never
          else if c = ''!'' \<and> cs = [] then Any_One
          else if take 1 c = ''!'' then
            (case cs of d # ds \<Rightarrow> if c = ''!'' then Char_Class True ((CHR ''-'' # d) # ds) else Char_Class True (tl c # cs)
                      | [] \<Rightarrow> Char_Class True [tl c])
          else Char_Class False (c # cs))"

text \<open>Where a class ends: a closing bracket that is not its first character.\<close>

definition class_text :: "string \<Rightarrow> string option" where
  "class_text s =
     (let a = (if take 1 s = ''!'' then 1 else 0);
          b = (if take 1 (drop a s) = '']'' then Suc a else a);
          body = takeWhile (\<lambda>c. c \<noteq> CHR '']'') (drop b s)
      in if CHR '']'' \<in> set (drop b s) then Some (take (b + length body) s) else None)"

function glob_tokens :: "string \<Rightarrow> glob_token list" where
  "glob_tokens [] = []"
| "glob_tokens (c # s) =
     (if c = CHR ''*'' then Star # glob_tokens s
      else if c = CHR ''?'' then Any_One # glob_tokens s
      else if c = CHR ''['' then
        (case class_text s of
           None \<Rightarrow> One c # glob_tokens s
         | Some t \<Rightarrow> class_token t # glob_tokens (drop (Suc (length t)) s))
      else One c # glob_tokens s)"
  by pat_completeness auto
termination
  by (relation "measure length") auto

fun in_ranges :: "string list \<Rightarrow> char \<Rightarrow> bool" where
  "in_ranges (c # d # ds) x \<longleftrightarrow> last c \<le> x \<and> x \<le> hd d \<or> in_ranges (d # ds) x"
| "in_ranges cs x \<longleftrightarrow> False"

fun token_accepts :: "glob_token \<Rightarrow> char \<Rightarrow> bool" where
  "token_accepts Star x \<longleftrightarrow> False"
| "token_accepts Any_One x \<longleftrightarrow> True"
| "token_accepts Never x \<longleftrightarrow> False"
| "token_accepts (One c) x \<longleftrightarrow> x = c"
| "token_accepts (Char_Class neg cs) x \<longleftrightarrow> (list_ex (\<lambda>c. x \<in> set c) cs \<or> in_ranges cs x) \<noteq> neg"

function glob_match :: "glob_token list \<Rightarrow> string \<Rightarrow> bool" where
  "glob_match [] s \<longleftrightarrow> s = []"
| "glob_match (t # ts) [] \<longleftrightarrow> t = Star \<and> glob_match ts []"
| "glob_match (t # ts) (x # s) \<longleftrightarrow>
     (if t = Star then glob_match ts (x # s) \<or> glob_match (t # ts) s
      else token_accepts t x \<and> glob_match ts s)"
  by pat_completeness auto
termination
  by (relation "measure (\<lambda>(ts, s). length ts + length s)") auto

definition fnmatchcase :: "string \<Rightarrow> string \<Rightarrow> bool" where
  "fnmatchcase name pat \<longleftrightarrow> glob_match (glob_tokens pat) name"

text \<open>What a token stands for, and a pattern as the concatenation of its tokens.\<close>

definition token_language :: "glob_token \<Rightarrow> string set" where
  "token_language t = (if t = Star then UNIV else {[x] |x. token_accepts t x})"

fun glob_language :: "glob_token list \<Rightarrow> string set" where
  "glob_language [] = {[]}"
| "glob_language (t # ts) = {u @ v |u v. u \<in> token_language t \<and> v \<in> glob_language ts}"

lemma star_language: "s \<in> glob_language (Star # ts) \<longleftrightarrow> (\<exists>u v. s = u @ v \<and> v \<in> glob_language ts)"
  by (auto simp: token_language_def)

lemma glob_match_language: "glob_match ts s \<longleftrightarrow> s \<in> glob_language ts"
proof (induction ts s rule: glob_match.induct)
  case (3 t ts x s)
  show ?case
  proof (cases "t = Star")
    case True
    have "x # s \<in> glob_language (Star # ts) \<longleftrightarrow> x # s \<in> glob_language ts \<or> s \<in> glob_language (Star # ts)"
      unfolding star_language by (auto simp: Cons_eq_append_conv)
    then show ?thesis using 3 True by simp
  next
    case False
    have "x # s \<in> glob_language (t # ts)" if "token_accepts t x" and "s \<in> glob_language ts"
    proof -
      have "[x] \<in> token_language t" using that(1) False by (simp add: token_language_def)
      then show ?thesis using that(2) by (simp, intro exI [of _ "[x]"] exI [of _ s]) simp
    qed
    then have "x # s \<in> glob_language (t # ts) \<longleftrightarrow> token_accepts t x \<and> s \<in> glob_language ts"
      using False by (auto simp: token_language_def)
    then show ?thesis using 3 False by simp
  qed
qed (auto simp: token_language_def)

lemma plain_pattern:
  assumes "set pat \<inter> set ''*?['' = {}"
  shows "fnmatchcase name pat \<longleftrightarrow> name = pat"
proof -
  have "glob_tokens pat = map One pat" using assms by (induction pat) auto
  moreover have "glob_match (map One pat) name \<longleftrightarrow> name = pat" for name
    by (induction pat arbitrary: name) (case_tac name; auto)+
  ultimately show ?thesis by (simp add: fnmatchcase_def)
qed

section \<open>Paths\<close>

record posix_path =
  path_root :: string
  path_parts :: "string list"

definition pure_posix_path :: "string \<Rightarrow> posix_path" where
  "pure_posix_path s =
     \<lparr>path_root = (if take 1 s \<noteq> ''/'' then [] else if take 2 s = ''//'' \<and> take 3 s \<noteq> ''///'' then ''//'' else ''/''),
      path_parts = filter (\<lambda>p. p \<noteq> [] \<and> p \<noteq> ''.'') (split_on (CHR ''/'') s)\<rparr>"

definition path_parent :: "posix_path \<Rightarrow> posix_path" where
  "path_parent p = p\<lparr>path_parts := butlast (path_parts p)\<rparr>"

definition path_str :: "posix_path \<Rightarrow> string" where
  "path_str p =
     (let s = path_root p @ join_on ''/'' (path_parts p) in if s = [] then ''.'' else s)"

definition path_suffix :: "posix_path \<Rightarrow> string" where
  "path_suffix p =
     (let name = (if path_parts p = [] then [] else last (path_parts p));
          (stem, has_dot, ext) = rpartition_on (CHR ''.'') name
      in if has_dot \<and> stem \<noteq> [] \<and> ext \<noteq> [] then ''.'' @ ext else [])"

end
