(* ===== verification/Crawl_Policy.thy ===== *)
theory Crawl_Policy
  imports Posix_Glob Url_Identity Wire_Models
begin

text \<open>
  \<open>orchestrator/crawl_policy.py\<close>, first half: URL normalisation with dot segments removed, and the policy
  that says which URLs a site crawl may take.  \<open>None\<close> stands for a \<open>ValueError\<close> where a function can
  raise one; where the code catches it, its branch is in the model.
\<close>

definition within_url_limit :: "string \<Rightarrow> bool" where
  "within_url_limit v \<longleftrightarrow> length v \<le> max_site_url_bytes \<and> length (utf8 v) \<le> max_site_url_bytes"

section \<open>Dot segments\<close>

definition dot_value :: "string \<Rightarrow> string" where
  "dot_value seg = py_replace ''%2E'' ''.'' (py_replace ''%2e'' ''.'' seg)"

definition dot_step :: "string list \<Rightarrow> string \<Rightarrow> string list" where
  "dot_step segs seg =
     (if dot_value seg = ''.'' then segs
      else if dot_value seg = ''..'' then (if segs \<noteq> [] \<and> last segs \<noteq> [] then butlast segs else segs)
      else segs @ [seg])"

definition remove_dot_segments :: "string \<Rightarrow> string" where
  "remove_dot_segments p =
     (let trailing = py_endswith p ''/'' \<or> py_endswith p ''/.'' \<or> py_endswith p ''/..'';
          joined = join_on ''/'' (foldl dot_step [] (split_on (CHR ''/'') p));
          n1 = (if joined = [] then ''/'' else joined);
          n2 = (if py_startswith p ''/'' \<and> \<not> py_startswith n1 ''/'' then ''/'' @ n1 else n1)
      in if trailing \<and> \<not> py_endswith n2 ''/'' then n2 @ ''/'' else n2)"

section \<open>Origins and the path of the seed\<close>

definition origin_parts :: "url_env \<Rightarrow> string \<Rightarrow> (string \<times> string \<times> nat option) option" where
  "origin_parts env url =
     (case urlsplit url of
        None \<Rightarrow> None
      | Some u \<Rightarrow>
          (let scheme = Py_Strings.py_casefold (url_scheme u)
           in case url_port u of
                None \<Rightarrow> None
              | Some port \<Rightarrow>
                  (case canonical_host env (hostname u) of
                     None \<Rightarrow> None
                   | Some host \<Rightarrow>
                       Some (scheme, host,
                         (case port of
                            Some n \<Rightarrow> Some n
                          | None \<Rightarrow> if scheme = ''http'' then Some 80 else if scheme = ''https'' then Some 443 else None)))))"

definition path_or_root :: "split_url \<Rightarrow> string" where
  "path_or_root u = (if url_path u = [] then ''/'' else url_path u)"

definition prefix_of_path :: "string \<Rightarrow> string" where
  "prefix_of_path p =
     (if p = ''/'' \<or> py_endswith p ''/'' then p
      else (let parent = path_str (path_parent (pure_posix_path p))
            in if parent \<noteq> ''/'' then rstrip_char (CHR ''/'') parent @ ''/'' else ''/''))"

definition seed_path_prefix :: "string \<Rightarrow> string option" where
  "seed_path_prefix url = map_option (\<lambda>u. prefix_of_path (path_or_root u)) (urlsplit url)"

section \<open>The policy\<close>

record crawl_policy =
  effective_url :: string
  max_depth :: int
  max_discovered_urls :: int
  include_parent_paths :: bool
  include_subdomains :: bool
  include_paths :: "string list"
  exclude_paths :: "string list"
  query_policy :: string
  allowed_file_extensions :: "string list"

text \<open>\<open>__post_init__\<close>: the policies that can be built.\<close>

definition policy_valid :: "crawl_policy \<Rightarrow> bool" where
  "policy_valid p \<longleftrightarrow>
     0 \<le> max_depth p \<and> 1 \<le> max_discovered_urls p \<and> query_policy p \<in> {''preserve'', ''strip'', ''exclude''}"

definition new_policy :: "crawl_policy \<Rightarrow> crawl_policy option" where
  "new_policy p = (if policy_valid p then Some p else None)"

definition crawlable :: "split_url \<Rightarrow> bool" where
  "crawlable u \<longleftrightarrow>
     Py_Strings.py_casefold (url_scheme u) \<in> {''http'', ''https''} \<and> hostname u \<noteq> None \<and> userinfo u = (None, None)"

definition normal_form :: "crawl_policy \<Rightarrow> split_url \<Rightarrow> split_url" where
  "normal_form p u =
     \<lparr>url_scheme = Py_Strings.py_casefold (url_scheme u), netloc = netloc u,
      url_path = remove_dot_segments (path_or_root u),
      query = (if query_policy p = ''strip'' then [] else query u), fragment = []\<rparr>"

definition policy_normalize :: "url_env \<Rightarrow> crawl_policy \<Rightarrow> string \<Rightarrow> string option" where
  "policy_normalize env p candidate =
     do {
       joined \<leftarrow> urljoin (effective_url p) candidate;
       plain \<leftarrow> urldefrag joined;
       u \<leftarrow> urlsplit plain;
       (if \<not> crawlable u then None
        else (let n = urlunsplit (normal_form p u)
              in if \<not> within_url_limit n then None
                 else (case dedup_key_for env n of None \<Rightarrow> None | Some _ \<Rightarrow> Some n)))
     }"

text \<open>\<open>_path_rejection\<close>; the effective URL has been split before, so the prefix is there.\<close>

definition path_rejection :: "crawl_policy \<Rightarrow> split_url \<Rightarrow> string option option" where
  "path_rejection p u =
     (let path = path_or_root u
      in do {
        parent_check \<leftarrow>
          (if include_parent_paths p then Some False
           else do {
             prefix \<leftarrow> seed_path_prefix (effective_url p);
             seed \<leftarrow> urlsplit (effective_url p);
             Some (path \<noteq> path_or_root seed \<and> \<not> py_startswith path prefix)
           });
        Some
          (if parent_check then Some ''outside_seed_path''
           else if query_policy p = ''exclude'' \<and> query u \<noteq> [] then Some ''query_excluded''
           else if list_ex (fnmatchcase path) (exclude_paths p) then Some ''excluded_path''
           else if include_paths p \<noteq> [] \<and> \<not> list_ex (fnmatchcase path) (include_paths p)
             then Some ''outside_included_paths''
           else if Py_Strings.py_casefold (path_suffix (pure_posix_path path))
               \<notin> set (map Py_Strings.py_casefold (allowed_file_extensions p))
             then Some ''unsupported_file_type''
           else None)
      })"

type_synonym origin = "string \<times> string \<times> nat option"

definition accepted_origin :: "crawl_policy \<Rightarrow> origin \<Rightarrow> origin \<Rightarrow> bool" where
  "accepted_origin p seed cand \<longleftrightarrow>
     cand = seed \<or>
     include_subdomains p \<and> fst cand = fst seed \<and> snd (snd cand) = snd (snd seed) \<and>
       py_endswith (fst (snd cand)) (''.'' @ fst (snd seed))"

definition rejection_reason :: "url_env \<Rightarrow> crawl_policy \<Rightarrow> string \<Rightarrow> int \<Rightarrow> string option option" where
  "rejection_reason env p url depth =
     (if max_depth p < depth then Some (Some ''depth_exceeded'')
      else case (urlsplit url, origin_parts env (effective_url p), origin_parts env url) of
        (Some u, Some seed, Some cand) \<Rightarrow>
          if \<not> accepted_origin p seed cand then Some (Some ''outside_origin'') else path_rejection p u
      | _ \<Rightarrow> Some (Some ''invalid_url''))"

text \<open>No exception leaves \<open>rejection_reason\<close>.\<close>

lemma origin_parts_split: "origin_parts env url = Some x \<Longrightarrow> urlsplit url \<noteq> None"
  by (cases "urlsplit url") (simp_all add: origin_parts_def)

lemma rejection_reason_total: "rejection_reason env p url depth \<noteq> None"
proof -
  have "path_rejection p u \<noteq> None" if "urlsplit (effective_url p) \<noteq> None" for u
    using that by (auto simp: path_rejection_def seed_path_prefix_def Let_def)
  then show ?thesis using origin_parts_split [of env "effective_url p"]
    by (auto simp: rejection_reason_def split: option.splits)
qed

lemma rejection_reason_None:
  assumes "rejection_reason env p url depth = Some None"
  obtains u seed cand where "depth \<le> max_depth p" "urlsplit url = Some u"
    "origin_parts env (effective_url p) = Some seed" "origin_parts env url = Some cand"
    "accepted_origin p seed cand" "path_rejection p u = Some None"
  using assms by (auto simp: rejection_reason_def split: if_splits option.splits)

section \<open>What normalisation promises\<close>

lemma policy_normalize_cases:
  assumes "policy_normalize env p candidate = Some n"
  obtains plain u k where "urlsplit plain = Some u" "crawlable u" "n = urlunsplit (normal_form p u)"
    "within_url_limit n" "dedup_key_for env n = Some k"
proof -
  obtain joined plain u where j: "urljoin (effective_url p) candidate = Some joined" "urldefrag joined = Some plain"
    "urlsplit plain = Some u"
    using assms by (auto simp: policy_normalize_def bind_eq_Some_conv)
  then have "(if \<not> crawlable u then None
        else (let n = urlunsplit (normal_form p u)
              in if \<not> within_url_limit n then None
                 else (case dedup_key_for env n of None \<Rightarrow> None | Some _ \<Rightarrow> Some n))) = Some n"
    using assms by (simp add: policy_normalize_def)
  then show ?thesis using j that by (auto simp: Let_def split: if_splits option.splits)
qed

lemma dot_step_cases:
  obtains "dot_step segs x = segs" | "dot_step segs x = butlast segs"
  | "dot_step segs x = segs @ [x]" "dot_value x \<noteq> ''.''" "dot_value x \<noteq> ''..''"
  unfolding dot_step_def by (cases "dot_value x = ''.''"; cases "dot_value x = ''..''"; cases "segs \<noteq> [] \<and> last segs \<noteq> []") simp_all

lemma dot_step_all:
  assumes "\<forall>s\<in>set segs. P s" and "\<And>s. s \<in> set xs \<Longrightarrow> dot_value s \<noteq> ''.'' \<Longrightarrow> dot_value s \<noteq> ''..'' \<Longrightarrow> P s"
  shows "\<forall>s\<in>set (foldl dot_step segs xs). P s"
  using assms
proof (induction xs arbitrary: segs)
  case (Cons x xs)
  have "\<forall>s\<in>set (dot_step segs x). P s"
    using dot_step_cases [of segs x]
    by (rule) (use Cons.prems in \<open>auto dest: in_set_butlastD\<close>)
  then show ?case using Cons.IH [of "dot_step segs x"] Cons.prems(2) by simp
qed simp

lemma split_join_free [roundtrip_facts]:
  assumes "segs \<noteq> []" and "\<forall>s\<in>set segs. d \<notin> set s"
  shows "split_on d (join_on [d] segs) = segs"
  using assms by (induction "[d]" segs rule: join_on.induct) (simp_all add: split_on_append_free)

lemma split_on_set: "seg \<in> set (split_on d s) \<Longrightarrow> set seg \<subseteq> set s"
proof (induction s arbitrary: seg)
  case (Cons c s)
  obtain p ps where "split_on d s = p # ps" by (cases "split_on d s") auto
  then show ?case using Cons by (fastforce split: if_splits)
qed simp

lemma join_on_set: "set (join_on sep segs) \<subseteq> set sep \<union> (\<Union>s\<in>set segs. set s)"
  by (induction sep segs rule: join_on.induct) auto

lemma split_on_snoc: "split_on d (s @ [d]) = split_on d s @ [[]]"
proof (induction s)
  case (Cons c s)
  then show ?case by (cases "split_on d s") auto
qed simp

lemma dot_value_empty [simp]: "dot_value [] = []"
  by (simp add: dot_value_def)

lemma remove_dot_segments_clean:
  assumes "seg \<in> set (split_on (CHR ''/'') (remove_dot_segments p))"
  shows "dot_value seg \<noteq> ''.'' \<and> dot_value seg \<noteq> ''..''"
proof -
  define ok where "ok s \<longleftrightarrow> (\<forall>seg\<in>set (split_on (CHR ''/'') s). dot_value seg \<noteq> ''.'' \<and> dot_value seg \<noteq> ''..'')" for s
  let ?segs = "foldl dot_step [] (split_on (CHR ''/'') p)"
  have "\<forall>s\<in>set ?segs. (dot_value s \<noteq> ''.'' \<and> dot_value s \<noteq> ''..'') \<and> CHR ''/'' \<notin> set s"
    by (rule dot_step_all) (auto dest: split_on_free)
  then have "ok (join_on ''/'' ?segs)"
    by (cases "?segs = []") (simp_all add: ok_def split_join_free)
  moreover have "ok ''/''" and "ok s \<Longrightarrow> ok (''/'' @ s)" and "ok s \<Longrightarrow> ok (s @ ''/'')" for s
    by (auto simp: ok_def split_on_snoc)
  ultimately have "ok (remove_dot_segments p)"
    by (simp add: remove_dot_segments_def Let_def)
  then show ?thesis using assms by (simp add: ok_def)
qed

lemma starts_slash: "py_startswith s ''/'' \<longleftrightarrow> s \<noteq> [] \<and> hd s = CHR ''/''"
  by (cases s) (auto simp: py_startswith_def)

lemma remove_dot_segments_rooted:
  "py_startswith p ''/'' \<Longrightarrow> py_startswith (remove_dot_segments p) ''/''"
  by (auto simp: remove_dot_segments_def Let_def starts_slash)

lemma remove_dot_segments_set: "set (remove_dot_segments p) \<subseteq> insert (CHR ''/'') (set p)"
proof -
  have "\<forall>s\<in>set (foldl dot_step [] (split_on (CHR ''/'') p)). set s \<subseteq> set p"
    by (rule dot_step_all) (simp_all add: split_on_set)
  then have "set (join_on ''/'' (foldl dot_step [] (split_on (CHR ''/'') p))) \<subseteq> insert (CHR ''/'') (set p)"
    using join_on_set by fastforce
  then show ?thesis by (auto simp: remove_dot_segments_def Let_def)
qed

section \<open>The normalised URL, read back\<close>

text \<open>The shape \<open>urlsplit\<close> gives to a web URL; spaces may occur inside, tabs and line breaks may not.\<close>

definition web_split :: "split_url \<Rightarrow> bool" where
  "web_split u \<longleftrightarrow>
     url_scheme u \<in> {''http'', ''https''} \<and> netloc u \<noteq> [] \<and> netloc_ok (netloc u) \<and>
     set (netloc u @ url_path u @ query u @ fragment u) \<inter> {CHR 0x09, CHR 0x0A, CHR 0x0D} = {} \<and>
     (\<forall>c\<in>set (netloc u). \<not> authority_end c) \<and>
     CHR ''?'' \<notin> set (url_path u) \<and> CHR ''#'' \<notin> set (url_path u @ query u) \<and>
     (url_path u = [] \<or> take 1 (url_path u) = ''/'')"

lemma web_split_roundtrip [roundtrip_facts]:
  assumes "web_split u"
  shows "urlsplit (urlunsplit u) = Some u"
proof -
  let ?q = "if query u = [] then [] else ''?'' @ query u" and ?f = "if fragment u = [] then [] else ''#'' @ fragment u"
  let ?t = "url_scheme u @ ''://'' @ netloc u @ url_path u @ ?q @ ?f"
  have w: "url_scheme u = ''http'' \<or> url_scheme u = ''https''" "netloc u \<noteq> []" "netloc_ok (netloc u)"
    "\<forall>c\<in>set (netloc u). \<not> authority_end c" "CHR ''?'' \<notin> set (url_path u)"
    "CHR ''#'' \<notin> set (url_path u @ ?q)" "url_path u = [] \<or> take 1 (url_path u) = ''/''"
    using assms by (auto simp: web_split_def)
  have "\<forall>c\<in>set ?t. c \<notin> {CHR 0x09, CHR 0x0A, CHR 0x0D}" using assms w(1) by (auto simp: web_split_def)
  then have "filter (\<lambda>c. c \<notin> {CHR 0x09, CHR 0x0A, CHR 0x0D}) ?t = ?t" by (subst filter_id_conv)
  moreover have "dropWhile c0_or_space ?t = ?t" using w(1) by (auto simp: c0_or_space_def)
  ultimately have clean: "clean_url ?t = ?t" by (simp only: clean_url_def)
  have eq: "urlunsplit u = ?t"
    using w by (auto simp: urlunsplit_def with_netloc_def)
  have "split_scheme [] (url_scheme u @ ''://'' @ r) = (url_scheme u, ''//'' @ r)" for r
    using w(1) by (auto simp: split_scheme_def is_alpha_ascii_def scheme_char_def py_lower_def lower_char_def less_eq_char_def)
  moreover have "url_path u @ ?q @ ?f = [] \<or> authority_end (hd (url_path u @ ?q @ ?f))"
    using w(7) by (cases "url_path u") (auto simp: authority_end_def)
  ultimately show ?thesis
    using takeWhile_dropWhile_authority [OF w(4), of "url_path u @ ?q @ ?f"]
      partition_fragment [OF w(6), of "fragment u"] partition_query [OF w(5), of "query u"] w(3)
    unfolding urlsplit_def urlsplit_with_def eq clean
    by (simp add: Let_def)
qed

lemma urlsplit_parts:
  assumes "urlsplit s = Some u"
  shows "set (netloc u @ url_path u @ query u @ fragment u) \<inter> {CHR 0x09, CHR 0x0A, CHR 0x0D} = {}"
    and "\<forall>c\<in>set (netloc u). \<not> authority_end c"
    and "netloc_ok (netloc u)" and "CHR ''?'' \<notin> set (url_path u)" and "CHR ''#'' \<notin> set (url_path u @ query u)"
    and "netloc u \<noteq> [] \<Longrightarrow> url_path u = [] \<or> take 1 (url_path u) = ''/''"
proof -
  obtain sch rest where sr: "split_scheme [] (clean_url s) = (sch, rest)" by fastforce
  define net where "net = (if take 2 rest = ''//'' then takeWhile (\<lambda>c. \<not> authority_end c) (drop 2 rest) else [])"
  define tail1 where "tail1 = (if take 2 rest = ''//'' then dropWhile (\<lambda>c. \<not> authority_end c) (drop 2 rest) else rest)"
  define tail2 where "tail2 = takeWhile (\<lambda>c. c \<noteq> CHR ''#'') tail1"
  have u: "netloc_ok net" "u = \<lparr>url_scheme = sch, netloc = net, url_path = takeWhile (\<lambda>c. c \<noteq> CHR ''?'') tail2,
      query = drop 1 (dropWhile (\<lambda>c. c \<noteq> CHR ''?'') tail2), fragment = drop 1 (dropWhile (\<lambda>c. c \<noteq> CHR ''#'') tail1)\<rparr>"
    using assms unfolding urlsplit_def urlsplit_with_def sr net_def tail1_def tail2_def partition_on_def
    by (simp_all add: Let_def split: if_splits)
  have rest: "set rest \<inter> {CHR 0x09, CHR 0x0A, CHR 0x0D} = {}"
    using sr by (auto simp: split_scheme_def clean_url_def Let_def split: if_splits dest!: in_set_dropD)
  have sub: "set net \<subseteq> set rest" "set tail1 \<subseteq> set rest" "set tail2 \<subseteq> set tail1"
    by (auto simp: net_def tail1_def tail2_def dest!: set_takeWhileD set_dropWhileD in_set_dropD)
  then show "set (netloc u @ url_path u @ query u @ fragment u) \<inter> {CHR 0x09, CHR 0x0A, CHR 0x0D} = {}"
    using rest u(2) by (auto dest!: set_takeWhileD set_dropWhileD in_set_dropD)
  show "\<forall>c\<in>set (netloc u). \<not> authority_end c" using u(2) by (auto simp: net_def dest!: set_takeWhileD)
  show "netloc_ok (netloc u)" using u by simp
  show "CHR ''?'' \<notin> set (url_path u)" using u(2) by (auto dest!: set_takeWhileD)
  have "CHR ''#'' \<notin> set tail2" by (auto simp: tail2_def dest!: set_takeWhileD)
  then show "CHR ''#'' \<notin> set (url_path u @ query u)"
    using u(2) by (auto dest!: set_takeWhileD set_dropWhileD in_set_dropD)
  assume "netloc u \<noteq> []"
  then have "tail1 = dropWhile (\<lambda>c. \<not> authority_end c) (drop 2 rest)"
    using u(2) by (auto simp: net_def tail1_def split: if_splits)
  then have "tail1 = [] \<or> authority_end (hd tail1)"
    using hd_dropWhile [of "\<lambda>c. \<not> authority_end c" "drop 2 rest"] by auto
  then show "url_path u = [] \<or> take 1 (url_path u) = ''/''"
    using u(2) by (cases tail1) (auto simp: tail2_def authority_end_def)
qed

lemma hostname_netloc: "hostname u \<noteq> None \<Longrightarrow> netloc u \<noteq> []"
  by (auto simp: hostname_def hostinfo_def rpartition_on_def partition_on_def split: if_splits)

lemma normal_form_web:
  assumes "urlsplit plain = Some u" and "crawlable u"
  shows "web_split (normal_form p u)"
proof -
  note parts = urlsplit_parts [OF assms(1)]
  have net: "netloc u \<noteq> []" using assms(2) hostname_netloc [of u] by (simp add: crawlable_def)
  have rooted: "py_startswith (path_or_root u) ''/''"
    using parts(6) [OF net] by (cases "url_path u") (auto simp: path_or_root_def py_startswith_def)
  then have "take 1 (remove_dot_segments (path_or_root u)) = ''/''"
    using remove_dot_segments_rooted by (simp add: py_startswith_def)
  moreover have sub: "set (remove_dot_segments (path_or_root u)) \<subseteq> insert (CHR ''/'') (set (url_path u))"
    using remove_dot_segments_set [of "path_or_root u"] by (auto simp: path_or_root_def split: if_splits)
  have "set (remove_dot_segments (path_or_root u)) \<inter> {CHR 0x09, CHR 0x0A, CHR 0x0D, CHR ''?'', CHR ''#''} = {}"
    using sub parts(1,4,5) by auto
  ultimately show ?thesis
    using parts net assms(2) by (auto simp: web_split_def normal_form_def crawlable_def)
qed

lemma normalized_url_clean:
  assumes "policy_normalize env p candidate = Some n"
  shows "\<exists>u k. urlsplit n = Some u \<and> url_scheme u \<in> {''http'', ''https''} \<and> hostname u \<noteq> None \<and>
     userinfo u = (None, None) \<and> fragment u = [] \<and> py_startswith (url_path u) ''/'' \<and>
     (\<forall>seg\<in>set (split_on (CHR ''/'') (url_path u)). dot_value seg \<noteq> ''.'' \<and> dot_value seg \<noteq> ''..'') \<and>
     (query_policy p = ''strip'' \<longrightarrow> query u = []) \<and> within_url_limit n \<and> dedup_key_for env n = Some k"
proof -
  obtain plain u k where u: "urlsplit plain = Some u" "crawlable u" "n = urlunsplit (normal_form p u)"
    "within_url_limit n" "dedup_key_for env n = Some k"
    using assms by (rule policy_normalize_cases)
  have web: "web_split (normal_form p u)" using u by (simp add: normal_form_web)
  then have "urlsplit n = Some (normal_form p u)" using u(3) web_split_roundtrip by simp
  moreover have "py_startswith (url_path (normal_form p u)) ''/''"
  proof -
    have "url_path u = [] \<or> take 1 (url_path u) = ''/''"
      using urlsplit_parts(6) [OF u(1)] u(2) hostname_netloc [of u] by (simp add: crawlable_def)
    then have "py_startswith (path_or_root u) ''/''" by (auto simp: path_or_root_def py_startswith_def)
    then show ?thesis using remove_dot_segments_rooted by (simp add: normal_form_def)
  qed
  moreover have "hostname (normal_form p u) = hostname u" "userinfo (normal_form p u) = userinfo u"
    by (simp_all add: normal_form_def hostname_def userinfo_def)
  ultimately show ?thesis
    using u web remove_dot_segments_clean
    by (intro exI [of _ "normal_form p u"] exI [of _ k]) (simp add: crawlable_def normal_form_def web_split_def)
qed

end
