(* ===== verification/Crawl_Frontier.thy ===== *)
theory Crawl_Frontier
  imports Crawl_Policy
begin

text \<open>
  \<open>orchestrator/crawl_policy.py\<close>, second half: the frontier of a site crawl.  A \<open>FrontierRecord\<close> object is
  the index of its entry in \<open>records\<close> (nothing is ever removed from that list), so \<open>is\<close> is equality of
  indices.  The outer \<open>None\<close> of an operation is an exception of \<open>dedup_key_for\<close>.
\<close>

datatype crawl_source = Src_Seed | Src_Sitemap | Src_Link | Src_Search

datatype crawl_state =
    St_Discovered
  | St_Admitted
  | St_Queued
  | St_Fetched
  | St_Filtered
  | St_Failed
  | St_Cancelled

record frontier_record =
  rec_url :: string
  rec_depth :: int
  rec_sources :: "crawl_source list"
  rec_states :: "crawl_state list"
  rec_reason :: "string option"
  rec_modified_at :: "string option"
  rec_priority :: "pyfloat option"
  rec_order :: nat

text \<open>The keyword arguments of \<open>discover\<close>.\<close>

record discovery =
  disc_source :: crawl_source
  disc_depth :: int
  disc_safe :: bool
  disc_robots_allowed :: bool
  disc_modified_at :: "string option"
  disc_priority :: "pyfloat option"

record frontier =
  policy :: crawl_policy
  records :: "frontier_record list"
  omitted_due_to_limit :: nat
  non_http_urls_skipped :: nat
  by_key :: "string \<rightharpoonup> nat"
  frontier_queue :: "nat list"

definition new_frontier :: "crawl_policy \<Rightarrow> frontier" where
  "new_frontier p = \<lparr>policy = p, records = [], omitted_due_to_limit = 0, non_http_urls_skipped = 0,
     by_key = Map.empty, frontier_queue = []\<rparr>"

definition is_known :: "url_env \<Rightarrow> frontier \<Rightarrow> string \<Rightarrow> bool option" where
  "is_known env f url = map_option (\<lambda>k. by_key f k \<noteq> None) (dedup_key_for env url)"

definition is_full :: "frontier \<Rightarrow> bool" where
  "is_full f \<longleftrightarrow> max_discovered_urls (policy f) \<le> int (length (records f))"

definition on_record :: "nat \<Rightarrow> (frontier_record \<Rightarrow> frontier_record) \<Rightarrow> frontier \<Rightarrow> frontier" where
  "on_record i g f = f\<lparr>records := (records f)[i := g (records f ! i)]\<rparr>"

section \<open>Discovery\<close>

definition add_source :: "crawl_source \<Rightarrow> crawl_source list \<Rightarrow> crawl_source list" where
  "add_source s ss = (if s \<in> set ss then ss else ss @ [s])"

definition merge_discovery :: "discovery \<Rightarrow> frontier_record \<Rightarrow> frontier_record" where
  "merge_discovery d r =
     r\<lparr>rec_sources := add_source (disc_source d) (rec_sources r),
       rec_modified_at := (if rec_modified_at r = None then disc_modified_at d else rec_modified_at r),
       rec_priority := (if rec_priority r = None then disc_priority d else rec_priority r),
       rec_depth := min (rec_depth r) (disc_depth d)\<rparr>"

definition admission_rejection :: "url_env \<Rightarrow> crawl_policy \<Rightarrow> string \<Rightarrow> discovery \<Rightarrow> string option option" where
  "admission_rejection env p url d =
     (case rejection_reason env p url (disc_depth d) of
        None \<Rightarrow> None
      | Some None \<Rightarrow>
          Some (if \<not> disc_safe d then Some ''unsafe_target''
                else if \<not> disc_robots_allowed d then Some ''robots_refused'' else None)
      | Some (Some r) \<Rightarrow> Some (Some r))"

definition new_record :: "string \<Rightarrow> discovery \<Rightarrow> crawl_state list \<Rightarrow> string option \<Rightarrow> nat \<Rightarrow> frontier_record" where
  "new_record url d states reason n =
     \<lparr>rec_url = url, rec_depth = disc_depth d, rec_sources = [disc_source d], rec_states = states,
      rec_reason = reason, rec_modified_at = disc_modified_at d, rec_priority = disc_priority d, rec_order = n\<rparr>"

definition record_filtered :: "string \<Rightarrow> discovery \<Rightarrow> string \<Rightarrow> frontier \<Rightarrow> nat option \<times> frontier" where
  "record_filtered url d reason f =
     (if \<not> within_url_limit url \<or> is_full f
      then (None, f\<lparr>omitted_due_to_limit := Suc (omitted_due_to_limit f)\<rparr>)
      else (Some (length (records f)),
        f\<lparr>records := records f @ [new_record url d [St_Discovered, St_Filtered] (Some reason) (length (records f))]\<rparr>))"

definition discover :: "url_env \<Rightarrow> string \<Rightarrow> discovery \<Rightarrow> frontier \<Rightarrow> (nat option \<times> frontier) option" where
  "discover env candidate d f =
     (case policy_normalize env (policy f) candidate of
        None \<Rightarrow> Some (record_filtered candidate d ''invalid_url'' f)
      | Some url \<Rightarrow> do {
          key \<leftarrow> dedup_key_for env url;
          (case by_key f key of
             Some i \<Rightarrow> Some (Some i, on_record i (merge_discovery d) f)
           | None \<Rightarrow>
               if is_full f then Some (None, f\<lparr>omitted_due_to_limit := Suc (omitted_due_to_limit f)\<rparr>)
               else
                 (let i = length (records f)
                  in do {
                    reason \<leftarrow> admission_rejection env (policy f) url d;
                    (case reason of
                       Some r \<Rightarrow>
                         Some (Some i,
                           f\<lparr>records := records f @ [new_record url d [St_Discovered, St_Filtered] (Some r) i],
                             by_key := (by_key f)(key \<mapsto> i)\<rparr>)
                     | None \<Rightarrow>
                         Some (Some i,
                           f\<lparr>records := records f @ [new_record url d [St_Discovered, St_Admitted, St_Queued] None i],
                             by_key := (by_key f)(key \<mapsto> i), frontier_queue := frontier_queue f @ [i]\<rparr>))
                  }))
        })"

section \<open>Taking and closing records\<close>

definition frontier_pop :: "frontier \<Rightarrow> nat option \<times> frontier" where
  "frontier_pop f =
     (case frontier_queue f of [] \<Rightarrow> (None, f) | i # q \<Rightarrow> (Some i, f\<lparr>frontier_queue := q\<rparr>))"

definition closed_record :: "frontier_record \<Rightarrow> bool" where
  "closed_record r \<longleftrightarrow> last (rec_states r) \<in> {St_Fetched, St_Filtered, St_Failed, St_Cancelled}"

definition close_record :: "crawl_state \<Rightarrow> string option \<Rightarrow> frontier_record \<Rightarrow> frontier_record" where
  "close_record st reason r =
     (if closed_record r then r
      else r\<lparr>rec_states := rec_states r @ [st], rec_reason := (if reason = None then rec_reason r else reason)\<rparr>)"

definition mark_fetched :: "nat \<Rightarrow> frontier \<Rightarrow> frontier" where
  "mark_fetched i = on_record i (close_record St_Fetched None)"

definition mark_failed :: "nat \<Rightarrow> string \<Rightarrow> frontier \<Rightarrow> frontier" where
  "mark_failed i reason = on_record i (close_record St_Failed (Some reason))"

definition mark_cancelled :: "nat \<Rightarrow> string \<Rightarrow> frontier \<Rightarrow> frontier" where
  "mark_cancelled i reason = on_record i (close_record St_Cancelled (Some reason))"

definition cancel_one :: "nat \<Rightarrow> frontier \<Rightarrow> frontier" where
  "cancel_one i =
     on_record i (\<lambda>r. if last (rec_states r) = St_Queued
       then r\<lparr>rec_reason := Some ''cancelled'', rec_states := rec_states r @ [St_Cancelled]\<rparr> else r)"

definition cancel_queued :: "frontier \<Rightarrow> frontier" where
  "cancel_queued f = (fold cancel_one (frontier_queue f) f)\<lparr>frontier_queue := []\<rparr>"

section \<open>The final URL of a fetched record\<close>

definition redirect_rejection ::
  "url_env \<Rightarrow> crawl_policy \<Rightarrow> string option \<Rightarrow> int \<Rightarrow> bool \<Rightarrow> bool \<Rightarrow> string option option" where
  "redirect_rejection env p normalized depth safe robots =
     (case normalized of
        None \<Rightarrow> Some (Some ''invalid_url'')
      | Some n \<Rightarrow>
          (case rejection_reason env p n depth of
             None \<Rightarrow> None
           | Some None \<Rightarrow>
               Some (if \<not> safe then Some ''unsafe_redirect'' else if \<not> robots then Some ''robots_refused'' else None)
           | Some (Some r) \<Rightarrow> Some (Some r)))"

definition merge_final_record :: "nat \<Rightarrow> nat \<Rightarrow> frontier \<Rightarrow> nat option \<times> frontier" where
  "merge_final_record i j f =
     (let r = records f ! i;
          f1 = on_record j (\<lambda>e. e\<lparr>rec_sources := fold add_source (rec_sources r) (rec_sources e),
                 rec_depth := min (rec_depth e) (rec_depth r)\<rparr>) f;
          f2 = mark_failed i ''duplicate_final_url'' f1
      in if last (rec_states (records f2 ! j)) \<noteq> St_Queued then (None, f2) else (Some j, mark_fetched j f2))"

definition rebind_record :: "url_env \<Rightarrow> nat \<Rightarrow> string \<Rightarrow> string \<Rightarrow> frontier \<Rightarrow> (nat option \<times> frontier) option" where
  "rebind_record env i n key f =
     do {
       old_key \<leftarrow> dedup_key_for env (rec_url (records f ! i));
       Some (Some i, (on_record i (\<lambda>r. r\<lparr>rec_url := n\<rparr>) f)
         \<lparr>by_key := (if by_key f old_key = Some i then (by_key f)(old_key := None) else by_key f)(key \<mapsto> i)\<rparr>)
     }"

definition reconcile_final ::
  "url_env \<Rightarrow> nat \<Rightarrow> string \<Rightarrow> bool \<Rightarrow> bool \<Rightarrow> frontier \<Rightarrow> (nat option \<times> frontier) option" where
  "reconcile_final env i final_url safe robots f =
     (let normalized = policy_normalize env (policy f) final_url
      in case redirect_rejection env (policy f) normalized (rec_depth (records f ! i)) safe robots of
           None \<Rightarrow> None
         | Some (Some reason) \<Rightarrow> Some (None, mark_failed i reason f)
         | Some None \<Rightarrow> do {
             n \<leftarrow> normalized;
             key \<leftarrow> dedup_key_for env n;
             (case by_key f key of
                Some j \<Rightarrow> if j \<noteq> i then Some (merge_final_record i j f) else rebind_record env i n key f
              | None \<Rightarrow> rebind_record env i n key f)
           })"

section \<open>The frontier as a state machine\<close>

inductive frontier_step :: "url_env \<Rightarrow> frontier \<Rightarrow> frontier \<Rightarrow> bool" for env where
  step_discover: "discover env candidate d f = Some (r, f') \<Longrightarrow> frontier_step env f f'"
| step_skip: "frontier_step env f (f\<lparr>non_http_urls_skipped := Suc (non_http_urls_skipped f)\<rparr>)"
| step_pop: "frontier_pop f = (r, f') \<Longrightarrow> frontier_step env f f'"
| step_fetched: "frontier_step env f (mark_fetched i f)"
| step_failed: "frontier_step env f (mark_failed i reason f)"
| step_cancelled: "frontier_step env f (mark_cancelled i reason f)"
| step_cancel_queued: "frontier_step env f (cancel_queued f)"
| step_reconcile: "i < length (records f) \<Longrightarrow> last (rec_states (records f ! i)) = St_Queued \<Longrightarrow>
    reconcile_final env i url safe robots f = Some (r, f') \<Longrightarrow> frontier_step env f f'"

abbreviation frontier_steps :: "url_env \<Rightarrow> frontier \<Rightarrow> frontier \<Rightarrow> bool" where
  "frontier_steps env \<equiv> (frontier_step env)\<^sup>*\<^sup>*"

section \<open>What holds of every frontier\<close>

definition lifecycle :: "crawl_state list set" where
  "lifecycle = {[St_Discovered, St_Filtered], [St_Discovered, St_Admitted, St_Queued],
     [St_Discovered, St_Admitted, St_Queued, St_Fetched], [St_Discovered, St_Admitted, St_Queued, St_Failed],
     [St_Discovered, St_Admitted, St_Queued, St_Cancelled]}"

definition was_admitted :: "frontier_record \<Rightarrow> bool" where
  "was_admitted r \<longleftrightarrow> St_Admitted \<in> set (rec_states r)"

definition in_scope :: "url_env \<Rightarrow> crawl_policy \<Rightarrow> frontier_record \<Rightarrow> bool" where
  "in_scope env p r \<longleftrightarrow>
     rejection_reason env p (rec_url r) (rec_depth r) = Some None \<and>
     (\<exists>c. policy_normalize env p c = Some (rec_url r))"

definition record_ok :: "url_env \<Rightarrow> crawl_policy \<Rightarrow> frontier_record \<Rightarrow> bool" where
  "record_ok env p r \<longleftrightarrow>
     rec_states r \<in> lifecycle \<and> rec_sources r \<noteq> [] \<and> distinct (rec_sources r) \<and> (was_admitted r \<longrightarrow> in_scope env p r)"

definition keys_ok :: "url_env \<Rightarrow> frontier \<Rightarrow> bool" where
  "keys_ok env f \<longleftrightarrow>
     (\<forall>k i. by_key f k = Some i \<longrightarrow>
        i < length (records f) \<and> dedup_key_for env (rec_url (records f ! i)) = Some k) \<and>
     (\<forall>i<length (records f). was_admitted (records f ! i) \<longrightarrow>
        (\<exists>k. dedup_key_for env (rec_url (records f ! i)) = Some k \<and> by_key f k = Some i))"

definition queue_ok :: "frontier \<Rightarrow> bool" where
  "queue_ok f \<longleftrightarrow>
     distinct (frontier_queue f) \<and> (\<forall>i\<in>set (frontier_queue f). i < length (records f) \<and> was_admitted (records f ! i))"

definition frontier_ok :: "url_env \<Rightarrow> frontier \<Rightarrow> bool" where
  "frontier_ok env f \<longleftrightarrow>
     policy_valid (policy f) \<and> int (length (records f)) \<le> max_discovered_urls (policy f) \<and>
     (\<forall>i<length (records f). rec_order (records f ! i) = i \<and> record_ok env (policy f) (records f ! i)) \<and>
     keys_ok env f \<and> queue_ok f"

lemma frontier_ok_new: "policy_valid p \<Longrightarrow> frontier_ok env (new_frontier p)"
  by (simp add: frontier_ok_def new_frontier_def keys_ok_def queue_ok_def policy_valid_def)

text \<open>A change of one record that keeps its URL, its order and whether it was admitted.\<close>

definition mild :: "url_env \<Rightarrow> crawl_policy \<Rightarrow> (frontier_record \<Rightarrow> frontier_record) \<Rightarrow> bool" where
  "mild env p g \<longleftrightarrow>
     (\<forall>r. rec_url (g r) = rec_url r \<and> rec_order (g r) = rec_order r \<and>
        (record_ok env p r \<longrightarrow> record_ok env p (g r) \<and> (was_admitted (g r) \<longleftrightarrow> was_admitted r)))"

lemma on_record_simps [simp]:
  "policy (on_record i g f) = policy f" "by_key (on_record i g f) = by_key f"
  "frontier_queue (on_record i g f) = frontier_queue f" "length (records (on_record i g f)) = length (records f)"
  "j < length (records f) \<Longrightarrow> records (on_record i g f) ! j = (if j = i then g (records f ! j) else records f ! j)"
  by (simp_all add: on_record_def nth_list_update)

lemma on_record_ok [preserve_facts]:
  assumes "frontier_ok env f" and "mild env (policy f) g"
  shows "frontier_ok env (on_record i g f)"
proof -
  let ?f = "on_record i g f"
  have rec: "rec_url (records ?f ! j) = rec_url (records f ! j)" "rec_order (records ?f ! j) = j"
    "record_ok env (policy f) (records ?f ! j)" "was_admitted (records ?f ! j) \<longleftrightarrow> was_admitted (records f ! j)"
    if "j < length (records f)" for j
    using assms that by (auto simp: frontier_ok_def mild_def)
  have "keys_ok env ?f" using assms(1) rec by (auto simp: frontier_ok_def keys_ok_def)
  moreover have "queue_ok ?f" using assms(1) rec by (auto simp: frontier_ok_def queue_ok_def)
  ultimately show ?thesis using assms(1) rec by (simp add: frontier_ok_def)
qed

lemma rejection_depth_mono:
  "rejection_reason env p url d = Some None \<Longrightarrow> d' \<le> d \<Longrightarrow> rejection_reason env p url d' = Some None"
  by (auto simp: rejection_reason_def split: if_splits)

lemma add_source_ok: "distinct ss \<Longrightarrow> distinct (add_source s ss) \<and> add_source s ss \<noteq> []"
  by (auto simp: add_source_def)

lemma fold_add_source_ok: "distinct ss \<Longrightarrow> ss \<noteq> [] \<Longrightarrow> distinct (fold add_source xs ss) \<and> fold add_source xs ss \<noteq> []"
  by (induction xs arbitrary: ss) (auto simp: add_source_ok)

lemma mild_merge [intro]: "mild env p (merge_discovery d)"
  using rejection_depth_mono add_source_ok
  by (fastforce simp: mild_def merge_discovery_def record_ok_def was_admitted_def in_scope_def)

lemma mild_absorb [intro]:
  "mild env p (\<lambda>e. e\<lparr>rec_sources := fold add_source xs (rec_sources e), rec_depth := min (rec_depth e) n\<rparr>)"
  using rejection_depth_mono fold_add_source_ok
  by (fastforce simp: mild_def record_ok_def was_admitted_def in_scope_def)

lemma open_states:
  assumes "rec_states r \<in> lifecycle" and "\<not> closed_record r"
  shows "rec_states r = [St_Discovered, St_Admitted, St_Queued]"
  using assms by (auto simp: lifecycle_def closed_record_def)

lemma mild_close [intro]:
  assumes "st \<in> {St_Fetched, St_Failed, St_Cancelled}"
  shows "mild env p (close_record st reason)"
  using assms open_states
  by (auto simp: mild_def close_record_def record_ok_def was_admitted_def in_scope_def lifecycle_def)

lemma marks_ok [preserve_facts]:
  assumes "frontier_ok env f"
  shows "frontier_ok env (mark_fetched i f)" and "frontier_ok env (mark_failed i reason f)"
    and "frontier_ok env (mark_cancelled i reason f)"
  using assms by (auto simp: mark_fetched_def mark_failed_def mark_cancelled_def intro: on_record_ok)

lemma mild_cancel [intro]:
  "mild env p (\<lambda>r. if last (rec_states r) = St_Queued
     then r\<lparr>rec_reason := Some ''cancelled'', rec_states := rec_states r @ [St_Cancelled]\<rparr> else r)"
  using open_states by (auto simp: mild_def record_ok_def was_admitted_def in_scope_def lifecycle_def)

lemma cancel_queued_ok [preserve_facts]:
  assumes "frontier_ok env f"
  shows "frontier_ok env (cancel_queued f)"
proof -
  have "frontier_ok env (fold cancel_one is f)" for "is"
    using assms by (induction "is" arbitrary: f) (auto simp: cancel_one_def intro: on_record_ok)
  then show ?thesis
    by (simp add: cancel_queued_def frontier_ok_def keys_ok_def queue_ok_def)
qed

lemma pop_ok [preserve_facts]:
  assumes "frontier_ok env f" and "frontier_pop f = (r, f')"
  shows "frontier_ok env f'" and "r = Some i \<Longrightarrow> i < length (records f') \<and> was_admitted (records f' ! i)"
  using assms by (auto simp: frontier_pop_def frontier_ok_def keys_ok_def queue_ok_def split: list.splits)

lemma merge_final_ok [preserve_facts]:
  assumes "frontier_ok env f" and "merge_final_record i j f = (r, f')"
  shows "frontier_ok env f'"
proof -
  let ?g = "\<lambda>e. e\<lparr>rec_sources := fold add_source (rec_sources (records f ! i)) (rec_sources e),
      rec_depth := min (rec_depth e) (rec_depth (records f ! i))\<rparr>"
  have "frontier_ok env (mark_failed i ''duplicate_final_url'' (on_record j ?g f))"
    using assms(1) mild_absorb by (intro marks_ok on_record_ok)
  then show ?thesis
    using assms(2) marks_ok(1) by (auto simp: merge_final_record_def Let_def split: if_splits)
qed

text \<open>A new entry.\<close>

lemma append_record_ok:
  assumes "frontier_ok env f" and "\<not> is_full f" and "rec_order r = length (records f)" and "record_ok env (policy f) r"
    and "\<And>i. ks i = (if i = key \<and> keyed then Some (length (records f)) else by_key f i)"
    and "keyed \<Longrightarrow> dedup_key_for env (rec_url r) = Some key \<and> by_key f key = None"
    and "was_admitted r \<Longrightarrow> keyed"
    and "q = frontier_queue f \<or> q = frontier_queue f @ [length (records f)] \<and> was_admitted r"
  shows "frontier_ok env (f\<lparr>records := records f @ [r], by_key := ks, frontier_queue := q\<rparr>)"
proof -
  let ?f = "f\<lparr>records := records f @ [r], by_key := ks, frontier_queue := q\<rparr>" and ?n = "length (records f)"
  have key_of: "by_key f k = Some i \<Longrightarrow> i < ?n \<and> dedup_key_for env (rec_url (records f ! i)) = Some k" for k i
    using assms(1) by (auto simp: frontier_ok_def keys_ok_def)
  have old: "\<exists>k. dedup_key_for env (rec_url (records f ! i)) = Some k \<and> by_key f k = Some i"
    if "i < ?n" "was_admitted (records f ! i)" for i
    using assms(1) that by (auto simp: frontier_ok_def keys_ok_def)
  have "keys_ok env ?f"
    unfolding keys_ok_def
  proof (intro conjI allI impI)
    fix k i assume "by_key ?f k = Some i"
    then show "i < length (records ?f)" and "dedup_key_for env (rec_url (records ?f ! i)) = Some k"
      using assms(5,6) key_of [of k i] by (auto simp: nth_append split: if_splits)
  next
    fix i assume "i < length (records ?f)" "was_admitted (records ?f ! i)"
    then consider "i = ?n" "keyed" | k where "i < ?n" "dedup_key_for env (rec_url (records f ! i)) = Some k" "by_key f k = Some i"
      using old [of i] assms(7) by (cases "i = ?n") (auto simp: nth_append)
    then show "\<exists>k. dedup_key_for env (rec_url (records ?f ! i)) = Some k \<and> by_key ?f k = Some i"
    proof cases
      case 1
      then show ?thesis using assms(5,6) by (intro exI [of _ key]) simp
    next
      case 2
      then show ?thesis using assms(5,6) by (intro exI [of _ k]) (auto simp: nth_append)
    qed
  qed
  moreover have "queue_ok ?f"
    using assms(1,8) by (auto simp: frontier_ok_def queue_ok_def nth_append)
  moreover have "rec_order (records ?f ! i) = i \<and> record_ok env (policy f) (records ?f ! i)" if "i < length (records ?f)" for i
    using assms(1,3,4) that by (auto simp: frontier_ok_def nth_append less_Suc_eq)
  ultimately show ?thesis
    using assms(1,2) by (simp add: frontier_ok_def is_full_def)
qed

lemma skip_ok [preserve_facts]:
  "frontier_ok env f \<Longrightarrow> frontier_ok env (f\<lparr>non_http_urls_skipped := n\<rparr>)"
  "frontier_ok env f \<Longrightarrow> frontier_ok env (f\<lparr>omitted_due_to_limit := m\<rparr>)"
  by (simp_all add: frontier_ok_def keys_ok_def queue_ok_def)

lemma record_filtered_ok [preserve_facts]:
  assumes "frontier_ok env f" and "record_filtered url d reason f = (r, f')"
  shows "frontier_ok env f'"
proof (cases "\<not> within_url_limit url \<or> is_full f")
  case False
  let ?r = "new_record url d [St_Discovered, St_Filtered] (Some reason) (length (records f))"
  have "frontier_ok env (f\<lparr>records := records f @ [?r], by_key := by_key f, frontier_queue := frontier_queue f\<rparr>)"
    by (rule append_record_ok [where keyed = False])
      (use assms(1) False in \<open>simp_all add: new_record_def record_ok_def lifecycle_def was_admitted_def\<close>)
  then show ?thesis using assms(2) False by (simp add: record_filtered_def)
qed (use assms in \<open>auto simp: record_filtered_def intro: skip_ok\<close>)

text \<open>\<open>discover\<close>, branch by branch.\<close>

lemma normalize_key: "policy_normalize env p c = Some n \<Longrightarrow> \<exists>k. dedup_key_for env n = Some k"
  using policy_normalize_cases by blast

lemma admission_rejection_eq:
  "\<exists>r. admission_rejection env p url d = Some r"
  "admission_rejection env p url d = Some None \<longleftrightarrow>
     rejection_reason env p url (disc_depth d) = Some None \<and> disc_safe d \<and> disc_robots_allowed d"
  using rejection_reason_total [of env p url "disc_depth d"]
  by (auto simp: admission_rejection_def split: option.splits)

lemma discover_cases:
  obtains (invalid) "policy_normalize env (policy f) candidate = None"
      "discover env candidate d f = Some (record_filtered candidate d ''invalid_url'' f)"
  | (known) url key i where "policy_normalize env (policy f) candidate = Some url" "dedup_key_for env url = Some key"
      "by_key f key = Some i" "discover env candidate d f = Some (Some i, on_record i (merge_discovery d) f)"
  | (full) url key where "policy_normalize env (policy f) candidate = Some url" "dedup_key_for env url = Some key"
      "by_key f key = None" "is_full f"
      "discover env candidate d f = Some (None, f\<lparr>omitted_due_to_limit := Suc (omitted_due_to_limit f)\<rparr>)"
  | (filtered) url key reason where "policy_normalize env (policy f) candidate = Some url"
      "dedup_key_for env url = Some key" "by_key f key = None" "\<not> is_full f"
      "admission_rejection env (policy f) url d = Some (Some reason)"
      "discover env candidate d f = Some (Some (length (records f)),
         f\<lparr>records := records f @ [new_record url d [St_Discovered, St_Filtered] (Some reason) (length (records f))],
           by_key := (by_key f)(key \<mapsto> length (records f)), frontier_queue := frontier_queue f\<rparr>)"
  | (queued) url key where "policy_normalize env (policy f) candidate = Some url"
      "dedup_key_for env url = Some key" "by_key f key = None" "\<not> is_full f"
      "admission_rejection env (policy f) url d = Some None"
      "discover env candidate d f = Some (Some (length (records f)),
         f\<lparr>records := records f @ [new_record url d [St_Discovered, St_Admitted, St_Queued] None (length (records f))],
           by_key := (by_key f)(key \<mapsto> length (records f)), frontier_queue := frontier_queue f @ [length (records f)]\<rparr>)"
proof (cases "policy_normalize env (policy f) candidate")
  case None
  then show thesis using invalid by (simp add: discover_def)
next
  case url: (Some url)
  then obtain key where key: "dedup_key_for env url = Some key" using normalize_key by blast
  obtain reason where reason: "admission_rejection env (policy f) url d = Some reason"
    using admission_rejection_eq(1) by blast
  show thesis
  proof (cases "by_key f key")
    case (Some i)
    then show thesis using known url key by (simp add: discover_def)
  next
    case None
    then show thesis
      using full [OF url key None] filtered [OF url key None] queued [OF url key None] url key reason
      by (cases "is_full f"; cases reason) (simp_all add: discover_def Let_def)
  qed
qed

lemma discover_ok [preserve_facts]:
  assumes "frontier_ok env f" and "discover env candidate d f = Some (r, f')"
  shows "frontier_ok env f'"
proof (cases rule: discover_cases [of env f candidate d])
  case invalid
  then show ?thesis using assms record_filtered_ok [OF assms(1), of candidate d "''invalid_url''"]
    by (cases "record_filtered candidate d ''invalid_url'' f") simp
next
  case (known url key i)
  then show ?thesis using assms on_record_ok [OF assms(1)] by auto
next
  case (full url key)
  then show ?thesis using assms skip_ok by auto
next
  case (filtered url key reason)
  then have "f' = f\<lparr>records := records f @ [new_record url d [St_Discovered, St_Filtered] (Some reason) (length (records f))],
      by_key := (by_key f)(key \<mapsto> length (records f)), frontier_queue := frontier_queue f\<rparr>" using assms(2) by simp
  moreover have "frontier_ok env \<dots>"
    by (rule append_record_ok [where keyed = True and key = key])
      (use assms(1) filtered in \<open>simp_all add: new_record_def record_ok_def lifecycle_def was_admitted_def\<close>)
  ultimately show ?thesis by simp
next
  case (queued url key)
  then have "f' = f\<lparr>records := records f @ [new_record url d [St_Discovered, St_Admitted, St_Queued] None (length (records f))],
      by_key := (by_key f)(key \<mapsto> length (records f)), frontier_queue := frontier_queue f @ [length (records f)]\<rparr>"
    using assms(2) by simp
  moreover have "frontier_ok env \<dots>"
    by (rule append_record_ok [where keyed = True and key = key])
      (use assms(1) queued in \<open>auto simp: new_record_def record_ok_def lifecycle_def was_admitted_def in_scope_def admission_rejection_eq(2)\<close>)
  ultimately show ?thesis by simp
qed

lemma discover_returns: "discover env candidate d f \<noteq> None"
  by (cases rule: discover_cases [of env f candidate d]) simp_all

text \<open>A record moves to its final URL, and its key with it.\<close>

lemma rebind_ok:
  assumes "frontier_ok env f" and "i < length (records f)" and "was_admitted (records f ! i)"
    and "dedup_key_for env n = Some key" and "by_key f key = None \<or> by_key f key = Some i"
    and "rejection_reason env (policy f) n (rec_depth (records f ! i)) = Some None"
    and "policy_normalize env (policy f) c = Some n" and "rebind_record env i n key f = Some (r, f')"
  shows "frontier_ok env f'"
proof -
  have key_of: "by_key f k = Some j \<Longrightarrow> j < length (records f) \<and> dedup_key_for env (rec_url (records f ! j)) = Some k" for k j
    using assms(1) by (auto simp: frontier_ok_def keys_ok_def)
  have old: "\<exists>k. dedup_key_for env (rec_url (records f ! j)) = Some k \<and> by_key f k = Some j"
    if "j < length (records f)" "was_admitted (records f ! j)" for j
    using assms(1) that by (auto simp: frontier_ok_def keys_ok_def)
  then obtain ok where k: "dedup_key_for env (rec_url (records f ! i)) = Some ok" "by_key f ok = Some i"
    using assms(2,3) by blast
  let ?g = "\<lambda>r. r\<lparr>rec_url := n\<rparr>"
  let ?f = "(on_record i ?g f)\<lparr>by_key := (by_key f)(ok := None, key \<mapsto> i)\<rparr>"
  have f': "f' = ?f" using assms(8) k by (auto simp: rebind_record_def)
  have rec: "rec_url (records ?f ! j) = (if j = i then n else rec_url (records f ! j))" "rec_order (records ?f ! j) = j"
    "record_ok env (policy f) (records ?f ! j)" "was_admitted (records ?f ! j) \<longleftrightarrow> was_admitted (records f ! j)"
    if "j < length (records f)" for j
    using assms(1,6,7) that
    by (auto simp: frontier_ok_def record_ok_def was_admitted_def in_scope_def)
  have "keys_ok env ?f"
    unfolding keys_ok_def
  proof (intro conjI allI impI)
    fix k j assume "by_key ?f k = Some j"
    then consider "k = key" "j = i" | "k \<noteq> key" "k \<noteq> ok" "by_key f k = Some j" by (auto split: if_splits)
    then have "j < length (records f) \<and> (if j = i then dedup_key_for env n else dedup_key_for env (rec_url (records f ! j))) = Some k"
    proof cases
      case 1
      then show ?thesis using assms(2,4) by simp
    next
      case 2
      then have "j \<noteq> i" using key_of [of k j] k(1) by auto
      then show ?thesis using key_of [OF 2(3)] by simp
    qed
    then show "j < length (records ?f)" and "dedup_key_for env (rec_url (records ?f ! j)) = Some k"
      using rec(1) [of j] by (auto split: if_splits)
  next
    fix j assume j: "j < length (records ?f)" "was_admitted (records ?f ! j)"
    show "\<exists>k. dedup_key_for env (rec_url (records ?f ! j)) = Some k \<and> by_key ?f k = Some j"
    proof (cases "j = i")
      case True
      then show ?thesis using rec(1) [of i] assms(2,4) by simp
    next
      case False
      then obtain k' where "dedup_key_for env (rec_url (records f ! j)) = Some k'" "by_key f k' = Some j"
        using old [of j] j rec(4) [of j] by auto
      then show ?thesis using False rec(1) [of j] j k assms(5) by (intro exI [of _ k']) auto
    qed
  qed
  moreover have "queue_ok ?f" using assms(1) rec(4) by (auto simp: frontier_ok_def queue_ok_def)
  ultimately show ?thesis using assms(1) rec by (simp add: f' frontier_ok_def)
qed

lemma redirect_rejection_eq:
  "\<exists>r. redirect_rejection env p n depth safe robots = Some r"
  "redirect_rejection env p n depth safe robots = Some None \<longleftrightarrow>
     (\<exists>u. n = Some u \<and> rejection_reason env p u depth = Some None) \<and> safe \<and> robots"
  using rejection_reason_total [of env p "the n" depth]
  by (auto simp: redirect_rejection_def split: option.splits)

lemma reconcile_cases:
  obtains (rejected) reason where "reconcile_final env i url safe robots f = Some (None, mark_failed i reason f)"
  | (merged) n key j where "policy_normalize env (policy f) url = Some n" "dedup_key_for env n = Some key"
      "by_key f key = Some j" "j \<noteq> i" "safe" "robots"
      "reconcile_final env i url safe robots f = Some (merge_final_record i j f)"
  | (rebound) n key where "policy_normalize env (policy f) url = Some n" "dedup_key_for env n = Some key"
      "by_key f key = None \<or> by_key f key = Some i" "safe" "robots"
      "rejection_reason env (policy f) n (rec_depth (records f ! i)) = Some None"
      "reconcile_final env i url safe robots f = rebind_record env i n key f"
proof -
  obtain why where why: "redirect_rejection env (policy f) (policy_normalize env (policy f) url)
      (rec_depth (records f ! i)) safe robots = Some why"
    using redirect_rejection_eq(1) by blast
  show thesis
  proof (cases why)
    case (Some reason)
    then show thesis using rejected [of reason] why by (simp add: reconcile_final_def)
  next
    case None
    then obtain n where n: "policy_normalize env (policy f) url = Some n" "safe" "robots"
        "rejection_reason env (policy f) n (rec_depth (records f ! i)) = Some None"
      using why redirect_rejection_eq(2) by auto
    moreover obtain key where key: "dedup_key_for env n = Some key" using n(1) normalize_key by blast
    ultimately show thesis
      using why None merged [OF n(1) key _ _ n(2,3)] rebound [OF n(1) key _ n(2-4)]
      by (cases "by_key f key") (auto simp: reconcile_final_def Let_def split: if_splits)
  qed
qed

lemma queued_admitted:
  "frontier_ok env f \<Longrightarrow> i < length (records f) \<Longrightarrow> last (rec_states (records f ! i)) = St_Queued \<Longrightarrow>
   was_admitted (records f ! i)"
  by (auto simp: frontier_ok_def record_ok_def lifecycle_def was_admitted_def)

lemma reconcile_ok [preserve_facts]:
  assumes "frontier_ok env f" and "i < length (records f)" and "last (rec_states (records f ! i)) = St_Queued"
    and "reconcile_final env i url safe robots f = Some (r, f')"
  shows "frontier_ok env f'"
proof (cases rule: reconcile_cases [of env i url safe robots f])
  case (rejected reason)
  then show ?thesis using assms marks_ok by simp
next
  case (merged n key j)
  then show ?thesis using assms merge_final_ok [OF assms(1), of i j] by simp
next
  case (rebound n key)
  then show ?thesis using rebind_ok [OF assms(1,2) queued_admitted [OF assms(1-3)]] assms(4) by metis
qed

lemma reconcile_returns:
  assumes "frontier_ok env f" and "i < length (records f)" and "last (rec_states (records f ! i)) = St_Queued"
  shows "reconcile_final env i url safe robots f \<noteq> None"
proof -
  obtain k where "dedup_key_for env (rec_url (records f ! i)) = Some k"
    using queued_admitted [OF assms] assms(1,2) by (auto simp: frontier_ok_def keys_ok_def)
  then have "rebind_record env i n key f \<noteq> None" for n key by (simp add: rebind_record_def)
  then show ?thesis by (cases rule: reconcile_cases [of env i url safe robots f]) auto
qed

lemma frontier_step_ok: "frontier_step env f f' \<Longrightarrow> frontier_ok env f \<Longrightarrow> frontier_ok env f'"
  by (induction rule: frontier_step.induct)
    (blast intro: discover_ok skip_ok pop_ok(1) marks_ok cancel_queued_ok reconcile_ok)+

lemma on_record_policy [simp]: "policy (mark_fetched i f) = policy f" "policy (mark_failed i reason f) = policy f"
    "policy (mark_cancelled i reason f) = policy f"
  by (simp_all add: mark_fetched_def mark_failed_def mark_cancelled_def)

lemma fold_cancel_policy [simp]: "policy (fold cancel_one is f) = policy f"
  by (induction "is" arbitrary: f) (simp_all add: cancel_one_def)

lemma merge_final_policy [simp]: "policy (snd (merge_final_record i j f)) = policy f"
  by (simp add: merge_final_record_def Let_def)

lemma frontier_step_policy: "frontier_step env f f' \<Longrightarrow> policy f' = policy f"
proof (induction rule: frontier_step.induct)
  case (step_discover candidate d f r f')
  then show ?case
    by (cases rule: discover_cases [of env f candidate d]) (auto simp: record_filtered_def split: if_splits)
next
  case (step_pop f r f')
  then show ?case by (auto simp: frontier_pop_def split: list.splits)
next
  case (step_reconcile i f url safe robots r f')
  show ?case
  proof (cases rule: reconcile_cases [of env i url safe robots f])
    case (merged n key j)
    then show ?thesis using step_reconcile merge_final_policy [of i j f] by simp
  next
    case (rebound n key)
    then show ?thesis using step_reconcile by (auto simp: rebind_record_def bind_eq_Some_conv)
  qed (use step_reconcile in auto)
qed (simp_all add: cancel_queued_def)

lemma frontier_steps_ok:
  assumes "frontier_steps env f f'" and "frontier_ok env f"
  shows "frontier_ok env f' \<and> policy f' = policy f"
  using assms by (induction rule: rtranclp_induct) (auto simp: frontier_step_ok frontier_step_policy)

end
