(* ===== verification/Crawl_Guarantees.thy ===== *)
theory Crawl_Guarantees
  imports Crawl_Frontier Identity_Guarantees
begin

text \<open>
  What the frontier of a site crawl promises: it is bounded, a record moves through its states in one
  direction, no two admitted records stand for the same page, and whatever is admitted, or becomes the
  final URL of an admitted record, lies in the scope the request gave.
\<close>

text \<open>
  C28. Whatever a crawl does with its frontier (discover, pop, reconcile a final URL, mark, cancel), it never
  holds more records than the policy allows, every record has walked one of the five paths discovered -
  filtered or discovered - admitted - queued - (fetched, failed or cancelled), the queue holds each record at
  most once, and two different admitted records never have the same deduplication key.
\<close>

theorem frontier_bounded_unique:
  assumes "policy_valid p" and "frontier_steps env (new_frontier p) f"
  shows "int (length (records f)) \<le> max_discovered_urls p \<and>
    (\<forall>r\<in>set (records f). rec_states r \<in> lifecycle \<and> distinct (rec_sources r)) \<and>
    distinct (frontier_queue f) \<and>
    (\<forall>i<length (records f). \<forall>j<length (records f).
       was_admitted (records f ! i) \<and> was_admitted (records f ! j) \<and>
       dedup_key_for env (rec_url (records f ! i)) = dedup_key_for env (rec_url (records f ! j)) \<longrightarrow> i = j)"
proof -
  have ok: "frontier_ok env f" "policy f = p"
    using frontier_steps_ok [OF assms(2) frontier_ok_new [OF assms(1)]] by (simp_all add: new_frontier_def)
  have "i = j" if "i < length (records f)" "j < length (records f)" "was_admitted (records f ! i)"
      "was_admitted (records f ! j)"
      "dedup_key_for env (rec_url (records f ! i)) = dedup_key_for env (rec_url (records f ! j))" for i j
  proof -
    have keys: "\<exists>k. dedup_key_for env (rec_url (records f ! m)) = Some k \<and> by_key f k = Some m"
      if "m \<in> {i, j}" for m
      using ok(1) that \<open>i < _\<close> \<open>j < _\<close> \<open>was_admitted (records f ! i)\<close> \<open>was_admitted (records f ! j)\<close>
      by (auto simp: frontier_ok_def keys_ok_def)
    obtain k where "dedup_key_for env (rec_url (records f ! i)) = Some k" "by_key f k = Some i" using keys [of i] by auto
    moreover obtain k' where "dedup_key_for env (rec_url (records f ! j)) = Some k'" "by_key f k' = Some j"
      using keys [of j] by auto
    ultimately show ?thesis using that(5) by simp
  qed
  moreover have "\<forall>r\<in>set (records f). rec_states r \<in> lifecycle \<and> distinct (rec_sources r)"
    using ok(1) by (auto simp: frontier_ok_def record_ok_def in_set_conv_nth)
  ultimately show ?thesis using ok by (auto simp: frontier_ok_def queue_ok_def)
qed

definition demo_policy :: crawl_policy where
  "demo_policy = \<lparr>effective_url = ''http://a.b/d/'', max_depth = 1, max_discovered_urls = 9,
     include_parent_paths = False, include_subdomains = False, include_paths = [], exclude_paths = [''/d/p*''],
     query_policy = ''strip'', allowed_file_extensions = ['''', ''.html'']\<rparr>"

definition demo_discovery :: discovery where
  "demo_discovery = \<lparr>disc_source = Src_Link, disc_depth = 1, disc_safe = True, disc_robots_allowed = True,
     disc_modified_at = None, disc_priority = None\<rparr>"

lemma demo_normalize: "policy_normalize demo_url_env demo_policy ''../d/./x.html?q#t'' = Some ''http://a.b/d/x.html''"
proof -
  have 1: "urljoin ''http://a.b/d/'' ''../d/./x.html?q#t'' = Some ''http://a.b/d/x.html?q#t''" by code_simp
  have 2: "urldefrag ''http://a.b/d/x.html?q#t'' = Some ''http://a.b/d/x.html?q''" by code_simp
  have 3: "urlsplit ''http://a.b/d/x.html?q'' =
      Some \<lparr>url_scheme = ''http'', netloc = ''a.b'', url_path = ''/d/x.html'', query = ''q'', fragment = []\<rparr>" (is "_ = Some ?u")
    by code_simp
  have 4: "crawlable ?u" by code_simp
  have 5: "urlunsplit (normal_form demo_policy ?u) = ''http://a.b/d/x.html''" by code_simp
  have 6: "within_url_limit ''http://a.b/d/x.html''" by (simp add: within_url_limit_def max_site_url_bytes_def utf8_def)
  have 7: "dedup_key_for demo_url_env ''http://a.b/d/x.html'' = Some ''http://a.b/d/x.html''" by code_simp
  have "effective_url demo_policy = ''http://a.b/d/''" by (simp add: demo_policy_def)
  then show ?thesis by (simp only: policy_normalize_def 1 2 3 4 5 6 7 bind.simps Let_def option.case simp_thms if_True if_False)
qed

definition demo_record :: frontier_record where
  "demo_record = new_record ''http://a.b/d/x.html'' demo_discovery [St_Discovered, St_Admitted, St_Queued] None 0"

definition demo_frontier :: frontier where
  "demo_frontier = (new_frontier demo_policy)\<lparr>records := [demo_record], by_key := [''http://a.b/d/x.html'' \<mapsto> 0],
     frontier_queue := [0]\<rparr>"

lemma demo_valid: "policy_valid demo_policy"
  by (simp add: policy_valid_def demo_policy_def)

lemma demo_reason: "rejection_reason demo_url_env demo_policy ''http://a.b/d/x.html'' 1 = Some None"
  by code_simp

lemma demo_discover:
  "discover demo_url_env ''../d/./x.html?q#t'' demo_discovery (new_frontier demo_policy) = Some (Some 0, demo_frontier)"
proof -
  have key: "dedup_key_for demo_url_env ''http://a.b/d/x.html'' = Some ''http://a.b/d/x.html''" by code_simp
  have adm: "admission_rejection demo_url_env demo_policy ''http://a.b/d/x.html'' demo_discovery = Some None"
    using demo_reason by (simp add: admission_rejection_eq(2) demo_discovery_def)
  show ?thesis
    by (simp add: discover_def new_frontier_def demo_normalize key adm is_full_def demo_frontier_def demo_record_def)
      (simp add: demo_policy_def)
qed

lemma demo_reach: "frontier_steps demo_url_env (new_frontier demo_policy) demo_frontier"
  using step_discover [OF demo_discover] by blast

theorem frontier_bounded_unique_witness:
  "policy_valid demo_policy \<and> frontier_steps demo_url_env (new_frontier demo_policy) demo_frontier \<and>
   int (length (records demo_frontier)) \<le> max_discovered_urls demo_policy"
  using frontier_bounded_unique [OF demo_valid demo_reach] demo_valid demo_reach by simp

text \<open>
  C29. Every URL a crawl admits stays in the scope of the request, also after a redirect has replaced it by
  its final URL: at most the allowed depth, an http or https URL without user information or fragment, on
  the seed's origin (or, when subdomains are allowed, below its host with the same scheme and port), with a
  path that contains no plain or percent-encoded dot segment and lies under the seed's directory unless
  parents are allowed, matching no excluded pattern and some included one, and without a query unless
  queries are preserved.
\<close>

theorem admitted_urls_in_scope:
  assumes "policy_valid p" and "frontier_steps env (new_frontier p) f" and "r \<in> set (records f)" and "was_admitted r"
  shows "\<exists>u su seed cand. rec_depth r \<le> max_depth p \<and> urlsplit (rec_url r) = Some u \<and>
    url_scheme u \<in> {''http'', ''https''} \<and> userinfo u = (None, None) \<and> fragment u = [] \<and>
    urlsplit (effective_url p) = Some su \<and>
    origin_parts env (effective_url p) = Some seed \<and> origin_parts env (rec_url r) = Some cand \<and>
    (cand = seed \<or> include_subdomains p \<and> fst cand = fst seed \<and> snd (snd cand) = snd (snd seed) \<and>
       py_endswith (fst (snd cand)) (''.'' @ fst (snd seed))) \<and>
    (\<forall>seg\<in>set (split_on (CHR ''/'') (url_path u)). dot_value seg \<noteq> ''.'' \<and> dot_value seg \<noteq> ''..'') \<and>
    (include_parent_paths p \<or> url_path u = path_or_root su \<or> py_startswith (url_path u) (prefix_of_path (path_or_root su))) \<and>
    (\<forall>pat\<in>set (exclude_paths p). url_path u \<notin> glob_language (glob_tokens pat)) \<and>
    (include_paths p = [] \<or> (\<exists>pat\<in>set (include_paths p). url_path u \<in> glob_language (glob_tokens pat))) \<and>
    (query_policy p = ''preserve'' \<or> query u = [])"
proof -
  have "frontier_ok env f" "policy f = p"
    using frontier_steps_ok [OF assms(2) frontier_ok_new [OF assms(1)]] by (simp_all add: new_frontier_def)
  then have "in_scope env p r" using assms(3,4) by (auto simp: frontier_ok_def record_ok_def in_set_conv_nth)
  then obtain c where rej: "rejection_reason env p (rec_url r) (rec_depth r) = Some None"
      and norm: "policy_normalize env p c = Some (rec_url r)"
    by (auto simp: in_scope_def)
  from rej obtain u seed cand where u: "rec_depth r \<le> max_depth p" "urlsplit (rec_url r) = Some u"
      "origin_parts env (effective_url p) = Some seed" "origin_parts env (rec_url r) = Some cand"
      "accepted_origin p seed cand" "path_rejection p u = Some None"
    by (rule rejection_reason_None)
  from u(3) obtain su where su: "urlsplit (effective_url p) = Some su"
    using origin_parts_split by blast
  have clean: "url_scheme u \<in> {''http'', ''https''}" "userinfo u = (None, None)" "fragment u = []" "py_startswith (url_path u) ''/''"
      "\<forall>seg\<in>set (split_on (CHR ''/'') (url_path u)). dot_value seg \<noteq> ''.'' \<and> dot_value seg \<noteq> ''..''"
      "query_policy p = ''strip'' \<longrightarrow> query u = []"
    using normalized_url_clean [OF norm] u(2) by auto
  have path: "path_or_root u = url_path u" using clean(4) by (auto simp: path_or_root_def py_startswith_def)
  have rules: "include_parent_paths p \<or> url_path u = path_or_root su \<or> py_startswith (url_path u) (prefix_of_path (path_or_root su))"
      "\<not> (query_policy p = ''exclude'' \<and> query u \<noteq> [])" "\<not> list_ex (fnmatchcase (url_path u)) (exclude_paths p)"
      "include_paths p = [] \<or> list_ex (fnmatchcase (url_path u)) (include_paths p)"
    using u(6) su path by (auto simp: path_rejection_def seed_path_prefix_def Let_def split: if_splits)
  have excl: "\<forall>pat\<in>set (exclude_paths p). url_path u \<notin> glob_language (glob_tokens pat)"
    and incl: "include_paths p = [] \<or> (\<exists>pat\<in>set (include_paths p). url_path u \<in> glob_language (glob_tokens pat))"
    using rules(3,4) by (simp_all add: fnmatchcase_def glob_match_language list_ex_iff)
  have qry: "query_policy p = ''preserve'' \<or> query u = []"
    using rules(2) clean(6) assms(1) unfolding policy_valid_def by blast
  show ?thesis
    using u(1,2) clean(1-3) su u(3,4) u(5) [unfolded accepted_origin_def] clean(5) rules(1) excl incl qry by blast
qed

theorem admitted_urls_in_scope_witness:
  "was_admitted demo_record \<and> demo_record \<in> set (records demo_frontier) \<and> rec_depth demo_record \<le> max_depth demo_policy"
proof -
  have r: "demo_record \<in> set (records demo_frontier)" "was_admitted demo_record"
    by (simp_all add: demo_frontier_def demo_record_def new_record_def was_admitted_def)
  show ?thesis using admitted_urls_in_scope [OF demo_valid demo_reach r] r by blast
qed

end
