(* ===== verification/Politeness.thy ===== *)
theory Politeness
  imports Url_Identity
begin

text \<open>
  \<open>orchestrator/politeness.py\<close>: \<open>parse_retry_after\<close>, and \<open>HostPoliteness\<close>, which spaces the requests to a
  host.  A call of \<open>wait\<close> is a task that enters (evicting idle hosts when its host is new), acquires the lock
  of its host, looks at the clock until nothing is left to wait for, books the next slot and leaves.  Sleeping
  is holding the lock while time passes: the loop looks again whenever it wakes.  Tasks run interleaved, one
  step being what runs between two awaits.
\<close>

section \<open>Retry-After\<close>

text \<open>
  \<open>http_date\<close> is \<open>parsedate_to_datetime\<close> as a timestamp, a time without zone counting as UTC.  The outer
  \<open>None\<close> is the \<open>ValueError\<close> of \<open>int\<close> on more than 4300 digits.
\<close>

definition parse_retry_after :: "(string \<Rightarrow> pyfloat option) \<Rightarrow> pyfloat \<Rightarrow> int \<Rightarrow> string option \<Rightarrow> int option option" where
  "parse_retry_after http_date now max_delay v =
     (case v of
        None \<Rightarrow> Some None
      | Some t \<Rightarrow>
          if t = [] then Some None
          else (let stripped = py_strip t
                in if stripped \<noteq> [] \<and> list_all is_digit stripped
                   then (if 4300 < length stripped then None else Some (Some (min (int (undigits stripped)) max_delay)))
                   else Some (case http_date stripped of
                       None \<Rightarrow> None
                     | Some target \<Rightarrow> Some (min (max 0 (if now \<le> target then \<lfloor>target - now\<rfloor> else \<lceil>target - now\<rceil>)) max_delay))))"

section \<open>Hosts\<close>

record wait_task =
  task_host :: string
  task_robots_delay :: "pyfloat option"
  task_holds :: bool

record host_politeness =
  default_delay_s :: pyfloat
  max_jitter_s :: pyfloat
  max_cooldown_s :: int
  next_allowed :: "string \<rightharpoonup> pyfloat"
  host_failures :: "string \<rightharpoonup> nat"
  host_locks :: "string \<rightharpoonup> bool"

definition new_politeness :: "pyfloat \<Rightarrow> pyfloat \<Rightarrow> int \<Rightarrow> host_politeness" where
  "new_politeness delay jitter cooldown =
     \<lparr>default_delay_s = delay, max_jitter_s = jitter, max_cooldown_s = cooldown, next_allowed = Map.empty,
      host_failures = Map.empty, host_locks = Map.empty\<rparr>"

text \<open>The first two bytes of the digest, as a fraction of the largest jitter.\<close>

definition host_jitter :: "url_env \<Rightarrow> host_politeness \<Rightarrow> string \<Rightarrow> pyfloat" where
  "host_jitter env p host =
     (if max_jitter_s p \<le> 0 then 0
      else (let d = sha256 env (utf8 host); v = 256 * of_char (d ! 0) + of_char (d ! 1) :: nat
            in max_jitter_s p * (real v / 65535)))"

definition get_or :: "('k \<rightharpoonup> 'v) \<Rightarrow> 'k \<Rightarrow> 'v \<Rightarrow> 'v" where
  "get_or m k d = (case m k of None \<Rightarrow> d | Some v \<Rightarrow> v)"

definition idle_host :: "host_politeness \<Rightarrow> pyfloat \<Rightarrow> string \<Rightarrow> string \<Rightarrow> bool" where
  "idle_host p now retained h \<longleftrightarrow>
     h \<noteq> retained \<and> host_locks p h = Some False \<and> get_or (next_allowed p) h 0 \<le> now"

definition evict_idle :: "host_politeness \<Rightarrow> pyfloat \<Rightarrow> string \<Rightarrow> host_politeness" where
  "evict_idle p now retained =
     (let drop_idle = (\<lambda>h v. if idle_host p now retained h then None else v)
      in p\<lparr>host_locks := (\<lambda>h. drop_idle h (host_locks p h)),
           next_allowed := (\<lambda>h. if idle_host p now retained h then None else next_allowed p h),
           host_failures := (\<lambda>h. if idle_host p now retained h then None else host_failures p h)\<rparr>)"

text \<open>\<open>wait\<close> up to its first await.\<close>

definition wait_enter :: "host_politeness \<Rightarrow> pyfloat \<Rightarrow> string \<Rightarrow> host_politeness" where
  "wait_enter p now host =
     (if host_locks p host = None
      then (let q = evict_idle p now host in q\<lparr>host_locks := (host_locks q)(host \<mapsto> False)\<rparr>)
      else p)"

text \<open>One turn of the loop: how long is left to sleep.\<close>

definition wait_left :: "host_politeness \<Rightarrow> pyfloat \<Rightarrow> string \<Rightarrow> pyfloat" where
  "wait_left p now host = max 0 (get_or (next_allowed p) host now - now)"

definition spacing :: "url_env \<Rightarrow> host_politeness \<Rightarrow> string \<Rightarrow> pyfloat option \<Rightarrow> pyfloat" where
  "spacing env p host robots_delay =
     max (default_delay_s p) (case robots_delay of None \<Rightarrow> 0 | Some d \<Rightarrow> d) + host_jitter env p host"

text \<open>After the loop: the slot is booked with a second reading of the clock.\<close>

definition wait_book :: "url_env \<Rightarrow> host_politeness \<Rightarrow> pyfloat \<Rightarrow> string \<Rightarrow> pyfloat option \<Rightarrow> host_politeness" where
  "wait_book env p now' host robots_delay =
     p\<lparr>next_allowed := (next_allowed p)
         (host \<mapsto> max (get_or (next_allowed p) host 0) (now' + spacing env p host robots_delay))\<rparr>"

definition cooldown :: "host_politeness \<Rightarrow> nat \<Rightarrow> int option \<Rightarrow> int" where
  "cooldown p n retry_after =
     max (min (max_cooldown_s p) (2 ^ min n 10)) (case retry_after of None \<Rightarrow> 0 | Some r \<Rightarrow> r)"

definition record_response :: "host_politeness \<Rightarrow> pyfloat \<Rightarrow> string \<Rightarrow> int option \<Rightarrow> int option \<Rightarrow> host_politeness" where
  "record_response p now host status retry_after =
     (if status = Some 403 \<or> status = Some 429 then
        (let n = get_or (host_failures p) host 0 + 1
         in p\<lparr>host_failures := (host_failures p)(host \<mapsto> n),
              next_allowed := (next_allowed p)
                (host \<mapsto> max (get_or (next_allowed p) host 0) (now + real_of_int (cooldown p n retry_after)))\<rparr>)
      else (case status of
          Some c \<Rightarrow> if 200 \<le> c \<and> c < 400 then p\<lparr>host_failures := (host_failures p)(host := None)\<rparr> else p
        | None \<Rightarrow> p))"

definition cooldown_failures :: "host_politeness \<Rightarrow> string \<Rightarrow> nat" where
  "cooldown_failures p host = get_or (host_failures p) host 0"

section \<open>Interleaved tasks\<close>

text \<open>
  The tasks in \<open>wait\<close>, the clock, and what has happened: a request allowed at a time with the spacing it
  booked, or a refusal recorded at a time with the cooldown it set.
\<close>

datatype polite_event =
    Allowed string pyfloat pyfloat
  | Refused string pyfloat pyfloat

record polite_system =
  polite :: host_politeness
  clock :: pyfloat
  tasks :: "wait_task list"
  history :: "polite_event list"

inductive polite_step :: "url_env \<Rightarrow> polite_system \<Rightarrow> polite_system \<Rightarrow> bool" for env where
  time_passes: "clock s \<le> t \<Longrightarrow> polite_step env s (s\<lparr>clock := t\<rparr>)"
| enters: "polite_step env s (s\<lparr>polite := wait_enter (polite s) (clock s) h,
    tasks := tasks s @ [\<lparr>task_host = h, task_robots_delay = d, task_holds = False\<rparr>]\<rparr>)"
| acquires: "tasks s = before @ k # after \<Longrightarrow> \<not> task_holds k \<Longrightarrow> host_locks (polite s) (task_host k) \<noteq> Some True \<Longrightarrow>
    polite_step env s (s\<lparr>polite := (polite s)\<lparr>host_locks := (host_locks (polite s))(task_host k \<mapsto> True)\<rparr>,
      tasks := before @ k\<lparr>task_holds := True\<rparr> # after\<rparr>)"
| leaves: "tasks s = before @ k # after \<Longrightarrow> task_holds k \<Longrightarrow> wait_left (polite s) (clock s) (task_host k) = 0 \<Longrightarrow>
    clock s \<le> t \<Longrightarrow>
    p = wait_book env (polite s) t (task_host k) (task_robots_delay k) \<Longrightarrow>
    polite_step env s (s\<lparr>polite := p\<lparr>host_locks := (host_locks p)(task_host k \<mapsto> False)\<rparr>, clock := t,
      tasks := before @ after,
      history := history s @ [Allowed (task_host k) (clock s) (spacing env (polite s) (task_host k) (task_robots_delay k))]\<rparr>)"
| records: "polite_step env s (s\<lparr>polite := record_response (polite s) (clock s) h status retry_after,
    history := history s @ (if status = Some 403 \<or> status = Some 429
      then [Refused h (clock s) (real_of_int (cooldown (polite s) (Suc (cooldown_failures (polite s) h)) retry_after))] else [])\<rparr>)"

text \<open>Only one request to a host is allowed at a time, and none before what the earlier ones have booked.\<close>

fun event_host :: "polite_event \<Rightarrow> string" where
  "event_host (Allowed h t d) = h"
| "event_host (Refused h t d) = h"

fun event_until :: "polite_event \<Rightarrow> pyfloat" where
  "event_until (Allowed h t d) = t + d"
| "event_until (Refused h t d) = t + d"

definition booked :: "polite_system \<Rightarrow> polite_event \<Rightarrow> bool" where
  "booked s e \<longleftrightarrow> event_until e \<le> clock s \<or> (\<exists>n. next_allowed (polite s) (event_host e) = Some n \<and> event_until e \<le> n)"

definition spaced :: "polite_event list \<Rightarrow> bool" where
  "spaced es \<longleftrightarrow>
     (\<forall>i j h t d. i < j \<and> j < length es \<and> es ! j = Allowed h t d \<and> event_host (es ! i) = h \<longrightarrow> event_until (es ! i) \<le> t)"

definition polite_inv :: "polite_system \<Rightarrow> bool" where
  "polite_inv s \<longleftrightarrow> 0 \<le> clock s \<and> (\<forall>e\<in>set (history s). booked s e) \<and> spaced (history s)"

lemma spaced_snoc:
  assumes "spaced es" and "\<And>h t d e. x = Allowed h t d \<Longrightarrow> e \<in> set es \<Longrightarrow> event_host e = h \<Longrightarrow> event_until e \<le> t"
  shows "spaced (es @ [x])"
  using assms by (auto simp: spaced_def nth_append less_Suc_eq)

lemma booked_kept:
  assumes "booked s e" and "clock s \<le> clock s'"
    and "\<And>n. next_allowed (polite s) (event_host e) = Some n \<Longrightarrow>
      n \<le> clock s' \<or> (\<exists>m. next_allowed (polite s') (event_host e) = Some m \<and> n \<le> m)"
  shows "booked s' e"
proof -
  consider "event_until e \<le> clock s" | n where "next_allowed (polite s) (event_host e) = Some n" "event_until e \<le> n"
    using assms(1) by (auto simp: booked_def)
  then show ?thesis
  proof cases
    case 1
    then show ?thesis using assms(2) by (simp add: booked_def)
  next
    case (2 n)
    then show ?thesis using assms(3) [of n] by (force simp: booked_def)
  qed
qed

lemma enter_next:
  assumes "next_allowed p h = Some n"
  shows "n \<le> now \<or> next_allowed (wait_enter p now host) h = Some n"
  using assms by (auto simp: wait_enter_def evict_idle_def idle_host_def get_or_def Let_def)

lemma polite_step_inv [preserve_facts]:
  assumes "polite_step env s s'" and "polite_inv s"
  shows "polite_inv s'"
  using assms
proof (induction rule: polite_step.induct)
  case (time_passes s t)
  have "booked (s\<lparr>clock := t\<rparr>) e" if "e \<in> set (history s)" for e
    by (rule booked_kept [of s e]) (use time_passes that in \<open>simp_all add: polite_inv_def\<close>)
  then show ?case using time_passes by (simp add: polite_inv_def)
next
  case (enters s h d)
  let ?s = "s\<lparr>polite := wait_enter (polite s) (clock s) h,
    tasks := tasks s @ [\<lparr>task_host = h, task_robots_delay = d, task_holds = False\<rparr>]\<rparr>"
  have "booked ?s e" if "e \<in> set (history s)" for e
    by (rule booked_kept [of s e])
      (use enters that enter_next [of "polite s" "event_host e" _ "clock s" h] in \<open>simp_all add: polite_inv_def, blast\<close>)
  then show ?case using enters by (simp add: polite_inv_def)
next
  case (acquires s before k after)
  let ?s = "s\<lparr>polite := (polite s)\<lparr>host_locks := (host_locks (polite s))(task_host k \<mapsto> True)\<rparr>,
      tasks := before @ k\<lparr>task_holds := True\<rparr> # after\<rparr>"
  have "booked ?s e" if "e \<in> set (history s)" for e
    by (rule booked_kept [of s e]) (use acquires that in \<open>simp_all add: polite_inv_def\<close>)
  then show ?case using acquires by (simp add: polite_inv_def)
next
  case (leaves s before k after t p)
  let ?h = "task_host k" and ?d = "spacing env (polite s) (task_host k) (task_robots_delay k)"
  let ?e = "Allowed ?h (clock s) ?d"
  let ?s = "s\<lparr>polite := p\<lparr>host_locks := (host_locks p)(?h \<mapsto> False)\<rparr>, clock := t, tasks := before @ after,
      history := history s @ [?e]\<rparr>"
  have old: "booked ?s e" if "e \<in> set (history s)" for e
  proof (rule booked_kept [of s e])
    show "booked s e" using leaves that by (simp add: polite_inv_def)
    show "n \<le> clock ?s \<or> (\<exists>m. next_allowed (polite ?s) (event_host e) = Some m \<and> n \<le> m)"
      if "next_allowed (polite s) (event_host e) = Some n" for n
      using that leaves(5) by (cases "event_host e = ?h") (simp_all add: wait_book_def get_or_def)
  qed (use leaves in simp)
  moreover have "booked ?s ?e"
    using leaves(4,5) by (auto simp: booked_def wait_book_def)
  moreover have "spaced (history s @ [?e])"
  proof (rule spaced_snoc)
    show "spaced (history s)" using leaves.prems by (simp add: polite_inv_def)
    fix h t d e assume e: "?e = Allowed h t d" "e \<in> set (history s)" "event_host e = h"
    then have "booked s e" using leaves.prems by (simp add: polite_inv_def)
    moreover have "get_or (next_allowed (polite s)) h (clock s) \<le> clock s"
      using leaves(3) e(1) by (simp add: wait_left_def)
    ultimately show "event_until e \<le> t" using e by (auto simp: booked_def get_or_def)
  qed
  ultimately show ?case using leaves by (simp add: polite_inv_def)
next
  case (records s status h retry_after)
  let ?s = "s\<lparr>polite := record_response (polite s) (clock s) h status retry_after,
    history := history s @ (if status = Some 403 \<or> status = Some 429
      then [Refused h (clock s) (real_of_int (cooldown (polite s) (Suc (cooldown_failures (polite s) h)) retry_after))] else [])\<rparr>"
  have "booked ?s e" if "e \<in> set (history s)" for e
  proof (rule booked_kept [of s e])
    show "booked s e" using records that by (simp add: polite_inv_def)
    show "n \<le> clock ?s \<or> (\<exists>m. next_allowed (polite ?s) (event_host e) = Some m \<and> n \<le> m)"
      if "next_allowed (polite s) (event_host e) = Some n" for n
      using that by (cases "event_host e = h"; cases status) (simp_all add: record_response_def get_or_def Let_def le_max_iff_disj)
  qed simp
  moreover have "booked ?s e" if "e \<in> set (history ?s) - set (history s)" for e
    using that by (auto simp: booked_def record_response_def cooldown_failures_def Let_def split: if_splits)
  ultimately have "\<forall>e\<in>set (history ?s). booked ?s e" by blast
  moreover have "spaced (history ?s)"
    using records spaced_snoc [of "history s" "Refused _ _ _"] by (simp add: polite_inv_def)
  ultimately show ?case using records by (simp add: polite_inv_def)
qed

definition polite_start :: "host_politeness \<Rightarrow> polite_system" where
  "polite_start p = \<lparr>polite = p, clock = 0, tasks = [], history = []\<rparr>"

lemma polite_reachable:
  assumes "(polite_step env)\<^sup>*\<^sup>* (polite_start p) s"
  shows "polite_inv s"
  using assms
proof (induction rule: rtranclp_induct)
  case base
  show ?case by (simp add: polite_start_def polite_inv_def spaced_def)
qed (rule polite_step_inv)

text \<open>
  C30. However the tasks of many crawls interleave, a request to a host is allowed only when every earlier
  request to it is at least its spacing (the larger of the default and the robots delay, plus the jitter of
  the host) in the past, and every earlier 403 or 429 answer of the host at least its cooldown, which grows
  with the number of refusals in a row; evicting an idle host never shortens either.
\<close>

theorem requests_spaced:
  assumes "(polite_step env)\<^sup>*\<^sup>* (polite_start p) s"
    and "i < j" and "j < length (history s)" and "history s ! j = Allowed h t d" and "event_host (history s ! i) = h"
  shows "(\<forall>t' d'. history s ! i = Allowed h t' d' \<longrightarrow> t' + d' \<le> t) \<and>
    (\<forall>t' c. history s ! i = Refused h t' c \<longrightarrow> t' + c \<le> t)"
proof -
  have "event_until (history s ! i) \<le> t"
    using polite_reachable [OF assms(1)] assms(2-5) unfolding polite_inv_def spaced_def by blast
  then show ?thesis by auto
qed

text \<open>Two requests to one host, the second after the first one's spacing has passed.\<close>

definition demo_polite :: host_politeness where
  "demo_polite = new_politeness 2 0 60"

definition polite_env :: url_env where
  "polite_env = \<lparr>idna_uts46 = Some, idna_2003 = Some, ipv6_string = (\<lambda>w. []), sha256 = (\<lambda>b. [])\<rparr>"

definition demo_visit :: "pyfloat \<Rightarrow> polite_system \<Rightarrow> polite_system" where
  "demo_visit t s =
     s\<lparr>polite := (polite s)\<lparr>next_allowed := [''h'' \<mapsto> t + 2], host_locks := [''h'' \<mapsto> False]\<rparr>, clock := t,
       tasks := [], history := history s @ [Allowed ''h'' t 2]\<rparr>"

lemma demo_visit_steps:
  assumes "clock s \<le> t" and "0 \<le> t" and "tasks s = []" and "default_delay_s (polite s) = 2" and "max_jitter_s (polite s) = 0"
    and "host_locks (polite s) = Map.empty \<and> next_allowed (polite s) = Map.empty \<and> host_failures (polite s) = Map.empty \<or>
      host_locks (polite s) = [''h'' \<mapsto> False] \<and> (\<exists>n\<le>t. 0 \<le> n \<and> next_allowed (polite s) = [''h'' \<mapsto> n])"
  shows "(polite_step polite_env)\<^sup>*\<^sup>* s (demo_visit t s)"
proof -
  let ?a = "s\<lparr>clock := t\<rparr>"
  let ?b = "?a\<lparr>polite := wait_enter (polite ?a) (clock ?a) ''h'',
    tasks := tasks ?a @ [\<lparr>task_host = ''h'', task_robots_delay = None, task_holds = False\<rparr>]\<rparr>"
  let ?c = "?b\<lparr>polite := (polite ?b)\<lparr>host_locks := (host_locks (polite ?b))(''h'' \<mapsto> True)\<rparr>,
      tasks := [\<lparr>task_host = ''h'', task_robots_delay = None, task_holds = True\<rparr>]\<rparr>"
  have enter: "wait_enter (polite s) t ''h'' = (polite s)\<lparr>host_locks := [''h'' \<mapsto> False]\<rparr>"
    using assms(6) by (auto simp: wait_enter_def evict_idle_def idle_host_def Let_def fun_eq_iff intro!: host_politeness.equality)
  have 1: "polite_step polite_env s ?a" using assms(1) by (rule time_passes)
  have 2: "polite_step polite_env ?a ?b" by (rule enters)
  have 3: "polite_step polite_env ?b ?c"
    using acquires [of ?b "[]" "\<lparr>task_host = ''h'', task_robots_delay = None, task_holds = False\<rparr>" "[]" polite_env] assms(3) enter
    by simp
  have left: "wait_left (polite ?c) (clock ?c) ''h'' = 0" using assms(6) enter by (auto simp: wait_left_def get_or_def)
  have sp: "spacing polite_env (polite ?c) ''h'' None = 2" using assms(4,5) enter by (simp add: spacing_def host_jitter_def)
  have 4: "polite_step polite_env ?c (demo_visit t s)"
    using leaves [of ?c "[]" "\<lparr>task_host = ''h'', task_robots_delay = None, task_holds = True\<rparr>" "[]" t "wait_book polite_env (polite ?c) t ''h'' None" polite_env]
      left sp assms(2,3,6) enter
    by (auto simp: demo_visit_def wait_book_def get_or_def max_def)
  show ?thesis using 1 2 3 4 by (meson converse_rtranclp_into_rtranclp rtranclp.rtrancl_refl)
qed

definition demo_first :: polite_system where
  "demo_first = demo_visit 5 (polite_start demo_polite)"

theorem requests_spaced_witness:
  "history (demo_visit 7 demo_first) = [Allowed ''h'' 5 2, Allowed ''h'' 7 2] \<and> (5::pyfloat) + 2 \<le> 7"
proof -
  have 1: "(polite_step polite_env)\<^sup>*\<^sup>* (polite_start demo_polite) demo_first"
    unfolding demo_first_def
    by (rule demo_visit_steps) (simp_all add: polite_start_def demo_polite_def new_politeness_def)
  have "(polite_step polite_env)\<^sup>*\<^sup>* demo_first (demo_visit 7 demo_first)"
    by (rule demo_visit_steps)
      (simp_all add: demo_first_def demo_visit_def polite_start_def demo_polite_def new_politeness_def, intro exI [of _ "7::pyfloat"], simp)
  with 1 have r: "(polite_step polite_env)\<^sup>*\<^sup>* (polite_start demo_polite) (demo_visit 7 demo_first)" by (rule rtranclp_trans)
  have h: "history (demo_visit 7 demo_first) = [Allowed ''h'' 5 2, Allowed ''h'' 7 2]"
    by (simp add: demo_first_def demo_visit_def polite_start_def)
  have "(\<forall>t' d'. history (demo_visit 7 demo_first) ! 0 = Allowed ''h'' t' d' \<longrightarrow> t' + d' \<le> 7)"
    using requests_spaced [OF r, of 0 1 "''h''" 7 2] h by simp
  then show ?thesis using h by simp
qed

end
