(* ===== verification/Sitemap_Policy.thy ===== *)
theory Sitemap_Policy
  imports Url_Identity "HOL-Library.Option_ord" "HOL-Library.Product_Lexorder"
begin

text \<open>
  \<open>orchestrator/sitemap_policy.py\<close>.  The XML parser and \<open>fromisoformat\<close> are arguments; an element is its
  tag, its text and its children.  A date is its timestamp, and minus infinity, where the code uses it in a
  sort key, is \<open>None\<close>, which the order of options puts first.
\<close>

datatype xml = Xml (xml_tag: string) (xml_text: "string option") (xml_children: "xml list")

text \<open>\<open>iso_datetime\<close> also says whether the text has a time zone.\<close>

record sitemap_env =
  from_xml :: "string \<Rightarrow> xml option"
  iso_date :: "string \<Rightarrow> pyfloat option"
  iso_datetime :: "string \<Rightarrow> (bool \<times> pyfloat) option"

record sitemap_entry =
  entry_url :: string
  entry_modified_at :: "string option"
  entry_priority :: "pyfloat option"
  entry_order :: nat

record sitemap_document =
  doc_kind :: "string option"
  doc_entries :: "sitemap_entry list"
  doc_truncated :: bool
  doc_reason :: "string option"

section \<open>Elements\<close>

definition local_name :: "string \<Rightarrow> string" where
  "local_name tag = Py_Strings.py_casefold (snd (snd (rpartition_on (CHR ''}'') tag)))"

fun child_text :: "xml list \<Rightarrow> string \<Rightarrow> string option" where
  "child_text [] name = None"
| "child_text (Xml tag tx cs # es) name =
     (case tx of
        Some t \<Rightarrow> if local_name tag = name \<and> t \<noteq> [] then (if py_strip t = [] then None else Some (py_strip t)) else child_text es name
      | None \<Rightarrow> child_text es name)"

definition valid_datetime :: "sitemap_env \<Rightarrow> string option \<Rightarrow> string option \<times> pyfloat option" where
  "valid_datetime env v =
     (case v of
        None \<Rightarrow> (None, None)
      | Some t \<Rightarrow>
          if t = [] then (None, None)
          else if length t = 10 then (case iso_date env t of None \<Rightarrow> (None, None) | Some x \<Rightarrow> (Some t, Some x))
          else (let n = (if py_endswith t ''Z'' then butlast t @ ''+00:00'' else t)
                in case iso_datetime env n of
                     Some (True, x) \<Rightarrow> (Some t, Some x)
                   | _ \<Rightarrow> (None, None)))"

definition valid_priority :: "string option \<Rightarrow> pyfloat option" where
  "valid_priority v =
     (case v of
        None \<Rightarrow> None
      | Some t \<Rightarrow> (case py_float t of None \<Rightarrow> None | Some p \<Rightarrow> if 0 \<le> p \<and> p \<le> 1 then Some p else None))"

section \<open>A root inside other text\<close>

text \<open>The first \<open>\<langle>name\<close> that is followed by white space, a slash or the end of the tag.\<close>

function find_root_tag :: "string \<Rightarrow> string \<Rightarrow> nat \<Rightarrow> nat option" where
  "find_root_tag lowered name offset =
     (case py_find lowered (CHR 0x3C # name) offset of
        None \<Rightarrow> None
      | Some start \<Rightarrow>
          (let boundary = start + length name + 1
           in if boundary < length lowered \<and>
                (py_isspace (lowered ! boundary) \<or> lowered ! boundary = CHR 0x3E \<or> lowered ! boundary = CHR ''/'')
              then Some start else find_root_tag lowered name boundary))"
  by pat_completeness auto
termination
proof (relation "measure (\<lambda>(lowered, name, offset). Suc (length lowered) - offset)")
  fix lowered name :: string and offset start boundary
  assume "py_find lowered (CHR 0x3C # name) offset = Some start" and "boundary = start + length name + 1"
  then show "((lowered, name, boundary), lowered, name, offset) \<in> measure (\<lambda>(lowered, name, offset). Suc (length lowered) - offset)"
    using py_find_bounds [of lowered "CHR 0x3C # name" offset start] by (auto simp: py_find_def split: if_splits)
qed simp

definition root_fragment :: "string \<Rightarrow> string option" where
  "root_fragment content =
     (let lowered = Py_Strings.py_casefold content;
          found = List.map_filter (\<lambda>name. map_option (\<lambda>start. (start, name)) (find_root_tag lowered name 0))
            [''urlset'', ''sitemapindex'']
      in if found = [] then None
         else (let (start, name) = (if length found = 2 \<and> fst (found ! 1) < fst (found ! 0) then found ! 1 else found ! 0);
                   end_tag = CHR 0x3C # ''/'' @ name @ [CHR 0x3E]
               in case py_find lowered end_tag start of
                    None \<Rightarrow> None
                  | Some e \<Rightarrow> Some (take (e + length end_tag - start) (drop start content))))"

section \<open>Documents\<close>

definition parse_root :: "sitemap_env \<Rightarrow> string \<Rightarrow> xml option" where
  "parse_root env content =
     (case from_xml env content of
        Some x \<Rightarrow> Some x
      | None \<Rightarrow> (case root_fragment content of None \<Rightarrow> None | Some f \<Rightarrow> from_xml env f))"

text \<open>\<open>root.iter()\<close>: the element and everything below it, in document order.\<close>

fun xml_iter :: "xml \<Rightarrow> xml list" where
  "xml_iter (Xml tag tx cs) = Xml tag tx cs # concat (map xml_iter cs)"

definition root_names :: "string list" where
  "root_names = [''urlset'', ''sitemapindex'']"

definition supported_root :: "xml \<Rightarrow> (xml \<times> string) option" where
  "supported_root el =
     (if local_name (xml_tag el) \<in> set root_names then Some (el, local_name (xml_tag el))
      else map_option (\<lambda>e. (e, local_name (xml_tag e)))
             (List.find (\<lambda>e. local_name (xml_tag e) \<in> set root_names) (xml_iter el)))"

fun sitemap_entries_from :: "sitemap_env \<Rightarrow> string \<Rightarrow> sitemap_entry list \<Rightarrow> xml list \<Rightarrow> sitemap_entry list" where
  "sitemap_entries_from env name es [] = es"
| "sitemap_entries_from env name es (c # cs) =
     (if local_name (xml_tag c) \<noteq> name then sitemap_entries_from env name es cs
      else case child_text (xml_children c) ''loc'' of
        None \<Rightarrow> sitemap_entries_from env name es cs
      | Some url \<Rightarrow>
          sitemap_entries_from env name
            (es @ [\<lparr>entry_url = url,
               entry_modified_at = fst (valid_datetime env (child_text (xml_children c) ''lastmod'')),
               entry_priority = valid_priority (child_text (xml_children c) ''priority''),
               entry_order = length es\<rparr>]) cs)"

definition sitemap_entries :: "sitemap_env \<Rightarrow> xml \<Rightarrow> string \<Rightarrow> sitemap_entry list" where
  "sitemap_entries env el name = sitemap_entries_from env name [] (xml_children el)"

text \<open>A missing date sorts below every date, whatever the two flags of the code's tuple add.\<close>

definition entry_sort_key :: "sitemap_env \<Rightarrow> sitemap_entry \<Rightarrow> pyfloat option \<times> pyfloat option \<times> int" where
  "entry_sort_key env e = (snd (valid_datetime env (entry_modified_at e)), entry_priority e, - int (entry_order e))"

text \<open>\<open>sort(key=..., reverse=True)\<close>: reversed, sorted stably, reversed.\<close>

definition sort_reverse :: "('a \<Rightarrow> 'k::linorder) \<Rightarrow> 'a list \<Rightarrow> 'a list" where
  "sort_reverse key xs = rev (sort_key key (rev xs))"

definition refused_document :: "string \<Rightarrow> sitemap_document" where
  "refused_document reason = \<lparr>doc_kind = None, doc_entries = [], doc_truncated = False, doc_reason = Some reason\<rparr>"

definition unsafe_xml :: "string \<Rightarrow> bool" where
  "unsafe_xml content \<longleftrightarrow>
     py_contains (CHR 0x3C # ''!DOCTYPE'') (py_upper content) \<or> py_contains (CHR 0x3C # ''!ENTITY'') (py_upper content)"

definition parse_sitemap :: "sitemap_env \<Rightarrow> string \<Rightarrow> int \<Rightarrow> int \<Rightarrow> sitemap_document" where
  "parse_sitemap env content max_bytes max_entries =
     (if int (length (utf8 content)) > max_bytes then refused_document ''body_too_large''
      else if unsafe_xml content then refused_document ''unsafe_xml''
      else case parse_root env content of
        None \<Rightarrow> refused_document ''malformed_xml''
      | Some x \<Rightarrow>
          (case supported_root x of
             None \<Rightarrow> refused_document ''unsupported_root''
           | Some (el, name) \<Rightarrow>
               (let entries = sort_reverse (entry_sort_key env)
                      (sitemap_entries env el (if name = ''urlset'' then ''url'' else ''sitemap''))
                in \<lparr>doc_kind = Some (if name = ''urlset'' then ''urlset'' else ''index''),
                    doc_entries = py_slice entries 0 max_entries,
                    doc_truncated = int (length entries) > max_entries, doc_reason = None\<rparr>)))"

section \<open>What the document holds\<close>

lemma entries_from_orders:
  "map entry_order es = [0..<length es] \<Longrightarrow>
   map entry_order (sitemap_entries_from env name es cs) = [0..<length (sitemap_entries_from env name es cs)]"
  by (induction env name es cs rule: sitemap_entries_from.induct) (simp_all split: option.split)

lemma sort_reverse_simps [simp]:
  "set (sort_reverse key xs) = set xs" "length (sort_reverse key xs) = length xs"
  "distinct (sort_reverse key xs) \<longleftrightarrow> distinct xs"
  by (simp_all add: sort_reverse_def)

lemma sort_reverse_sorted: "sorted_wrt (\<lambda>a b. key b \<le> key a) (sort_reverse key xs)"
proof -
  have "sorted_wrt (\<lambda>a b. key a \<le> key b) (sort_key key (rev xs))"
    using sorted_sort_key [of key "rev xs"] by (simp add: sorted_wrt_map)
  then show ?thesis by (simp add: sort_reverse_def sorted_wrt_rev)
qed

lemma entry_key_inject: "entry_sort_key env a = entry_sort_key env b \<Longrightarrow> entry_order a = entry_order b"
  by (simp add: entry_sort_key_def)

lemma sorted_prefix_top:
  fixes key :: "'a \<Rightarrow> 'k::linorder"
  assumes "sorted_wrt (\<lambda>a b. key b \<le> key a) xs" and "distinct (map key xs)" and "a \<in> set (take n xs)"
    and "b \<in> set xs" and "b \<notin> set (take n xs)"
  shows "key b < key a"
proof -
  have b: "b \<in> set (drop n xs)" using assms(4,5) by (metis Un_iff append_take_drop_id set_append)
  have "sorted_wrt (\<lambda>a b. key b \<le> key a) (take n xs @ drop n xs)" using assms(1) by simp
  then have "key b \<le> key a" using assms(3) b unfolding sorted_wrt_append by blast
  moreover have "key b \<noteq> key a"
  proof
    assume eq: "key b = key a"
    have "a \<in> set xs" using assms(3) by (rule in_set_takeD)
    then have "a = b" using assms(2,4) eq by (auto simp: distinct_map inj_on_def)
    then show False using assms(3,5) by simp
  qed
  ultimately show ?thesis by simp
qed

text \<open>
  C31. A sitemap that is accepted is within the size limit and has no document type or entity declaration;
  its entries are the best of all the entries of its root by date, then priority, then position, in that
  order and without repetition, as many as allowed, and it counts as truncated exactly when some are left out.
\<close>

theorem sitemap_top_entries:
  assumes "parse_sitemap env content max_bytes max_entries = doc" and "doc_reason doc = None" and "0 \<le> max_entries"
  shows "int (length (utf8 content)) \<le> max_bytes \<and> \<not> unsafe_xml content \<and>
    (\<exists>x el name. parse_root env content = Some x \<and> supported_root x = Some (el, name) \<and>
       (let all = sitemap_entries env el (if name = ''urlset'' then ''url'' else ''sitemap'')
        in length (doc_entries doc) = min (nat max_entries) (length all) \<and> distinct (doc_entries doc) \<and>
           set (doc_entries doc) \<subseteq> set all \<and>
           sorted_wrt (\<lambda>a b. entry_sort_key env b \<le> entry_sort_key env a) (doc_entries doc) \<and>
           (\<forall>a\<in>set (doc_entries doc). \<forall>b\<in>set all - set (doc_entries doc). entry_sort_key env b < entry_sort_key env a) \<and>
           (doc_truncated doc \<longleftrightarrow> max_entries < int (length all))))"
proof -
  have small: "int (length (utf8 content)) \<le> max_bytes" "\<not> unsafe_xml content"
    using assms(1,2) by (auto simp: parse_sitemap_def refused_document_def split: if_splits)
  then obtain x el name where x: "parse_root env content = Some x" "supported_root x = Some (el, name)"
    using assms(1,2) by (auto simp: parse_sitemap_def refused_document_def split: option.splits)
  let ?all = "sitemap_entries env el (if name = ''urlset'' then ''url'' else ''sitemap'')"
  let ?key = "entry_sort_key env" and ?n = "nat max_entries"
  let ?sorted = "sort_reverse ?key ?all"
  have doc: "doc_entries doc = take ?n ?sorted" "doc_truncated doc \<longleftrightarrow> max_entries < int (length ?all)"
  proof -
    have "doc = \<lparr>doc_kind = Some (if name = ''urlset'' then ''urlset'' else ''index''),
        doc_entries = py_slice ?sorted 0 max_entries, doc_truncated = int (length ?sorted) > max_entries, doc_reason = None\<rparr>"
      using assms(1) small x by (simp add: parse_sitemap_def Let_def)
    moreover have "py_slice ?sorted 0 max_entries = take ?n ?sorted"
      using assms(3) by (simp add: py_slice_def py_clamp_def min_def)
    ultimately show "doc_entries doc = take ?n ?sorted" and "doc_truncated doc \<longleftrightarrow> max_entries < int (length ?all)" by simp_all
  qed
  have "map entry_order ?all = [0..<length ?all]"
    unfolding sitemap_entries_def by (rule entries_from_orders) simp
  then have "distinct (map entry_order ?all)" by simp
  then have inj: "inj_on entry_order (set ?all)" and da: "distinct ?all" unfolding distinct_map by blast+
  have "inj_on ?key (set ?all)"
    using inj by (intro inj_onI) (drule entry_key_inject, erule inj_onD)
  then have d: "distinct ?sorted" and dk: "distinct (map ?key ?sorted)" using da by (simp_all add: distinct_map)
  have sub: "set (doc_entries doc) \<subseteq> set ?all"
    using doc(1) set_take_subset [of ?n ?sorted] by simp
  have top: "?key b < ?key a" if "a \<in> set (doc_entries doc)" "b \<in> set ?all" "b \<notin> set (doc_entries doc)" for a b
    using sorted_prefix_top [OF sort_reverse_sorted dk, of a ?n b] that doc(1) by simp
  have sorted: "sorted_wrt (\<lambda>a b. ?key b \<le> ?key a) (doc_entries doc)"
    unfolding doc(1) by (rule sorted_wrt_take) (rule sort_reverse_sorted)
  have len: "length (doc_entries doc) = min ?n (length ?all)"
    using doc(1) by simp
  have dist: "distinct (doc_entries doc)" using doc(1) d by simp
  show ?thesis
    unfolding Let_def
    by (intro conjI exI [of _ x] exI [of _ el] exI [of _ name] ballI)
      (fact small x len dist sub sorted doc(2) | rule top, assumption, simp, simp)+
qed

definition demo_xml :: xml where
  "demo_xml = Xml ''{ns}urlset'' None
     [Xml ''url'' None [Xml ''loc'' (Some ''http://a.b/1'') []],
      Xml ''url'' None [Xml ''loc'' (Some '' http://a.b/2 '') [], Xml ''lastmod'' (Some ''2024-01-02'') []],
      Xml ''url'' None [Xml ''loc'' (Some ''http://a.b/3'') []]]"

definition demo_sitemap_env :: sitemap_env where
  "demo_sitemap_env = \<lparr>from_xml = (\<lambda>s. Some demo_xml), iso_date = (\<lambda>s. Some 7), iso_datetime = (\<lambda>s. None)\<rparr>"

lemma demo_entries:
  "sitemap_entries demo_sitemap_env demo_xml ''url'' =
     [\<lparr>entry_url = ''http://a.b/1'', entry_modified_at = None, entry_priority = None, entry_order = 0\<rparr>,
      \<lparr>entry_url = ''http://a.b/2'', entry_modified_at = Some ''2024-01-02'', entry_priority = None, entry_order = 1\<rparr>,
      \<lparr>entry_url = ''http://a.b/3'', entry_modified_at = None, entry_priority = None, entry_order = 2\<rparr>]"
  by code_simp

theorem sitemap_top_entries_witness:
  "map entry_url (doc_entries (parse_sitemap demo_sitemap_env ''x'' 9 2)) = [''http://a.b/2'', ''http://a.b/1''] \<and>
   doc_truncated (parse_sitemap demo_sitemap_env ''x'' 9 2)"
proof -
  let ?d = "parse_sitemap demo_sitemap_env ''x'' 9 2"
  have 1: "supported_root demo_xml = Some (demo_xml, ''urlset'')" by code_simp
  have 2: "length (utf8 ''x'') = 1" "\<not> unsafe_xml ''x''" by code_simp+
  have 3: "parse_root demo_sitemap_env ''x'' = Some demo_xml" by (simp add: parse_root_def demo_sitemap_env_def)
  have 4: "sort_reverse (entry_sort_key demo_sitemap_env) (sitemap_entries demo_sitemap_env demo_xml ''url'') =
     [\<lparr>entry_url = ''http://a.b/2'', entry_modified_at = Some ''2024-01-02'', entry_priority = None, entry_order = 1\<rparr>,
      \<lparr>entry_url = ''http://a.b/1'', entry_modified_at = None, entry_priority = None, entry_order = 0\<rparr>,
      \<lparr>entry_url = ''http://a.b/3'', entry_modified_at = None, entry_priority = None, entry_order = 2\<rparr>]"
    unfolding demo_entries
    by (simp add: sort_reverse_def entry_sort_key_def valid_datetime_def demo_sitemap_env_def)
  have 5: "length (sitemap_entries demo_sitemap_env demo_xml ''url'') = 3" by (simp add: demo_entries)
  have k: "doc_reason ?d = None \<and> map entry_url (doc_entries ?d) = [''http://a.b/2'', ''http://a.b/1''] \<and> doc_truncated ?d"
    by (simp add: parse_sitemap_def 1 2 3 4 5 py_slice_def py_clamp_def)
  then show ?thesis using sitemap_top_entries [of demo_sitemap_env "''x''" 9 2 ?d] by simp
qed

text \<open>
  The positions found in the case-folded text are used on the text itself: a sharp s, which folds to two
  letters, in front of the root shifts the fragment by one.
\<close>

lemma root_fragment_shifted:
  "root_fragment (CHR 0xDF # CHR 0x3C # ''urlset/'' @ CHR 0x3E # CHR 0x3C # ''/urlset'' @ [CHR 0x3E]) =
   Some (''urlset/'' @ CHR 0x3E # CHR 0x3C # ''/urlset'' @ [CHR 0x3E])"
  by code_simp

end
