(* ===== verification/Effects.thy ===== *)
theory Effects
  imports Prelude
begin

text \<open>
  Code that changes a state and may stop with an exception: a computation maps a state to its ending and the
  state it leaves, also when it raises, so what happened before an exception stays visible.  The rules come in
  two forms: \<open>obeys R\<close>, every run relates the state before to the state after, for a reflexive and transitive
  relation (an invariant, an extension order, a measure that does not grow), and \<open>triple\<close>, with the value
  returned or the exception raised.
\<close>

datatype ('a, 'e) ending = Returned 'a | Raised 'e

type_synonym ('s, 'e, 'a) eff = "'s \<Rightarrow> ('a, 'e) ending \<times> 's"

definition ret :: "'a \<Rightarrow> ('s, 'e, 'a) eff" where
  "ret a s = (Returned a, s)"

definition raise :: "'e \<Rightarrow> ('s, 'e, 'a) eff" where
  "raise e s = (Raised e, s)"

definition andthen :: "('s, 'e, 'a) eff \<Rightarrow> ('a \<Rightarrow> ('s, 'e, 'b) eff) \<Rightarrow> ('s, 'e, 'b) eff" where
  "andthen m f s = (case m s of (Returned a, s') \<Rightarrow> f a s' | (Raised e, s') \<Rightarrow> (Raised e, s'))"

definition reads :: "('s \<Rightarrow> 'a) \<Rightarrow> ('s, 'e, 'a) eff" where
  "reads f s = (Returned (f s), s)"

definition modifies :: "('s \<Rightarrow> 's) \<Rightarrow> ('s, 'e, unit) eff" where
  "modifies f s = (Returned (), f s)"

definition or_raise :: "'e \<Rightarrow> 'a option \<Rightarrow> ('s, 'e, 'a) eff" where
  "or_raise e v = (case v of None \<Rightarrow> raise e | Some a \<Rightarrow> ret a)"

text \<open>\<open>for x in xs: f x\<close>.\<close>

fun for_each :: "('x \<Rightarrow> ('s, 'e, unit) eff) \<Rightarrow> 'x list \<Rightarrow> ('s, 'e, unit) eff" where
  "for_each f [] = ret ()"
| "for_each f (x # xs) = andthen (f x) (\<lambda>_. for_each f xs)"

lemmas eff_defs = ret_def raise_def andthen_def reads_def modifies_def or_raise_def

text \<open>Taking a run apart.\<close>

lemma andthen_Returned:
  "andthen m f s = (Returned b, t) \<longleftrightarrow> (\<exists>a u. m s = (Returned a, u) \<and> f a u = (Returned b, t))"
  by (auto simp: andthen_def split: prod.splits ending.splits)

lemma andthen_Raised:
  "andthen m f s = (Raised e, t) \<longleftrightarrow> m s = (Raised e, t) \<or> (\<exists>a u. m s = (Returned a, u) \<and> f a u = (Raised e, t))"
  by (auto simp: andthen_def split: prod.splits ending.splits)

section \<open>Two-state relations\<close>

named_theorems obeys_rules "one rule per operation: which relation every run of it respects"

definition obeys :: "('s \<Rightarrow> 's \<Rightarrow> bool) \<Rightarrow> ('s, 'e, 'a) eff \<Rightarrow> bool" where
  "obeys R m \<longleftrightarrow> (\<forall>s. R s (snd (m s)))"

lemma obeysD: "obeys R m \<Longrightarrow> m s = (r, t) \<Longrightarrow> R s t"
  unfolding obeys_def by (metis snd_conv)

locale preorder_run =
  fixes R :: "'s \<Rightarrow> 's \<Rightarrow> bool"
  assumes rel_refl: "R s s" and rel_trans: "R s t \<Longrightarrow> R t u \<Longrightarrow> R s u"
begin

lemma obeys_ret [intro]: "obeys R (ret a)" and obeys_raise [intro]: "obeys R (raise e)"
  and obeys_reads [intro]: "obeys R (reads f)" and obeys_or_raise [intro]: "obeys R (or_raise e v)"
  by (simp_all add: obeys_def eff_defs rel_refl split: option.split)

lemma obeys_modifies: "obeys R (modifies f) \<longleftrightarrow> (\<forall>s. R s (f s))"
  by (simp add: obeys_def modifies_def)

lemma obeys_andthen [intro]:
  assumes "obeys R m" and "\<And>a. obeys R (f a)"
  shows "obeys R (andthen m f)"
  unfolding obeys_def
proof
  fix s
  obtain r t where m: "m s = (r, t)" by fastforce
  then have "R s t" using assms(1) unfolding obeys_def by (metis snd_conv)
  moreover have "R t (snd (f a t))" for a using assms(2) by (simp add: obeys_def)
  ultimately show "R s (snd (andthen m f s))"
    by (cases r) (auto simp: andthen_def m intro: rel_trans)
qed

lemma obeys_for_each [intro]:
  assumes "\<And>x. x \<in> set xs \<Longrightarrow> obeys R (f x)"
  shows "obeys R (for_each f xs)"
  using assms by (induction xs) auto

lemma obeys_if [intro]: "(b \<Longrightarrow> obeys R m) \<Longrightarrow> (\<not> b \<Longrightarrow> obeys R m') \<Longrightarrow> obeys R (if b then m else m')"
  by simp

lemma obeys_option [intro]:
  "(v = None \<Longrightarrow> obeys R m) \<Longrightarrow> (\<And>a. v = Some a \<Longrightarrow> obeys R (f a)) \<Longrightarrow> obeys R (case v of None \<Rightarrow> m | Some a \<Rightarrow> f a)"
  by (cases v) simp_all

lemma obeys_pair [intro]: "(\<And>a b. p = (a, b) \<Longrightarrow> obeys R (f a b)) \<Longrightarrow> obeys R (case p of (a, b) \<Rightarrow> f a b)"
  by (cases p) simp

lemma obeys_let [intro]: "obeys R (f v) \<Longrightarrow> obeys R (let x = v in f x)"
  by simp

end

section \<open>Triples\<close>

definition triple :: "('s \<Rightarrow> bool) \<Rightarrow> ('s, 'e, 'a) eff \<Rightarrow> ('a \<Rightarrow> 's \<Rightarrow> bool) \<Rightarrow> ('e \<Rightarrow> 's \<Rightarrow> bool) \<Rightarrow> bool" where
  "triple P m Q E \<longleftrightarrow> (\<forall>s. P s \<longrightarrow> (case m s of (Returned a, s') \<Rightarrow> Q a s' | (Raised e, s') \<Rightarrow> E e s'))"

lemma tripleD:
  "triple P m Q E \<Longrightarrow> P s \<Longrightarrow> m s = (Returned a, s') \<Longrightarrow> Q a s'"
  "triple P m Q E \<Longrightarrow> P s \<Longrightarrow> m s = (Raised e, s') \<Longrightarrow> E e s'"
  by (fastforce simp: triple_def)+

lemma triple_ret: "(\<And>s. P s \<Longrightarrow> Q a s) \<Longrightarrow> triple P (ret a) Q E"
  and triple_raise: "(\<And>s. P s \<Longrightarrow> E e s) \<Longrightarrow> triple P (raise e) Q E"
  and triple_reads: "(\<And>s. P s \<Longrightarrow> Q (f s) s) \<Longrightarrow> triple P (reads f) Q E"
  and triple_modifies: "(\<And>s. P s \<Longrightarrow> Q' () (g s)) \<Longrightarrow> triple P (modifies g) Q' E"
  by (simp_all add: triple_def eff_defs)

lemma triple_or_raise:
  assumes "\<And>s a. P s \<Longrightarrow> v = Some a \<Longrightarrow> Q a s" and "\<And>s. P s \<Longrightarrow> v = None \<Longrightarrow> E e s"
  shows "triple P (or_raise e v) Q E"
  using assms by (cases v) (simp_all add: triple_def eff_defs)

lemma triple_andthen:
  assumes "triple P m M E" and "\<And>a. triple (M a) (f a) Q E"
  shows "triple P (andthen m f) Q E"
  unfolding triple_def
proof (intro allI impI)
  fix s assume P: "P s"
  obtain r t where m: "m s = (r, t)" by fastforce
  show "case andthen m f s of (Returned a, s') \<Rightarrow> Q a s' | (Raised e, s') \<Rightarrow> E e s'"
  proof (cases r)
    case (Returned a)
    then have "M a t" using assms(1) P m by (auto intro: tripleD)
    then show ?thesis using assms(2) [of a] Returned m by (simp add: andthen_def triple_def)
  next
    case (Raised e)
    then show ?thesis using assms(1) P m by (auto simp: andthen_def intro: tripleD)
  qed
qed

lemma triple_weaken:
  assumes "triple P' m Q' E'" and "\<And>s. P s \<Longrightarrow> P' s" and "\<And>a s. Q' a s \<Longrightarrow> Q a s" and "\<And>e s. E' e s \<Longrightarrow> E e s"
  shows "triple P m Q E"
  using assms by (fastforce simp: triple_def split: prod.split ending.split)

lemma triple_if:
  "(b \<Longrightarrow> triple P m Q E) \<Longrightarrow> (\<not> b \<Longrightarrow> triple P m' Q E) \<Longrightarrow> triple P (if b then m else m') Q E"
  by simp

lemma triple_option:
  "(v = None \<Longrightarrow> triple P m Q E) \<Longrightarrow> (\<And>a. v = Some a \<Longrightarrow> triple P (f a) Q E) \<Longrightarrow>
   triple P (case v of None \<Rightarrow> m | Some a \<Rightarrow> f a) Q E"
  by (cases v) simp_all

lemma triple_for_each:
  assumes "\<And>x. x \<in> set xs \<Longrightarrow> triple I (f x) (\<lambda>_. I) E"
  shows "triple I (for_each f xs) (\<lambda>_. I) E"
  using assms
proof (induction xs)
  case (Cons x xs)
  then show ?case by (auto intro!: triple_andthen [where M = "\<lambda>_. I"])
qed (auto intro: triple_ret)

lemma triple_conj:
  "triple P m Q E \<Longrightarrow> triple P' m Q' E' \<Longrightarrow>
   triple (\<lambda>s. P s \<and> P' s) m (\<lambda>a s. Q a s \<and> Q' a s) (\<lambda>e s. E e s \<and> E' e s)"
  by (fastforce simp: triple_def split: prod.split ending.split)

end
