(* ===== verification/Site_Pipeline.thy ===== *)
theory Site_Pipeline
  imports Effects Crawl_Frontier Robots_Policy Sitemap_Policy Politeness
begin

text \<open>
  \<open>orchestrator/site_pipeline.py\<close>: a map or crawl of one site.  \<open>_SiteOperation\<close> is the record of its
  attributes, its methods are effects on it.  What it depends on is a \<open>site_world\<close>: the answers of the
  services, indexed by the number of outside calls made before, so that the same question may be answered
  differently later, and the configuration.  Every outside call is an await at which the route's deadline may
  end the operation.  Next to the attributes the operation carries the number of outside calls, the robots
  cache it shares, and the trace of what it did, which the code does not keep.
\<close>

section \<open>Data\<close>

record fetch_page =
  page_markdown :: string
  page_html :: "string option"
  page_raw_html :: "string option"
  page_content_type :: "string option"

record stage_outcome =
  so_requested_url :: string
  so_final_url :: "string option"
  so_code :: fetch_outcome
  so_status_code :: "int option"
  so_content_type :: "string option"
  so_links :: json_object
  so_retry_after :: "string option"
  so_page :: "fetch_page option"

datatype site_call =
    Map_Call site_request
  | Crawl_Call crawl_request

primrec call_site :: "site_call \<Rightarrow> site_request" where
  "call_site (Map_Call r) = r"
| "call_site (Crawl_Call r) = site_request.truncate r"

primrec return_content :: "site_call \<Rightarrow> bool" where
  "return_content (Map_Call r) = False"
| "return_content (Crawl_Call r) = True"

primrec call_formats :: "site_call \<Rightarrow> structured_format list" where
  "call_formats (Map_Call r) = []"
| "call_formats (Crawl_Call r) = crawl_structured_formats r"

primrec query_mode_value :: "query_mode \<Rightarrow> string" where
  "query_mode_value Query_Preserve = ''preserve''"
| "query_mode_value Query_Strip = ''strip''"
| "query_mode_value Query_Exclude = ''exclude''"

datatype site_stop =
    Operation_Cancelled
  | Deadline_Hit
  | Value_Error
  | Attribute_Error
  | Callback_Error

text \<open>What the parser of \<open>robots_body\<close> is told, in order.\<close>

datatype html_token =
    Start_Tag string
  | End_Tag string
  | Html_Data string

record site_world =
  w_call :: site_call
  w_job :: bool
  w_env :: url_env
  w_safe :: "nat \<Rightarrow> string \<Rightarrow> bool"
  w_fetch :: "nat \<Rightarrow> string \<Rightarrow> fetch_capability list \<Rightarrow> bool \<Rightarrow> stage_outcome option"
  w_search :: "nat \<Rightarrow> string \<Rightarrow> (bool \<times> string list) option"
  w_time :: "nat \<Rightarrow> pyfloat"
  w_cancelled :: "nat \<Rightarrow> bool"
  w_deadline :: "nat \<Rightarrow> bool"
  w_callback_fails :: "nat \<Rightarrow> bool"
  w_wire :: "nat \<Rightarrow> stage_outcome \<Rightarrow> fetch_result"
  w_html :: "string \<Rightarrow> html_token list"
  w_sitemaps :: sitemap_env
  w_http_date :: "string \<Rightarrow> pyfloat option"
  w_record_bytes :: "frontier_record \<Rightarrow> int"
  w_result_bytes :: "fetch_result \<Rightarrow> int"
  w_agent :: string
  w_robots_ttl :: pyfloat
  w_max_robots_bytes :: int
  w_max_sitemap_bytes :: int
  w_max_sitemap_entries :: int
  w_max_sitemap_documents :: int
  w_max_internal_fanout :: int
  w_max_response_body_bytes :: int
  w_site_max_cooldown_s :: int

abbreviation w_request :: "site_world \<Rightarrow> site_request" where
  "w_request w \<equiv> call_site (w_call w)"

text \<open>What a request is for; the code does not say so, the trace does.\<close>

datatype fetch_purpose = For_Robots | For_Seed | For_Sitemap | For_Page

datatype site_event =
    Checked string bool
  | Robots_Said string bool
  | Waited string "pyfloat option"
  | Fetching fetch_purpose string "fetch_capability list"
  | Noted string "int option" "int option"
  | Searched string
  | Result_Out fetch_result
  | Failure_Out string string

record operation =
  op_effective_url :: "string option"
  op_effective_origin :: "string option"
  op_frontier :: "frontier option"
  op_results :: "fetch_result list"
  op_page_outcomes :: "stage_outcome list"
  op_warnings :: "string list"
  op_robots :: "string \<rightharpoonup> robots_snapshot"
  op_robots_sources :: "string \<rightharpoonup> string"
  op_robots_documents_attempted :: nat
  op_sitemap_candidates_examined :: nat
  op_sitemap_documents_attempted :: nat
  op_sitemap_documents :: nat
  op_sitemap_entries :: nat
  op_sitemap_truncated :: nat
  op_page_limit_reached :: bool
  op_url_records_omitted :: nat
  op_results_omitted :: nat
  op_calls :: nat
  op_cache :: robots_values
  op_trace :: "site_event list"

type_synonym 'a site = "(operation, site_stop, 'a) eff"

section \<open>Helpers\<close>

definition site_origin :: "url_env \<Rightarrow> string \<Rightarrow> string option" where
  "site_origin env url =
     do {
       u \<leftarrow> urlsplit url;
       host \<leftarrow> canonical_host env (hostname u);
       (if Py_Strings.py_casefold (url_scheme u) \<notin> {''http'', ''https''} \<or> host = [] then None
        else do {
          port \<leftarrow> url_port u;
          (let scheme = Py_Strings.py_casefold (url_scheme u);
               suffix = (case port of
                   None \<Rightarrow> []
                 | Some p \<Rightarrow> if scheme = ''http'' \<and> p = 80 \<or> scheme = ''https'' \<and> p = 443 then [] else '':'' @ py_str_nat p)
           in Some (scheme @ ''://'' @ host @ suffix))
        })
     }"

text \<open>\<open>robots_policy._PreTextParser\<close>: the text inside \<open>pre\<close> elements.\<close>

definition pre_step :: "nat \<times> string \<Rightarrow> html_token \<Rightarrow> nat \<times> string" where
  "pre_step st tok =
     (case tok of
        Start_Tag t \<Rightarrow>
          if Py_Strings.py_casefold t = ''pre'' then (Suc (fst st), snd st)
          else if 0 < fst st \<and> Py_Strings.py_casefold t = ''br'' then (fst st, snd st @ [CHR 0x0A]) else st
      | End_Tag t \<Rightarrow> if Py_Strings.py_casefold t = ''pre'' \<and> 0 < fst st then (fst st - 1, snd st) else st
      | Html_Data d \<Rightarrow> if 0 < fst st then (fst st, snd st @ d) else st)"

definition pre_text :: "html_token list \<Rightarrow> string" where
  "pre_text toks = snd (foldl pre_step (0, []) toks)"

definition text_or :: "string option \<Rightarrow> string \<Rightarrow> string" where
  "text_or v d = (case v of None \<Rightarrow> d | Some t \<Rightarrow> if t = [] then d else t)"

definition robots_body :: "(string \<Rightarrow> html_token list) \<Rightarrow> string option \<Rightarrow> string option \<Rightarrow> string option \<Rightarrow> string" where
  "robots_body html_tokens markdown html content_type =
     (let media_type = Py_Strings.py_casefold (py_strip (before_char (CHR '';'') (text_or content_type [])));
          page = text_or html [];
          body = pre_text (html_tokens page)
      in if media_type = ''text/plain'' \<and> page \<noteq> [] \<and> body \<noteq> [] then body
         else if page \<noteq> [] then page else text_or markdown [])"

definition or_option :: "string option \<Rightarrow> string option \<Rightarrow> string option" where
  "or_option a b = (case a of None \<Rightarrow> b | Some t \<Rightarrow> if t = [] then b else a)"

definition outcome_body :: "site_world \<Rightarrow> stage_outcome \<Rightarrow> string" where
  "outcome_body w oc =
     (case so_page oc of
        None \<Rightarrow> []
      | Some p \<Rightarrow>
          robots_body (w_html w) (Some (page_markdown p)) (or_option (page_raw_html p) (page_html p))
            (or_option (so_content_type oc) (page_content_type p)))"

text \<open>\<open>_links\<close>: the hrefs, categories in alphabetical order, each once.\<close>

definition item_href :: "json \<Rightarrow> string option" where
  "item_href item =
     (case item of
        JObj d \<Rightarrow> (case jget d ''href'' of JStr h \<Rightarrow> if h = [] then None else Some h | _ \<Rightarrow> None)
      | _ \<Rightarrow> None)"

definition category_items :: "json_object \<Rightarrow> string \<Rightarrow> json list" where
  "category_items links c = (case jget links c of JList items \<Rightarrow> items | _ \<Rightarrow> [])"

definition add_link :: "string list \<Rightarrow> json \<Rightarrow> string list" where
  "add_link found item =
     (case item_href item of None \<Rightarrow> found | Some h \<Rightarrow> if h \<in> set found then found else found @ [h])"

definition outcome_links :: "stage_outcome \<Rightarrow> string list" where
  "outcome_links oc =
     foldl add_link [] (concat (map (category_items (so_links oc)) (sort (map fst (so_links oc)))))"

definition site_reason :: "fetch_outcome \<Rightarrow> bool \<Rightarrow> string" where
  "site_reason code seed =
     (if seed \<and> code = Unsafe_Target then ''unsafe_seed''
      else if code \<in> {Unsafe_Target, Unsafe_Redirect, Robots_Refused, Upstream_Timeout, Deadline_Cancelled,
                      Malformed_Upstream_Response, Rate_Limited, Local_Processing_Failure}
      then fetch_outcome_value code else ''upstream_failure'')"

section \<open>Outside calls\<close>

definition next_call :: "nat site" where
  "next_call = andthen (reads op_calls) (\<lambda>n. andthen (modifies (\<lambda>s. s\<lparr>op_calls := Suc n\<rparr>)) (\<lambda>_. ret n))"

definition awaited :: "site_world \<Rightarrow> nat site" where
  "awaited w = andthen next_call (\<lambda>n. if w_deadline w n then raise Deadline_Hit else ret n)"

definition traces :: "site_event \<Rightarrow> unit site" where
  "traces e = modifies (\<lambda>s. s\<lparr>op_trace := op_trace s @ [e]\<rparr>)"

definition warning :: "string \<Rightarrow> unit site" where
  "warning v =
     modifies (\<lambda>s. if v \<notin> set (op_warnings s) \<and> length (op_warnings s) < 32
       then s\<lparr>op_warnings := op_warnings s @ [v]\<rparr> else s)"

definition check_cancelled :: "site_world \<Rightarrow> unit site" where
  "check_cancelled w =
     (if w_job w then andthen next_call (\<lambda>n. if w_cancelled w n then raise Operation_Cancelled else ret ()) else ret ())"

definition emit :: "site_world \<Rightarrow> site_event \<Rightarrow> unit site" where
  "emit w e =
     (if w_job w
      then andthen (awaited w) (\<lambda>n.
           andthen (traces e) (\<lambda>_. if w_callback_fails w n then raise Callback_Error else ret ()))
      else ret ())"

definition emit_result :: "site_world \<Rightarrow> fetch_result \<Rightarrow> unit site" where
  "emit_result w r = emit w (Result_Out r)"

definition emit_failure :: "site_world \<Rightarrow> string \<Rightarrow> string \<Rightarrow> unit site" where
  "emit_failure w url reason = emit w (Failure_Out url reason)"

definition is_safe :: "site_world \<Rightarrow> string \<Rightarrow> bool site" where
  "is_safe w url =
     andthen (awaited w) (\<lambda>n. andthen (traces (Checked url (w_safe w n url))) (\<lambda>_. ret (w_safe w n url)))"

definition robots_say :: "site_world \<Rightarrow> robots_snapshot \<Rightarrow> string \<Rightarrow> bool site" where
  "robots_say w snap url =
     andthen (or_raise Value_Error (robots_allows snap url)) (\<lambda>b. andthen (traces (Robots_Said url b)) (\<lambda>_. ret b))"

text \<open>The frontier is an attribute that is \<open>None\<close> until the seed is known.\<close>

definition with_frontier :: "(frontier \<Rightarrow> ('a \<times> frontier) option) \<Rightarrow> 'a site" where
  "with_frontier g =
     andthen (reads op_frontier) (\<lambda>mf.
     andthen (or_raise Attribute_Error mf) (\<lambda>f.
     andthen (or_raise Value_Error (g f)) (\<lambda>r.
     andthen (modifies (\<lambda>s. s\<lparr>op_frontier := Some (snd r)\<rparr>)) (\<lambda>_. ret (fst r)))))"

definition on_frontier :: "(frontier \<Rightarrow> frontier) \<Rightarrow> unit site" where
  "on_frontier g = with_frontier (\<lambda>f. Some ((), g f))"

definition from_frontier :: "(frontier \<Rightarrow> 'a) \<Rightarrow> 'a site" where
  "from_frontier g = with_frontier (\<lambda>f. Some (g f, f))"

definition record_of :: "nat \<Rightarrow> frontier_record site" where
  "record_of i = from_frontier (\<lambda>f. records f ! i)"

section \<open>Fetching\<close>

definition no_outcome :: "string \<Rightarrow> stage_outcome" where
  "no_outcome url =
     \<lparr>so_requested_url = url, so_final_url = None, so_code = Upstream_Failure, so_status_code = None,
      so_content_type = None, so_links = [], so_retry_after = None, so_page = None\<rparr>"

definition wants_html :: "site_world \<Rightarrow> fetch_capability list \<Rightarrow> bool" where
  "wants_html w caps \<longleftrightarrow> Cap_Raw_Html \<in> set caps \<or> list_ex (\<lambda>x. x \<noteq> Json_Schema_Format) (call_formats (w_call w))"

definition fetch_target ::
  "site_world \<Rightarrow> fetch_purpose \<Rightarrow> string \<Rightarrow> fetch_capability list \<Rightarrow> robots_snapshot option \<Rightarrow> stage_outcome site" where
  "fetch_target w purpose url caps robots =
     andthen (check_cancelled w) (\<lambda>_.
     andthen (or_raise Value_Error (host_for (w_env w) url)) (\<lambda>host.
     andthen (awaited w) (\<lambda>_.
     andthen (traces (Waited host (case robots of None \<Rightarrow> None | Some r \<Rightarrow> snap_delay r))) (\<lambda>_.
     andthen (traces (Fetching purpose url caps)) (\<lambda>_.
     andthen (awaited w) (\<lambda>n.
     (let out = (case w_fetch w n url caps (wants_html w caps) of Some out \<Rightarrow> out | None \<Rightarrow> no_outcome url) in
     andthen next_call (\<lambda>k.
     andthen (or_raise Value_Error
         (parse_retry_after (w_http_date w) (w_time w k) (w_site_max_cooldown_s w) (so_retry_after out))) (\<lambda>retry.
     andthen (traces (Noted host (so_status_code out) retry)) (\<lambda>_.
     (case so_final_url out of
        None \<Rightarrow> ret out
      | Some final \<Rightarrow>
          if final = [] then ret out
          else andthen (is_safe w final) (\<lambda>safe.
               ret (if safe then out else out\<lparr>so_code := Unsafe_Redirect, so_page := None\<rparr>)))))))))))))"

definition map_capabilities :: "fetch_capability list" where
  "map_capabilities = [Cap_Markdown, Cap_Javascript, Cap_Links, Cap_Metadata, Cap_Raw_Html]"

definition store_robots :: "string \<Rightarrow> robots_snapshot \<Rightarrow> string \<Rightarrow> unit site" where
  "store_robots origin snap source =
     modifies (\<lambda>s. s\<lparr>op_robots := (op_robots s)(origin \<mapsto> snap),
       op_robots_sources := (op_robots_sources s)(origin \<mapsto> source)\<rparr>)"

definition robots_state_value :: "robots_state \<Rightarrow> string" where
  "robots_state_value st =
     (case st of Available \<Rightarrow> ''available'' | Unavailable \<Rightarrow> ''unavailable'' | Unreachable \<Rightarrow> ''unreachable'')"

text \<open>The snapshot of an origin the operation has not met and the cache does not hold.\<close>

definition fetch_robots :: "site_world \<Rightarrow> string \<Rightarrow> pyfloat \<Rightarrow> robots_snapshot site" where
  "fetch_robots w origin now =
     andthen (modifies (\<lambda>s. s\<lparr>op_robots_documents_attempted := Suc (op_robots_documents_attempted s)\<rparr>)) (\<lambda>_.
     (let url = origin @ ''/robots.txt'' in
     andthen (is_safe w url) (\<lambda>safe.
     andthen
       (if \<not> safe then ret (closed_snapshot origin (w_agent w) Unreachable now ''unsafe_target'')
        else andthen (fetch_target w For_Robots url map_capabilities None) (\<lambda>out.
             or_raise Value_Error (robots_from_http origin (w_agent w)
               (if so_code out = Content \<and> so_status_code out = None then Some 200 else so_status_code out)
               (outcome_body w out) now (w_max_robots_bytes w) None))) (\<lambda>snap.
     andthen (store_robots origin snap ''network'') (\<lambda>_.
     andthen (modifies (\<lambda>s. s\<lparr>op_cache := robots_put snap (op_cache s)\<rparr>)) (\<lambda>_.
     andthen (if snap_state snap \<noteq> Available
         then warning (''robots_'' @ robots_state_value (snap_state snap) @ '':'' @ origin) else ret ()) (\<lambda>_.
     ret snap)))))))"

definition robots_for :: "site_world \<Rightarrow> string \<Rightarrow> robots_snapshot site" where
  "robots_for w url =
     (case site_origin (w_env w) url of
        None \<Rightarrow> andthen next_call (\<lambda>k. ret (closed_snapshot [] (w_agent w) Unreachable (w_time w k) ''invalid_origin''))
      | Some origin \<Rightarrow>
          andthen (reads op_robots) (\<lambda>known.
          (case known origin of
             Some snap \<Rightarrow> ret snap
           | None \<Rightarrow>
               andthen next_call (\<lambda>k.
               andthen (reads op_cache) (\<lambda>vs.
               andthen (modifies (\<lambda>s. s\<lparr>op_cache := snd (robots_get (w_robots_ttl w) origin (w_time w k) vs)\<rparr>)) (\<lambda>_.
               (case fst (robots_get (w_robots_ttl w) origin (w_time w k) vs) of
                  Some snap \<Rightarrow> andthen (store_robots origin snap ''cache'') (\<lambda>_. ret snap)
                | None \<Rightarrow>
                    andthen (reads op_robots_documents_attempted) (\<lambda>attempted.
                    if int attempted \<ge> w_max_internal_fanout w then
                      (let snap = closed_snapshot origin (w_agent w) Unreachable (w_time w k) ''document_limit_reached'' in
                       andthen (store_robots origin snap ''network'') (\<lambda>_.
                       andthen (warning ''robots_document_limit_reached'') (\<lambda>_. ret snap)))
                    else fetch_robots w origin (w_time w k)))))))))"

section \<open>Admission\<close>

definition discovery_of :: "crawl_source \<Rightarrow> int \<Rightarrow> string option \<Rightarrow> pyfloat option \<Rightarrow> bool \<Rightarrow> bool \<Rightarrow> discovery" where
  "discovery_of source depth modified priority safe robots =
     \<lparr>disc_source = source, disc_depth = depth, disc_safe = safe, disc_robots_allowed = robots,
      disc_modified_at = modified, disc_priority = priority\<rparr>"

definition candidate_scheme :: "string \<Rightarrow> string" where
  "candidate_scheme candidate =
     (case urlsplit candidate of None \<Rightarrow> [] | Some u \<Rightarrow> Py_Strings.py_casefold (url_scheme u))"

definition admit ::
  "site_world \<Rightarrow> string \<Rightarrow> crawl_source \<Rightarrow> int \<Rightarrow> string option \<Rightarrow> pyfloat option \<Rightarrow> nat option site" where
  "admit w candidate source depth modified priority =
     (let disc = discovery_of source depth modified priority; env = w_env w in
      if candidate_scheme candidate \<noteq> [] \<and> candidate_scheme candidate \<notin> {''http'', ''https''} then
        andthen (on_frontier (\<lambda>f. f\<lparr>non_http_urls_skipped := Suc (non_http_urls_skipped f)\<rparr>)) (\<lambda>_. ret None)
      else
        andthen (from_frontier id) (\<lambda>f.
        (case policy_normalize env (policy f) candidate of
           None \<Rightarrow> with_frontier (discover env candidate (disc False False))
         | Some normalized \<Rightarrow>
             andthen (or_raise Value_Error (rejection_reason env (policy f) normalized depth)) (\<lambda>rejected.
             if rejected \<noteq> None then with_frontier (discover env normalized (disc True True))
             else
               andthen (or_raise Value_Error (is_known env f normalized)) (\<lambda>known.
               if known \<or> is_full f then with_frontier (discover env normalized (disc True True))
               else
                 andthen (is_safe w normalized) (\<lambda>safe.
                 andthen (if safe then andthen (robots_for w normalized) (\<lambda>snap. robots_say w snap normalized)
                          else ret False) (\<lambda>allowed.
                 with_frontier (discover env normalized (disc safe allowed)))))))))"

section \<open>Sitemaps\<close>

text \<open>
  The origins and hosts are taken inside one \<open>try\<close>; a URL without effective seed reads as an absent one.
\<close>

definition sitemap_origin_allowed :: "site_world \<Rightarrow> string \<Rightarrow> string \<Rightarrow> bool" where
  "sitemap_origin_allowed w effective url =
     (let env = w_env w in
      case (host_for env effective, host_for env url) of
        (Some seed_host, Some host) \<Rightarrow>
          site_origin env url = site_origin env effective \<or>
          site_include_subdomains (w_request w) \<and> seed_host \<noteq> [] \<and> py_endswith host (''.'' @ seed_host)
      | _ \<Rightarrow> False)"

definition max_sitemap_depth :: nat where
  "max_sitemap_depth = 3"

definition sitemap_roots :: "string \<Rightarrow> robots_snapshot \<Rightarrow> string list" where
  "sitemap_roots origin snap =
     foldl (\<lambda>roots path. if origin @ path \<in> set roots then roots else roots @ [origin @ path])
       (snap_sitemaps snap) [''/sitemap.xml'', ''/sitemap_index.xml'']"

text \<open>The candidate to fetch, if any, and the set of those seen.\<close>

definition next_sitemap_candidate ::
  "site_world \<Rightarrow> string \<Rightarrow> nat \<Rightarrow> string list \<Rightarrow> (string option \<times> string list) site" where
  "next_sitemap_candidate w url depth visited =
     andthen (from_frontier policy) (\<lambda>p.
     (case policy_normalize (w_env w) p url of
        None \<Rightarrow> ret (None, visited)
      | Some n \<Rightarrow>
          if n \<in> set visited \<or> max_sitemap_depth < depth then ret (None, visited)
          else andthen (modifies (\<lambda>s. s\<lparr>op_sitemap_candidates_examined := Suc (op_sitemap_candidates_examined s)\<rparr>))
            (\<lambda>_. ret (Some n, n # visited))))"

definition the_effective_url :: "string site" where
  "the_effective_url = andthen (reads op_effective_url) (or_raise Attribute_Error)"

definition refuse_sitemap :: "string \<Rightarrow> sitemap_document option site" where
  "refuse_sitemap reason = andthen (warning (''sitemap_'' @ reason)) (\<lambda>_. ret None)"

definition read_sitemap :: "site_world \<Rightarrow> stage_outcome \<Rightarrow> sitemap_document option site" where
  "read_sitemap w out =
     (let doc = parse_sitemap (w_sitemaps w) (outcome_body w out) (w_max_sitemap_bytes w) (w_max_sitemap_entries w) in
      case doc_reason doc of Some r \<Rightarrow> refuse_sitemap r | None \<Rightarrow> ret (Some doc))"

definition check_sitemap_final :: "site_world \<Rightarrow> string \<Rightarrow> string \<Rightarrow> stage_outcome \<Rightarrow> sitemap_document option site" where
  "check_sitemap_final w effective url out =
     (let final = text_or (so_final_url out) url in
      if \<not> sitemap_origin_allowed w effective final then refuse_sitemap ''redirect_outside_scope''
      else andthen (robots_for w final) (\<lambda>snap.
           andthen (robots_say w snap final) (\<lambda>allowed.
           if \<not> allowed then refuse_sitemap ''redirect_robots_refused'' else read_sitemap w out)))"

definition fetch_sitemap_document :: "site_world \<Rightarrow> string \<Rightarrow> sitemap_document option site" where
  "fetch_sitemap_document w url =
     andthen the_effective_url (\<lambda>effective.
     if \<not> sitemap_origin_allowed w effective url then refuse_sitemap ''outside_scope''
     else andthen (is_safe w url) (\<lambda>safe.
          if \<not> safe then refuse_sitemap ''unsafe_target''
          else andthen (robots_for w url) (\<lambda>snap.
               andthen (robots_say w snap url) (\<lambda>allowed.
               if \<not> allowed then refuse_sitemap ''robots_refused''
               else
                 andthen (modifies (\<lambda>s. s\<lparr>op_sitemap_documents_attempted := Suc (op_sitemap_documents_attempted s)\<rparr>)) (\<lambda>_.
                 andthen (fetch_target w For_Sitemap url map_capabilities (Some snap)) (\<lambda>out.
                 if so_code out \<noteq> Content then refuse_sitemap (fetch_outcome_value (so_code out))
                 else check_sitemap_final w effective url out))))))"

definition admit_entry :: "site_world \<Rightarrow> sitemap_entry \<Rightarrow> unit site" where
  "admit_entry w e =
     andthen (admit w (entry_url e) Src_Sitemap 0 (entry_modified_at e) (entry_priority e)) (\<lambda>_. ret ())"

text \<open>The queue after the document has been read.\<close>

definition queue_sitemap_entries ::
  "site_world \<Rightarrow> sitemap_document \<Rightarrow> nat \<Rightarrow> (string \<times> nat) list \<Rightarrow> string list \<Rightarrow> (string \<times> nat) list site" where
  "queue_sitemap_entries w doc depth queue visited =
     andthen (modifies (\<lambda>s. s\<lparr>op_sitemap_documents := Suc (op_sitemap_documents s),
         op_sitemap_entries := op_sitemap_entries s + length (doc_entries doc),
         op_sitemap_truncated := (if doc_truncated doc then Suc (op_sitemap_truncated s) else op_sitemap_truncated s)\<rparr>)) (\<lambda>_.
     if doc_kind doc = Some ''index'' then
       ret (queue @ map (\<lambda>e. (entry_url e, Suc depth)) (filter (\<lambda>e. entry_url e \<notin> set visited) (doc_entries doc)))
     else andthen (for_each (admit_entry w) (doc_entries doc)) (\<lambda>_. ret queue))"

definition finish_sitemap_loading :: "site_world \<Rightarrow> (string \<times> nat) list \<Rightarrow> unit site" where
  "finish_sitemap_loading w queue =
     andthen (reads op_sitemap_documents_attempted) (\<lambda>attempted.
     if queue \<noteq> [] \<and> int attempted \<ge> w_max_sitemap_documents w then warning ''sitemap_document_limit_reached''
     else if queue \<noteq> [] then warning ''sitemap_candidate_limit_reached''
     else ret ())"

text \<open>One turn of the loop: the queue and the seen candidates after it.\<close>

definition sitemap_turn ::
  "site_world \<Rightarrow> string \<Rightarrow> nat \<Rightarrow> (string \<times> nat) list \<Rightarrow> string list \<Rightarrow> ((string \<times> nat) list \<times> string list) site" where
  "sitemap_turn w url depth queue visited =
     andthen (check_cancelled w) (\<lambda>_.
     andthen (next_sitemap_candidate w url depth visited) (\<lambda>c.
     (case fst c of
        None \<Rightarrow> ret (queue, snd c)
      | Some n \<Rightarrow>
          andthen (fetch_sitemap_document w n) (\<lambda>doc.
          (case doc of
             None \<Rightarrow> ret (queue, snd c)
           | Some d \<Rightarrow> andthen (queue_sitemap_entries w d depth queue (snd c)) (\<lambda>q. ret (q, snd c)))))))"

definition more_sitemaps :: "site_world \<Rightarrow> operation \<Rightarrow> bool" where
  "more_sitemaps w s \<longleftrightarrow>
     int (op_sitemap_documents_attempted s) < w_max_sitemap_documents w \<and>
     int (op_sitemap_candidates_examined s) < w_max_internal_fanout w"

section \<open>Search\<close>

definition augment_search :: "site_world \<Rightarrow> unit site" where
  "augment_search w =
     andthen (check_cancelled w) (\<lambda>_.
     andthen the_effective_url (\<lambda>effective.
     andthen (or_raise Value_Error (host_for (w_env w) effective)) (\<lambda>host.
     andthen (awaited w) (\<lambda>n.
     andthen (traces (Searched (''site:'' @ host))) (\<lambda>_.
     (case w_search w n (''site:'' @ host) of
        None \<Rightarrow> warning ''search_augmentation_failed''
      | Some answer \<Rightarrow>
          andthen (if fst answer then warning ''search_augmentation_degraded'' else ret ()) (\<lambda>_.
          for_each (\<lambda>url. andthen (admit w url Src_Search 0 None None) (\<lambda>_. ret ())) (snd answer))))))))"

section \<open>Pages\<close>

text \<open>\<open>_reconcile_final\<close>: the checks the final URL needs are only made when the policy accepts it.\<close>

definition site_reconcile_final :: "site_world \<Rightarrow> nat \<Rightarrow> stage_outcome \<Rightarrow> nat option site" where
  "site_reconcile_final w i out =
     andthen (from_frontier id) (\<lambda>f.
     (let env = w_env w; r = records f ! i; final = text_or (so_final_url out) (rec_url r);
          normalized = policy_normalize env (policy f) final in
      andthen (case normalized of
          None \<Rightarrow> ret True
        | Some n \<Rightarrow> andthen (or_raise Value_Error (rejection_reason env (policy f) n (rec_depth r))) (\<lambda>rejected.
            ret (rejected \<noteq> None))) (\<lambda>refused.
      if refused then with_frontier (reconcile_final env i final True True)
      else andthen (is_safe w final) (\<lambda>safe.
           andthen (if safe then andthen (robots_for w final) (\<lambda>snap. robots_say w snap final) else ret False) (\<lambda>allowed.
           with_frontier (reconcile_final env i final safe allowed))))))"

text \<open>The policy of the operation; \<open>CrawlPolicy\<close> checks its arguments.\<close>

definition policy_for :: "site_request \<Rightarrow> string \<Rightarrow> crawl_policy option" where
  "policy_for r effective =
     new_policy \<lparr>effective_url = effective, max_depth = site_max_depth r, max_discovered_urls = site_max_discovered_urls r,
       include_parent_paths = site_include_parent_paths r, include_subdomains = site_include_subdomains r,
       include_paths = site_include_paths r, exclude_paths = site_exclude_paths r,
       query_policy = query_mode_value (site_query_parameters r),
       allowed_file_extensions = site_allowed_file_extensions r\<rparr>"

definition seed_capabilities :: "site_call \<Rightarrow> fetch_capability list" where
  "seed_capabilities c =
     (case c of
        Map_Call r \<Rightarrow> map_capabilities
      | Crawl_Call r \<Rightarrow> remdups (crawl_capabilities r @ [Cap_Links, Cap_Metadata, Cap_Markdown, Cap_Javascript]))"

definition append_content_result :: "site_world \<Rightarrow> stage_outcome \<Rightarrow> unit site" where
  "append_content_result w out =
     andthen (awaited w) (\<lambda>n.
     (let result = w_wire w n out in
      andthen (modifies (\<lambda>s. s\<lparr>op_results := op_results s @ [result]\<rparr>)) (\<lambda>_.
      andthen (emit_result w result) (\<lambda>_.
      modifies (\<lambda>s. s\<lparr>op_page_outcomes := butlast (op_page_outcomes s) @ [out\<lparr>so_code := res_outcome result\<rparr>]\<rparr>)))))"

definition admit_links :: "site_world \<Rightarrow> int \<Rightarrow> stage_outcome \<Rightarrow> unit site" where
  "admit_links w depth out =
     for_each (\<lambda>url. andthen (admit w url Src_Link depth None None) (\<lambda>_. ret ())) (outcome_links out)"

definition maybe_content :: "site_world \<Rightarrow> stage_outcome \<Rightarrow> unit site" where
  "maybe_content w out = (if return_content (w_call w) then append_content_result w out else ret ())"

text \<open>A page has been fetched: its final URL, its content, its links.\<close>

definition finish_page :: "site_world \<Rightarrow> nat \<Rightarrow> stage_outcome \<Rightarrow> unit site" where
  "finish_page w i out =
     andthen (site_reconcile_final w i out) (\<lambda>final.
     (case final of
        None \<Rightarrow>
          andthen (record_of i) (\<lambda>r.
          if rec_reason r \<noteq> Some ''duplicate_final_url''
          then emit_failure w (rec_url r) (text_or (rec_reason r) ''local_processing_failure'') else ret ())
      | Some j \<Rightarrow>
          andthen (on_frontier (mark_fetched j)) (\<lambda>_.
          andthen (maybe_content w out) (\<lambda>_.
          andthen (record_of j) (\<lambda>r.
          if site_sitemap (w_request w) \<noteq> Sitemap_Only \<and> rec_depth r < site_max_depth (w_request w)
          then admit_links w (rec_depth r + 1) out else ret ())))))"

text \<open>Returns whether an attempt was made.\<close>

definition process_page :: "site_world \<Rightarrow> nat \<Rightarrow> fetch_capability list \<Rightarrow> bool site" where
  "process_page w i caps =
     andthen (record_of i) (\<lambda>r.
     andthen (robots_for w (rec_url r)) (\<lambda>snap.
     andthen (robots_say w snap (rec_url r)) (\<lambda>allowed.
     if \<not> allowed then
       andthen (on_frontier (mark_failed i ''robots_refused'')) (\<lambda>_.
       andthen (emit_failure w (rec_url r) ''robots_refused'') (\<lambda>_. ret False))
     else
       andthen (fetch_target w For_Page (rec_url r) caps (Some snap)) (\<lambda>out.
       andthen (modifies (\<lambda>s. s\<lparr>op_page_outcomes := op_page_outcomes s @ [out]\<rparr>)) (\<lambda>_.
       andthen
         (if so_code out \<noteq> Content \<or> so_page out = None then
            andthen (on_frontier (mark_failed i (fetch_outcome_value (so_code out)))) (\<lambda>_.
            emit_failure w (rec_url r) (fetch_outcome_value (so_code out)))
          else finish_page w i out) (\<lambda>_. ret True))))))"

text \<open>One turn of the page loop: whether to go on, and the attempts made.\<close>

definition max_pages :: "site_world \<Rightarrow> int" where
  "max_pages w = min (site_max_pages (w_request w)) (w_max_internal_fanout w)"

definition page_turn :: "site_world \<Rightarrow> fetch_capability list \<Rightarrow> nat \<Rightarrow> (bool \<times> nat) site" where
  "page_turn w caps attempts =
     andthen (check_cancelled w) (\<lambda>_.
     andthen (with_frontier (\<lambda>f. Some (frontier_pop f))) (\<lambda>popped.
     (case popped of
        None \<Rightarrow> ret (False, attempts)
      | Some i \<Rightarrow>
          andthen (record_of i) (\<lambda>r.
          if last (rec_states r) \<noteq> St_Queued then ret (True, attempts)
          else if int attempts \<ge> max_pages w then
            andthen (on_frontier (\<lambda>f. cancel_queued (mark_cancelled i ''page_limit_reached'' f))) (\<lambda>_.
            andthen (modifies (\<lambda>s. s\<lparr>op_page_limit_reached := True\<rparr>)) (\<lambda>_. ret (False, attempts)))
          else
            andthen (process_page w i caps) (\<lambda>made. ret (True, if made then Suc attempts else attempts))))))"

end
