(* ===== verification/Site_Progress.thy ===== *)
theory Site_Progress
  imports Site_Pipeline
begin

text \<open>
  What every step of a site operation respects, whatever the services answer: the trace only grows, the
  policy of the frontier stays, and the work left in the frontier (the entries that may still be added and
  those in the queue) does not grow.  Popping lessens it, so the page loop ends; a sitemap turn examines a
  candidate or shortens its queue, so the sitemap loop ends.
\<close>

section \<open>The relation\<close>

definition frontier_work :: "frontier \<Rightarrow> nat" where
  "frontier_work f = nat (max_discovered_urls (policy f) - int (length (records f))) + length (frontier_queue f)"

definition calm :: "frontier option \<Rightarrow> frontier option \<Rightarrow> bool" where
  "calm a b \<longleftrightarrow>
     (case (a, b) of
        (None, None) \<Rightarrow> True
      | (Some f, Some f') \<Rightarrow> policy f' = policy f \<and> frontier_work f' \<le> frontier_work f
      | _ \<Rightarrow> False)"

definition moved :: "operation \<Rightarrow> operation \<Rightarrow> bool" where
  "moved s t \<longleftrightarrow> prefix (op_trace s) (op_trace t) \<and> calm (op_frontier s) (op_frontier t)"

definition steady :: "operation \<Rightarrow> operation \<Rightarrow> bool" where
  "steady s t \<longleftrightarrow> moved s t \<and> op_sitemap_candidates_examined t = op_sitemap_candidates_examined s"

lemma calm_refl [simp]: "calm a a"
  by (cases a) (simp_all add: calm_def)

lemma calm_trans: "calm a b \<Longrightarrow> calm b c \<Longrightarrow> calm a c"
  by (cases a; cases b; cases c) (auto simp: calm_def)

interpretation moved: preorder_run moved
  by unfold_locales (auto simp: moved_def intro: calm_trans prefix_order.trans)

interpretation steady: preorder_run steady
  by unfold_locales (auto simp: steady_def moved_def intro: calm_trans prefix_order.trans)

lemma steady_moved: "obeys steady m \<Longrightarrow> obeys moved m"
  by (simp add: obeys_def steady_def)

section \<open>The frontier\<close>

definition calm_update :: "(frontier \<Rightarrow> ('a \<times> frontier) option) \<Rightarrow> bool" where
  "calm_update g \<longleftrightarrow> (\<forall>f a f'. g f = Some (a, f') \<longrightarrow> calm (Some f) (Some f'))"

lemma steady_with_frontier [obeys_rules]:
  assumes "calm_update g"
  shows "obeys steady (with_frontier g)"
proof -
  have "steady s (snd (with_frontier g s))" for s
  proof (cases "op_frontier s")
    case (Some f)
    then show ?thesis
      using assms by (cases "g f") (auto simp: with_frontier_def eff_defs steady_def moved_def calm_update_def)
  qed (simp add: with_frontier_def eff_defs steady.rel_refl)
  then show ?thesis by (simp add: obeys_def)
qed

lemma on_record_calm [simp]: "calm (Some f) (Some (on_record i g f))"
  by (simp add: calm_def frontier_work_def)

lemma marks_calm [simp]:
  "calm (Some f) (Some (mark_fetched i f))" "calm (Some f) (Some (mark_failed i reason f))"
  "calm (Some f) (Some (mark_cancelled i reason f))"
  by (simp_all add: mark_fetched_def mark_failed_def mark_cancelled_def)

lemma cancel_queued_calm [simp]: "calm (Some f) (Some (cancel_queued f))"
proof -
  have "calm (Some f) (Some (fold cancel_one is f))" for "is"
  proof (induction "is" arbitrary: f)
    case (Cons i "is")
    have "calm (Some f) (Some (cancel_one i f))" by (simp add: cancel_one_def)
    then show ?case using Cons.IH [of "cancel_one i f"] calm_trans by fastforce
  qed simp
  then have "calm (Some f) (Some (fold cancel_one (frontier_queue f) f))" .
  then show ?thesis by (simp add: calm_def cancel_queued_def frontier_work_def)
qed

lemma record_filtered_calm: "record_filtered url d reason f = (r, f') \<Longrightarrow> calm (Some f) (Some f')"
  by (auto simp: record_filtered_def calm_def frontier_work_def is_full_def split: if_splits)

lemma discover_calm [simp]: "calm_update (discover env candidate d)"
  unfolding calm_update_def
proof (intro allI impI)
  fix f a f' assume "discover env candidate d f = Some (a, f')"
  then show "calm (Some f) (Some f')"
  proof (cases rule: discover_cases [of env f candidate d])
    case invalid
    then show ?thesis using \<open>discover env candidate d f = Some (a, f')\<close> record_filtered_calm [OF sym] by simp
  qed (use \<open>discover env candidate d f = Some (a, f')\<close> in \<open>auto simp: calm_def frontier_work_def is_full_def\<close>)
qed

lemma reconcile_calm [simp]: "calm_update (reconcile_final env i url safe robots)"
  unfolding calm_update_def
proof (intro allI impI)
  fix f a f' assume r: "reconcile_final env i url safe robots f = Some (a, f')"
  have merge: "calm (Some f) (Some (snd (merge_final_record i j f)))" for j
    using calm_trans [OF on_record_calm marks_calm(2)] calm_trans [OF calm_trans [OF on_record_calm marks_calm(2)] marks_calm(1)]
    by (simp add: merge_final_record_def Let_def)
  show "calm (Some f) (Some f')"
  proof (cases rule: reconcile_cases [of env i url safe robots f])
    case (rejected reason)
    then show ?thesis using r by auto
  next
    case (merged n key j)
    then show ?thesis using r merge [of j] by simp
  next
    case (rebound n key)
    then show ?thesis using r by (auto simp: rebind_record_def bind_eq_Some_conv calm_def frontier_work_def)
  qed
qed

lemma pop_calm [simp]: "calm_update (\<lambda>f. Some (frontier_pop f))"
  by (auto simp: calm_update_def frontier_pop_def calm_def frontier_work_def split: list.splits)

lemma calm_update_simps [simp]:
  "calm_update (\<lambda>f. Some (h f, f))"
  "(\<And>f. calm (Some f) (Some (g f))) \<Longrightarrow> calm_update (\<lambda>f. Some ((), g f))"
  by (simp_all add: calm_update_def)

lemma steady_frontier [obeys_rules]:
  "obeys steady (from_frontier h)" "obeys steady (record_of i)"
  "(\<And>f. calm (Some f) (Some (g f))) \<Longrightarrow> obeys steady (on_frontier g)"
  by (simp_all add: from_frontier_def record_of_def on_frontier_def steady_with_frontier)

section \<open>Every method\<close>

lemma steady_modifies [obeys_rules]:
  "(\<And>s. steady s (g s)) \<Longrightarrow> obeys steady (modifies g)"
  by (simp add: steady.obeys_modifies)

lemma steady_calls [obeys_rules]:
  "obeys steady next_call" "obeys steady (awaited w)" "obeys steady (traces e)" "obeys steady (warning v)"
  "obeys steady (check_cancelled w)"
  unfolding next_call_def awaited_def traces_def warning_def check_cancelled_def
  by (intro steady.obeys_andthen steady.obeys_reads steady.obeys_ret steady.obeys_raise steady.obeys_if steady_modifies;
      simp add: steady_def moved_def)+

lemmas steady_basic = steady.obeys_andthen steady.obeys_reads steady.obeys_ret steady.obeys_raise steady.obeys_or_raise
  steady.obeys_if steady.obeys_option steady.obeys_let steady.obeys_for_each steady_calls steady_frontier
  steady_with_frontier

lemma steady_quiet [obeys_rules]:
  "obeys steady (emit w e)" "obeys steady (emit_result w r)" "obeys steady (emit_failure w url reason)"
  "obeys steady (is_safe w url)" "obeys steady (robots_say w snap url)"
  unfolding emit_result_def emit_failure_def emit_def is_safe_def robots_say_def
  by (intro steady_basic)+

lemma steady_fetch_target [obeys_rules]: "obeys steady (fetch_target w purpose url caps robots)"
  unfolding fetch_target_def
  by (intro steady_basic steady_quiet)

lemma steady_robots [obeys_rules]:
  "obeys steady (store_robots origin snap source)" "obeys steady (fetch_robots w origin now)" "obeys steady (robots_for w url)"
proof -
  show store: "obeys steady (store_robots origin snap source)" for origin snap source
    unfolding store_robots_def by (intro steady_modifies) (simp add: steady_def moved_def)
  have cache: "obeys steady (modifies (\<lambda>s. s\<lparr>op_cache := g s\<rparr>))"
    "obeys steady (modifies (\<lambda>s. s\<lparr>op_robots_documents_attempted := n s\<rparr>))" for g n
    by (intro steady_modifies; simp add: steady_def moved_def)+
  show fetch: "obeys steady (fetch_robots w origin now)" for origin now
    unfolding fetch_robots_def by (intro steady_basic steady_quiet steady_fetch_target store cache)
  show "obeys steady (robots_for w url)"
    unfolding robots_for_def by (intro steady_basic steady_quiet fetch store cache)
qed

lemma steady_admit [obeys_rules]: "obeys steady (admit w candidate source depth modified priority)"
  unfolding admit_def Let_def
  by (intro steady_basic steady_quiet steady_robots discover_calm) (simp add: calm_def frontier_work_def)

lemma steady_sitemap [obeys_rules]:
  "obeys steady the_effective_url" "obeys steady (refuse_sitemap reason)" "obeys steady (read_sitemap w out)"
  "obeys steady (check_sitemap_final w effective url out)" "obeys steady (fetch_sitemap_document w url)"
  "obeys steady (queue_sitemap_entries w doc depth queue visited)" "obeys steady (finish_sitemap_loading w queue)"
proof -
  show e: "obeys steady the_effective_url"
    unfolding the_effective_url_def by (intro steady_basic)
  show refuse: "obeys steady (refuse_sitemap reason)" for reason
    unfolding refuse_sitemap_def by (intro steady_basic)
  show read: "obeys steady (read_sitemap w out)" for out
    unfolding read_sitemap_def by (intro steady_basic refuse)
  show final: "obeys steady (check_sitemap_final w effective url out)" for effective url out
    unfolding check_sitemap_final_def by (intro steady_basic steady_quiet steady_robots refuse read)
  have count: "obeys steady (modifies (\<lambda>s. s\<lparr>op_sitemap_documents_attempted := n s\<rparr>))"
    "obeys steady (modifies (\<lambda>s. s\<lparr>op_sitemap_documents := n s, op_sitemap_entries := m s, op_sitemap_truncated := k s\<rparr>))" for n m k
    by (intro steady_modifies; simp add: steady_def moved_def)+
  show "obeys steady (fetch_sitemap_document w url)"
    unfolding fetch_sitemap_document_def
    by (intro steady_basic steady_quiet steady_fetch_target steady_robots e refuse final count)
  show "obeys steady (queue_sitemap_entries w doc depth queue visited)"
    unfolding queue_sitemap_entries_def admit_entry_def by (intro steady_basic steady_admit count)
  show "obeys steady (finish_sitemap_loading w queue)"
    unfolding finish_sitemap_loading_def by (intro steady_basic)
qed

lemma steady_pages [obeys_rules]:
  "obeys steady (augment_search w)" "obeys steady (site_reconcile_final w i out)" "obeys steady (append_content_result w out)"
  "obeys steady (maybe_content w out)" "obeys steady (admit_links w depth out)"
proof -
  show "obeys steady (augment_search w)"
    unfolding augment_search_def by (intro steady_basic steady_admit steady_sitemap)
  show "obeys steady (site_reconcile_final w i out)"
    unfolding site_reconcile_final_def Let_def by (intro steady_basic steady_quiet steady_robots reconcile_calm)
  have "obeys steady (modifies (\<lambda>s. s\<lparr>op_results := g s\<rparr>))" "obeys steady (modifies (\<lambda>s. s\<lparr>op_page_outcomes := h s\<rparr>))" for g h
    by (intro steady_modifies; simp add: steady_def moved_def)+
  then show c: "obeys steady (append_content_result w out)"
    unfolding append_content_result_def by (intro steady_basic steady_quiet)
  show "obeys steady (maybe_content w out)"
    unfolding maybe_content_def by (intro steady_basic c)
  show "obeys steady (admit_links w depth out)"
    unfolding admit_links_def by (intro steady_basic steady_admit)
qed

lemma steady_process_page [obeys_rules]:
  "obeys steady (finish_page w i out)" "obeys steady (process_page w i caps)"
proof -
  have "obeys steady (modifies (\<lambda>s. s\<lparr>op_page_outcomes := h s\<rparr>))" for h
    by (intro steady_modifies) (simp add: steady_def moved_def)
  note outs = this
  show f: "obeys steady (finish_page w i out)" for out
    unfolding finish_page_def by (intro steady_basic steady_quiet steady_pages; simp)
  show "obeys steady (process_page w i caps)"
    unfolding process_page_def by (intro steady_basic steady_quiet steady_robots steady_fetch_target f outs; simp)
qed

section \<open>The turns\<close>

lemma moved_next_candidate: "obeys moved (next_sitemap_candidate w url depth visited)"
proof -
  have "obeys moved (modifies (\<lambda>s. s\<lparr>op_sitemap_candidates_examined := n s\<rparr>))" for n
    by (simp add: moved.obeys_modifies moved_def)
  then show ?thesis
    unfolding next_sitemap_candidate_def
    by (intro moved.obeys_andthen moved.obeys_option moved.obeys_if moved.obeys_ret) (simp_all add: steady_moved steady_frontier)
qed

lemma moved_sitemap_turn [obeys_rules]: "obeys moved (sitemap_turn w url depth queue visited)"
  unfolding sitemap_turn_def
  by (intro moved.obeys_andthen moved.obeys_option moved.obeys_ret moved_next_candidate steady_moved steady_calls steady_sitemap)

lemma examined_same:
  assumes "obeys steady m" and "m s = (r, t)"
  shows "op_sitemap_candidates_examined t = op_sitemap_candidates_examined s"
  using obeysD [OF assms] by (simp add: steady_def)

lemma next_candidate_counts:
  assumes "next_sitemap_candidate w url depth visited s = (Returned c, t)"
  shows "op_sitemap_candidates_examined t =
    (if fst c = None then op_sitemap_candidates_examined s else Suc (op_sitemap_candidates_examined s))"
proof -
  obtain p u where p: "from_frontier policy s = (Returned p, u)"
      and c: "(case policy_normalize (w_env w) p url of
        None \<Rightarrow> ret (None, visited)
      | Some n \<Rightarrow>
          if n \<in> set visited \<or> max_sitemap_depth < depth then ret (None, visited)
          else andthen (modifies (\<lambda>s. s\<lparr>op_sitemap_candidates_examined := Suc (op_sitemap_candidates_examined s)\<rparr>))
            (\<lambda>_. ret (Some n, n # visited))) u = ((Returned c, t) :: (_, site_stop) ending \<times> _)"
    using assms unfolding next_sitemap_candidate_def andthen_Returned by blast
  have "op_sitemap_candidates_examined u = op_sitemap_candidates_examined s"
    using p by (rule examined_same [OF steady_frontier(1)])
  then show ?thesis using c by (auto simp: eff_defs split: option.splits if_splits)
qed

lemma sitemap_turn_progress:
  assumes "sitemap_turn w url depth queue visited s = (Returned (q, v), t)"
  shows "op_sitemap_candidates_examined t = Suc (op_sitemap_candidates_examined s) \<or>
    op_sitemap_candidates_examined t = op_sitemap_candidates_examined s \<and> q = queue"
proof -
  obtain s1 c s2 where s1: "check_cancelled w s = (Returned (), s1)"
      and s2: "next_sitemap_candidate w url depth visited s1 = (Returned c, s2)"
      and rest: "(case fst c of
        None \<Rightarrow> ret (queue, snd c)
      | Some n \<Rightarrow>
          andthen (fetch_sitemap_document w n) (\<lambda>doc.
          (case doc of
             None \<Rightarrow> ret (queue, snd c)
           | Some d \<Rightarrow> andthen (queue_sitemap_entries w d depth queue (snd c)) (\<lambda>q. ret (q, snd c))))) s2 = (Returned (q, v), t)"
    using assms by (auto simp: sitemap_turn_def andthen_Returned)
  have e: "op_sitemap_candidates_examined s2 =
      (if fst c = None then op_sitemap_candidates_examined s else Suc (op_sitemap_candidates_examined s))"
    using next_candidate_counts [OF s2] examined_same [OF steady_calls(5) s1] by simp
  show ?thesis
  proof (cases "fst c")
    case None
    then show ?thesis using rest e by (simp add: ret_def)
  next
    case (Some n)
    have "obeys steady (andthen (fetch_sitemap_document w n) (\<lambda>doc.
          (case doc of
             None \<Rightarrow> ret (queue, snd c)
           | Some d \<Rightarrow> andthen (queue_sitemap_entries w d depth queue (snd c)) (\<lambda>q. ret (q, snd c)))))"
      by (intro steady_basic steady_sitemap)
    then show ?thesis using examined_same rest e Some by fastforce
  qed
qed

lemma pop_work: "frontier_pop f = (Some i, f') \<Longrightarrow> frontier_work f' < frontier_work f"
  by (auto simp: frontier_pop_def frontier_work_def split: list.splits)

lemma calm_work: "calm (Some f) b \<Longrightarrow> \<exists>f'. b = Some f' \<and> frontier_work f' \<le> frontier_work f"
  by (cases b) (auto simp: calm_def)

lemma page_turn_progress:
  assumes "page_turn w caps attempts s = (Returned (True, k), t)"
  shows "\<exists>f f'. op_frontier s = Some f \<and> op_frontier t = Some f' \<and> frontier_work f' < frontier_work f"
proof -
  obtain s1 popped s2 where s1: "check_cancelled w s = (Returned (), s1)"
      and s2: "with_frontier (\<lambda>f. Some (frontier_pop f)) s1 = (Returned popped, s2)"
      and rest: "(case popped of
        None \<Rightarrow> ret (False, attempts)
      | Some i \<Rightarrow>
          andthen (record_of i) (\<lambda>r.
          if last (rec_states r) \<noteq> St_Queued then ret (True, attempts)
          else if int attempts \<ge> max_pages w then
            andthen (on_frontier (\<lambda>f. cancel_queued (mark_cancelled i ''page_limit_reached'' f))) (\<lambda>_.
            andthen (modifies (\<lambda>s. s\<lparr>op_page_limit_reached := True\<rparr>)) (\<lambda>_. ret (False, attempts)))
          else
            andthen (process_page w i caps) (\<lambda>made. ret (True, if made then Suc attempts else attempts)))) s2 = (Returned (True, k), t)"
    using assms by (auto simp: page_turn_def andthen_Returned)
  then obtain i where i: "popped = Some i" by (cases popped) (auto simp: ret_def)
  obtain f f1 where f: "op_frontier s1 = Some f" "frontier_pop f = (Some i, f1)" "op_frontier s2 = Some f1"
  proof -
    obtain f where "op_frontier s1 = Some f" using s2 by (cases "op_frontier s1") (auto simp: with_frontier_def eff_defs)
    then show thesis using that s2 i by (cases "frontier_pop f") (auto simp: with_frontier_def eff_defs)
  qed
  have "op_frontier s = Some f" using s1 f(1) by (auto simp: check_cancelled_def next_call_def eff_defs split: if_splits)
  moreover have "calm (op_frontier s2) (op_frontier t)"
  proof -
    have "obeys steady (modifies (\<lambda>s. s\<lparr>op_page_limit_reached := True\<rparr>))"
      by (intro steady_modifies) (simp add: steady_def moved_def)
    moreover have "calm (Some f) (Some (cancel_queued (mark_cancelled i m f)))" for f m
      using calm_trans marks_calm(3) cancel_queued_calm by blast
    ultimately have "obeys steady (case popped of
        None \<Rightarrow> ret (False, attempts)
      | Some i \<Rightarrow>
          andthen (record_of i) (\<lambda>r.
          if last (rec_states r) \<noteq> St_Queued then ret (True, attempts)
          else if int attempts \<ge> max_pages w then
            andthen (on_frontier (\<lambda>f. cancel_queued (mark_cancelled i ''page_limit_reached'' f))) (\<lambda>_.
            andthen (modifies (\<lambda>s. s\<lparr>op_page_limit_reached := True\<rparr>)) (\<lambda>_. ret (False, attempts)))
          else
            andthen (process_page w i caps) (\<lambda>made. ret (True, if made then Suc attempts else attempts))))"
      by (intro steady_basic steady_process_page) (use i in simp_all)
    then show ?thesis using obeysD rest by (fastforce simp: steady_def moved_def)
  qed
  ultimately show ?thesis using pop_work [OF f(2)] calm_work f(3) by fastforce
qed

end
