(* ===== verification/Site_Run.thy ===== *)
theory Site_Run
  imports Site_Progress
begin

text \<open>
  \<open>orchestrator/site_pipeline.py\<close>, the operation as a whole: the two loops, whose termination rests on the
  previous theory, the seed, \<open>run\<close> and the response.  The elapsed time is left out of the statistics.
\<close>

section \<open>Loops\<close>

function load_loop ::
  "site_world \<Rightarrow> (string \<times> nat) list \<Rightarrow> string list \<Rightarrow> (string \<times> nat) list site" where
  "load_loop w queue visited s =
     (case queue of
        [] \<Rightarrow> (Returned [], s)
      | (url, depth) # rest \<Rightarrow>
          if \<not> more_sitemaps w s then (Returned queue, s)
          else (case sitemap_turn w url depth rest visited s of
              (Raised e, t) \<Rightarrow> (Raised e, t)
            | (Returned (q, v), t) \<Rightarrow> load_loop w q v t))"
  by pat_completeness auto
termination
proof (relation "measures [\<lambda>(w, queue, visited, s). nat (w_max_internal_fanout w - int (op_sitemap_candidates_examined s)),
    \<lambda>(w, queue, visited, s). length queue]", simp)
  fix w queue visited s x rest url depth r t a q v
  assume queue: "queue = x # rest" "(url, depth) = x" and more: "\<not> \<not> more_sitemaps w s"
    and turn: "(r, t) = sitemap_turn w url depth rest visited s" "r = Returned a" "(q, v) = a"
  have "op_sitemap_candidates_examined t = Suc (op_sitemap_candidates_examined s) \<or>
      op_sitemap_candidates_examined t = op_sitemap_candidates_examined s \<and> q = rest"
    using sitemap_turn_progress turn by (metis (no_types))
  then show "((w, q, v, t), w, queue, visited, s) \<in> measures [\<lambda>(w, queue, visited, s). nat (w_max_internal_fanout w - int (op_sitemap_candidates_examined s)),
    \<lambda>(w, queue, visited, s). length queue]"
    using more queue by (auto simp: more_sitemaps_def)
qed

definition site_work :: "operation \<Rightarrow> nat" where
  "site_work s = (case op_frontier s of None \<Rightarrow> 0 | Some f \<Rightarrow> frontier_work f)"

function crawl_loop :: "site_world \<Rightarrow> fetch_capability list \<Rightarrow> nat \<Rightarrow> nat site" where
  "crawl_loop w caps attempts s =
     (case page_turn w caps attempts s of
        (Raised e, t) \<Rightarrow> (Raised e, t)
      | (Returned (again, k), t) \<Rightarrow> if again then crawl_loop w caps k t else (Returned k, t))"
  by pat_completeness auto
termination
proof (relation "measure (\<lambda>(w, caps, attempts, s). site_work s)", simp)
  fix w caps attempts s r t a again k
  assume turn: "(r, t) = page_turn w caps attempts s" "r = Returned a" "(again, k) = a" and again
  then have "page_turn w caps attempts s = (Returned (True, k), t)" by simp
  then show "((w, caps, k, t), w, caps, attempts, s) \<in> measure (\<lambda>(w, caps, attempts, s). site_work s)"
    using page_turn_progress [of w caps attempts s k t] by (auto simp: site_work_def)
qed

declare load_loop.simps [simp del] crawl_loop.simps [simp del]

text \<open>What every turn keeps, the loop keeps.\<close>

lemma triple_load_loop:
  assumes "\<And>url depth rest visited.
      triple (\<lambda>s. I s \<and> more_sitemaps w s) (sitemap_turn w url depth rest visited) (\<lambda>_. I) (\<lambda>_. E)"
  shows "triple I (load_loop w queue visited) (\<lambda>_. I) (\<lambda>_. E)"
proof -
  have "case load_loop w queue visited s of (Returned a, t) \<Rightarrow> I t | (Raised e, t) \<Rightarrow> E t" if "I s" for s
    using that assms
  proof (induction w queue visited s rule: load_loop.induct)
    case (1 w queue visited s)
    show ?case
    proof (cases "queue = [] \<or> \<not> more_sitemaps w s")
      case True
      then show ?thesis using 1(2) by (subst load_loop.simps) (auto split: list.split)
    next
      case False
      then obtain url depth rest where q: "queue = (url, depth) # rest" by (metis list.exhaust surj_pair)
      obtain r t where turn: "sitemap_turn w url depth rest visited s = (r, t)" by fastforce
      show ?thesis
      proof (cases r)
        case (Returned qv)
        then have "I t" using tripleD(1) [OF 1(3) _ turn [unfolded Returned]] 1(2) False by simp
        then show ?thesis
          using 1(1) [OF q refl _ turn [symmetric] Returned, of "fst qv" "snd qv"] 1(3) False q turn Returned
          by (subst load_loop.simps) (simp add: case_prod_beta)
      next
        case (Raised e)
        then have "E t" using tripleD(2) [OF 1(3) _ turn [unfolded Raised]] 1(2) False by simp
        then show ?thesis using False q turn Raised by (subst load_loop.simps) simp
      qed
    qed
  qed
  then show ?thesis by (simp add: triple_def)
qed

lemma triple_crawl_loop:
  assumes "\<And>k. triple (P k) (page_turn w caps k) (\<lambda>a. P (snd a)) (\<lambda>_. E)"
  shows "triple (P k) (crawl_loop w caps k) P (\<lambda>_. E)"
proof -
  have "case crawl_loop w caps k s of (Returned k, t) \<Rightarrow> P k t | (Raised e, t) \<Rightarrow> E t" if "P k s" for s
    using that assms
  proof (induction w caps k s rule: crawl_loop.induct)
    case (1 w caps k s)
    obtain r t where turn: "page_turn w caps k s = (r, t)" by fastforce
    show ?case
    proof (cases r)
      case (Returned a)
      then have "P (snd a) t" using tripleD(1) [OF 1(3) 1(2)] turn by simp
      then show ?thesis
        using 1(1) [OF turn [symmetric] Returned, of "fst a" "snd a"] 1(3) turn Returned
        by (cases a) (subst crawl_loop.simps, auto)
    next
      case (Raised e)
      then have "E t" using tripleD(2) [OF 1(3) 1(2)] turn by simp
      then show ?thesis using turn Raised by (subst crawl_loop.simps) simp
    qed
  qed
  then show ?thesis by (simp add: triple_def)
qed

definition load_sitemaps :: "site_world \<Rightarrow> robots_snapshot \<Rightarrow> unit site" where
  "load_sitemaps w snap =
     andthen (reads op_effective_origin) (\<lambda>origin.
     andthen (load_loop w (map (\<lambda>url. (url, 0)) (sitemap_roots (text_or origin ''None'') snap)) [])
       (finish_sitemap_loading w))"

definition crawl_pages :: "site_world \<Rightarrow> fetch_capability list \<Rightarrow> unit site" where
  "crawl_pages w caps = andthen (crawl_loop w caps 1) (\<lambda>_. ret ())"

section \<open>Responses\<close>

record site_stats =
  stat_discovered :: nat
  stat_admitted :: nat
  stat_queued :: nat
  stat_fetched :: nat
  stat_filtered :: nat
  stat_failed :: nat
  stat_cancelled :: nat
  stat_omitted :: nat
  stat_discovery_limit_omitted :: nat
  stat_response_budget_omitted :: nat
  stat_results_omitted :: nat
  stat_pages_succeeded :: nat
  stat_pages_failed :: int
  stat_sitemap_documents_attempted :: nat
  stat_sitemap_documents :: nat
  stat_sitemap_entries :: nat
  stat_sitemap_truncated :: nat
  stat_robots_documents_attempted :: nat
  stat_non_http_urls_skipped :: nat
  stat_robots_state :: "robots_state option"
  stat_robots_source :: "string option"
  stat_source_counts :: "(string \<times> nat) list"
  stat_fetch_outcomes :: "(string \<times> nat) list"

record site_response =
  resp_requested_url :: string
  resp_effective_url :: "string option"
  resp_requested_origin :: "string option"
  resp_effective_origin :: "string option"
  resp_outcome :: string
  resp_urls :: "frontier_record list"
  resp_stats :: site_stats
  resp_warnings :: "string list"
  resp_results :: "fetch_result list"

text \<open>The items that fit the byte budget, an item too large being skipped, and how many were skipped.\<close>

fun within_budget :: "('a \<Rightarrow> int) \<Rightarrow> int \<Rightarrow> int \<Rightarrow> 'a list \<Rightarrow> 'a list \<times> nat" where
  "within_budget bytes budget used [] = ([], 0)"
| "within_budget bytes budget used (x # xs) =
     (if used + (bytes x + 1) > budget
      then (let (kept, omitted) = within_budget bytes budget used xs in (kept, Suc omitted))
      else (let (kept, omitted) = within_budget bytes budget (used + (bytes x + 1)) xs in (x # kept, omitted)))"

definition response_records :: "site_world \<Rightarrow> frontier_record list site" where
  "response_records w =
     andthen (reads op_frontier) (\<lambda>mf.
     (case mf of
        None \<Rightarrow> ret []
      | Some f \<Rightarrow>
          (let (kept, omitted) = within_budget (w_record_bytes w) (w_max_response_body_bytes w div 4) 2 (records f) in
           andthen (modifies (\<lambda>s. s\<lparr>op_url_records_omitted := op_url_records_omitted s + omitted\<rparr>)) (\<lambda>_.
           andthen (reads op_url_records_omitted) (\<lambda>n.
           andthen (if n \<noteq> 0 then warning ''url_response_budget_reached'' else ret ()) (\<lambda>_. ret kept))))))"

definition response_results :: "site_world \<Rightarrow> fetch_result list site" where
  "response_results w =
     (if \<not> return_content (w_call w) then ret []
      else
        andthen (reads op_results) (\<lambda>rs.
        (let (kept, omitted) = within_budget (w_result_bytes w) (w_max_response_body_bytes w div 2) 2 rs in
         andthen (modifies (\<lambda>s. s\<lparr>op_results_omitted := op_results_omitted s + omitted\<rparr>)) (\<lambda>_.
         andthen (reads op_results_omitted) (\<lambda>n.
         andthen (if n \<noteq> 0 then warning ''result_response_budget_reached'' else ret ()) (\<lambda>_. ret kept))))))"

definition source_name :: "crawl_source \<Rightarrow> string" where
  "source_name s =
     (case s of Src_Seed \<Rightarrow> ''seed'' | Src_Sitemap \<Rightarrow> ''sitemap'' | Src_Link \<Rightarrow> ''link'' | Src_Search \<Rightarrow> ''search'')"

text \<open>\<open>sorted(Counter(xs).items())\<close>.\<close>

definition counts :: "string list \<Rightarrow> (string \<times> nat) list" where
  "counts xs = map (\<lambda>x. (x, count_list xs x)) (sort (remdups xs))"

definition state_count :: "frontier_record list \<Rightarrow> crawl_state \<Rightarrow> nat" where
  "state_count rs st = count_list (concat (map rec_states rs)) st"

definition site_stats_of :: "operation \<Rightarrow> site_stats" where
  "site_stats_of s =
     (let rs = (case op_frontier s of None \<Rightarrow> [] | Some f \<Rightarrow> records f);
          over = (case op_frontier s of None \<Rightarrow> 0 | Some f \<Rightarrow> omitted_due_to_limit f);
          skipped = (case op_frontier s of None \<Rightarrow> 0 | Some f \<Rightarrow> non_http_urls_skipped f);
          succeeded = length (filter (\<lambda>out. so_code out = Content) (op_page_outcomes s));
          snap = (case op_effective_origin s of
              None \<Rightarrow> None | Some origin \<Rightarrow> if origin = [] then None else op_robots s origin);
          robots_from = (case op_effective_origin s of
              None \<Rightarrow> None | Some origin \<Rightarrow> if snap = None then None else op_robots_sources s origin)
      in \<lparr>stat_discovered = state_count rs St_Discovered, stat_admitted = state_count rs St_Admitted,
          stat_queued = state_count rs St_Queued, stat_fetched = state_count rs St_Fetched,
          stat_filtered = state_count rs St_Filtered, stat_failed = state_count rs St_Failed,
          stat_cancelled = state_count rs St_Cancelled, stat_omitted = over + op_url_records_omitted s,
          stat_discovery_limit_omitted = over, stat_response_budget_omitted = op_url_records_omitted s,
          stat_results_omitted = op_results_omitted s, stat_pages_succeeded = succeeded,
          stat_pages_failed = int (length (op_page_outcomes s)) - int succeeded,
          stat_sitemap_documents_attempted = op_sitemap_documents_attempted s,
          stat_sitemap_documents = op_sitemap_documents s, stat_sitemap_entries = op_sitemap_entries s,
          stat_sitemap_truncated = op_sitemap_truncated s,
          stat_robots_documents_attempted = op_robots_documents_attempted s,
          stat_non_http_urls_skipped = skipped, stat_robots_state = map_option snap_state snap,
          stat_robots_source = robots_from,
          stat_source_counts = counts (map source_name (concat (map rec_sources rs))),
          stat_fetch_outcomes = counts (map (\<lambda>out. fetch_outcome_value (so_code out)) (op_page_outcomes s))\<rparr>)"

definition site_answer :: "site_world \<Rightarrow> string \<Rightarrow> site_response site" where
  "site_answer w outcome =
     andthen (response_records w) (\<lambda>urls.
     andthen (response_results w) (\<lambda>results.
     reads (\<lambda>s. \<lparr>resp_requested_url = site_url (w_request w), resp_effective_url = op_effective_url s,
       resp_requested_origin = site_origin (w_env w) (site_url (w_request w)),
       resp_effective_origin = op_effective_origin s, resp_outcome = outcome, resp_urls = urls,
       resp_stats = site_stats_of s, resp_warnings = op_warnings s, resp_results = results\<rparr>)))"

section \<open>The seed\<close>

text \<open>\<open>effective_url\<close>, its origin, and a new frontier for it.\<close>

definition set_effective :: "site_world \<Rightarrow> string \<Rightarrow> unit site" where
  "set_effective w effective =
     modifies (\<lambda>s. s\<lparr>op_effective_url := Some effective, op_effective_origin := site_origin (w_env w) effective\<rparr>)"

definition open_frontier :: "site_world \<Rightarrow> string \<Rightarrow> unit site" where
  "open_frontier w effective =
     andthen (or_raise Value_Error (policy_for (w_request w) effective)) (\<lambda>p.
     modifies (\<lambda>s. s\<lparr>op_frontier := Some (new_frontier p)\<rparr>))"

definition record_seed_failure :: "site_world \<Rightarrow> stage_outcome \<Rightarrow> string site" where
  "record_seed_failure w out =
     (let effective = text_or (so_final_url out) (site_url (w_request w)); code = fetch_outcome_value (so_code out) in
      andthen (set_effective w effective) (\<lambda>_.
      andthen (open_frontier w effective) (\<lambda>_.
      andthen (with_frontier (discover (w_env w) effective (discovery_of Src_Seed 0 None None True True))) (\<lambda>found.
      andthen (case found of
          None \<Rightarrow> ret ()
        | Some i \<Rightarrow> andthen (record_of i) (\<lambda>r.
            if last (rec_states r) = St_Queued
            then on_frontier (\<lambda>f. mark_failed i code (snd (frontier_pop f))) else ret ())) (\<lambda>_.
      andthen (modifies (\<lambda>s. s\<lparr>op_page_outcomes := op_page_outcomes s @ [out]\<rparr>)) (\<lambda>_.
      andthen (emit_failure w (site_url (w_request w)) code) (\<lambda>_.
      ret (site_reason (so_code out) True))))))))"

datatype seed_result =
    Early site_response
  | Seeded stage_outcome robots_snapshot

definition answer_early :: "site_world \<Rightarrow> string \<Rightarrow> seed_result site" where
  "answer_early w outcome = andthen (site_answer w outcome) (\<lambda>r. ret (Early r))"

text \<open>The seed has been fetched with content: it becomes the first record.\<close>

definition admit_seed :: "site_world \<Rightarrow> string \<Rightarrow> stage_outcome \<Rightarrow> seed_result site" where
  "admit_seed w effective seed =
     andthen (open_frontier w effective) (\<lambda>_.
     andthen (robots_for w effective) (\<lambda>snap.
     andthen (admit w effective Src_Seed 0 None None) (\<lambda>found.
     (case found of
        None \<Rightarrow> answer_early w ''no_admitted_urls''
      | Some i \<Rightarrow>
          andthen (record_of i) (\<lambda>r.
          if last (rec_states r) = St_Filtered
          then answer_early w (if rec_reason r = Some ''robots_refused'' then ''robots_refused'' else ''no_admitted_urls'')
          else
            andthen (on_frontier (\<lambda>f. mark_fetched i (snd (frontier_pop f)))) (\<lambda>_.
            andthen (modifies (\<lambda>s. s\<lparr>op_page_outcomes := op_page_outcomes s @ [seed]\<rparr>)) (\<lambda>_.
            andthen (maybe_content w seed) (\<lambda>_. ret (Seeded seed snap)))))))))"

definition prepare_seed :: "site_world \<Rightarrow> seed_result site" where
  "prepare_seed w =
     (let url = site_url (w_request w) in
      andthen (is_safe w url) (\<lambda>safe.
      if \<not> safe then andthen (emit_failure w url ''unsafe_seed'') (\<lambda>_. answer_early w ''unsafe_seed'')
      else
        andthen (fetch_target w For_Seed url (seed_capabilities (w_call w)) None) (\<lambda>seed.
        if so_code seed \<noteq> Content \<or> so_page seed = None
        then andthen (record_seed_failure w seed) (answer_early w)
        else
          (let effective = text_or (so_final_url seed) url in
           andthen (set_effective w effective) (\<lambda>_.
           if site_origin (w_env w) effective = None then answer_early w ''unsafe_redirect''
           else admit_seed w effective seed)))))"

section \<open>The operation\<close>

definition site_outcome :: "operation \<Rightarrow> string" where
  "site_outcome s =
     (let rs = (case op_frontier s of None \<Rightarrow> [] | Some f \<Rightarrow> records f);
          over = (case op_frontier s of None \<Rightarrow> 0 | Some f \<Rightarrow> omitted_due_to_limit f)
      in if op_page_limit_reached s \<or> over \<noteq> 0 then ''limit_reached''
         else if list_ex (\<lambda>r. last (rec_states r) = St_Failed) rs \<or>
                 list_ex (\<lambda>out. so_code out \<noteq> Content) (op_page_outcomes s)
         then ''partial'' else ''completed'')"

definition after_seed :: "site_world \<Rightarrow> stage_outcome \<Rightarrow> robots_snapshot \<Rightarrow> site_response site" where
  "after_seed w seed snap =
     (let r = w_request w in
      andthen (if site_sitemap r \<noteq> Sitemap_Skip then load_sitemaps w snap else ret ()) (\<lambda>_.
      andthen (if site_include_search r then augment_search w else ret ()) (\<lambda>_.
      andthen (if site_sitemap r \<noteq> Sitemap_Only \<and> 0 < site_max_depth r then admit_links w 1 seed else ret ()) (\<lambda>_.
      andthen (crawl_pages w (seed_capabilities (w_call w))) (\<lambda>_.
      andthen (reads site_outcome) (site_answer w))))))"

definition site_run :: "site_world \<Rightarrow> site_response site" where
  "site_run w =
     andthen (check_cancelled w) (\<lambda>_.
     andthen (prepare_seed w) (\<lambda>res.
     (case res of
        Early r \<Rightarrow> ret r
      | Seeded seed snap \<Rightarrow> after_seed w seed snap)))"

definition new_operation :: "site_world \<Rightarrow> robots_values \<Rightarrow> operation" where
  "new_operation w cache =
     \<lparr>op_effective_url = None, op_effective_origin = None, op_frontier = None, op_results = [], op_page_outcomes = [],
      op_warnings = (if max_pages w < site_max_pages (w_request w) then [''max_pages_clamped_to_internal_fanout''] else []),
      op_robots = Map.empty, op_robots_sources = Map.empty, op_robots_documents_attempted = 0,
      op_sitemap_candidates_examined = 0, op_sitemap_documents_attempted = 0, op_sitemap_documents = 0,
      op_sitemap_entries = 0, op_sitemap_truncated = 0, op_page_limit_reached = False, op_url_records_omitted = 0,
      op_results_omitted = 0, op_calls = 0, op_cache = cache, op_trace = []\<rparr>"

end
