(* ===== verification/Site_Guarantees.thy ===== *)
theory Site_Guarantees
  imports Site_Run Crawl_Guarantees
begin

text \<open>
  What a site operation promises about the requests it makes, whatever the services answer and however it
  ends: the invariant, which relates the trace to the frontier, one lemma per method, and the properties.
\<close>

section \<open>The invariant\<close>

text \<open>
  A page URL has been found safe, or it is what a second normalisation makes of a normalised URL: \<open>discover\<close>
  normalises again what \<open>_admit\<close> has normalised and checked.
\<close>

definition page_cleared :: "url_env \<Rightarrow> crawl_policy \<Rightarrow> site_event list \<Rightarrow> string \<Rightarrow> bool" where
  "page_cleared env p tr url \<longleftrightarrow>
     Checked url True \<in> set tr \<or>
     (\<exists>c n. policy_normalize env p c = Some n \<and> n \<noteq> url \<and> policy_normalize env p n = Some url)"

definition event_ok :: "site_world \<Rightarrow> crawl_policy option \<Rightarrow> site_event list \<Rightarrow> site_event \<Rightarrow> bool" where
  "event_ok w mp before e =
     (case e of
        Fetching purpose url caps \<Rightarrow>
          (case purpose of
             For_Page \<Rightarrow> Robots_Said url True \<in> set before \<and>
               (\<exists>p depth. mp = Some p \<and> page_cleared (w_env w) p before url \<and>
                  rejection_reason (w_env w) p url depth = Some None)
           | For_Sitemap \<Rightarrow> Robots_Said url True \<in> set before \<and> Checked url True \<in> set before
           | _ \<Rightarrow> Checked url True \<in> set before)
      | _ \<Rightarrow> True)"

definition trace_ok :: "site_world \<Rightarrow> crawl_policy option \<Rightarrow> site_event list \<Rightarrow> bool" where
  "trace_ok w mp tr \<longleftrightarrow> (\<forall>i<length tr. event_ok w mp (take i tr) (tr ! i))"

definition queued_cleared :: "url_env \<Rightarrow> frontier \<Rightarrow> site_event list \<Rightarrow> bool" where
  "queued_cleared env f tr \<longleftrightarrow>
     (\<forall>r\<in>set (records f). last (rec_states r) = St_Queued \<longrightarrow> page_cleared env (policy f) tr (rec_url r))"

definition frontier_inv :: "site_world \<Rightarrow> site_event list \<Rightarrow> frontier \<Rightarrow> bool" where
  "frontier_inv w tr f \<longleftrightarrow>
     frontier_ok (w_env w) f \<and> (\<exists>eff. policy_for (w_request w) eff = Some (policy f)) \<and> queued_cleared (w_env w) f tr"

definition site_inv :: "site_world \<Rightarrow> operation \<Rightarrow> bool" where
  "site_inv w s \<longleftrightarrow> trace_ok w (map_option policy (op_frontier s)) (op_trace s) \<and> (\<forall>f. op_frontier s = Some f \<longrightarrow> frontier_inv w (op_trace s) f)"

lemma trace_ok_snoc: "trace_ok w mp (tr @ [e]) \<longleftrightarrow> trace_ok w mp tr \<and> event_ok w mp tr e"
  by (auto simp: trace_ok_def nth_append less_Suc_eq)

lemma page_cleared_mono: "page_cleared env p tr url \<Longrightarrow> set tr \<subseteq> set tr' \<Longrightarrow> page_cleared env p tr' url"
  by (auto simp: page_cleared_def)

lemma frontier_inv_mono: "frontier_inv w tr f \<Longrightarrow> set tr \<subseteq> set tr' \<Longrightarrow> frontier_inv w tr' f"
  by (auto simp: frontier_inv_def queued_cleared_def intro: page_cleared_mono)

lemma frontier_inv_snoc: "frontier_inv w tr f \<Longrightarrow> frontier_inv w (tr @ [e]) f"
  by (rule frontier_inv_mono) auto

section \<open>Methods that leave the frontier alone\<close>

definition silent :: "site_world \<Rightarrow> operation \<Rightarrow> operation \<Rightarrow> bool" where
  "silent w s t \<longleftrightarrow>
     (site_inv w s \<longrightarrow> site_inv w t \<and> set (op_trace s) \<subseteq> set (op_trace t) \<and> op_frontier t = op_frontier s)"

interpretation silent: preorder_run "silent w" for w
  by unfold_locales (auto simp: silent_def)

text \<open>The invariant with events known to have happened and a known frontier.\<close>

definition knowing :: "site_world \<Rightarrow> site_event set \<Rightarrow> frontier option \<Rightarrow> operation \<Rightarrow> bool" where
  "knowing w K F s \<longleftrightarrow> site_inv w s \<and> K \<subseteq> set (op_trace s) \<and> op_frontier s = F"

definition knows :: "site_world \<Rightarrow> site_event set \<Rightarrow> frontier option \<Rightarrow> (operation, site_stop, 'a) eff \<Rightarrow> bool" where
  "knows w K F m \<longleftrightarrow> triple (knowing w K F) m (\<lambda>_. knowing w K F) (\<lambda>_. knowing w K F)"

lemma silent_iff: "obeys (silent w) m \<longleftrightarrow> (\<forall>K F. knows w K F m)"
proof
  show "\<forall>K F. knows w K F m" if "obeys (silent w) m"
  proof (intro allI)
    fix K F
    have "knowing w K F t" if "knowing w K F s" "m s = (r, t)" for s r t
      using obeysD [OF \<open>obeys (silent w) m\<close> that(2)] that(1) by (auto simp: silent_def knowing_def)
    then show "knows w K F m"
      by (auto simp: knows_def triple_def split: prod.split ending.split)
  qed
  show "obeys (silent w) m" if k: "\<forall>K F. knows w K F m"
    unfolding obeys_def
  proof
    fix s
    obtain r t where m: "m s = (r, t)" by fastforce
    have "knowing w (set (op_trace s)) (op_frontier s) t" if "site_inv w s"
    proof -
      have s: "knowing w (set (op_trace s)) (op_frontier s) s" using that by (simp add: knowing_def)
      have "knows w (set (op_trace s)) (op_frontier s) m" using k by blast
      then show ?thesis unfolding knows_def using s m by (cases r) (auto dest: tripleD)
    qed
    then show "silent w s (snd (m s))" using m by (auto simp: silent_def knowing_def)
  qed
qed

lemma silent_knows: "obeys (silent w) m \<Longrightarrow> knows w K F m"
  by (simp add: silent_iff)

lemma knows_andthen:
  assumes "knows w K F m" and "\<And>a. knows w K F (f a)"
  shows "knows w K F (andthen m f)"
  using assms unfolding knows_def by (rule triple_andthen)

lemma knows_if: "(b \<Longrightarrow> knows w K F m) \<Longrightarrow> (\<not> b \<Longrightarrow> knows w K F m') \<Longrightarrow> knows w K F (if b then m else m')"
  by simp

text \<open>After a positive answer one event more is known.\<close>

lemma knows_bool:
  assumes "triple (knowing w K F) m (\<lambda>b. knowing w (if b then insert e K else K) F) (\<lambda>_. knowing w K F)"
    and "knows w (insert e K) F (f True)" and "knows w K F (f False)"
  shows "knows w K F (andthen m f)"
  unfolding knows_def
proof (rule triple_andthen [OF assms(1)])
  fix b
  have "knowing w K F s" if "knowing w (insert e K) F s" for s using that by (simp add: knowing_def)
  then show "triple (knowing w (if b then insert e K else K) F) (f b) (\<lambda>_. knowing w K F) (\<lambda>_. knowing w K F)"
    using assms(2,3) by (cases b) (auto simp: knows_def intro: triple_weaken)
qed

lemma silent_modifies:
  assumes "\<And>s. op_trace (g s) = op_trace s" and "\<And>s. op_frontier (g s) = op_frontier s"
  shows "obeys (silent w) (modifies g)"
  using assms by (simp add: silent.obeys_modifies silent_def site_inv_def)

lemma silent_traces:
  assumes "\<And>purpose url caps. e \<noteq> Fetching purpose url caps"
  shows "obeys (silent w) (traces e)"
proof -
  have "event_ok w mp before e" for mp before using assms by (cases e) (auto simp: event_ok_def)
  then show ?thesis
    by (simp add: traces_def silent.obeys_modifies silent_def site_inv_def trace_ok_snoc frontier_inv_snoc subset_insertI)
qed

lemma silent_calls:
  "obeys (silent w) next_call" "obeys (silent w) (awaited w')" "obeys (silent w) (warning v)"
  "obeys (silent w) (check_cancelled w')"
  unfolding next_call_def awaited_def warning_def check_cancelled_def
  by (intro silent.obeys_andthen silent.obeys_reads silent.obeys_ret silent.obeys_raise silent.obeys_if silent_modifies; simp)+

lemmas silent_basic = silent.obeys_andthen silent.obeys_reads silent.obeys_ret silent.obeys_raise silent.obeys_or_raise
  silent.obeys_if silent.obeys_option silent.obeys_let silent.obeys_for_each silent_calls

lemma silent_emit:
  "obeys (silent w) (emit_result w' r)" "obeys (silent w) (emit_failure w' url reason)"
  "obeys (silent w) (is_safe w' url)" "obeys (silent w) (robots_say w' snap url)"
  unfolding emit_result_def emit_failure_def emit_def is_safe_def robots_say_def
  by (intro silent_basic silent_traces; simp)+

text \<open>What a positive answer of a check leaves behind.\<close>

lemma after_check:
  assumes "knows w K F m" and "\<And>s t. m s = (Returned True, t) \<Longrightarrow> e \<in> set (op_trace t)"
  shows "triple (knowing w K F) m (\<lambda>b. knowing w (if b then insert e K else K) F) (\<lambda>_. knowing w K F)"
  unfolding triple_def
proof (intro allI impI)
  fix s assume k: "knowing w K F s"
  obtain r t where m: "m s = (r, t)" by fastforce
  have t: "knowing w K F t" using assms(1) k m unfolding knows_def by (cases r) (auto dest: tripleD)
  show "case m s of (Returned b, s') \<Rightarrow> knowing w (if b then insert e K else K) F s' | (Raised x, s') \<Rightarrow> knowing w K F s'"
  proof (cases r)
    case (Returned b)
    then show ?thesis using t m assms(2) [of s t] by (cases b) (simp_all add: knowing_def)
  qed (use m t in simp)
qed

lemma after_is_safe:
  "triple (knowing w K F) (is_safe w url) (\<lambda>b. knowing w (if b then insert (Checked url True) K else K) F) (\<lambda>_. knowing w K F)"
proof (rule after_check)
  show "knows w K F (is_safe w url)" using silent_emit(3) by (rule silent_knows)
  show "Checked url True \<in> set (op_trace t)" if "is_safe w url s = (Returned True, t)" for s t
    using that by (auto simp: is_safe_def andthen_Returned traces_def modifies_def ret_def)
qed

lemma after_robots_say:
  "triple (knowing w K F) (robots_say w' snap url) (\<lambda>b. knowing w (if b then insert (Robots_Said url True) K else K) F) (\<lambda>_. knowing w K F)"
proof (rule after_check)
  show "knows w K F (robots_say w' snap url)" using silent_emit(4) by (rule silent_knows)
  show "Robots_Said url True \<in> set (op_trace t)" if "robots_say w' snap url s = (Returned True, t)" for s t
    using that by (auto simp: robots_say_def andthen_Returned traces_def modifies_def ret_def)
qed

text \<open>A request may be made when what it needs is known.\<close>

lemma knows_fetching:
  assumes "\<And>s. knowing w K F s \<Longrightarrow> event_ok w (map_option policy F) (op_trace s) (Fetching purpose url caps)"
  shows "knows w K F (traces (Fetching purpose url caps))"
  unfolding knows_def traces_def
proof (rule triple_modifies)
  fix s assume k: "knowing w K F s"
  then show "knowing w K F (s\<lparr>op_trace := op_trace s @ [Fetching purpose url caps]\<rparr>)"
    using assms [OF k] by (auto simp: knowing_def site_inv_def trace_ok_snoc frontier_inv_snoc)
qed

lemma knows_fetch_target:
  assumes "\<And>s. knowing w K F s \<Longrightarrow> event_ok w (map_option policy F) (op_trace s) (Fetching purpose url caps)"
  shows "knows w K F (fetch_target w purpose url caps robots)"
proof -
  have basic: "knows w K F (check_cancelled w)" "knows w K F (awaited w)" "knows w K F next_call"
    "knows w K F (traces (Waited h d))" "knows w K F (traces (Noted h st r))" "knows w K F (is_safe w u)"
    "knows w K F (ret a)" "knows w K F (or_raise ex v)" for h d st r u a ex v
    by (intro silent_knows silent_basic silent_emit silent_traces; simp)+
  show ?thesis
    unfolding fetch_target_def Let_def
    by (intro knows_andthen basic knows_fetching assms) (auto split: option.split intro: basic knows_andthen)
qed

section \<open>Robots and sitemaps\<close>

lemma silent_store_robots: "obeys (silent w) (store_robots origin snap source)"
  unfolding store_robots_def by (intro silent_modifies; simp)

lemma silent_fetch_robots: "obeys (silent w) (fetch_robots w origin now)"
  unfolding silent_iff
proof (intro allI)
  fix K F
  have basic: "knows w K F (modifies (\<lambda>s. s\<lparr>op_robots_documents_attempted := n s\<rparr>))" "knows w K F (warning v)"
    "knows w K F (modifies (\<lambda>s. s\<lparr>op_cache := c s\<rparr>))" "knows w K F (store_robots origin snap source)"
    "knows w K F (ret a)" for K n c v snap source a
    by (intro silent_knows silent_basic silent_modifies silent_store_robots; simp)+
  have basic': "knows w K F (or_raise ex sn)" for K ex and sn :: "robots_snapshot option"
    by (intro silent_knows silent_basic)
  have fetch: "knows w (insert (Checked url True) K) F (fetch_target w For_Robots url map_capabilities None)" for url
    by (rule knows_fetch_target) (auto simp: knowing_def event_ok_def)
  have tail: "knows w K F (andthen (store_robots origin snap ''network'') (\<lambda>_.
     andthen (modifies (\<lambda>s. s\<lparr>op_cache := robots_put snap (op_cache s)\<rparr>)) (\<lambda>_.
     andthen (if snap_state snap \<noteq> Available
         then warning (''robots_'' @ robots_state_value (snap_state snap) @ '':'' @ origin) else ret ()) (\<lambda>_.
     ret snap))))" for K snap
    by (intro knows_andthen basic) (auto intro: basic)
  show "knows w K F (fetch_robots w origin now)"
    unfolding fetch_robots_def Let_def
    by (intro knows_andthen basic knows_bool [OF after_is_safe]) (auto intro!: knows_andthen basic basic' fetch tail)
qed

lemma silent_robots_for: "obeys (silent w) (robots_for w url)"
  unfolding robots_for_def
  by (intro silent_basic silent_store_robots silent_fetch_robots) (simp_all add: silent_modifies)

lemma silent_refuse: "obeys (silent w) (refuse_sitemap reason)"
  unfolding refuse_sitemap_def by (intro silent_basic)

lemma silent_read: "obeys (silent w) (read_sitemap w' out)"
  unfolding read_sitemap_def by (intro silent_basic silent_refuse)

lemma silent_check_final: "obeys (silent w) (check_sitemap_final w effective url out)"
  unfolding check_sitemap_final_def by (intro silent_basic silent_refuse silent_read silent_robots_for silent_emit)

lemma silent_fetch_sitemap: "obeys (silent w) (fetch_sitemap_document w url)"
  unfolding silent_iff
proof (intro allI)
  fix K F
  have basic: "knows w K F the_effective_url" "knows w K F (refuse_sitemap reason)" "knows w K F (robots_for w url)"
    "knows w K F (modifies (\<lambda>s. s\<lparr>op_sitemap_documents_attempted := n s\<rparr>))" "knows w K F (check_sitemap_final w e url out)"
    for K reason n e out
    unfolding the_effective_url_def
    by (intro silent_knows silent_basic silent_refuse silent_robots_for silent_check_final silent_modifies; simp)+
  have fetch: "knows w (insert (Robots_Said url True) (insert (Checked url True) K)) F (fetch_target w For_Sitemap url map_capabilities r)" for r
    by (rule knows_fetch_target) (auto simp: knowing_def event_ok_def)
  show "knows w K F (fetch_sitemap_document w url)"
    unfolding fetch_sitemap_document_def
    by (intro knows_andthen basic knows_if knows_bool [OF after_is_safe] knows_bool [OF after_robots_say])
      (auto intro!: knows_andthen basic knows_if knows_bool [OF after_robots_say] fetch)
qed

lemma silent_rest:
  "obeys (silent w) (finish_sitemap_loading w' queue)" "obeys (silent w) (append_content_result w' out)"
  "obeys (silent w) (maybe_content w' out)" "obeys (silent w) (next_sitemap_candidate w' url depth visited)"
proof -
  show "obeys (silent w) (finish_sitemap_loading w' queue)"
    unfolding finish_sitemap_loading_def by (intro silent_basic)
  have "obeys (silent w) (modifies (\<lambda>s. s\<lparr>op_results := g s\<rparr>))" "obeys (silent w) (modifies (\<lambda>s. s\<lparr>op_page_outcomes := h s\<rparr>))" for g h
    by (intro silent_modifies; simp)+
  then show c: "obeys (silent w) (append_content_result w' out)"
    unfolding append_content_result_def by (intro silent_basic silent_emit)
  show "obeys (silent w) (maybe_content w' out)"
    unfolding maybe_content_def by (intro silent_basic c)
  have look: "obeys (silent w) (from_frontier h)" for h :: "frontier \<Rightarrow> crawl_policy"
    unfolding from_frontier_def with_frontier_def obeys_def
    by (auto simp: silent_def eff_defs site_inv_def split: option.splits)
  show "obeys (silent w) (next_sitemap_candidate w' url depth visited)"
    unfolding next_sitemap_candidate_def by (intro silent_basic look) (simp add: silent_modifies)
qed

section \<open>Changes of the frontier\<close>

lemma inv_on_record:
  assumes "frontier_inv w tr f" and "mild (w_env w) (policy f) g"
    and "\<And>r. last (rec_states (g r)) = St_Queued \<Longrightarrow> last (rec_states r) = St_Queued"
  shows "frontier_inv w tr (on_record i g f)"
proof -
  have url: "rec_url (g r) = rec_url r" for r using assms(2) by (simp add: mild_def)
  have "page_cleared (w_env w) (policy f) tr (rec_url r)"
    if r: "r \<in> set (records (on_record i g f))" "last (rec_states r) = St_Queued" for r
  proof -
    have "r \<in> insert (g (records f ! i)) (set (records f))"
      using r(1) set_update_subset_insert by (fastforce simp: on_record_def)
    then consider "r \<in> set (records f)" | "r = g (records f ! i)" "i < length (records f)"
      using r(1) by (cases "i < length (records f)") (auto simp: on_record_def list_update_beyond)
    then show ?thesis
      using assms(1,3) r(2) url by cases (auto simp: frontier_inv_def queued_cleared_def)
  qed
  then show ?thesis
    using assms(1) on_record_ok [OF _ assms(2), of i] by (simp add: frontier_inv_def queued_cleared_def)
qed

lemma inv_marks:
  assumes "frontier_inv w tr f"
  shows "frontier_inv w tr (mark_fetched i f)" and "frontier_inv w tr (mark_failed i reason f)"
    and "frontier_inv w tr (mark_cancelled i reason f)"
  unfolding mark_fetched_def mark_failed_def mark_cancelled_def
  by (rule inv_on_record [OF assms]; auto simp: close_record_def split: if_splits)+

lemma inv_cancel_queued:
  assumes "frontier_inv w tr f"
  shows "frontier_inv w tr (cancel_queued f)"
proof -
  have "frontier_inv w tr (fold cancel_one is f)" for "is"
    using assms
  proof (induction "is" arbitrary: f)
    case (Cons i "is")
    have "frontier_inv w tr (cancel_one i f)"
      unfolding cancel_one_def by (rule inv_on_record [OF Cons.prems]) (auto split: if_splits)
    then show ?case using Cons.IH by simp
  qed simp
  then have "frontier_inv w tr (fold cancel_one (frontier_queue f) f)" .
  then show ?thesis
    by (auto simp: cancel_queued_def frontier_inv_def queued_cleared_def frontier_ok_def keys_ok_def queue_ok_def)
qed

lemma inv_pop:
  assumes "frontier_inv w tr f" and "frontier_pop f = (r, f')"
  shows "frontier_inv w tr f'"
proof -
  have "records f' = records f" "policy f' = policy f"
    using assms(2) by (auto simp: frontier_pop_def split: list.splits)
  then show ?thesis using assms pop_ok(1) by (auto simp: frontier_inv_def queued_cleared_def)
qed

lemma inv_append:
  assumes "frontier_inv w tr f" and "frontier_ok (w_env w) f'" and "records f' = records f @ [r]" and "policy f' = policy f"
    and "last (rec_states r) = St_Queued \<Longrightarrow> page_cleared (w_env w) (policy f) tr (rec_url r)"
  shows "frontier_inv w tr f'"
  using assms by (auto simp: frontier_inv_def queued_cleared_def)

lemma inv_discover:
  assumes "frontier_inv w tr f" and "discover (w_env w) c d f = Some (a, f')"
    and "\<And>url key. policy_normalize (w_env w) (policy f) c = Some url \<Longrightarrow> dedup_key_for (w_env w) url = Some key \<Longrightarrow>
      by_key f key = None \<Longrightarrow> \<not> is_full f \<Longrightarrow> admission_rejection (w_env w) (policy f) url d = Some None \<Longrightarrow>
      page_cleared (w_env w) (policy f) tr url"
  shows "frontier_inv w tr f'"
proof -
  have ok: "frontier_ok (w_env w) f'" using discover_ok [OF _ assms(2)] assms(1) by (simp add: frontier_inv_def)
  show ?thesis
  proof (cases rule: discover_cases [of "w_env w" f c d])
    case invalid
    then have f': "record_filtered c d ''invalid_url'' f = (a, f')" using assms(2) by simp
    show ?thesis
    proof (cases "\<not> within_url_limit c \<or> is_full f")
      case False
      then show ?thesis using f' by (intro inv_append [OF assms(1) ok]) (auto simp: record_filtered_def new_record_def)
    qed (use f' assms(1) skip_ok in \<open>auto simp: record_filtered_def frontier_inv_def queued_cleared_def\<close>)
  next
    case (known url key i)
    then have "f' = on_record i (merge_discovery d) f" using assms(2) by simp
    moreover have "frontier_inv w tr (on_record i (merge_discovery d) f)"
      by (rule inv_on_record [OF assms(1)]) (auto simp: merge_discovery_def)
    ultimately show ?thesis by simp
  next
    case (full url key)
    then show ?thesis using assms(1,2) skip_ok by (auto simp: frontier_inv_def queued_cleared_def)
  next
    case (filtered url key reason)
    then show ?thesis using assms(2) by (intro inv_append [OF assms(1) ok]) (auto simp: new_record_def)
  next
    case (queued url key)
    then show ?thesis using assms(2,3) by (intro inv_append [OF assms(1) ok]) (auto simp: new_record_def)
  qed
qed

text \<open>The final URL: until the record is marked, one record may be queued under a URL of its own.\<close>

definition almost :: "site_world \<Rightarrow> site_event list \<Rightarrow> nat \<Rightarrow> frontier \<Rightarrow> bool" where
  "almost w tr j f \<longleftrightarrow>
     frontier_ok (w_env w) f \<and> (\<exists>eff. policy_for (w_request w) eff = Some (policy f)) \<and>
     (\<forall>i<length (records f). i \<noteq> j \<and> last (rec_states (records f ! i)) = St_Queued \<longrightarrow>
        page_cleared (w_env w) (policy f) tr (rec_url (records f ! i)))"

lemma inv_almost: "frontier_inv w tr f \<Longrightarrow> almost w tr j f"
  by (auto simp: frontier_inv_def almost_def queued_cleared_def)

lemma closed_not_queued:
  assumes "rec_states r \<in> lifecycle" and "st \<noteq> St_Queued"
  shows "last (rec_states (close_record st reason r)) \<noteq> St_Queued"
  using assms by (auto simp: close_record_def closed_record_def lifecycle_def)

lemma almost_not_queued:
  assumes "almost w tr j f" and "j < length (records f) \<Longrightarrow> last (rec_states (records f ! j)) \<noteq> St_Queued"
  shows "frontier_inv w tr f"
proof -
  have "page_cleared (w_env w) (policy f) tr (rec_url (records f ! i))"
    if "i < length (records f)" "last (rec_states (records f ! i)) = St_Queued" for i
    using assms that by (cases "i = j") (auto simp: almost_def)
  then show ?thesis using assms(1) by (auto simp: almost_def frontier_inv_def queued_cleared_def in_set_conv_nth)
qed

lemma almost_closed:
  assumes "almost w tr j f" and "st \<in> {St_Fetched, St_Failed}"
  shows "frontier_inv w tr (on_record j (close_record st reason) f)"
proof (rule almost_not_queued [where j = j])
  show "almost w tr j (on_record j (close_record st reason) f)"
  proof -
    have "mild (w_env w) (policy f) (close_record st reason)" using assms(2) by (intro mild_close) auto
    then show ?thesis using assms(1) on_record_ok [of "w_env w" f _ j] by (simp add: almost_def)
  qed
  show "last (rec_states (records (on_record j (close_record st reason) f) ! j)) \<noteq> St_Queued"
    if "j < length (records (on_record j (close_record st reason) f))"
    using assms that by (auto simp: almost_def frontier_ok_def record_ok_def closed_not_queued)
qed

lemma inv_merge_final:
  assumes "frontier_inv w tr f" and "merge_final_record i j f = (r, f')"
  shows "frontier_inv w tr f'"
proof -
  let ?g = "\<lambda>e. e\<lparr>rec_sources := fold add_source (rec_sources (records f ! i)) (rec_sources e),
      rec_depth := min (rec_depth e) (rec_depth (records f ! i))\<rparr>"
  have "frontier_inv w tr (on_record j ?g f)" by (rule inv_on_record [OF assms(1) mild_absorb]) simp
  then have "frontier_inv w tr (mark_failed i ''duplicate_final_url'' (on_record j ?g f))" by (rule inv_marks)
  then show ?thesis
    using assms(2) inv_marks(1) by (auto simp: merge_final_record_def Let_def split: if_splits)
qed

lemma inv_reconcile:
  assumes "frontier_inv w tr f" and "i < length (records f)" and "last (rec_states (records f ! i)) = St_Queued"
    and "reconcile_final (w_env w) i url safe robots f = Some (r, f')"
  shows "(r = None \<longrightarrow> frontier_inv w tr f') \<and> (\<forall>j. r = Some j \<longrightarrow> almost w tr j f')"
proof (cases rule: reconcile_cases [of "w_env w" i url safe robots f])
  case (rejected reason)
  then show ?thesis using assms inv_marks(2) [OF assms(1)] by simp
next
  case (merged n key j)
  then show ?thesis using assms inv_merge_final [OF assms(1), of i j] inv_almost by simp
next
  case (rebound n key)
  have ok: "frontier_ok (w_env w) f'" using reconcile_ok [OF _ assms(2-4)] assms(1) by (simp add: frontier_inv_def)
  obtain ks where f': "f' = (on_record i (\<lambda>r. r\<lparr>rec_url := n\<rparr>) f)\<lparr>by_key := ks\<rparr>" "r = Some i"
    using rebound assms(4) by (auto simp: rebind_record_def bind_eq_Some_conv)
  have "almost w tr i f'"
    using assms(1) ok f'(1) by (auto simp: almost_def frontier_inv_def queued_cleared_def)
  then show ?thesis using f'(2) by simp
qed

section \<open>Methods that change the frontier\<close>

definition keeps :: "site_world \<Rightarrow> operation \<Rightarrow> operation \<Rightarrow> bool" where
  "keeps w s t \<longleftrightarrow> (site_inv w s \<longrightarrow> site_inv w t)"

interpretation keeps: preorder_run "keeps w" for w
  by unfold_locales (auto simp: keeps_def)

lemma silent_keeps: "obeys (silent w) m \<Longrightarrow> obeys (keeps w) m"
  by (simp add: obeys_def silent_def keeps_def)

text \<open>From known events and a known frontier the method ends in the invariant.\<close>

definition lands :: "site_world \<Rightarrow> site_event set \<Rightarrow> frontier option \<Rightarrow> (operation, site_stop, 'a) eff \<Rightarrow> bool" where
  "lands w K F m \<longleftrightarrow> triple (knowing w K F) m (\<lambda>_. site_inv w) (\<lambda>_. site_inv w)"

lemma keeps_lands: "obeys (keeps w) m \<Longrightarrow> lands w K F m"
  unfolding lands_def triple_def
proof (intro allI impI)
  fix s assume k: "obeys (keeps w) m" "knowing w K F s"
  obtain r t where m: "m s = (r, t)" by fastforce
  then have "site_inv w t" using obeysD [OF k(1) m] k(2) by (simp add: keeps_def knowing_def)
  then show "case m s of (Returned a, s') \<Rightarrow> site_inv w s' | (Raised e, s') \<Rightarrow> site_inv w s'"
    using m by (cases r) simp_all
qed

lemma lands_keeps:
  assumes "\<And>F. lands w {} F m"
  shows "obeys (keeps w) m"
  unfolding obeys_def keeps_def
proof (intro allI impI)
  fix s assume i: "site_inv w s"
  obtain r t where m: "m s = (r, t)" by fastforce
  have "knowing w {} (op_frontier s) s" using i by (simp add: knowing_def)
  then show "site_inv w (snd (m s))"
    using assms [of "op_frontier s"] m unfolding lands_def by (cases r) (auto dest: tripleD)
qed

lemma lands_andthen:
  assumes "knows w K F m" and "\<And>a. lands w K F (k a)"
  shows "lands w K F (andthen m k)"
proof -
  have "triple (knowing w K F) m (\<lambda>_. knowing w K F) (\<lambda>_. site_inv w)"
    using assms(1) unfolding knows_def by (rule triple_weaken) (auto simp: knowing_def)
  then show ?thesis using assms(2) unfolding lands_def by (rule triple_andthen)
qed

lemma lands_then:
  assumes "lands w K F m" and "\<And>a. obeys (keeps w) (k a)"
  shows "lands w K F (andthen m k)"
  unfolding lands_def
proof (rule triple_andthen)
  show "triple (knowing w K F) m (\<lambda>_. site_inv w) (\<lambda>_. site_inv w)" using assms(1) by (simp add: lands_def)
  show "triple (site_inv w) (k a) (\<lambda>_. site_inv w) (\<lambda>_. site_inv w)" for a
  proof -
    have "site_inv w t" if "site_inv w s" "k a s = (r, t)" for s r t
      using obeysD [OF assms(2) that(2)] that(1) by (simp add: keeps_def)
    then show ?thesis by (auto simp: triple_def split: prod.split ending.split)
  qed
qed

lemma lands_forget: "lands w {} F m \<Longrightarrow> lands w K F m"
  unfolding lands_def by (erule triple_weaken) (auto simp: knowing_def)

lemma lands_bool:
  assumes "triple (knowing w K F) m (\<lambda>b. knowing w (if b then insert e K else K) F) (\<lambda>_. knowing w K F)"
    and "lands w (insert e K) F (k True)" and "lands w K F (k False)"
  shows "lands w K F (andthen m k)"
  unfolding lands_def
proof (rule triple_andthen)
  show "triple (knowing w K F) m (\<lambda>b. knowing w (if b then insert e K else K) F) (\<lambda>_. site_inv w)"
    using assms(1) by (rule triple_weaken) (auto simp: knowing_def)
  show "triple (knowing w (if b then insert e K else K) F) (k b) (\<lambda>_. site_inv w) (\<lambda>_. site_inv w)" for b
    using assms(2,3) by (cases b) (simp_all add: lands_def)
qed

lemma lands_or_raise:
  assumes "\<And>a. v = Some a \<Longrightarrow> lands w K F (k a)"
  shows "lands w K F (andthen (or_raise ex v) k)"
proof (cases v)
  case None
  then show ?thesis by (auto simp: lands_def triple_def knowing_def eff_defs)
next
  case (Some a)
  then have "andthen (or_raise ex v) k = k a" by (auto simp: eff_defs fun_eq_iff)
  then show ?thesis using assms Some by simp
qed

lemma lands_if: "(b \<Longrightarrow> lands w K F m) \<Longrightarrow> (\<not> b \<Longrightarrow> lands w K F m') \<Longrightarrow> lands w K F (if b then m else m')"
  by simp

lemma lands_option:
  "(v = None \<Longrightarrow> lands w K F m) \<Longrightarrow> (\<And>a. v = Some a \<Longrightarrow> lands w K F (f a)) \<Longrightarrow>
   lands w K F (case v of None \<Rightarrow> m | Some a \<Rightarrow> f a)"
  by (cases v) simp_all

lemma lands_ret: "lands w K F (ret a)" and lands_raise: "lands w K F (raise e)"
  by (intro keeps_lands keeps.obeys_ret keeps.obeys_raise)+

lemma look_run: "op_frontier s = Some f \<Longrightarrow> from_frontier h s = (Returned (h f), s)"
  by (simp add: from_frontier_def with_frontier_def eff_defs)

lemma lands_look:
  assumes "\<And>f. F = Some f \<Longrightarrow> lands w K F (k (h f))"
  shows "lands w K F (andthen (from_frontier h) k)"
  unfolding lands_def triple_def
proof (intro allI impI)
  fix s assume s: "knowing w K F s"
  show "case andthen (from_frontier h) k s of (Returned a, s') \<Rightarrow> site_inv w s' | (Raised e, s') \<Rightarrow> site_inv w s'"
  proof (cases F)
    case None
    then show ?thesis using s by (simp add: from_frontier_def with_frontier_def eff_defs knowing_def)
  next
    case (Some f)
    then have "from_frontier h s = (Returned (h f), s)" using s by (simp add: look_run knowing_def)
    then have "andthen (from_frontier h) k s = k (h f) s" by (simp add: andthen_def)
    then show ?thesis using assms Some s by (auto simp: lands_def triple_def)
  qed
qed

lemma calm_policy: "calm (Some f) (Some f') \<Longrightarrow> policy f' = policy f"
  by (simp add: calm_def)

lemma lands_with_frontier:
  assumes "\<And>f a f' tr. F = Some f \<Longrightarrow> g f = Some (a, f') \<Longrightarrow> K \<subseteq> set tr \<Longrightarrow> frontier_inv w tr f \<Longrightarrow> frontier_inv w tr f'"
    and "calm_update g"
  shows "lands w K F (with_frontier g)"
  unfolding lands_def triple_def
proof (intro allI impI)
  fix s assume s: "knowing w K F s"
  show "case with_frontier g s of (Returned a, s') \<Rightarrow> site_inv w s' | (Raised e, s') \<Rightarrow> site_inv w s'"
  proof (cases F)
    case None
    then show ?thesis using s by (simp add: with_frontier_def eff_defs knowing_def)
  next
    case (Some f)
    show ?thesis
    proof (cases "g f")
      case None
      then show ?thesis using s Some by (simp add: with_frontier_def eff_defs knowing_def)
    next
      case (Some r)
      have "frontier_inv w (op_trace s) (snd r)"
        using assms(1) [OF \<open>F = Some f\<close>, of "fst r" "snd r" "op_trace s"] Some s \<open>F = Some f\<close>
        by (simp add: knowing_def site_inv_def)
      moreover have "policy (snd r) = policy f"
        using assms(2) Some by (cases r) (simp add: calm_update_def calm_policy)
      ultimately show ?thesis using s Some \<open>F = Some f\<close> by (auto simp: with_frontier_def eff_defs knowing_def site_inv_def)
    qed
  qed
qed

lemma keeps_on_frontier:
  assumes "\<And>f tr. frontier_inv w tr f \<Longrightarrow> frontier_inv w tr (g f)" and "\<And>f. calm (Some f) (Some (g f))"
  shows "obeys (keeps w) (on_frontier g)"
  unfolding on_frontier_def
  by (rule lands_keeps, rule lands_with_frontier) (use assms in \<open>auto simp: calm_update_def\<close>)

text \<open>\<open>_admit\<close>: a URL that is queued without having been found safe is one that was normalised twice.\<close>

lemma discover_unchecked:
  assumes "policy_normalize env (policy f) c = Some n" and "rejection_reason env (policy f) n depth \<noteq> Some None \<or>
      (\<exists>k i. dedup_key_for env n = Some k \<and> by_key f k = Some i) \<or> is_full f"
    and "policy_normalize env (policy f) n = Some url" and "dedup_key_for env url = Some key" and "by_key f key = None"
    and "\<not> is_full f" and "admission_rejection env (policy f) url d = Some None" and "disc_depth d = depth"
  shows "page_cleared env (policy f) tr url"
proof -
  have "n \<noteq> url" using assms by (auto simp: admission_rejection_eq(2))
  then show ?thesis using assms(1,3) by (auto simp: page_cleared_def)
qed

lemma lands_discover:
  assumes "\<And>f url key tr. F = Some f \<Longrightarrow> K \<subseteq> set tr \<Longrightarrow> policy_normalize (w_env w) (policy f) c = Some url \<Longrightarrow>
      dedup_key_for (w_env w) url = Some key \<Longrightarrow> by_key f key = None \<Longrightarrow> \<not> is_full f \<Longrightarrow>
      admission_rejection (w_env w) (policy f) url d = Some None \<Longrightarrow> page_cleared (w_env w) (policy f) tr url"
  shows "lands w K F (with_frontier (discover (w_env w) c d))"
proof (rule lands_with_frontier)
  fix f a f' tr
  assume "F = Some f" "discover (w_env w) c d f = Some (a, f')" "K \<subseteq> set tr" "frontier_inv w tr f"
  then show "frontier_inv w tr f'" using assms by (intro inv_discover [of w tr f c d a f'])
qed simp

lemma keeps_admit: "obeys (keeps w) (admit w candidate source depth modified priority)"
proof (rule lands_keeps)
  fix F
  let ?disc = "discovery_of source depth modified priority" and ?env = "w_env w"
  show "lands w {} F (admit w candidate source depth modified priority)"
    unfolding admit_def Let_def
  proof (intro lands_if lands_look)
    show "lands w {} F (andthen (on_frontier (\<lambda>f. f\<lparr>non_http_urls_skipped := Suc (non_http_urls_skipped f)\<rparr>)) (\<lambda>_. ret None))"
      by (intro keeps_lands keeps.obeys_andthen keeps_on_frontier keeps.obeys_ret)
        (auto simp: frontier_inv_def queued_cleared_def skip_ok calm_def frontier_work_def)
  next
    fix f assume F: "F = Some f"
    show "lands w {} F (case policy_normalize ?env (policy (id f)) candidate of
           None \<Rightarrow> with_frontier (discover ?env candidate (?disc False False))
         | Some normalized \<Rightarrow>
             andthen (or_raise Value_Error (rejection_reason ?env (policy (id f)) normalized depth)) (\<lambda>rejected.
             if rejected \<noteq> None then with_frontier (discover ?env normalized (?disc True True))
             else
               andthen (or_raise Value_Error (is_known ?env (id f) normalized)) (\<lambda>known.
               if known \<or> is_full (id f) then with_frontier (discover ?env normalized (?disc True True))
               else
                 andthen (is_safe w normalized) (\<lambda>safe.
                 andthen (if safe then andthen (robots_for w normalized) (\<lambda>snap. robots_say w snap normalized)
                          else ret False) (\<lambda>allowed.
                 with_frontier (discover ?env normalized (?disc safe allowed)))))))"
    proof (intro lands_option lands_or_raise lands_if, goal_cases)
      case 1
      show ?case by (rule lands_discover) (simp add: admission_rejection_eq(2) discovery_of_def)
    next
      case (2 n rejected)
      show ?case
        by (rule lands_discover, rule discover_unchecked [where n = n and c = candidate and depth = depth])
          (use 2 F in \<open>auto simp: discovery_of_def\<close>)
    next
      case (3 n rejected known)
      show ?case
        by (rule lands_discover, rule discover_unchecked [where n = n and c = candidate and depth = depth])
          (use 3 F in \<open>auto simp: discovery_of_def is_known_def\<close>)
    next
      case (4 n rejected known)
      have robots: "knows w K F (andthen (robots_for w n) (\<lambda>snap. robots_say w snap n))" for K
        by (intro silent_knows silent.obeys_andthen silent_robots_for silent_emit)
      have unsafe: "lands w {} F (with_frontier (discover ?env n (?disc False allowed)))" for allowed
        by (rule lands_discover) (simp add: admission_rejection_eq(2) discovery_of_def)
      have safe: "lands w {Checked n True} F (with_frontier (discover ?env n (?disc True allowed)))" for allowed
      proof (rule lands_discover)
        fix f' url key tr
        assume f': "F = Some f'" and tr: "{Checked n True} \<subseteq> set tr" and url: "policy_normalize ?env (policy f') n = Some url"
        then show "page_cleared ?env (policy f') tr url"
          using 4(1) F by (cases "n = url") (auto simp: page_cleared_def)
      qed
      show ?case
        by (rule lands_bool [OF after_is_safe])
          (simp_all add: lands_andthen [OF robots safe] lands_andthen [OF silent_knows [OF silent.obeys_ret] unsafe])
    qed
  qed
qed

lemmas keeps_basic = keeps.obeys_andthen keeps.obeys_reads keeps.obeys_ret keeps.obeys_raise keeps.obeys_or_raise
  keeps.obeys_if keeps.obeys_option keeps.obeys_let keeps.obeys_for_each keeps_admit

lemma keeps_look: "obeys (keeps w) (from_frontier h)" "obeys (keeps w) (record_of i)"
  by (simp_all add: record_of_def from_frontier_def with_frontier_def obeys_def keeps_def eff_defs site_inv_def split: option.split)

lemma keeps_entries:
  "obeys (keeps w) (queue_sitemap_entries w doc depth queue visited)" "obeys (keeps w) (admit_links w d out)"
  "obeys (keeps w) (augment_search w)"
proof -
  have "obeys (keeps w) (modifies (\<lambda>s. s\<lparr>op_sitemap_documents := a s, op_sitemap_entries := b s, op_sitemap_truncated := c s\<rparr>))" for a b c
    by (intro silent_keeps silent_modifies; simp)
  then show "obeys (keeps w) (queue_sitemap_entries w doc depth queue visited)"
    unfolding queue_sitemap_entries_def admit_entry_def by (intro keeps_basic)
  show "obeys (keeps w) (admit_links w d out)"
    unfolding admit_links_def by (intro keeps_basic)
  have "obeys (keeps w) (check_cancelled w)" "obeys (keeps w) (awaited w)" "obeys (keeps w) (warning v)"
    "obeys (keeps w) (traces (Searched q))" for v q
    by (intro silent_keeps silent_calls silent_traces; simp)+
  then show "obeys (keeps w) (augment_search w)"
    unfolding augment_search_def the_effective_url_def by (intro keeps_basic)
qed

lemma keeps_sitemap_turn: "obeys (keeps w) (sitemap_turn w url depth queue visited)"
  unfolding sitemap_turn_def
  by (intro keeps_basic keeps_entries) (intro silent_keeps silent_calls silent_rest silent_fetch_sitemap)+

section \<open>Pages\<close>

text \<open>After \<open>_reconcile_final\<close>.\<close>

definition reconciled :: "site_world \<Rightarrow> nat option \<Rightarrow> operation \<Rightarrow> bool" where
  "reconciled w r s \<longleftrightarrow>
     (case r of
        None \<Rightarrow> site_inv w s
      | Some j \<Rightarrow> trace_ok w (map_option policy (op_frontier s)) (op_trace s) \<and>
          (\<exists>f. op_frontier s = Some f \<and> almost w (op_trace s) j f))"

lemma reconciled_None: "reconciled w None = site_inv w"
  by (simp add: reconciled_def fun_eq_iff)

lemma after_reconcile:
  assumes "i < length (records f)" and "last (rec_states (records f ! i)) = St_Queued"
  shows "triple (knowing w K (Some f)) (with_frontier (reconcile_final (w_env w) i url safe robots)) (reconciled w) (\<lambda>_. site_inv w)"
  unfolding triple_def
proof (intro allI impI)
  fix s assume s: "knowing w K (Some f) s"
  then have inv: "frontier_inv w (op_trace s) f" "trace_ok w (Some (policy f)) (op_trace s)" "op_frontier s = Some f"
    by (auto simp: knowing_def site_inv_def)
  show "case with_frontier (reconcile_final (w_env w) i url safe robots) s of
      (Returned a, s') \<Rightarrow> reconciled w a s' | (Raised e, s') \<Rightarrow> site_inv w s'"
  proof (cases "reconcile_final (w_env w) i url safe robots f")
    case None
    then show ?thesis using s inv by (simp add: with_frontier_def eff_defs knowing_def)
  next
    case (Some p)
    then have "reconcile_final (w_env w) i url safe robots f = Some (fst p, snd p)" by simp
    from inv_reconcile [OF inv(1) assms this] reconcile_calm [unfolded calm_update_def, rule_format, OF this] show ?thesis
      using Some inv by (cases "fst p") (auto simp: with_frontier_def eff_defs reconciled_def site_inv_def calm_policy)
  qed
qed

definition ends :: "site_world \<Rightarrow> frontier \<Rightarrow> nat option site \<Rightarrow> bool" where
  "ends w f m \<longleftrightarrow> triple (knowing w {} (Some f)) m (reconciled w) (\<lambda>_. site_inv w)"

lemma ends_andthen:
  assumes "knows w {} (Some f) m" and "\<And>a. ends w f (k a)"
  shows "ends w f (andthen m k)"
proof -
  have "triple (knowing w {} (Some f)) m (\<lambda>_. knowing w {} (Some f)) (\<lambda>_. site_inv w)"
    using assms(1) unfolding knows_def by (rule triple_weaken) (auto simp: knowing_def)
  then show ?thesis using assms(2) unfolding ends_def by (rule triple_andthen)
qed

lemma ends_look:
  assumes "ends w f (k (h f))"
  shows "ends w f (andthen (from_frontier h) k)"
  unfolding ends_def triple_def
proof (intro allI impI)
  fix s assume s: "knowing w {} (Some f) s"
  then have "andthen (from_frontier h) k s = k (h f) s"
    by (simp add: andthen_def look_run knowing_def)
  then show "case andthen (from_frontier h) k s of (Returned a, s') \<Rightarrow> reconciled w a s' | (Raised e, s') \<Rightarrow> site_inv w s'"
    using assms s by (auto simp: ends_def triple_def)
qed

lemma knows_option:
  "(v = None \<Longrightarrow> knows w K F m) \<Longrightarrow> (\<And>a. v = Some a \<Longrightarrow> knows w K F (g a)) \<Longrightarrow>
   knows w K F (case v of None \<Rightarrow> m | Some a \<Rightarrow> g a)"
  by (cases v) simp_all

lemma after_site_reconcile:
  assumes "i < length (records f)" and "last (rec_states (records f ! i)) = St_Queued"
  shows "ends w f (site_reconcile_final w i out)"
proof -
  have basic: "knows w {} (Some f) (or_raise ex v)" "knows w {} (Some f) (ret b)" "knows w {} (Some f) (is_safe w url)"
    "knows w {} (Some f) (andthen (robots_for w url) (\<lambda>snap. robots_say w snap url))"
    for ex and v :: "string option option" and b :: bool and url
    by (intro silent_knows silent.obeys_andthen silent_basic silent_emit silent_robots_for)+
  have final: "ends w f (with_frontier (reconcile_final (w_env w) i url safe robots))" for url safe robots
    unfolding ends_def by (rule after_reconcile [OF assms])
  show ?thesis
    unfolding site_reconcile_final_def Let_def
    by (intro ends_look ends_andthen knows_option knows_andthen basic)
      (auto intro!: ends_andthen knows_if basic final)
qed

text \<open>Marking the final record closes it.\<close>

lemma mark_reconciled:
  "triple (reconciled w (Some j)) (on_frontier (mark_fetched j)) (\<lambda>_. site_inv w) (\<lambda>_. site_inv w)"
  using almost_closed
  by (auto simp: triple_def mark_fetched_def reconciled_def on_frontier_def with_frontier_def eff_defs site_inv_def)

lemma keeps_triple: "obeys (keeps w) m \<Longrightarrow> triple (site_inv w) m (\<lambda>_. site_inv w) (\<lambda>_. site_inv w)"
proof -
  assume m: "obeys (keeps w) m"
  have "site_inv w t" if "site_inv w s" "m s = (r, t)" for s r t
    using obeysD [OF m that(2)] that(1) by (simp add: keeps_def)
  then show ?thesis by (auto simp: triple_def split: prod.split ending.split)
qed

lemma keeps_triple_iff: "triple (site_inv w) m (\<lambda>_. site_inv w) (\<lambda>_. site_inv w) \<Longrightarrow> obeys (keeps w) m"
  unfolding obeys_def keeps_def
proof (intro allI impI)
  fix s assume t: "triple (site_inv w) m (\<lambda>_. site_inv w) (\<lambda>_. site_inv w)" and s: "site_inv w s"
  obtain r u where "m s = (r, u)" by fastforce
  then show "site_inv w (snd (m s))" using t s by (cases r) (auto dest: tripleD)
qed

lemma keeps_emit_failure: "obeys (keeps w) (emit_failure w' url reason)"
  by (rule silent_keeps) (rule silent_emit)

lemma lands_finish_page:
  assumes "i < length (records f)" and "last (rec_states (records f ! i)) = St_Queued"
  shows "lands w {} (Some f) (finish_page w i out)"
  unfolding lands_def finish_page_def
proof (rule triple_andthen)
  show "triple (knowing w {} (Some f)) (site_reconcile_final w i out) (reconciled w) (\<lambda>_. site_inv w)"
    using after_site_reconcile [OF assms] by (simp add: ends_def)
  have none: "obeys (keeps w) (andthen (record_of i) (\<lambda>r.
          if rec_reason r \<noteq> Some ''duplicate_final_url''
          then emit_failure w (rec_url r) (text_or (rec_reason r) ''local_processing_failure'') else ret ()))"
    by (intro keeps_basic keeps_look keeps_emit_failure)
  have some: "obeys (keeps w) (andthen (maybe_content w out) (\<lambda>_.
          andthen (record_of j) (\<lambda>r.
          if site_sitemap (w_request w) \<noteq> Sitemap_Only \<and> rec_depth r < site_max_depth (w_request w)
          then admit_links w (rec_depth r + 1) out else ret ())))" for j
    by (intro keeps_basic keeps_look keeps_entries silent_keeps silent_rest)
  show "triple (reconciled w r) (case r of
        None \<Rightarrow>
          andthen (record_of i) (\<lambda>r.
          if rec_reason r \<noteq> Some ''duplicate_final_url''
          then emit_failure w (rec_url r) (text_or (rec_reason r) ''local_processing_failure'') else ret ())
      | Some j \<Rightarrow>
          andthen (on_frontier (mark_fetched j)) (\<lambda>_.
          andthen (maybe_content w out) (\<lambda>_.
          andthen (record_of j) (\<lambda>r.
          if site_sitemap (w_request w) \<noteq> Sitemap_Only \<and> rec_depth r < site_max_depth (w_request w)
          then admit_links w (rec_depth r + 1) out else ret ())))) (\<lambda>_. site_inv w) (\<lambda>_. site_inv w)" for r
  proof (cases r)
    case None
    then show ?thesis using keeps_triple [OF none] by (simp add: reconciled_None)
  next
    case (Some j)
    then show ?thesis using triple_andthen [OF mark_reconciled keeps_triple [OF some]] by simp
  qed
qed

lemma keeps_mark: "obeys (keeps w) (on_frontier (mark_failed i reason))"
  by (rule keeps_on_frontier) (simp_all add: inv_marks)

lemma lands_process_page:
  assumes "i < length (records f)" and "last (rec_states (records f ! i)) = St_Queued"
  shows "lands w {} (Some f) (process_page w i caps)"
  unfolding process_page_def record_of_def
proof (intro lands_look)
  fix f' assume "Some f = Some f'"
  then have f': "f' = f" by simp
  let ?url = "rec_url (records f ! i)"
  let ?K = "{Robots_Said ?url True}"
  have outs: "obeys (silent w) (modifies (\<lambda>s. s\<lparr>op_page_outcomes := h s\<rparr>))" for h
    by (intro silent_modifies; simp)
  have refused: "obeys (keeps w) (andthen (on_frontier (mark_failed i m)) (\<lambda>_. andthen (emit_failure w ?url m') (\<lambda>_. ret b)))"
    "obeys (keeps w) (andthen (on_frontier (mark_failed i m)) (\<lambda>_. emit_failure w ?url m'))" for m m' b
    by (intro keeps_basic keeps_mark keeps_emit_failure)+
  have fetch: "knows w ?K (Some f) (fetch_target w For_Page ?url caps (Some snap))" for snap
  proof (rule knows_fetch_target)
    fix s assume s: "knowing w ?K (Some f) s"
    then have inv: "frontier_inv w (op_trace s) f" by (auto simp: knowing_def site_inv_def)
    have r: "records f ! i \<in> set (records f)" using assms(1) by simp
    have ok: "frontier_ok (w_env w) f" using inv by (simp add: frontier_inv_def)
    then have "in_scope (w_env w) (policy f) (records f ! i)"
      using queued_admitted [OF ok assms] assms(1) by (auto simp: frontier_ok_def record_ok_def)
    then have "rejection_reason (w_env w) (policy f) ?url (rec_depth (records f ! i)) = Some None"
      by (simp add: in_scope_def)
    moreover have "page_cleared (w_env w) (policy f) (op_trace s) ?url"
      using inv r assms(2) by (auto simp: frontier_inv_def queued_cleared_def)
    ultimately show "event_ok w (map_option policy (Some f)) (op_trace s) (Fetching For_Page ?url caps)"
      using s inv by (auto simp: event_ok_def knowing_def frontier_inv_def)
  qed
  have judged: "lands w ?K (Some f)
         (if so_code out \<noteq> Content \<or> so_page out = None then
            andthen (on_frontier (mark_failed i (fetch_outcome_value (so_code out)))) (\<lambda>_.
            emit_failure w ?url (fetch_outcome_value (so_code out)))
          else finish_page w i out)" for out
    by (rule lands_if) (rule keeps_lands [OF refused(2)], rule lands_forget [OF lands_finish_page [OF assms]])
  have allowed: "lands w ?K (Some f)
      (andthen (fetch_target w For_Page ?url caps (Some snap)) (\<lambda>out.
       andthen (modifies (\<lambda>s. s\<lparr>op_page_outcomes := op_page_outcomes s @ [out]\<rparr>)) (\<lambda>_.
       andthen
         (if so_code out \<noteq> Content \<or> so_page out = None then
            andthen (on_frontier (mark_failed i (fetch_outcome_value (so_code out)))) (\<lambda>_.
            emit_failure w ?url (fetch_outcome_value (so_code out)))
          else finish_page w i out) (\<lambda>_. ret True))))" for snap
    by (rule lands_andthen [OF fetch], rule lands_andthen [OF silent_knows [OF outs]], rule lands_then [OF judged])
      (rule keeps.obeys_ret)
  show "lands w {} (Some f) (andthen (robots_for w (rec_url (records f' ! i))) (\<lambda>snap.
     andthen (robots_say w snap (rec_url (records f' ! i))) (\<lambda>allowed.
     if \<not> allowed then
       andthen (on_frontier (mark_failed i ''robots_refused'')) (\<lambda>_.
       andthen (emit_failure w (rec_url (records f' ! i)) ''robots_refused'') (\<lambda>_. ret False))
     else
       andthen (fetch_target w For_Page (rec_url (records f' ! i)) caps (Some snap)) (\<lambda>out.
       andthen (modifies (\<lambda>s. s\<lparr>op_page_outcomes := op_page_outcomes s @ [out]\<rparr>)) (\<lambda>_.
       andthen
         (if so_code out \<noteq> Content \<or> so_page out = None then
            andthen (on_frontier (mark_failed i (fetch_outcome_value (so_code out)))) (\<lambda>_.
            emit_failure w (rec_url (records f' ! i)) (fetch_outcome_value (so_code out)))
          else finish_page w i out) (\<lambda>_. ret True))))))"
    unfolding f'
    by (rule lands_andthen [OF silent_knows [OF silent_robots_for]], rule lands_bool [OF after_robots_say])
      (simp_all only: not_True_eq_False not_False_eq_True if_True if_False allowed keeps_lands [OF refused(1)])
qed

text \<open>One turn of the page loop.\<close>

lemma keeps_process_popped:
  assumes "\<And>f. F = Some f \<Longrightarrow> i < length (records f) \<and> last (rec_states (records f ! i)) = St_Queued"
  shows "lands w {} F (process_page w i caps)"
proof (cases F)
  case None
  then show ?thesis unfolding process_page_def record_of_def by (intro lands_look) simp
next
  case (Some f)
  then show ?thesis using lands_process_page assms by blast
qed

lemma lands_turn_body:
  assumes "\<And>f. F = Some f \<Longrightarrow> i < length (records f)"
  shows "lands w {} F
     (andthen (record_of i) (\<lambda>r.
      if last (rec_states r) \<noteq> St_Queued then ret (True, attempts)
      else if int attempts \<ge> max_pages w then
        andthen (on_frontier (\<lambda>f. cancel_queued (mark_cancelled i ''page_limit_reached'' f))) (\<lambda>_.
        andthen (modifies (\<lambda>s. s\<lparr>op_page_limit_reached := True\<rparr>)) (\<lambda>_. ret (False, attempts)))
      else
        andthen (process_page w i caps) (\<lambda>made. ret (True, if made then Suc attempts else attempts))))"
proof -
  have limit: "obeys (keeps w) (andthen (on_frontier (\<lambda>f. cancel_queued (mark_cancelled i ''page_limit_reached'' f))) (\<lambda>_.
        andthen (modifies (\<lambda>s. s\<lparr>op_page_limit_reached := True\<rparr>)) (\<lambda>_. ret (False, attempts))))"
    by (intro keeps.obeys_andthen keeps_on_frontier keeps.obeys_ret inv_cancel_queued inv_marks
        calm_trans [OF marks_calm(3) cancel_queued_calm] silent_keeps silent_modifies; simp)
  show ?thesis
    unfolding record_of_def
    by (intro lands_look lands_if lands_ret keeps_lands [OF limit])
      (rule lands_then [OF keeps_process_popped keeps.obeys_ret], use assms in auto)
qed

lemma keeps_popped:
  assumes "\<And>i F. (\<And>f. F = Some f \<Longrightarrow> i < length (records f)) \<Longrightarrow> lands w {} F (g i)"
  shows "obeys (keeps w) (andthen (with_frontier (\<lambda>f. Some (frontier_pop f)))
     (\<lambda>popped. case popped of None \<Rightarrow> ret v | Some i \<Rightarrow> g i))"
  unfolding obeys_def keeps_def
proof (intro allI impI)
  fix s assume s: "site_inv w s"
  show "site_inv w (snd (andthen (with_frontier (\<lambda>f. Some (frontier_pop f)))
     (\<lambda>popped. case popped of None \<Rightarrow> ret v | Some i \<Rightarrow> g i) s))"
  proof (cases "op_frontier s")
    case None
    then show ?thesis using s by (simp add: with_frontier_def eff_defs)
  next
    case (Some f)
    then have inv: "frontier_inv w (op_trace s) f" using s by (simp add: site_inv_def)
    obtain r f' where pop: "frontier_pop f = (r, f')" by fastforce
    let ?s = "s\<lparr>op_frontier := Some f'\<rparr>"
    have "policy f' = policy f" using pop by (auto simp: frontier_pop_def split: list.splits)
    then have inv': "site_inv w ?s" using inv_pop [OF inv pop] s Some by (simp add: site_inv_def)
    show ?thesis
    proof (cases r)
      case None
      then show ?thesis using Some pop inv' by (simp add: with_frontier_def eff_defs)
    next
      case (Some i)
      have "i < length (records f')" using pop_ok(2) pop Some inv by (auto simp: frontier_inv_def)
      then have "lands w {} (Some f') (g i)" by (intro assms) simp
      moreover have "knowing w {} (Some f') ?s" using inv' by (simp add: knowing_def)
      moreover obtain x t where "g i ?s = (x, t)" by fastforce
      ultimately have "site_inv w (snd (g i ?s))" by (cases x) (auto simp: lands_def dest: tripleD)
      then show ?thesis using Some pop \<open>op_frontier s = Some f\<close> by (simp add: with_frontier_def eff_defs)
    qed
  qed
qed

lemma keeps_page_turn: "obeys (keeps w) (page_turn w caps attempts)"
  unfolding page_turn_def
  by (rule keeps.obeys_andthen [OF silent_keeps [OF silent_calls(4)]], rule keeps_popped, rule lands_turn_body) simp

section \<open>Loops\<close>

lemma keeps_loops:
  "obeys (keeps w) (load_loop w queue visited)" "obeys (keeps w) (crawl_loop w caps attempts)"
proof -
  have "triple (\<lambda>s. site_inv w s \<and> more_sitemaps w s) (sitemap_turn w url depth rest visited) (\<lambda>_. site_inv w) (\<lambda>_. site_inv w)"
    for url depth rest visited
    by (rule triple_weaken [OF keeps_triple [OF keeps_sitemap_turn]]) simp_all
  then show "obeys (keeps w) (load_loop w queue visited)" by (intro keeps_triple_iff triple_load_loop)
  show "obeys (keeps w) (crawl_loop w caps attempts)"
    by (rule keeps_triple_iff, rule triple_crawl_loop, rule keeps_triple [OF keeps_page_turn])
qed

lemma keeps_loading: "obeys (keeps w) (load_sitemaps w snap)" "obeys (keeps w) (crawl_pages w caps)"
  unfolding load_sitemaps_def crawl_pages_def
  by (intro keeps_basic keeps_loops silent_keeps silent_rest)+

section \<open>The answer\<close>

lemma silent_response: "obeys (silent w) (response_records w')" "obeys (silent w) (response_results w')"
  unfolding response_records_def response_results_def
  by (intro silent_basic silent.obeys_pair silent_modifies; simp)+

lemma silent_answer: "obeys (silent w) (site_answer w' outcome)" "obeys (silent w) (answer_early w' outcome)"
  unfolding answer_early_def site_answer_def by (intro silent_basic silent_response)+

lemma keeps_after_seed: "obeys (keeps w) (after_seed w seed snap)"
  unfolding after_seed_def Let_def
  by (intro keeps_basic keeps_loading keeps_entries silent_keeps silent_answer)

section \<open>The seed\<close>

lemma policy_for_valid: "policy_for r effective = Some p \<Longrightarrow> policy_valid p"
  by (auto simp: policy_for_def new_policy_def split: if_splits)

lemma event_ok_early: "event_ok w None before e \<Longrightarrow> event_ok w (Some p) before e"
  by (auto simp: event_ok_def split: site_event.splits fetch_purpose.splits)

lemma lands_open_frontier: "lands w K None (open_frontier w effective)"
proof -
  have inv: "frontier_inv w tr (new_frontier p)" if "policy_for (w_request w) effective = Some p" for tr p
    using that frontier_ok_new [OF policy_for_valid [OF that], of "w_env w"]
    by (auto simp: frontier_inv_def queued_cleared_def new_frontier_def)
  have "trace_ok w (Some p) tr" if "trace_ok w None tr" for p tr using that by (simp add: trace_ok_def event_ok_early)
  then show ?thesis
    unfolding open_frontier_def
    by (cases "policy_for (w_request w) effective")
      (auto simp: lands_def triple_def knowing_def eff_defs site_inv_def inv)
qed

lemma almost_discover:
  assumes "frontier_inv w tr f" and "discover (w_env w) c d f = Some (found, f')"
  shows "(found = None \<longrightarrow> frontier_inv w tr f') \<and> (\<forall>j. found = Some j \<longrightarrow> almost w tr j f')"
proof (cases "\<exists>url key. policy_normalize (w_env w) (policy f) c = Some url \<and> dedup_key_for (w_env w) url = Some key \<and>
    by_key f key = None \<and> \<not> is_full f \<and> admission_rejection (w_env w) (policy f) url d = Some None")
  case False
  then have "frontier_inv w tr f'" by (intro inv_discover [OF assms]) blast
  then show ?thesis using inv_almost by blast
next
  case True
  have ok: "frontier_ok (w_env w) f'" using discover_ok [OF _ assms(2)] assms(1) by (simp add: frontier_inv_def)
  show ?thesis
    using True assms ok
    by (cases rule: discover_cases [of "w_env w" f c d])
      (auto simp: almost_def frontier_inv_def queued_cleared_def nth_append less_Suc_eq)
qed

lemma after_discover:
  "triple (site_inv w) (with_frontier (discover (w_env w) c d)) (reconciled w) (\<lambda>_. site_inv w)"
  unfolding triple_def
proof (intro allI impI)
  fix s assume s: "site_inv w s"
  show "case with_frontier (discover (w_env w) c d) s of
      (Returned a, s') \<Rightarrow> reconciled w a s' | (Raised e, s') \<Rightarrow> site_inv w s'"
  proof (cases "op_frontier s")
    case None
    then show ?thesis using s by (simp add: with_frontier_def eff_defs)
  next
    case (Some f)
    obtain found f' where d: "discover (w_env w) c d f = Some (found, f')"
      using discover_returns [of "w_env w" c d f] by auto
    have "frontier_inv w (op_trace s) f" using s Some by (simp add: site_inv_def)
    moreover have "policy f' = policy f" using discover_calm d by (auto simp: calm_update_def calm_policy)
    ultimately show ?thesis
      using almost_discover [OF _ d] s Some d
      by (cases found) (auto simp: with_frontier_def eff_defs reconciled_def site_inv_def)
  qed
qed

lemma close_seed:
  "triple (reconciled w (Some i)) (andthen (record_of i) (\<lambda>r.
     if last (rec_states r) = St_Queued then on_frontier (\<lambda>f. mark_failed i code (snd (frontier_pop f))) else ret ()))
   (\<lambda>_. site_inv w) (\<lambda>_. site_inv w)"
  unfolding triple_def
proof (intro allI impI)
  fix s assume s: "reconciled w (Some i) s"
  then obtain f where f: "op_frontier s = Some f" "almost w (op_trace s) i f" "trace_ok w (Some (policy f)) (op_trace s)"
    by (auto simp: reconciled_def)
  obtain r f' where pop: "frontier_pop f = (r, f')" by fastforce
  have "records f' = records f" "policy f' = policy f"
    using pop by (auto simp: frontier_pop_def split: list.splits)
  then have f': "almost w (op_trace s) i f'" "policy f' = policy f" using f(2) pop_ok(1) [OF _ pop] by (simp_all add: almost_def)
  then have "frontier_inv w (op_trace s) (mark_failed i code f')" by (simp add: mark_failed_def almost_closed)
  moreover have "policy (mark_failed i code f') = policy f" using f'(2) calm_policy [OF marks_calm(2)] by simp
  ultimately show "case andthen (record_of i) (\<lambda>r. if last (rec_states r) = St_Queued
        then on_frontier (\<lambda>f. mark_failed i code (snd (frontier_pop f))) else ret ()) s of
      (Returned a, s') \<Rightarrow> site_inv w s' | (Raised e, s') \<Rightarrow> site_inv w s'"
    using f pop almost_not_queued [OF f(2)]
    by (auto simp: record_of_def from_frontier_def on_frontier_def with_frontier_def eff_defs site_inv_def)
qed

lemma silent_effective: "obeys (silent w) (set_effective w' e)"
  unfolding set_effective_def by (intro silent_modifies; simp)

lemma lands_record_seed_failure: "lands w {} None (record_seed_failure w out)"
proof -
  have outs: "obeys (keeps w) (modifies (\<lambda>s. s\<lparr>op_page_outcomes := op_page_outcomes s @ [out]\<rparr>))"
    by (intro silent_keeps silent_modifies; simp)
  have rest: "obeys (keeps w) (andthen (modifies (\<lambda>s. s\<lparr>op_page_outcomes := op_page_outcomes s @ [out]\<rparr>)) (\<lambda>_.
      andthen (emit_failure w url code) (\<lambda>_. ret a)))" for url code a
    by (intro keeps_basic outs keeps_emit_failure)
  have found: "obeys (keeps w) (andthen (with_frontier (discover (w_env w) e d)) (\<lambda>found. andthen (case found of
          None \<Rightarrow> ret ()
        | Some i \<Rightarrow> andthen (record_of i) (\<lambda>r.
            if last (rec_states r) = St_Queued
            then on_frontier (\<lambda>f. mark_failed i code (snd (frontier_pop f))) else ret ())) (\<lambda>_.
      andthen (modifies (\<lambda>s. s\<lparr>op_page_outcomes := op_page_outcomes s @ [out]\<rparr>)) (\<lambda>_.
      andthen (emit_failure w url code) (\<lambda>_. ret a)))))" for e d code url a
  proof (rule keeps_triple_iff, rule triple_andthen [OF after_discover], rule triple_andthen)
    fix found
    show "triple (reconciled w found) (case found of
          None \<Rightarrow> ret ()
        | Some i \<Rightarrow> andthen (record_of i) (\<lambda>r.
            if last (rec_states r) = St_Queued
            then on_frontier (\<lambda>f. mark_failed i code (snd (frontier_pop f))) else ret ())) (\<lambda>_. site_inv w) (\<lambda>_. site_inv w)"
      using close_seed by (cases found) (simp_all add: reconciled_None triple_ret)
  qed (rule keeps_triple [OF rest])
  show ?thesis
    unfolding record_seed_failure_def Let_def
    by (rule lands_andthen [OF silent_knows [OF silent_effective]], rule lands_then [OF lands_open_frontier], rule found)
qed

lemma lands_admit_seed: "lands w {} None (admit_seed w effective seed)"
proof -
  have fetched: "obeys (keeps w) (on_frontier (\<lambda>f. mark_fetched i (snd (frontier_pop f))))" for i
  proof (rule keeps_on_frontier)
    show "frontier_inv w tr (mark_fetched i (snd (frontier_pop f)))" if "frontier_inv w tr f" for tr f
      using that by (metis inv_marks(1) inv_pop surjective_pairing)
    show "calm (Some f) (Some (mark_fetched i (snd (frontier_pop f))))" for f
      using pop_calm [unfolded calm_update_def, rule_format, of f "fst (frontier_pop f)" "snd (frontier_pop f)"]
      by (intro calm_trans [OF _ marks_calm(1)]) simp
  qed
  have "obeys (keeps w) (modifies (\<lambda>s. s\<lparr>op_page_outcomes := op_page_outcomes s @ [seed]\<rparr>))"
    by (intro silent_keeps silent_modifies; simp)
  then show ?thesis
    unfolding admit_seed_def
    by (intro lands_then [OF lands_open_frontier] keeps_basic keeps_look fetched silent_keeps [OF silent_answer(2)]
        silent_keeps [OF silent_robots_for] silent_keeps [OF silent_rest(3)])
qed

lemma lands_prepare_seed: "lands w {} None (prepare_seed w)"
proof -
  let ?url = "site_url (w_request w)"
  let ?judged = "\<lambda>seed. if so_code seed \<noteq> Content \<or> so_page seed = None
        then andthen (record_seed_failure w seed) (answer_early w)
        else andthen (set_effective w (text_or (so_final_url seed) ?url)) (\<lambda>_.
           if site_origin (w_env w) (text_or (so_final_url seed) ?url) = None then answer_early w ''unsafe_redirect''
           else admit_seed w (text_or (so_final_url seed) ?url) seed)"
  have fetch: "knows w {Checked ?url True} F (fetch_target w For_Seed ?url caps None)" for F caps
    by (rule knows_fetch_target) (auto simp: knowing_def event_ok_def)
  have unsafe: "obeys (keeps w) (andthen (emit_failure w ?url ''unsafe_seed'') (\<lambda>_. answer_early w ''unsafe_seed''))"
    by (intro keeps_basic keeps_emit_failure silent_keeps silent_answer)
  have answer: "obeys (keeps w) (answer_early w outcome)" for outcome by (rule silent_keeps [OF silent_answer(2)])
  have judged: "lands w K None (?judged seed)" for K seed
    by (rule lands_forget, rule lands_if, rule lands_then [OF lands_record_seed_failure answer],
        rule lands_andthen [OF silent_knows [OF silent_effective]], rule lands_if, rule keeps_lands [OF answer], rule lands_admit_seed)
  show ?thesis
    unfolding prepare_seed_def Let_def
  proof (rule lands_bool [OF after_is_safe])
    show "lands w (insert (Checked ?url True) {}) None (if \<not> True then andthen (emit_failure w ?url ''unsafe_seed'') (\<lambda>_. answer_early w ''unsafe_seed'')
        else andthen (fetch_target w For_Seed ?url (seed_capabilities (w_call w)) None) ?judged)"
      by (simp only: not_True_eq_False if_False) (rule lands_andthen [OF fetch judged])
  qed (simp only: not_False_eq_True if_True keeps_lands [OF unsafe])
qed

lemma lands_site_run: "lands w {} None (site_run w)"
  unfolding site_run_def
proof (rule lands_andthen [OF silent_knows [OF silent_calls(4)]], rule lands_then [OF lands_prepare_seed])
  show "obeys (keeps w) (case res of Early r \<Rightarrow> ret r | Seeded seed snap \<Rightarrow> after_seed w seed snap)" for res
    by (cases res) (simp_all add: keeps.obeys_ret keeps_after_seed)
qed

lemma site_inv_run: "site_inv w (snd (site_run w (new_operation w cache)))"
proof -
  have "knowing w {} None (new_operation w cache)"
    by (simp add: knowing_def site_inv_def new_operation_def trace_ok_def)
  moreover obtain r t where "site_run w (new_operation w cache) = (r, t)" by fastforce
  ultimately show ?thesis
    using lands_site_run [of w] unfolding lands_def by (cases r) (auto dest: tripleD)
qed

section \<open>The requests of an operation\<close>

text \<open>
  C32. A map or crawl of a site makes no request it has not cleared, whatever the services answer and however
  it ends: before the seed, a robots.txt or a sitemap is requested its URL has been found safe; before a
  sitemap or a page is requested its robots.txt has allowed it; and a page that is requested is in the scope
  of the crawl and has been found safe, unless its URL is what a second normalisation made of a normalised URL.
\<close>

theorem site_requests_allowed:
  assumes "op_trace s = before @ Fetching purpose url caps # after" and "s = snd (site_run w (new_operation w cache))"
  shows "(purpose \<noteq> For_Page \<longrightarrow> Checked url True \<in> set before) \<and>
    (purpose \<in> {For_Sitemap, For_Page} \<longrightarrow> Robots_Said url True \<in> set before) \<and>
    (purpose = For_Page \<longrightarrow>
      (\<exists>f effective depth. op_frontier s = Some f \<and> policy_for (w_request w) effective = Some (policy f) \<and>
         rejection_reason (w_env w) (policy f) url depth = Some None \<and>
         (Checked url True \<in> set before \<or>
          (\<exists>c n. policy_normalize (w_env w) (policy f) c = Some n \<and> n \<noteq> url \<and>
             policy_normalize (w_env w) (policy f) n = Some url))))"
proof -
  have inv: "site_inv w s" using site_inv_run assms(2) by simp
  then have "event_ok w (map_option policy (op_frontier s)) (take (length before) (op_trace s)) (op_trace s ! length before)"
    using assms(1) unfolding site_inv_def trace_ok_def by (metis add_diff_cancel_left' append_take_drop_id length_append length_drop length_greater_0_conv list.distinct(1) zero_less_diff)
  then have ok: "event_ok w (map_option policy (op_frontier s)) before (Fetching purpose url caps)" using assms(1) by simp
  show ?thesis
  proof (cases "purpose = For_Page")
    case True
    then obtain f depth where f: "op_frontier s = Some f" "Robots_Said url True \<in> set before"
        "page_cleared (w_env w) (policy f) before url" "rejection_reason (w_env w) (policy f) url depth = Some None"
      using ok by (auto simp: event_ok_def)
    moreover obtain effective where "policy_for (w_request w) effective = Some (policy f)"
      using inv f(1) by (auto simp: site_inv_def frontier_inv_def)
    ultimately show ?thesis using True unfolding page_cleared_def by blast
  next
    case False
    then show ?thesis using ok by (cases purpose) (simp_all add: event_ok_def)
  qed
qed

text \<open>A run that ends at the deadline, while the page its seed links to is being fetched.\<close>

definition demo_request :: site_request where
  "demo_request = \<lparr>site_url = ''http://a.b/'', site_sitemap = Sitemap_Skip, site_max_depth = 1, site_max_pages = 2,
     site_max_discovered_urls = 9, site_include_parent_paths = False, site_include_subdomains = False,
     site_include_paths = [], site_exclude_paths = [], site_query_parameters = Query_Strip,
     site_allowed_file_extensions = [[]], site_include_search = False\<rparr>"

definition demo_answer :: "string \<Rightarrow> stage_outcome" where
  "demo_answer url = (no_outcome url)\<lparr>so_code := Content, so_status_code := Some 200,
     so_links := [(''internal'', JList [JObj [(''href'', JStr ''http://a.b/x'')]])],
     so_page := Some \<lparr>page_markdown = [], page_html = None, page_raw_html = None, page_content_type = None\<rparr>\<rparr>"

definition demo_robots :: robots_snapshot where
  "demo_robots = closed_snapshot ''http://a.b'' ''bot'' Unavailable 0 ''client_error''"

definition demo_world :: site_world where
  "demo_world = \<lparr>w_call = Map_Call demo_request, w_job = False, w_env = demo_url_env, w_safe = (\<lambda>n url. True),
     w_fetch = (\<lambda>n url caps html. Some (demo_answer url)), w_search = (\<lambda>n q. None), w_time = (\<lambda>n. 0),
     w_cancelled = (\<lambda>n. False), w_deadline = (\<lambda>n. 7 < n), w_callback_fails = (\<lambda>n. False),
     w_wire = (\<lambda>n out. undefined), w_html = (\<lambda>t. []),
     w_sitemaps = \<lparr>from_xml = (\<lambda>t. None), iso_date = (\<lambda>t. None), iso_datetime = (\<lambda>t. None)\<rparr>,
     w_http_date = (\<lambda>t. None), w_record_bytes = (\<lambda>r. 1), w_result_bytes = (\<lambda>r. 1), w_agent = ''bot'',
     w_robots_ttl = 60, w_max_robots_bytes = 100, w_max_sitemap_bytes = 100, w_max_sitemap_entries = 10,
     w_max_sitemap_documents = 1, w_max_internal_fanout = 5, w_max_response_body_bytes = 1000, w_site_max_cooldown_s = 60\<rparr>"

definition demo_site_policy :: crawl_policy where
  "demo_site_policy = \<lparr>effective_url = ''http://a.b/'', max_depth = 1, max_discovered_urls = 9,
     include_parent_paths = False, include_subdomains = False, include_paths = [], exclude_paths = [],
     query_policy = ''strip'', allowed_file_extensions = [[]]\<rparr>"

lemma demo_world_simps [simp]:
  "w_call demo_world = Map_Call demo_request" "w_job demo_world = False" "w_env demo_world = demo_url_env"
  "w_safe demo_world n url = True" "w_fetch demo_world n url caps html = Some (demo_answer url)" "w_time demo_world n = 0"
  "w_deadline demo_world n = (7 < n)" "w_robots_ttl demo_world = 60" "w_site_max_cooldown_s demo_world = 60"
  "site_url demo_request = ''http://a.b/''" "site_sitemap demo_request = Sitemap_Skip" "\<not> site_include_search demo_request"
  "site_max_depth demo_request = 1" "site_max_pages demo_request = 2" "max_pages demo_world = 2"
  "max_discovered_urls demo_site_policy = 9" "so_code (demo_answer url) = Content" "so_page (demo_answer url) \<noteq> None"
  "so_final_url (demo_answer url) = None" "so_status_code (demo_answer url) = Some 200" "so_retry_after (demo_answer url) = None"
  "outcome_links (demo_answer url) = [''http://a.b/x'']"
  by (simp_all add: demo_world_def demo_request_def max_pages_def demo_answer_def no_outcome_def demo_site_policy_def
      outcome_links_def category_items_def jget_def add_link_def item_href_def)

lemma demo_urls:
  "policy_for demo_request ''http://a.b/'' = Some demo_site_policy"
  "host_for demo_url_env ''http://a.b/'' = Some ''a.b''" "host_for demo_url_env ''http://a.b/x'' = Some ''a.b''"
  "candidate_scheme ''http://a.b/'' = ''http''" "candidate_scheme ''http://a.b/x'' = ''http''"
  "site_origin demo_url_env ''http://a.b/'' = Some ''http://a.b''" "site_origin demo_url_env ''http://a.b/x'' = Some ''http://a.b''"
  "rejection_reason demo_url_env demo_site_policy ''http://a.b/'' 0 = Some None"
  "rejection_reason demo_url_env demo_site_policy ''http://a.b/x'' 1 = Some None"
  "robots_allows demo_robots ''http://a.b/'' = Some True" "robots_allows demo_robots ''http://a.b/x'' = Some True"
  "dedup_key_for demo_url_env ''http://a.b/'' = Some ''http://a.b/''" "dedup_key_for demo_url_env ''http://a.b/x'' = Some ''http://a.b/x''"
  "policy_normalize demo_url_env demo_site_policy ''http://a.b/'' = Some ''http://a.b/''"
  "policy_normalize demo_url_env demo_site_policy ''http://a.b/x'' = Some ''http://a.b/x''"
  by code_simp+

text \<open>Evaluation goes from the first step to the last: what follows a step is not looked at before.\<close>

lemma andthen_lazy: "andthen m f = andthen m f"
  by (rule refl)

lemmas run_defs = ret_def raise_def andthen_def reads_def modifies_def or_raise_def Let_def text_or_def check_cancelled_def
  is_safe_def awaited_def next_call_def traces_def fetch_target_def prepare_seed_def set_effective_def open_frontier_def
  admit_seed_def robots_for_def robots_get_def admit_def from_frontier_def on_frontier_def with_frontier_def robots_say_def
  record_of_def maybe_content_def store_robots_def discover_def discovery_of_def is_known_def admission_rejection_def
  is_full_def new_frontier_def frontier_pop_def mark_fetched_def on_record_def new_record_def close_record_def
  closed_record_def after_seed_def admit_links_def crawl_pages_def crawl_loop.simps page_turn_def process_page_def
  site_run_def new_operation_def

lemma demo_run:
  "op_trace (snd (site_run demo_world (new_operation demo_world [''http://a.b'' \<mapsto> demo_robots]))) =
     [Checked ''http://a.b/'' True, Waited ''a.b'' None, Fetching For_Seed ''http://a.b/'' map_capabilities,
      Noted ''a.b'' (Some 200) None, Checked ''http://a.b/'' True, Robots_Said ''http://a.b/'' True,
      Checked ''http://a.b/x'' True, Robots_Said ''http://a.b/x'' True, Robots_Said ''http://a.b/x'' True,
      Waited ''a.b'' (snap_delay demo_robots)] @ Fetching For_Page ''http://a.b/x'' map_capabilities # []"
proof -
  have "parse_retry_after d t m None = Some None" for d t m by (simp add: parse_retry_after_def)
  moreover have "fetched_at demo_robots + robots_ttl 60 demo_robots > 0"
    by (simp add: demo_robots_def closed_snapshot_def robots_ttl_def)
  moreover have "seed_capabilities (Map_Call demo_request) = map_capabilities" by (simp add: seed_capabilities_def)
  ultimately show ?thesis by (simp add: run_defs demo_urls cong: andthen_lazy)
qed

text \<open>
  What the exception is about: normalising is not idempotent, so a link can be rejected in its first normal form,
  without a look at its safety or at robots.txt, and be queued in its second.
\<close>

lemma demo_twice:
  "policy_normalize demo_url_env demo_policy ''http://a.b/d/x.html;/%2e'' = Some ''http://a.b/d/x.html;''"
  "rejection_reason demo_url_env demo_policy ''http://a.b/d/x.html;'' 1 = Some (Some ''unsupported_file_type'')"
  "policy_normalize demo_url_env demo_policy ''http://a.b/d/x.html;'' = Some ''http://a.b/d/x.html''"
  "rejection_reason demo_url_env demo_policy ''http://a.b/d/x.html'' 1 = Some None"
  by code_simp+

theorem site_requests_allowed_witness:
  "\<exists>s f. s = snd (site_run demo_world (new_operation demo_world [''http://a.b'' \<mapsto> demo_robots])) \<and> op_frontier s = Some f \<and>
     Fetching For_Page ''http://a.b/x'' map_capabilities \<in> set (op_trace s) \<and>
     (\<exists>depth. rejection_reason demo_url_env (policy f) ''http://a.b/x'' depth = Some None)"
  using site_requests_allowed [OF demo_run refl] by (auto simp: demo_run)

end
