(* ===== verification/Site_Budget.thy ===== *)
theory Site_Budget
  imports Site_Run
begin

text \<open>
  How many requests a site operation makes.  Most methods leave the count of a purpose alone, whatever the
  relation is in which the count is kept; the locale proves that once.  The loops are then followed by hand.
\<close>

lemma andthen_assoc: "andthen m (\<lambda>a. andthen (f a) g) = andthen (andthen m f) g"
  by (auto simp: andthen_def fun_eq_iff split: prod.split ending.split)

section \<open>Counting\<close>

definition is_fetching :: "fetch_purpose \<Rightarrow> site_event \<Rightarrow> bool" where
  "is_fetching p e = (case e of Fetching q _ _ \<Rightarrow> q = p | _ \<Rightarrow> False)"

definition requests_made :: "fetch_purpose \<Rightarrow> operation \<Rightarrow> nat" where
  "requests_made p s = length (filter (is_fetching p) (op_trace s))"

text \<open>What the budgets are about.\<close>

definition spent :: "operation \<Rightarrow> (fetch_purpose \<Rightarrow> nat) \<times> nat \<times> nat" where
  "spent s = (\<lambda>p. requests_made p s, op_robots_documents_attempted s, op_sitemap_documents_attempted s)"

lemma spent_fetching:
  "requests_made p (s\<lparr>op_trace := op_trace s @ [Fetching q url caps]\<rparr>) = requests_made p s + (if p = q then 1 else 0)"
  by (simp add: requests_made_def is_fetching_def)

lemma spent_event:
  assumes "\<And>q url caps. e \<noteq> Fetching q url caps"
  shows "spent (s\<lparr>op_trace := op_trace s @ [e]\<rparr>) = spent s"
proof -
  have "\<not> is_fetching p e" for p using assms by (auto simp: is_fetching_def split: site_event.split)
  then show ?thesis by (simp add: spent_def requests_made_def)
qed

section \<open>Methods that spend nothing\<close>

context preorder_run begin

lemma obeys_triple: "obeys R m \<longleftrightarrow> (\<forall>s. triple (R s) m (\<lambda>_. R s) (\<lambda>_. R s))"
proof
  assume m: "obeys R m"
  have "R s u" if "R s t" "m t = (r, u)" for s t r u using obeysD [OF m that(2)] that(1) by (rule rel_trans [rotated])
  then show "\<forall>s. triple (R s) m (\<lambda>_. R s) (\<lambda>_. R s)" by (auto simp: triple_def split: prod.split ending.split)
next
  assume m: "\<forall>s. triple (R s) m (\<lambda>_. R s) (\<lambda>_. R s)"
  have "R s (snd (m s))" for s
    using m rel_refl [of s] by (cases "m s"; cases "fst (m s)") (fastforce simp: triple_def)+
  then show "obeys R m" by (simp add: obeys_def)
qed

end

text \<open>Conditions the relation carries over.\<close>

definition stable :: "(operation \<Rightarrow> operation \<Rightarrow> bool) \<Rightarrow> (operation \<Rightarrow> bool) \<Rightarrow> bool" where
  "stable R P \<longleftrightarrow> (\<forall>s t. P s \<longrightarrow> R s t \<longrightarrow> P t)"

locale spending = preorder_run R for R :: "operation \<Rightarrow> operation \<Rightarrow> bool" +
  assumes same_spent: "spent s = spent t \<Longrightarrow> R s t"
begin

lemma idle_modifies: "(\<And>s. spent (g s) = spent s) \<Longrightarrow> obeys R (modifies g)"
  by (simp add: obeys_modifies same_spent)

lemma idle_traces:
  assumes "\<And>q url caps. e \<noteq> Fetching q url caps"
  shows "obeys R (traces e)"
  unfolding traces_def by (rule idle_modifies) (simp add: spent_event assms)

lemma idle_calls:
  "obeys R next_call" "obeys R (awaited w)" "obeys R (warning v)" "obeys R (check_cancelled w)"
  unfolding next_call_def awaited_def warning_def check_cancelled_def
  by (intro obeys_andthen obeys_reads obeys_ret obeys_raise obeys_if idle_modifies; simp add: spent_def requests_made_def)+

lemma idle_frontier: "obeys R (with_frontier g)" "obeys R (from_frontier h)" "obeys R (record_of i)" "obeys R (on_frontier k)"
proof -
  show f: "obeys R (with_frontier g)" for g :: "frontier \<Rightarrow> ('x \<times> frontier) option"
    unfolding with_frontier_def
    by (intro obeys_andthen obeys_reads obeys_or_raise obeys_ret idle_modifies) (simp add: spent_def requests_made_def)
  show "obeys R (from_frontier h)" for h :: "frontier \<Rightarrow> 'y" unfolding from_frontier_def by (rule f)
  show "obeys R (record_of i)" unfolding record_of_def from_frontier_def by (rule f)
  show "obeys R (on_frontier k)" unfolding on_frontier_def by (rule f)
qed

lemmas idle_basic = obeys_andthen obeys_reads obeys_ret obeys_raise obeys_or_raise obeys_if obeys_option obeys_let
  obeys_for_each idle_calls idle_frontier

lemma idle_quiet:
  "obeys R (emit_result w r)" "obeys R (emit_failure w url reason)" "obeys R (is_safe w url)" "obeys R (robots_say w snap url)"
  unfolding emit_result_def emit_failure_def emit_def is_safe_def robots_say_def
  by (intro idle_basic idle_traces; simp)+

lemma idle_fields:
  "obeys R (modifies (\<lambda>s. s\<lparr>op_page_outcomes := a s\<rparr>))" "obeys R (modifies (\<lambda>s. s\<lparr>op_results := b s\<rparr>))"
  "obeys R (modifies (\<lambda>s. s\<lparr>op_cache := c s\<rparr>))" "obeys R (modifies (\<lambda>s. s\<lparr>op_frontier := f s\<rparr>))"
  "obeys R (modifies (\<lambda>s. s\<lparr>op_page_limit_reached := l s\<rparr>))" "obeys R (store_robots origin snap source)"
  "obeys R (modifies (\<lambda>s. s\<lparr>op_sitemap_documents := x s, op_sitemap_entries := y s, op_sitemap_truncated := z s\<rparr>))"
  "obeys R (modifies (\<lambda>s. s\<lparr>op_sitemap_candidates_examined := n s\<rparr>))" "obeys R (set_effective w url)"
  unfolding store_robots_def set_effective_def by (intro idle_modifies; simp add: spent_def requests_made_def)+

lemma idle_response:
  "obeys R (site_answer w outcome)" "obeys R (answer_early w outcome)"
  unfolding answer_early_def site_answer_def response_records_def response_results_def
  by (intro idle_basic obeys_pair idle_modifies; simp add: spent_def requests_made_def)+

lemma idle_fetch:
  assumes "\<And>s. R s (s\<lparr>op_trace := op_trace s @ [Fetching purpose url caps]\<rparr>)"
  shows "obeys R (fetch_target w purpose url caps robots)"
proof -
  have "obeys R (traces (Fetching purpose url caps))" by (simp add: traces_def obeys_modifies assms)
  note fetching = this
  have "obeys R (traces (Waited h d))" "obeys R (traces (Noted h st r))" for h d st r by (intro idle_traces; simp)+
  then show ?thesis unfolding fetch_target_def by (intro idle_basic idle_quiet fetching)
qed

lemma stays:
  assumes "obeys R m" and "stable R P" and "\<And>s. P s \<Longrightarrow> Q s"
  shows "triple P m (\<lambda>_. P) (\<lambda>_. Q)"
proof -
  have "P t" if "P s" "m s = (r, t)" for s r t
    using obeysD [OF assms(1) that(2)] that(1) assms(2) by (auto simp: stable_def)
  then show ?thesis using assms(3) by (auto simp: triple_def split: prod.split ending.split)
qed

lemma triple_fetch_target:
  assumes "stable R P" and "stable R Q" and "\<And>s. P s \<Longrightarrow> Q s"
    and "\<And>s. P s \<Longrightarrow> Q (s\<lparr>op_trace := op_trace s @ [Fetching purpose url caps]\<rparr>)"
  shows "triple P (fetch_target w purpose url caps robots) (\<lambda>_. Q) (\<lambda>_. Q)"
proof -
  have waited: "obeys R (traces (Waited h d))" "obeys R (traces (Noted h st r))" for h d st r
    by (intro idle_traces; simp)+
  have step: "triple P (andthen m k) (\<lambda>_. Q) (\<lambda>_. Q)" if "obeys R m" "\<And>a. triple P (k a) (\<lambda>_. Q) (\<lambda>_. Q)"
    for m :: "'x site" and k :: "'x \<Rightarrow> 'y site"
    using stays [OF that(1) assms(1,3)] that(2) by (rule triple_andthen)
  have sent: "triple P (andthen (traces (Fetching purpose url caps)) k) (\<lambda>_. Q) (\<lambda>_. Q)" if "\<And>a. obeys R (k a)"
    for k :: "unit \<Rightarrow> 'y site"
    using assms(4) stays [OF that assms(2)] unfolding traces_def
    by (intro triple_andthen [where M = "\<lambda>_. Q"] triple_modifies) auto
  show ?thesis
    unfolding fetch_target_def
    by (rule step [OF idle_calls(4)], rule step [OF obeys_or_raise], rule step [OF idle_calls(2)],
        rule step [OF waited(1)], rule sent) (intro idle_basic idle_quiet waited)
qed

lemma idle_sitemap_steps:
  "obeys R the_effective_url" "obeys R (refuse_sitemap reason)" "obeys R (read_sitemap w out)"
  "obeys R (finish_sitemap_loading w queue)" "obeys R (next_sitemap_candidate w url depth visited)"
  unfolding the_effective_url_def refuse_sitemap_def read_sitemap_def finish_sitemap_loading_def next_sitemap_candidate_def
  by (intro idle_basic idle_fields)+

lemma idle_content: "obeys R (maybe_content w out)" "obeys R (open_frontier w effective)"
  unfolding maybe_content_def append_content_result_def open_frontier_def by (intro idle_basic idle_quiet idle_fields)+

lemma idle_seed_failure: "obeys R (record_seed_failure w out)"
  unfolding record_seed_failure_def by (intro idle_basic idle_quiet idle_fields idle_content)

end

text \<open>A relation that looking up robots.txt respects too.\<close>

locale spending_robots = spending R for R :: "operation \<Rightarrow> operation \<Rightarrow> bool" +
  fixes w :: site_world
  assumes robots: "obeys R (robots_for w url)"
begin

lemma idle_admit: "obeys R (admit w candidate source depth modified priority)" "obeys R (admit_links w d out)"
proof -
  show a: "obeys R (admit w candidate source depth modified priority)" for candidate source depth modified priority
    unfolding admit_def by (intro idle_basic idle_quiet robots)
  show "obeys R (admit_links w d out)" unfolding admit_links_def by (intro idle_basic a)
qed

lemma idle_sitemap:
  "obeys R (check_sitemap_final w effective url out)" "obeys R (queue_sitemap_entries w doc depth queue visited)"
  unfolding check_sitemap_final_def queue_sitemap_entries_def admit_entry_def
  by (intro idle_basic idle_quiet idle_sitemap_steps idle_fields idle_admit robots)+

lemma idle_search: "obeys R (augment_search w)"
  unfolding augment_search_def by (intro idle_basic idle_sitemap_steps idle_admit idle_traces) simp

lemma idle_finish: "obeys R (finish_page w i out)"
  unfolding finish_page_def site_reconcile_final_def
  by (intro idle_basic idle_quiet idle_content idle_admit robots)

lemma idle_admit_seed: "obeys R (admit_seed w effective seed)"
  unfolding admit_seed_def by (intro idle_basic idle_content idle_fields idle_admit idle_response robots)

text \<open>Where its own request is allowed for, each part of an operation is.\<close>

lemma idle_seed:
  assumes "\<And>url caps s. R s (s\<lparr>op_trace := op_trace s @ [Fetching For_Seed url caps]\<rparr>)"
  shows "obeys R (prepare_seed w)"
  unfolding prepare_seed_def
  by (intro idle_basic idle_quiet idle_response idle_fields idle_seed_failure idle_admit_seed idle_fetch assms)

lemma idle_page:
  assumes "\<And>url caps s. R s (s\<lparr>op_trace := op_trace s @ [Fetching For_Page url caps]\<rparr>)"
  shows "obeys R (page_turn w caps attempts)"
  unfolding page_turn_def process_page_def
  by (intro idle_basic idle_quiet idle_fields idle_finish idle_fetch robots assms)

lemma idle_sitemap_turn:
  assumes "\<And>url. obeys R (fetch_sitemap_document w url)"
  shows "obeys R (sitemap_turn w url depth queue visited)"
  unfolding sitemap_turn_def by (intro idle_basic idle_sitemap_steps idle_sitemap assms)

lemma idle_loops:
  "(\<And>k. obeys R (page_turn w caps k)) \<Longrightarrow> obeys R (crawl_pages w caps)"
  "(\<And>url. obeys R (fetch_sitemap_document w url)) \<Longrightarrow> obeys R (load_sitemaps w snap)"
proof -
  show "obeys R (crawl_pages w caps)" if turn: "\<And>k. obeys R (page_turn w caps k)"
  proof -
    have "obeys R (crawl_loop w caps k)" for k
      unfolding obeys_triple by (intro allI triple_crawl_loop) (use turn in \<open>simp add: obeys_triple\<close>)
    then show ?thesis unfolding crawl_pages_def by (intro obeys_andthen obeys_ret)
  qed
  show "obeys R (load_sitemaps w snap)" if fetch: "\<And>url. obeys R (fetch_sitemap_document w url)"
  proof -
    have "obeys R (sitemap_turn w url depth rest visited)" for url depth rest visited
      by (rule idle_sitemap_turn [OF fetch])
    note turns = this
    have "triple (\<lambda>t. R s t \<and> more_sitemaps w t) (sitemap_turn w url depth rest visited) (\<lambda>_. R s) (\<lambda>_. R s)"
      for s url depth rest visited
      by (rule triple_weaken [of "R s" _ "\<lambda>_. R s" "\<lambda>_. R s"]) (use turns in \<open>simp_all add: obeys_triple\<close>)
    then have "obeys R (load_loop w queue visited)" for queue visited
      unfolding obeys_triple by (intro allI triple_load_loop)
    then show ?thesis unfolding load_sitemaps_def by (intro idle_basic idle_sitemap_steps)
  qed
qed

lemma idle_after_seed:
  assumes "\<And>k caps. obeys R (page_turn w caps k)" and "\<And>url. obeys R (fetch_sitemap_document w url)"
  shows "obeys R (after_seed w seed snap)"
  unfolding after_seed_def by (intro idle_basic idle_loops idle_search idle_admit idle_response assms)

lemma idle_run:
  assumes "obeys R (prepare_seed w)" and "\<And>seed snap. obeys R (after_seed w seed snap)"
  shows "obeys R (site_run w)"
  unfolding site_run_def
proof (intro obeys_andthen idle_calls assms(1))
  show "obeys R (case res of Early r \<Rightarrow> ret r | Seeded seed snap \<Rightarrow> after_seed w seed snap)" for res
    using assms(2) by (cases res) (simp_all add: obeys_ret)
qed

end

section \<open>Requests for robots.txt\<close>

text \<open>They are counted before they are made, and not made beyond the limit.\<close>

definition robots_budget :: "site_world \<Rightarrow> operation \<Rightarrow> operation \<Rightarrow> bool" where
  "robots_budget w s t \<longleftrightarrow>
     requests_made For_Robots t + op_robots_documents_attempted s \<le> requests_made For_Robots s + op_robots_documents_attempted t \<and>
     int (op_robots_documents_attempted t) \<le> max (int (op_robots_documents_attempted s)) (w_max_internal_fanout w)"

interpretation robots_budget: spending "robots_budget w" for w
  by unfold_locales (auto simp: robots_budget_def spent_def fun_eq_iff)

text \<open>Counted but not made yet.\<close>

definition robots_due :: "site_world \<Rightarrow> operation \<Rightarrow> operation \<Rightarrow> bool" where
  "robots_due w s t \<longleftrightarrow>
     requests_made For_Robots t + 1 + op_robots_documents_attempted s \<le> requests_made For_Robots s + op_robots_documents_attempted t \<and>
     int (op_robots_documents_attempted t) \<le> max (int (op_robots_documents_attempted s)) (w_max_internal_fanout w)"

lemma robots_stable: "stable (robots_budget w) (robots_budget w s)" "stable (robots_budget w) (robots_due w s)"
  by (auto simp: stable_def robots_budget_def robots_due_def)

lemma robots_budget_fetch:
  "triple (\<lambda>t. robots_budget w s t \<and> int (op_robots_documents_attempted t) < w_max_internal_fanout w)
     (fetch_robots w origin now) (\<lambda>_. robots_budget w s) (\<lambda>_. robots_budget w s)"
proof -
  have weaken: "robots_due w s t \<Longrightarrow> robots_budget w s t" for t by (simp add: robots_due_def robots_budget_def)
  have idle: "triple (robots_budget w s) m (\<lambda>_. robots_budget w s) (\<lambda>_. robots_budget w s)" if "obeys (robots_budget w) m"
    for m :: "'x site"
    using robots_budget.stays [OF that robots_stable(1)] .
  have body: "triple (robots_due w s) (if \<not> safe then ret a
        else andthen (fetch_target w For_Robots url caps None) (\<lambda>out. or_raise Value_Error (h out)))
      (\<lambda>_. robots_budget w s) (\<lambda>_. robots_budget w s)" for safe url caps and a :: robots_snapshot and h
  proof (intro triple_if triple_ret weaken, assumption, rule triple_andthen)
    show "triple (robots_due w s) (fetch_target w For_Robots url caps None) (\<lambda>_. robots_budget w s) (\<lambda>_. robots_budget w s)"
      by (rule robots_budget.triple_fetch_target [OF robots_stable(2) robots_stable(1) weaken])
        (auto simp: robots_due_def robots_budget_def spent_fetching)
  qed (rule idle [OF robots_budget.obeys_or_raise])
  show ?thesis
    unfolding fetch_robots_def Let_def
  proof (rule triple_andthen [where M = "\<lambda>_. robots_due w s"])
    show "triple (\<lambda>t. robots_budget w s t \<and> int (op_robots_documents_attempted t) < w_max_internal_fanout w)
      (modifies (\<lambda>s. s\<lparr>op_robots_documents_attempted := Suc (op_robots_documents_attempted s)\<rparr>))
      (\<lambda>_. robots_due w s) (\<lambda>_. robots_budget w s)"
      by (rule triple_modifies) (auto simp: robots_budget_def robots_due_def requests_made_def)
    fix a
    show "triple (robots_due w s) (andthen (is_safe w (origin @ ''/robots.txt'')) (\<lambda>safe.
       andthen (if \<not> safe then ret (closed_snapshot origin (w_agent w) Unreachable now ''unsafe_target'')
         else andthen (fetch_target w For_Robots (origin @ ''/robots.txt'') map_capabilities None) (\<lambda>out.
           or_raise Value_Error (robots_from_http origin (w_agent w)
             (if so_code out = Content \<and> so_status_code out = None then Some 200 else so_status_code out)
             (outcome_body w out) now (w_max_robots_bytes w) None))) (\<lambda>snap.
       andthen (store_robots origin snap ''network'') (\<lambda>_.
       andthen (modifies (\<lambda>s. s\<lparr>op_cache := robots_put snap (op_cache s)\<rparr>)) (\<lambda>_.
       andthen (if snap_state snap \<noteq> Available
         then warning (''robots_'' @ robots_state_value (snap_state snap) @ '':'' @ origin) else ret ()) (\<lambda>_.
       ret snap)))))) (\<lambda>_. robots_budget w s) (\<lambda>_. robots_budget w s)"
      by (rule triple_andthen [OF robots_budget.stays [OF robots_budget.idle_quiet(3) robots_stable(2) weaken]], assumption,
          rule triple_andthen [OF body], rule idle, intro robots_budget.idle_basic robots_budget.idle_fields)
  qed
qed

interpretation robots_budget: spending_robots "robots_budget w" w for w
proof unfold_locales
  fix url
  have fetch: "obeys (robots_budget w) (andthen (reads op_robots_documents_attempted) (\<lambda>attempted.
      if int attempted \<ge> w_max_internal_fanout w then
        (let snap = closed_snapshot origin (w_agent w) Unreachable (w_time w k) ''document_limit_reached'' in
         andthen (store_robots origin snap ''network'') (\<lambda>_.
         andthen (warning ''robots_document_limit_reached'') (\<lambda>_. ret snap)))
      else fetch_robots w origin (w_time w k)))" for origin k
    unfolding robots_budget.obeys_triple
  proof
    fix s
    have "triple (robots_budget w s) (let snap = closed_snapshot origin (w_agent w) Unreachable (w_time w k) ''document_limit_reached'' in
         andthen (store_robots origin snap ''network'') (\<lambda>_.
         andthen (warning ''robots_document_limit_reached'') (\<lambda>_. ret snap))) (\<lambda>_. robots_budget w s) (\<lambda>_. robots_budget w s)"
      by (rule robots_budget.stays [OF _ robots_stable(1)]) (intro robots_budget.idle_basic robots_budget.idle_fields)
    then show "triple (robots_budget w s) (andthen (reads op_robots_documents_attempted) (\<lambda>attempted.
      if int attempted \<ge> w_max_internal_fanout w then
        (let snap = closed_snapshot origin (w_agent w) Unreachable (w_time w k) ''document_limit_reached'' in
         andthen (store_robots origin snap ''network'') (\<lambda>_.
         andthen (warning ''robots_document_limit_reached'') (\<lambda>_. ret snap)))
      else fetch_robots w origin (w_time w k))) (\<lambda>_. robots_budget w s) (\<lambda>_. robots_budget w s)"
      using robots_budget_fetch [of w s origin "w_time w k"]
      by (simp add: triple_def andthen_def [of "reads _"] reads_def)
  qed
  show "obeys (robots_budget w) (robots_for w url)"
    unfolding robots_for_def by (intro fetch robots_budget.idle_basic robots_budget.idle_fields)
qed

lemma robots_within_budget: "obeys (robots_budget w) (site_run w)"
proof -
  have free: "robots_budget w s (s\<lparr>op_trace := op_trace s @ [Fetching p url caps]\<rparr>)" if "p \<noteq> For_Robots" for s p url caps
    using that by (simp add: robots_budget_def spent_fetching)
  have "obeys (robots_budget w) (fetch_sitemap_document w url)" for url
    unfolding fetch_sitemap_document_def
    by (intro robots_budget.idle_basic robots_budget.idle_quiet robots_budget.idle_sitemap_steps robots_budget.idle_sitemap
        robots_budget.idle_fetch robots_budget.robots free)
      (simp_all add: robots_budget.obeys_modifies robots_budget_def requests_made_def)
  then show ?thesis
    by (intro robots_budget.idle_run robots_budget.idle_seed robots_budget.idle_after_seed robots_budget.idle_page free) simp_all
qed

section \<open>Requests for pages\<close>

definition pages_made :: "operation \<Rightarrow> nat" where
  "pages_made s = requests_made For_Seed s + requests_made For_Page s"

definition same_pages :: "operation \<Rightarrow> operation \<Rightarrow> bool" where
  "same_pages s t \<longleftrightarrow> pages_made t = pages_made s"

interpretation same_pages: spending same_pages
  by unfold_locales (auto simp: same_pages_def pages_made_def spent_def fun_eq_iff)

lemma same_pages_free: "same_pages s (s\<lparr>op_trace := op_trace s @ [Fetching For_Robots url caps]\<rparr>)"
    "same_pages s (s\<lparr>op_trace := op_trace s @ [Fetching For_Sitemap url caps]\<rparr>)"
    "same_pages s (s\<lparr>op_robots_documents_attempted := n\<rparr>)" "same_pages s (s\<lparr>op_sitemap_documents_attempted := n\<rparr>)"
  by (simp_all add: same_pages_def pages_made_def spent_fetching) (simp_all add: requests_made_def)

interpretation same_pages: spending_robots same_pages w for w
  by unfold_locales
    (auto simp: robots_for_def fetch_robots_def same_pages.obeys_modifies same_pages_free Let_def
      intro!: same_pages.idle_basic same_pages.idle_fields same_pages.idle_quiet same_pages.idle_fetch)

lemma pages_stable: "stable same_pages (\<lambda>s. pages_made s \<le> n)"
  by (simp add: stable_def same_pages_def)

definition costs :: "nat \<Rightarrow> 'a site \<Rightarrow> bool" where
  "costs n m \<longleftrightarrow> (\<forall>k. triple (\<lambda>s. pages_made s \<le> k) m (\<lambda>_ s. pages_made s \<le> k + n) (\<lambda>_ s. pages_made s \<le> k + n))"

lemma pages_stay:
  assumes "obeys same_pages m"
  shows "triple (\<lambda>s. pages_made s \<le> k) m (\<lambda>_ s. pages_made s \<le> k) (\<lambda>_ s. pages_made s \<le> k + n)"
  by (rule same_pages.stays [OF assms pages_stable]) simp

lemma costs_idle: "obeys same_pages m \<Longrightarrow> costs n m"
  unfolding costs_def by (intro allI triple_weaken [OF pages_stay [of m]]) auto

lemma costs_first: "obeys same_pages m \<Longrightarrow> (\<And>a. costs n (f a)) \<Longrightarrow> costs n (andthen m f)"
  unfolding costs_def by (intro allI triple_andthen [OF pages_stay]) auto

lemma costs_last:
  assumes "costs n m" and "\<And>a. obeys same_pages (f a)"
  shows "costs n (andthen m f)"
  unfolding costs_def
proof
  fix k
  have "triple (\<lambda>s. pages_made s \<le> k + n) (f a) (\<lambda>_ s. pages_made s \<le> k + n) (\<lambda>_ s. pages_made s \<le> k + n)" for a
    by (rule same_pages.stays [OF assms(2) pages_stable]) simp
  then show "triple (\<lambda>s. pages_made s \<le> k) (andthen m f) (\<lambda>_ s. pages_made s \<le> k + n) (\<lambda>_ s. pages_made s \<le> k + n)"
    using assms(1) by (intro triple_andthen) (auto simp: costs_def)
qed

lemma costs_if: "(b \<Longrightarrow> costs n m) \<Longrightarrow> (\<not> b \<Longrightarrow> costs n m') \<Longrightarrow> costs n (if b then m else m')"
  by simp

lemma costs_fetch: "costs 1 (fetch_target w purpose url caps robots)"
  unfolding costs_def
  by (intro allI same_pages.triple_fetch_target pages_stable) (auto simp: pages_made_def spent_fetching)

lemma costs_prepare_seed: "costs 1 (prepare_seed w)"
proof -
  have rest: "obeys same_pages (if so_code seed \<noteq> Content \<or> so_page seed = None
      then andthen (record_seed_failure w seed) (answer_early w)
      else (let effective = text_or (so_final_url seed) url in
         andthen (set_effective w effective) (\<lambda>_.
         if site_origin (w_env w) effective = None then answer_early w ''unsafe_redirect''
         else admit_seed w effective seed)))" for seed url
    by (intro same_pages.idle_basic same_pages.idle_seed_failure same_pages.idle_response same_pages.idle_fields
        same_pages.idle_admit_seed)
  have unsafe: "obeys same_pages (andthen (emit_failure w url ''unsafe_seed'') (\<lambda>_. answer_early w ''unsafe_seed''))" for url
    by (intro same_pages.idle_basic same_pages.idle_response same_pages.idle_quiet)
  show ?thesis
    unfolding prepare_seed_def Let_def [of "site_url _"]
    by (rule costs_first [OF same_pages.idle_quiet(3)], rule costs_if, rule costs_idle [OF unsafe],
        rule costs_last [OF costs_fetch rest])
qed

lemma pages_process:
  "triple (\<lambda>s. pages_made s \<le> k) (process_page w i caps)
     (\<lambda>made s. pages_made s \<le> (if made then Suc k else k)) (\<lambda>_ s. pages_made s \<le> Suc k)"
proof -
  let ?Q = "\<lambda>made s. pages_made s \<le> (if made then Suc k else k)" and ?E = "\<lambda>_ s. pages_made s \<le> Suc k"
  have step: "triple (\<lambda>s. pages_made s \<le> k) (andthen m f) ?Q ?E"
    if "obeys same_pages m" "\<And>a. triple (\<lambda>s. pages_made s \<le> k) (f a) ?Q ?E" for m :: "'x site" and f
    by (rule triple_andthen [OF _ that(2)]) (use pages_stay [OF that(1), of k 1] in simp)
  have refused: "triple (\<lambda>s. pages_made s \<le> k) (andthen (on_frontier g) (\<lambda>_. andthen (emit_failure w url reason) (\<lambda>_. ret False))) ?Q ?E"
    for g url reason
    by (intro step same_pages.idle_frontier same_pages.idle_quiet triple_ret) simp
  have judged: "obeys same_pages (if b then andthen (on_frontier g) (\<lambda>_. emit_failure w url reason) else finish_page w i out)"
    for b g url reason out
    by (intro same_pages.idle_basic same_pages.idle_quiet same_pages.idle_finish)
  have rest: "costs 1 (andthen (fetch_target w For_Page url caps snap) (\<lambda>out.
      andthen (modifies (\<lambda>s. s\<lparr>op_page_outcomes := op_page_outcomes s @ [out]\<rparr>)) (\<lambda>_.
      if b out then andthen (on_frontier (g out)) (\<lambda>_. emit_failure w url (reason out)) else finish_page w i out)))"
    for url snap b g reason
    by (rule costs_last [OF costs_fetch]) (intro same_pages.obeys_andthen same_pages.idle_fields judged)
  have made: "triple (\<lambda>s. pages_made s \<le> k) (andthen (fetch_target w For_Page url caps snap) (\<lambda>out.
      andthen (modifies (\<lambda>s. s\<lparr>op_page_outcomes := op_page_outcomes s @ [out]\<rparr>)) (\<lambda>_.
      andthen (if b out then andthen (on_frontier (g out)) (\<lambda>_. emit_failure w url (reason out)) else finish_page w i out)
        (\<lambda>_. ret True)))) ?Q ?E"
    for url snap b g reason
  proof -
    have "triple (\<lambda>s. pages_made s \<le> k) (andthen (andthen (fetch_target w For_Page url caps snap) (\<lambda>out.
      andthen (modifies (\<lambda>s. s\<lparr>op_page_outcomes := op_page_outcomes s @ [out]\<rparr>)) (\<lambda>_.
      if b out then andthen (on_frontier (g out)) (\<lambda>_. emit_failure w url (reason out)) else finish_page w i out))) (\<lambda>_. ret True)) ?Q ?E"
      by (rule triple_andthen [where M = "\<lambda>_ s. pages_made s \<le> Suc k"])
        (use rest [of url snap b g reason] in \<open>simp add: costs_def\<close>, simp add: triple_ret)
    then show ?thesis by (simp only: andthen_assoc)
  qed
  show ?thesis
    unfolding process_page_def
    by (intro step same_pages.idle_frontier same_pages.robots same_pages.idle_quiet triple_if refused made)
qed

definition page_budget :: "site_world \<Rightarrow> nat" where
  "page_budget w = nat (max 1 (max_pages w))"

lemma pages_turn:
  "triple (\<lambda>s. pages_made s \<le> k \<and> k \<le> page_budget w) (page_turn w caps k)
     (\<lambda>a s. pages_made s \<le> snd a \<and> snd a \<le> page_budget w) (\<lambda>_ s. pages_made s \<le> page_budget w)"
proof -
  let ?P = "\<lambda>s. pages_made s \<le> k \<and> k \<le> page_budget w" and ?E = "\<lambda>_ s. pages_made s \<le> page_budget w"
  let ?Q = "\<lambda>a s. pages_made s \<le> snd a \<and> snd a \<le> page_budget w"
  have stable: "stable same_pages ?P" by (simp add: stable_def same_pages_def)
  have step: "triple ?P (andthen m f) ?Q ?E" if "obeys same_pages m" "\<And>a. triple ?P (f a) ?Q ?E" for m :: "'x site" and f
    by (rule triple_andthen [OF same_pages.stays [OF that(1) stable] that(2)]) simp
  have process: "triple ?P (andthen (process_page w i caps) (\<lambda>made. ret (True, if made then Suc k else k))) ?Q ?E"
    if "\<not> int k \<ge> max_pages w" for i
  proof (rule triple_andthen)
    show "triple ?P (process_page w i caps) (\<lambda>made s. pages_made s \<le> (if made then Suc k else k)) ?E"
      using that by (intro triple_weaken [OF pages_process [of k]]) (auto simp: page_budget_def)
    show "triple (\<lambda>s. pages_made s \<le> (if made then Suc k else k)) (ret (True, if made then Suc k else k)) ?Q ?E" for made
      using that by (intro triple_ret) (auto simp: page_budget_def)
  qed
  have limit: "triple ?P (andthen (on_frontier g) (\<lambda>_. andthen (modifies (\<lambda>s. s\<lparr>op_page_limit_reached := True\<rparr>))
      (\<lambda>_. ret (False, k)))) ?Q ?E" for g
    by (rule step [OF same_pages.idle_frontier(4)], rule step [OF same_pages.idle_fields(5)], rule triple_ret) simp
  show ?thesis
    unfolding page_turn_def
    by (rule step [OF same_pages.idle_calls(4)], rule step [OF same_pages.idle_frontier(1)], rule triple_option,
        rule triple_ret, simp, rule step [OF same_pages.idle_frontier(3)], rule triple_if, rule triple_ret, simp,
        rule triple_if, rule limit, rule process)
qed

lemma pages_within_budget:
  "triple (\<lambda>s. pages_made s = 0) (site_run w) (\<lambda>_ s. pages_made s \<le> page_budget w) (\<lambda>_ s. pages_made s \<le> page_budget w)"
proof -
  let ?P = "\<lambda>k s. pages_made s \<le> k \<and> k \<le> page_budget w" and ?E = "\<lambda>s. pages_made s \<le> page_budget w"
  have stable: "stable same_pages (?P k)" "stable same_pages ?E" for k by (simp_all add: stable_def same_pages_def)
  have step: "triple (?P k) (andthen m f) (\<lambda>_. ?E) (\<lambda>_. ?E)"
    if "obeys same_pages m" "\<And>a. triple (?P k) (f a) (\<lambda>_. ?E) (\<lambda>_. ?E)" for k and m :: "'x site" and f :: "'x \<Rightarrow> 'y site"
    by (rule triple_andthen [OF same_pages.stays [OF that(1) stable(1)] that(2)]) simp
  have fetch: "obeys same_pages (fetch_sitemap_document w url)" for url
    unfolding fetch_sitemap_document_def
    by (intro same_pages.idle_basic same_pages.idle_quiet same_pages.idle_sitemap_steps same_pages.idle_sitemap
        same_pages.idle_fetch same_pages.robots same_pages_free) (simp add: same_pages.obeys_modifies same_pages_free)
  have loop: "triple (?P 1) (crawl_pages w caps) (\<lambda>_. ?E) (\<lambda>_. ?E)" for caps
    unfolding crawl_pages_def
    by (rule triple_andthen [OF triple_crawl_loop [where P = ?P and E = ?E, OF pages_turn]], rule triple_ret) simp
  have answer: "obeys same_pages (andthen (reads site_outcome) (site_answer w))"
    by (intro same_pages.idle_basic same_pages.idle_response)
  have after: "triple (?P 1) (after_seed w seed snap) (\<lambda>_. ?E) (\<lambda>_. ?E)" for seed snap
    unfolding after_seed_def Let_def
    by (intro step same_pages.obeys_if same_pages.obeys_ret same_pages.idle_loops(2) [OF fetch] same_pages.idle_search
        same_pages.idle_admit(2) triple_andthen [OF loop] same_pages.stays [OF answer stable(2)]) simp
  have later: "triple (?P 1) (case res of Early r \<Rightarrow> ret r | Seeded seed snap \<Rightarrow> after_seed w seed snap) (\<lambda>_. ?E) (\<lambda>_. ?E)" for res
    by (cases res) (simp_all only: seed_result.case after, rule triple_ret, simp)
  have seed: "triple (?P 0) (prepare_seed w) (\<lambda>_. ?P 1) (\<lambda>_. ?E)"
    by (rule triple_weaken [OF costs_prepare_seed [of w, unfolded costs_def, rule_format, of 0]]) (auto simp: page_budget_def)
  have "triple (?P 0) (site_run w) (\<lambda>_. ?E) (\<lambda>_. ?E)"
    unfolding site_run_def by (rule step [OF same_pages.idle_calls(4)], rule triple_andthen [OF seed later])
  then show ?thesis by (rule triple_weaken) simp_all
qed

section \<open>Requests for sitemaps\<close>

definition same_sitemaps :: "operation \<Rightarrow> operation \<Rightarrow> bool" where
  "same_sitemaps s t \<longleftrightarrow> requests_made For_Sitemap t = requests_made For_Sitemap s \<and>
     op_sitemap_documents_attempted t = op_sitemap_documents_attempted s"

interpretation same_sitemaps: spending same_sitemaps
  by unfold_locales (auto simp: same_sitemaps_def spent_def fun_eq_iff)

lemma same_sitemaps_free:
    "p \<noteq> For_Sitemap \<Longrightarrow> same_sitemaps s (s\<lparr>op_trace := op_trace s @ [Fetching p url caps]\<rparr>)"
    "same_sitemaps s (s\<lparr>op_robots_documents_attempted := n\<rparr>)"
  by (simp_all add: same_sitemaps_def spent_fetching) (simp add: requests_made_def)

interpretation same_sitemaps: spending_robots same_sitemaps w for w
  by unfold_locales
    (auto simp: robots_for_def fetch_robots_def same_sitemaps.obeys_modifies same_sitemaps_free Let_def
      intro!: same_sitemaps.idle_basic same_sitemaps.idle_fields same_sitemaps.idle_quiet same_sitemaps.idle_fetch)

definition sitemaps_ok :: "site_world \<Rightarrow> operation \<Rightarrow> bool" where
  "sitemaps_ok w s \<longleftrightarrow> requests_made For_Sitemap s \<le> op_sitemap_documents_attempted s \<and>
     int (op_sitemap_documents_attempted s) \<le> max 0 (w_max_sitemap_documents w)"

definition sitemap_left :: "site_world \<Rightarrow> operation \<Rightarrow> bool" where
  "sitemap_left w s \<longleftrightarrow> sitemaps_ok w s \<and> int (op_sitemap_documents_attempted s) < w_max_sitemap_documents w"

definition sitemap_due :: "site_world \<Rightarrow> operation \<Rightarrow> bool" where
  "sitemap_due w s \<longleftrightarrow> sitemaps_ok w s \<and> requests_made For_Sitemap s < op_sitemap_documents_attempted s"

lemma sitemaps_stable: "stable same_sitemaps (sitemaps_ok w)" "stable same_sitemaps (sitemap_left w)" "stable same_sitemaps (sitemap_due w)"
  by (auto simp: stable_def same_sitemaps_def sitemaps_ok_def sitemap_left_def sitemap_due_def)

lemmas sitemaps_stay = same_sitemaps.stays [OF _ sitemaps_stable(1)]

lemma left_step:
  assumes "obeys same_sitemaps m" and "\<And>a. triple (sitemap_left w) (f a) (\<lambda>_. sitemaps_ok w) (\<lambda>_. sitemaps_ok w)"
  shows "triple (sitemap_left w) (andthen m f) (\<lambda>_. sitemaps_ok w) (\<lambda>_. sitemaps_ok w)"
  by (rule triple_andthen [OF same_sitemaps.stays [OF assms(1) sitemaps_stable(2)] assms(2)]) (simp add: sitemap_left_def)

lemma left_idle:
  "obeys same_sitemaps m \<Longrightarrow> triple (sitemap_left w) m (\<lambda>_. sitemaps_ok w) (\<lambda>_. sitemaps_ok w)"
  by (rule triple_weaken [OF sitemaps_stay [of m w "sitemaps_ok w"]]) (simp_all add: sitemap_left_def)

lemma sitemaps_fetch:
  "triple (sitemap_left w) (fetch_sitemap_document w url) (\<lambda>_. sitemaps_ok w) (\<lambda>_. sitemaps_ok w)"
proof -
  have rest: "obeys same_sitemaps (if so_code out \<noteq> Content then refuse_sitemap (fetch_outcome_value (so_code out))
      else check_sitemap_final w effective url out)" for out effective
    by (intro same_sitemaps.obeys_if same_sitemaps.idle_sitemap_steps same_sitemaps.idle_sitemap)
  have count: "triple (sitemap_left w)
      (modifies (\<lambda>s. s\<lparr>op_sitemap_documents_attempted := Suc (op_sitemap_documents_attempted s)\<rparr>))
      (\<lambda>_. sitemap_due w) (\<lambda>_. sitemaps_ok w)"
    by (rule triple_modifies) (auto simp: sitemap_left_def sitemap_due_def sitemaps_ok_def requests_made_def)
  have fetch: "triple (sitemap_due w) (fetch_target w For_Sitemap url caps robots) (\<lambda>_. sitemaps_ok w) (\<lambda>_. sitemaps_ok w)" for caps robots
    by (rule same_sitemaps.triple_fetch_target [OF sitemaps_stable(3,1)])
      (auto simp: sitemap_due_def sitemaps_ok_def spent_fetching)
  note refuse = left_idle [OF same_sitemaps.idle_sitemap_steps(2)]
  show ?thesis
    unfolding fetch_sitemap_document_def
    by (rule left_step [OF same_sitemaps.idle_sitemap_steps(1)], rule triple_if, rule refuse,
        rule left_step [OF same_sitemaps.idle_quiet(3)], rule triple_if, rule refuse,
        rule left_step [OF same_sitemaps.robots], rule left_step [OF same_sitemaps.idle_quiet(4)], rule triple_if, rule refuse,
        rule triple_andthen [OF count], rule triple_andthen [OF fetch], rule sitemaps_stay [OF rest])
qed

lemma sitemaps_turn:
  "triple (\<lambda>s. sitemaps_ok w s \<and> more_sitemaps w s) (sitemap_turn w url depth queue visited) (\<lambda>_. sitemaps_ok w) (\<lambda>_. sitemaps_ok w)"
proof -
  have rest: "obeys same_sitemaps (case doc of None \<Rightarrow> ret (queue, v)
      | Some d \<Rightarrow> andthen (queue_sitemap_entries w d depth queue v) (\<lambda>q. ret (q, v)))" for doc v
    by (intro same_sitemaps.idle_basic same_sitemaps.idle_sitemap)
  have "triple (sitemap_left w) (sitemap_turn w url depth queue visited) (\<lambda>_. sitemaps_ok w) (\<lambda>_. sitemaps_ok w)"
    unfolding sitemap_turn_def
    by (rule left_step [OF same_sitemaps.idle_calls(4)], rule left_step [OF same_sitemaps.idle_sitemap_steps(5)], rule triple_option,
        rule left_idle [OF same_sitemaps.obeys_ret], rule triple_andthen [OF sitemaps_fetch], rule sitemaps_stay [OF rest])
  then show ?thesis by (rule triple_weaken) (simp_all add: sitemap_left_def more_sitemaps_def)
qed

lemma sitemaps_within_budget: "triple (sitemaps_ok w) (site_run w) (\<lambda>_. sitemaps_ok w) (\<lambda>_. sitemaps_ok w)"
proof -
  have step: "triple (sitemaps_ok w) (andthen m f) (\<lambda>_. sitemaps_ok w) (\<lambda>_. sitemaps_ok w)"
    if "obeys same_sitemaps m" "\<And>a. triple (sitemaps_ok w) (f a) (\<lambda>_. sitemaps_ok w) (\<lambda>_. sitemaps_ok w)"
    for m :: "'x site" and f :: "'x \<Rightarrow> 'y site"
    by (rule triple_andthen [OF sitemaps_stay [OF that(1)] that(2)])
  have load: "triple (sitemaps_ok w) (load_sitemaps w snap) (\<lambda>_. sitemaps_ok w) (\<lambda>_. sitemaps_ok w)" for snap
    unfolding load_sitemaps_def
    by (rule step [OF same_sitemaps.obeys_reads], rule triple_andthen [OF triple_load_loop [OF sitemaps_turn]],
        rule sitemaps_stay [OF same_sitemaps.idle_sitemap_steps(4)])
  have pages: "obeys same_sitemaps (page_turn w caps k)" for caps k
    by (intro same_sitemaps.idle_page same_sitemaps_free) simp
  have seed: "obeys same_sitemaps (prepare_seed w)"
    by (intro same_sitemaps.idle_seed same_sitemaps_free) simp
  have rest: "obeys same_sitemaps (andthen (if b then augment_search w else ret ()) (\<lambda>_.
      andthen (if b' then admit_links w 1 out else ret ()) (\<lambda>_.
      andthen (crawl_pages w caps) (\<lambda>_. andthen (reads site_outcome) (site_answer w)))))" for b b' out caps
    by (intro same_sitemaps.idle_basic same_sitemaps.idle_search same_sitemaps.idle_admit same_sitemaps.idle_loops(1) [OF pages]
        same_sitemaps.idle_response)
  have after: "triple (sitemaps_ok w) (after_seed w out snap) (\<lambda>_. sitemaps_ok w) (\<lambda>_. sitemaps_ok w)" for out snap
    unfolding after_seed_def Let_def
    by (rule triple_andthen [OF triple_if [OF load sitemaps_stay [OF same_sitemaps.obeys_ret]]], assumption,
        rule sitemaps_stay [OF rest])
  have "triple (sitemaps_ok w) (case res of Early r \<Rightarrow> ret r | Seeded seed snap \<Rightarrow> after_seed w seed snap)
      (\<lambda>_. sitemaps_ok w) (\<lambda>_. sitemaps_ok w)" for res
    by (cases res) (simp_all add: after triple_ret)
  then show ?thesis
    unfolding site_run_def by (intro step [OF same_sitemaps.idle_calls(4)] step [OF seed])
qed

section \<open>The bounds\<close>

text \<open>
  C33. A map or crawl makes a bounded number of requests, whatever the services answer and however it ends: for
  its seed and pages together no more than the request and the configuration allow (one at least), for
  robots.txt and for sitemaps no more than the configuration allows.
\<close>

theorem site_requests_bounded:
  "let s = snd (site_run w (new_operation w cache)) in
     int (requests_made For_Seed s + requests_made For_Page s) \<le> max 1 (min (site_max_pages (w_request w)) (w_max_internal_fanout w)) \<and>
     int (requests_made For_Robots s) \<le> max 0 (w_max_internal_fanout w) \<and>
     int (requests_made For_Sitemap s) \<le> max 0 (w_max_sitemap_documents w)"
proof -
  let ?o = "new_operation w cache"
  obtain r s where run: "site_run w ?o = (r, s)" by fastforce
  have start: "requests_made p ?o = 0" "op_robots_documents_attempted ?o = 0" "op_sitemap_documents_attempted ?o = 0" for p
    by (simp_all add: requests_made_def new_operation_def)
  have after: "Q s" if "triple P (site_run w) (\<lambda>_. Q) (\<lambda>_. Q)" "P ?o" for P Q
    using that run by (cases r) (auto dest: tripleD)
  have "pages_made s \<le> page_budget w"
    using pages_within_budget by (rule after) (simp add: pages_made_def start)
  moreover have "sitemaps_ok w s"
    using sitemaps_within_budget by (rule after) (simp add: sitemaps_ok_def start)
  moreover have "robots_budget w ?o s" using obeysD [OF robots_within_budget run] .
  ultimately show ?thesis
    using run start by (simp add: pages_made_def page_budget_def max_pages_def sitemaps_ok_def robots_budget_def Let_def)
qed

end
