(* ===== verification/Search_Merge.thy ===== *)
theory Search_Merge
  imports Url_Identity "HOL-Library.AList" "HOL-Library.Product_Lexorder"
begin

text \<open>
  \<open>orchestrator/normalize.py\<close>: the comparable form of a URL, and \<open>orchestrator/merge.py\<close>: several result lists
  become one, without two results for one page.  A Python dictionary whose order matters is an association list.
\<close>

section \<open>Comparable URLs\<close>

text \<open>
  How \<open>bytes.decode('utf-8', 'replace')\<close> sees the next octets: whether they are a character, and how many are
  read, as a character or as one broken piece.
\<close>

definition utf8_follow :: "nat \<Rightarrow> nat \<Rightarrow> nat \<Rightarrow> string \<Rightarrow> bool \<times> nat" where
  "utf8_follow n lo hi t =
     (let good = (case t of
          [] \<Rightarrow> 0
        | c # r \<Rightarrow> if of_char c < lo \<or> hi < of_char c then 0
            else Suc (length (takeWhile (\<lambda>d. 128 \<le> (of_char d :: nat) \<and> of_char d \<le> (191 :: nat)) (take (n - 1) r))))
      in (good = n, Suc good))"

definition utf8_head :: "char \<Rightarrow> string \<Rightarrow> bool \<times> nat" where
  "utf8_head b t =
     (let n = of_char b :: nat in
      if n < 128 then (True, 1)
      else if 194 \<le> n \<and> n \<le> 223 then utf8_follow 1 128 191 t
      else if 224 \<le> n \<and> n \<le> 239 then utf8_follow 2 (if n = 224 then 160 else 128) (if n = 237 then 159 else 191) t
      else if 240 \<le> n \<and> n \<le> 244 then utf8_follow 3 (if n = 240 then 144 else 128) (if n = 244 then 143 else 191) t
      else (False, 1))"

lemma utf8_head_pos: "0 < snd (utf8_head b t)"
  by (simp add: utf8_head_def utf8_follow_def Let_def)

text \<open>The octets of the decoded text: a broken piece has become U+FFFD.\<close>

function utf8_repair :: "string \<Rightarrow> string" where
  "utf8_repair [] = []"
| "utf8_repair (b # t) =
     (let (ok, n) = utf8_head b t
      in (if ok then take n (b # t) else [CHR 0xEF, CHR 0xBF, CHR 0xBD]) @ utf8_repair (drop n (b # t)))"
  by pat_completeness auto
termination
  by (relation "measure length") (use utf8_head_pos in \<open>auto, metis diff_less snd_conv zero_less_Suc\<close>)

text \<open>The octets of \<open>unquote_plus(s)\<close>: the runs of ASCII are unquoted and decoded one by one.\<close>

function unquoted_octets :: "string \<Rightarrow> string" where
  "unquoted_octets [] = []"
| "unquoted_octets (c # s) =
     (if (of_char c :: nat) < 128
      then utf8_repair (unquote_plus (takeWhile (\<lambda>d. (of_char d :: nat) < 128) (c # s))) @
             unquoted_octets (dropWhile (\<lambda>d. (of_char d :: nat) < 128) (c # s))
      else utf8 [c] @ unquoted_octets s)"
  by pat_completeness auto
termination
  by (relation "measure length") (auto simp: length_dropWhile_le less_Suc_eq_le)

definition quote_octet :: "char \<Rightarrow> string" where
  "quote_octet c =
     (if is_alpha_ascii c \<or> is_digit c \<or> c \<in> set ''_.-~'' then [c]
      else if c = CHR '' '' then ''+''
      else [CHR 0x25, ''0123456789ABCDEF'' ! (of_char c div 16), ''0123456789ABCDEF'' ! (of_char c mod 16)])"

definition quote_plus :: "string \<Rightarrow> string" where
  "quote_plus octets = concat (map quote_octet octets)"

text \<open>\<open>parse_qsl(query, keep_blank_values=True)\<close>, the names and values as octets.\<close>

definition parse_qsl :: "string \<Rightarrow> (string \<times> string) list" where
  "parse_qsl q =
     map (\<lambda>part. let (name, _, value) = partition_on (CHR ''='') part in (unquoted_octets name, unquoted_octets value))
       (filter (\<lambda>part. part \<noteq> []) (split_on (CHR ''&'') q))"

definition urlencode :: "(string \<times> string) list \<Rightarrow> string" where
  "urlencode kvs = join_on ''&'' (map (\<lambda>(k, v). quote_plus k @ ''='' @ quote_plus v) kvs)"

text \<open>No character beyond ASCII has one of the letters u, t, m as its lower case.\<close>

definition utm_name :: "string \<Rightarrow> bool" where
  "utm_name k \<longleftrightarrow>
     py_startswith (map (\<lambda>c. if CHR ''A'' \<le> c \<and> c \<le> CHR ''Z'' then char_of (of_char c + 32 :: nat) else c) k) ''utm_''"

definition normalize_url :: "url_env \<Rightarrow> string \<Rightarrow> string option" where
  "normalize_url env url =
     do {
       u \<leftarrow> urlsplit url;
       (if netloc u = [] then Some (rstrip_char (CHR ''/'') url)
        else do {
          host \<leftarrow> canonical_host env (hostname u);
          port \<leftarrow> url_port u;
          (let scheme = (if py_lower (url_scheme u) = [] then ''https'' else py_lower (url_scheme u));
               loc = (case port of
                   None \<Rightarrow> host
                 | Some p \<Rightarrow> if p = 0 \<or> default_port scheme p then host else host @ '':'' @ py_str_nat p);
               q = urlencode (filter (\<lambda>(k, v). \<not> utm_name k) (parse_qsl (query u)))
           in Some (urlunsplit \<lparr>url_scheme = scheme, netloc = loc,
                 url_path = rstrip_char (CHR ''/'') (fst (url_params u)), query = q, fragment = []\<rparr>))
        })
     }"

section \<open>Merging\<close>

record contribution =
  con_subquery :: string
  con_engine :: string
  con_position :: "int option"
  con_score :: pyfloat

record discovery_result =
  dr_title :: string
  dr_url :: string
  dr_snippet :: string
  dr_engine :: string
  dr_score :: pyfloat
  dr_published_at :: "string option"
  dr_contributions :: "contribution list"

type_synonym contribution_key = "string \<times> string \<times> int option"

definition contribution_key :: "contribution \<Rightarrow> contribution_key" where
  "contribution_key c = (con_subquery c, con_engine c, con_position c)"

definition contributions_of :: "string \<Rightarrow> discovery_result \<Rightarrow> contribution list" where
  "contributions_of subquery r =
     (if dr_contributions r \<noteq> [] then dr_contributions r
      else [\<lparr>con_subquery = subquery, con_engine = dr_engine r, con_position = None, con_score = dr_score r\<rparr>])"

record merge_state =
  best :: "(string \<times> discovery_result) list"
  contribs :: "(string \<times> (contribution_key \<times> contribution) list) list"

definition keep_contribution ::
  "contribution \<Rightarrow> (contribution_key \<times> contribution) list \<Rightarrow> (contribution_key \<times> contribution) list" where
  "keep_contribution c cm =
     (case map_of cm (contribution_key c) of
        None \<Rightarrow> AList.update (contribution_key c) c cm
      | Some old \<Rightarrow> if con_score old < con_score c then AList.update (contribution_key c) c cm else cm)"

definition merge_result :: "url_env \<Rightarrow> string \<Rightarrow> discovery_result \<Rightarrow> merge_state \<Rightarrow> merge_state option" where
  "merge_result env subquery r m =
     map_option (\<lambda>key.
       (let old = (case map_of (contribs m) key of None \<Rightarrow> [] | Some cm \<Rightarrow> cm)
        in m\<lparr>contribs := AList.update key (fold keep_contribution (contributions_of subquery r) old) (contribs m),
             best := (case map_of (best m) key of
                 None \<Rightarrow> AList.update key r (best m)
               | Some b \<Rightarrow> if dr_score b < dr_score r then AList.update key r (best m) else best m)\<rparr>))
       (normalize_url env (dr_url r))"

fun merge_results :: "url_env \<Rightarrow> (string \<times> discovery_result) list \<Rightarrow> merge_state \<Rightarrow> merge_state option" where
  "merge_results env [] m = Some m"
| "merge_results env ((q, r) # rs) m =
     (case merge_result env q r m of None \<Rightarrow> None | Some m' \<Rightarrow> merge_results env rs m')"

definition contribution_order :: "contribution \<Rightarrow> string \<times> int \<times> string" where
  "contribution_order c = (con_subquery c, case con_position c of None \<Rightarrow> 2 ^ 31 | Some p \<Rightarrow> p, con_engine c)"

text \<open>The key stands for \<open>normalize_url(result.url)\<close>, which the code computes again.\<close>

definition merged_result :: "merge_state \<Rightarrow> string \<times> discovery_result \<Rightarrow> discovery_result" where
  "merged_result m kr =
     (snd kr)\<lparr>dr_contributions :=
       sort_key contribution_order (map snd (case map_of (contribs m) (fst kr) of None \<Rightarrow> [] | Some cm \<Rightarrow> cm))\<rparr>"

text \<open>Every result with its subquery, in the order of the sets.\<close>

definition tagged_results :: "discovery_result list list \<Rightarrow> string list option \<Rightarrow> (string \<times> discovery_result) list" where
  "tagged_results sets subqueries =
     concat (map (\<lambda>(i, rs). map (Pair (case subqueries of
          None \<Rightarrow> ''result_set:'' @ py_str_nat i
        | Some qs \<Rightarrow> if i < length qs then qs ! i else ''result_set:'' @ py_str_nat i)) rs)
       (enumerate 0 sets))"

definition merge_dedup ::
  "url_env \<Rightarrow> discovery_result list list \<Rightarrow> string list option \<Rightarrow> discovery_result list option" where
  "merge_dedup env sets subqueries =
     map_option (\<lambda>m. map (merged_result m) (sort_key (\<lambda>(k, r). (- dr_score r, k)) (best m)))
       (merge_results env (tagged_results sets subqueries) \<lparr>best = [], contribs = []\<rparr>)"

section \<open>What merging keeps\<close>

lemma keep_contribution_lookup:
  "map_of (keep_contribution c cm) k =
     (if k = contribution_key c \<and> (\<forall>old. map_of cm k = Some old \<longrightarrow> con_score old < con_score c) then Some c else map_of cm k)"
  by (auto simp: keep_contribution_def update_conv split: option.splits)

text \<open>A map that answers with the right keys, and at least with the score of \<open>c\<close>.\<close>

definition covers :: "(contribution_key \<times> contribution) list \<Rightarrow> contribution \<Rightarrow> bool" where
  "covers cm c \<longleftrightarrow> (\<exists>b. map_of cm (contribution_key c) = Some b \<and> con_score c \<le> con_score b)"

lemma covers_keep: "covers cm c \<or> c = d \<Longrightarrow> covers (keep_contribution d cm) c"
  by (auto simp: covers_def keep_contribution_lookup)

lemma covers_fold: "covers cm c \<or> c \<in> set cs \<Longrightarrow> covers (fold keep_contribution cs cm) c"
proof (induction cs arbitrary: cm)
  case (Cons d cs)
  then show ?case using covers_keep [of cm c d] by (auto intro: Cons.IH)
qed simp

definition own_keys :: "(contribution_key \<times> contribution) list \<Rightarrow> bool" where
  "own_keys cm \<longleftrightarrow> distinct (map fst cm) \<and> (\<forall>k c. map_of cm k = Some c \<longrightarrow> k = contribution_key c)"

lemma own_keys_fold: "own_keys cm \<Longrightarrow> own_keys (fold keep_contribution cs cm)"
proof (induction cs arbitrary: cm)
  case (Cons c cs)
  have "distinct (map fst (keep_contribution c cm))"
    using Cons.prems by (simp add: own_keys_def keep_contribution_def distinct_update split: option.split)
  moreover have "k = contribution_key d" if "map_of (keep_contribution c cm) k = Some d" for k d
  proof -
    have "map_of cm k = Some d \<Longrightarrow> k = contribution_key d" using Cons.prems unfolding own_keys_def by blast
    then show ?thesis using that by (auto simp: keep_contribution_lookup split: if_splits)
  qed
  ultimately have "own_keys (keep_contribution c cm)" unfolding own_keys_def by blast
  then show ?case using Cons.IH by simp
qed simp

lemma distinct_map_sort_key: "distinct (map f (sort_key g xs)) = distinct (map f xs)"
  by (simp add: distinct_map)

lemma own_keys_map: assumes "own_keys cm" shows "map contribution_key (map snd cm) = map fst cm"
proof -
  have "contribution_key (snd kc) = fst kc" if "kc \<in> set cm" for kc
  proof -
    have "map_of cm (fst kc) = Some (snd kc)" using assms that by (cases kc) (simp add: own_keys_def)
    then show ?thesis using assms unfolding own_keys_def by metis
  qed
  then show ?thesis by simp
qed

definition merge_inv :: "url_env \<Rightarrow> (string \<times> discovery_result) list \<Rightarrow> merge_state \<Rightarrow> bool" where
  "merge_inv env rs m \<longleftrightarrow>
     distinct (map fst (best m)) \<and>
     (\<forall>k b. map_of (best m) k = Some b \<longrightarrow> b \<in> snd ` set rs \<and> normalize_url env (dr_url b) = Some k) \<and>
     (\<forall>(q, r)\<in>set rs. \<exists>k b cm. normalize_url env (dr_url r) = Some k \<and> map_of (best m) k = Some b \<and> dr_score r \<le> dr_score b \<and>
        map_of (contribs m) k = Some cm \<and> (\<forall>c\<in>set (contributions_of q r). covers cm c)) \<and>
     (\<forall>k cm. map_of (contribs m) k = Some cm \<longrightarrow> own_keys cm)"

lemma merge_inv_start: "merge_inv env [] \<lparr>best = [], contribs = []\<rparr>"
  by (simp add: merge_inv_def)

lemma merge_inv_step:
  assumes "merge_inv env rs m" and "merge_result env q r m = Some m'"
  shows "merge_inv env (rs @ [(q, r)]) m'"
proof -
  obtain key where key: "normalize_url env (dr_url r) = Some key" using assms(2) by (auto simp: merge_result_def)
  let ?old = "case map_of (contribs m) key of None \<Rightarrow> [] | Some cm \<Rightarrow> cm"
  let ?cm = "fold keep_contribution (contributions_of q r) ?old"
  let ?wins = "\<forall>b. map_of (best m) key = Some b \<longrightarrow> dr_score b < dr_score r"
  have cs: "map_of (contribs m') k = (if k = key then Some ?cm else map_of (contribs m) k)" for k
    using assms(2) key by (auto simp: merge_result_def update_conv)
  have b: "map_of (best m') k = (if k = key \<and> ?wins then Some r else map_of (best m) k)" for k
    using assms(2) key by (auto simp: merge_result_def Let_def update_conv split: option.splits if_splits)
  have "distinct (map fst (best m'))"
    using assms key by (auto simp: merge_result_def Let_def merge_inv_def distinct_update split: option.splits)
  moreover have "own_keys cm" if "map_of (contribs m') k = Some cm" for k cm
  proof -
    have "own_keys ?old" using assms(1) by (auto simp: merge_inv_def own_keys_def split: option.split)
    then show ?thesis using that assms(1) own_keys_fold by (auto simp: cs merge_inv_def split: if_splits)
  qed
  moreover have "x \<in> snd ` set (rs @ [(q, r)]) \<and> normalize_url env (dr_url x) = Some k" if "map_of (best m') k = Some x" for k x
    using that assms(1) key by (auto simp: b merge_inv_def split: if_splits)
  moreover have "\<exists>k x cm. normalize_url env (dr_url r') = Some k \<and> map_of (best m') k = Some x \<and> dr_score r' \<le> dr_score x \<and>
        map_of (contribs m') k = Some cm \<and> (\<forall>c\<in>set (contributions_of q' r'). covers cm c)"
    if "(q', r') \<in> set (rs @ [(q, r)])" for q' r'
  proof (cases "(q', r') \<in> set rs")
    case True
    then obtain k x cm where old: "normalize_url env (dr_url r') = Some k" "map_of (best m) k = Some x" "dr_score r' \<le> dr_score x"
        "map_of (contribs m) k = Some cm" "\<forall>c\<in>set (contributions_of q' r'). covers cm c"
      using assms(1) by (fastforce simp: merge_inv_def)
    have "\<exists>x. map_of (best m') k = Some x \<and> dr_score r' \<le> dr_score x"
      using old(2,3) by (cases "k = key \<and> ?wins") (auto simp: b)
    moreover have "\<exists>cm. map_of (contribs m') k = Some cm \<and> (\<forall>c\<in>set (contributions_of q' r'). covers cm c)"
      using old(4,5) covers_fold by (cases "k = key") (auto simp: cs)
    ultimately show ?thesis using old(1) by blast
  next
    case False
    then have qr: "q' = q" "r' = r" using that by auto
    have "\<exists>x. map_of (best m') key = Some x \<and> dr_score r \<le> dr_score x"
      by (cases "map_of (best m) key") (auto simp: b not_less)
    then show ?thesis using key qr by (auto simp: cs intro: covers_fold)
  qed
  ultimately show ?thesis unfolding merge_inv_def by blast
qed

lemma merge_inv_results:
  "merge_results env rs m = Some m' \<Longrightarrow> merge_inv env rs0 m \<Longrightarrow> merge_inv env (rs0 @ rs) m'"
proof (induction env rs m arbitrary: rs0 rule: merge_results.induct)
  case (2 env q r rs m)
  then obtain m1 where "merge_result env q r m = Some m1" "merge_results env rs m1 = Some m'"
    by (auto split: option.splits)
  then show ?case using 2(1) [of m1 "rs0 @ [(q, r)]"] 2(3) merge_inv_step by fastforce
qed simp

lemma set_tagged: "snd ` set (tagged_results sets subqueries) = set (concat sets)"
proof -
  have "snd ` set (concat (map (\<lambda>(i, rs). map (Pair (f i)) rs) (enumerate n sets))) = set (concat sets)" for f :: "nat \<Rightarrow> string" and n
    by (induction sets arbitrary: n) (auto simp: image_Un image_image)
  then show ?thesis unfolding tagged_results_def .
qed

lemma merge_dedup_urls:
  assumes "merge_dedup env sets subqueries = Some out"
  shows "dr_url ` set out \<subseteq> dr_url ` set (concat sets)"
proof -
  obtain m where m: "merge_results env (tagged_results sets subqueries) \<lparr>best = [], contribs = []\<rparr> = Some m"
      and out: "out = map (merged_result m) (sort_key (\<lambda>(k, r). (- dr_score r, k)) (best m))"
    using assms by (auto simp: merge_dedup_def)
  have inv: "merge_inv env (tagged_results sets subqueries) m" using merge_inv_results [OF m merge_inv_start] by simp
  have "snd kr \<in> set (concat sets)" if "kr \<in> set (best m)" for kr
  proof -
    have "map_of (best m) (fst kr) = Some (snd kr)"
      using inv that by (intro map_of_is_SomeI) (simp_all add: merge_inv_def)
    then show ?thesis using inv unfolding merge_inv_def set_tagged by blast
  qed
  then have "dr_url (merged_result m kr) \<in> dr_url ` set (concat sets)" if "kr \<in> set (best m)" for kr
    using that by (simp add: merged_result_def)
  then show ?thesis unfolding out by auto
qed


definition demo_urls :: url_env where
  "demo_urls = \<lparr>idna_uts46 = Some, idna_2003 = Some, ipv6_string = (\<lambda>w. []), sha256 = (\<lambda>b. [])\<rparr>"

definition demo_found :: "string \<Rightarrow> int \<Rightarrow> discovery_result" where
  "demo_found url score =
     \<lparr>dr_title = ''T'', dr_url = url, dr_snippet = [], dr_engine = ''e'', dr_score = of_int score, dr_published_at = None,
      dr_contributions = []\<rparr>"

lemma demo_keys:
  "normalize_url demo_urls ''http://a/?utm_x=1'' = Some ''http://a''"
  "normalize_url demo_urls ''HTTP://A/'' = Some ''http://a''"
  by code_simp+


end
