(* ===== verification/Search_Selection.thy ===== *)
theory Search_Selection
  imports Search_Merge
begin

text \<open>
  \<open>orchestrator/selection.py\<close>: which of the search results are read.  The state of the passes is a record; Python
  sets are sets and the host counts a map.  \<open>None\<close> is the ValueError a host without a parse raises.
\<close>

section \<open>Scores\<close>

text \<open>\<open>re.findall\<close> of one or more characters of a class.\<close>

function matching_runs :: "(char \<Rightarrow> bool) \<Rightarrow> string \<Rightarrow> string list" where
  "matching_runs p [] = []"
| "matching_runs p (c # s) =
     (if p c then takeWhile p (c # s) # matching_runs p (dropWhile p (c # s)) else matching_runs p s)"
  by pat_completeness auto
termination by (relation "measure (length \<circ> snd)") (auto simp: length_dropWhile_le less_Suc_eq_le)

definition lower_or_digit :: "char \<Rightarrow> bool" where
  "lower_or_digit c \<longleftrightarrow> CHR ''a'' \<le> c \<and> c \<le> CHR ''z'' \<or> CHR ''0'' \<le> c \<and> c \<le> CHR ''9''"

definition tokens :: "string \<Rightarrow> string set" where
  "tokens value = set (filter (\<lambda>t. 1 < length t) (matching_runs lower_or_digit (py_lower value)))"

definition lexical_score :: "string option \<Rightarrow> discovery_result \<Rightarrow> pyfloat" where
  "lexical_score asked r =
     (let query_terms = tokens (case asked of None \<Rightarrow> [] | Some q \<Rightarrow> q) in
      if query_terms = {} then 0
      else let haystack = tokens (dr_title r @ '' '' @ dr_snippet r @ '' '' @ dr_url r) in
        if haystack = {} then 0 else real (card (query_terms \<inter> haystack)) / real (card query_terms))"

section \<open>Hosts and limits\<close>

definition matches_host :: "string \<Rightarrow> string \<Rightarrow> bool" where
  "matches_host host pattern \<longleftrightarrow> host = pattern \<or> py_endswith host (''.'' @ pattern)"

definition per_domain_limit :: "int \<Rightarrow> string set option \<Rightarrow> int" where
  "per_domain_limit max_urls allowed =
     (if (case allowed of None \<Rightarrow> False | Some a \<Rightarrow> card a \<le> 1) then max_urls
      else if max_urls \<le> 2 then 1
      else min 3 (max 1 \<lceil>real_of_int max_urls / 3\<rceil>))"

definition normalized_hosts :: "url_env \<Rightarrow> string set \<Rightarrow> string set option" where
  "normalized_hosts env hosts =
     (if \<exists>h\<in>hosts. canonical_host env (Some h) = None then None
      else Some ((\<lambda>h. the (canonical_host env (Some h))) ` hosts - {[]}))"

type_synonym candidate = "discovery_result \<times> string \<times> pyfloat"

record decision =
  de_result :: discovery_result
  de_selected :: bool
  de_selection_reason :: "string option"
  de_filtered_reason :: "string option"
  de_lexical_score :: pyfloat

definition filtered :: "string \<Rightarrow> discovery_result \<Rightarrow> pyfloat \<Rightarrow> decision" where
  "filtered reason r score =
     \<lparr>de_result = r, de_selected = False, de_selection_reason = None, de_filtered_reason = Some reason, de_lexical_score = score\<rparr>"

fun collect_candidates ::
  "url_env \<Rightarrow> string set \<Rightarrow> string set option \<Rightarrow> string option \<Rightarrow> discovery_result list \<Rightarrow>
   (candidate list \<times> decision list) option" where
  "collect_candidates env blocked allowed asked [] = Some ([], [])"
| "collect_candidates env blocked allowed asked (r # rs) =
     do {
       host \<leftarrow> host_for env (dr_url r);
       (cs, ds) \<leftarrow> collect_candidates env blocked allowed asked rs;
       Some (if host = [] then (cs, filtered ''invalid_host'' r 0 # ds)
         else if \<exists>b\<in>blocked. matches_host host b then (cs, filtered ''blocked_domain'' r 0 # ds)
         else if (case allowed of None \<Rightarrow> False | Some a \<Rightarrow> \<not> (\<exists>p\<in>a. matches_host host p))
           then (cs, filtered ''outside_allowlist'' r 0 # ds)
         else ((r, host, lexical_score asked r) # cs, ds))
     }"

definition ordered_candidates :: "candidate list \<Rightarrow> candidate list" where
  "ordered_candidates = sort_key (\<lambda>(r, h, l). (- (dr_score r + l * (1 / 4)), - dr_score r, dr_url r))"

definition candidate_limit :: "int \<Rightarrow> string set option \<Rightarrow> candidate list \<Rightarrow> int" where
  "candidate_limit max_urls allowed cs =
     (if card ((\<lambda>(r, h, l). h) ` set cs) \<le> 1 then max_urls else per_domain_limit max_urls allowed)"

section \<open>The passes\<close>

record selection_state =
  selected :: "discovery_result list"
  selected_keys :: "string set"
  host_counts :: "string \<rightharpoonup> nat"
  seen_engines :: "string set"
  decisions :: "decision list"

definition host_count :: "selection_state \<Rightarrow> string \<Rightarrow> nat" where
  "host_count st host = (case host_counts st host of None \<Rightarrow> 0 | Some n \<Rightarrow> n)"

definition can_select :: "selection_state \<Rightarrow> discovery_result \<Rightarrow> string \<Rightarrow> int \<Rightarrow> bool" where
  "can_select st r host limit \<longleftrightarrow> dr_url r \<notin> selected_keys st \<and> int (host_count st host) < limit"

definition result_engines :: "discovery_result \<Rightarrow> string set" where
  "result_engines r =
     set (filter (\<lambda>e. e \<noteq> []) (map con_engine (dr_contributions r))) \<union> (if dr_engine r \<noteq> [] then {dr_engine r} else {})"

definition add_selection :: "discovery_result \<Rightarrow> string \<Rightarrow> string \<Rightarrow> pyfloat \<Rightarrow> selection_state \<Rightarrow> selection_state" where
  "add_selection r host reason score st =
     st\<lparr>selected := selected st @ [r],
        selected_keys := insert (dr_url r) (selected_keys st),
        host_counts := (host_counts st)(host \<mapsto> host_count st host + 1),
        seen_engines := seen_engines st \<union> result_engines r,
        decisions := decisions st @
          [\<lparr>de_result = r, de_selected = True, de_selection_reason = Some reason, de_filtered_reason = None, de_lexical_score = score\<rparr>]\<rparr>"

fun select_pass ::
  "int \<Rightarrow> int \<Rightarrow> string \<Rightarrow> (discovery_result \<Rightarrow> string \<Rightarrow> selection_state \<Rightarrow> bool) \<Rightarrow> candidate list \<Rightarrow>
   selection_state \<Rightarrow> selection_state" where
  "select_pass max_urls limit reason wanted [] st = st"
| "select_pass max_urls limit reason wanted ((r, host, score) # cs) st =
     (if int (length (selected st)) \<ge> max_urls then st
      else select_pass max_urls limit reason wanted cs
        (if wanted r host st \<and> can_select st r host limit then add_selection r host reason score st else st))"

definition append_unselected :: "candidate list \<Rightarrow> int \<Rightarrow> selection_state \<Rightarrow> selection_state" where
  "append_unselected cs limit st =
     st\<lparr>decisions := decisions st @
       map (\<lambda>(r, host, score). filtered (if int (host_count st host) \<ge> limit then ''domain_cap'' else ''rank_cap'') r score)
         (filter (\<lambda>(r, host, score). dr_url r \<notin> selected_keys st) cs)\<rparr>"

definition new_engine :: "discovery_result \<Rightarrow> string \<Rightarrow> selection_state \<Rightarrow> bool" where
  "new_engine r host st \<longleftrightarrow> result_engines r - seen_engines st \<noteq> {}"

definition new_host :: "discovery_result \<Rightarrow> string \<Rightarrow> selection_state \<Rightarrow> bool" where
  "new_host r host st \<longleftrightarrow> host_counts st host = None"

definition select_passes :: "int \<Rightarrow> int \<Rightarrow> candidate list \<Rightarrow> decision list \<Rightarrow> selection_state" where
  "select_passes max_urls limit cs ds =
     select_pass max_urls limit ''score'' (\<lambda>r host st. True) cs
       (select_pass max_urls limit ''domain_diversity'' new_host cs
         (select_pass max_urls limit ''engine_diversity'' new_engine cs
           \<lparr>selected = [], selected_keys = {}, host_counts = Map.empty, seen_engines = {}, decisions = ds\<rparr>))"

definition select_with_diagnostics ::
  "url_env \<Rightarrow> discovery_result list \<Rightarrow> int \<Rightarrow> string set \<Rightarrow> string set option \<Rightarrow> string option \<Rightarrow>
   (discovery_result list \<times> decision list) option" where
  "select_with_diagnostics env results max_urls blocklist allowlist asked =
     do {
       blocked \<leftarrow> normalized_hosts env blocklist;
       allowed \<leftarrow> (case allowlist of None \<Rightarrow> Some None | Some a \<Rightarrow> map_option Some (normalized_hosts env a));
       (cs, ds) \<leftarrow> collect_candidates env blocked allowed asked results;
       (let limit = candidate_limit max_urls allowed cs;
            st = append_unselected (ordered_candidates cs) limit (select_passes max_urls limit (ordered_candidates cs) ds)
        in Some (selected st, decisions st))
     }"

definition select_urls ::
  "url_env \<Rightarrow> discovery_result list \<Rightarrow> int \<Rightarrow> string set \<Rightarrow> string set option \<Rightarrow> string option \<Rightarrow> discovery_result list option" where
  "select_urls env results max_urls blocklist allowlist asked =
     map_option fst (select_with_diagnostics env results max_urls blocklist allowlist asked)"

section \<open>What the passes keep\<close>

text \<open>The results the policy may read: their host is known, not blocked and on the list, if there is one.\<close>

definition eligible :: "url_env \<Rightarrow> string set \<Rightarrow> string set option \<Rightarrow> discovery_result \<Rightarrow> bool" where
  "eligible env blocked allowed r \<longleftrightarrow>
     (\<exists>host. host_for env (dr_url r) = Some host \<and> host \<noteq> [] \<and> (\<forall>b\<in>blocked. \<not> matches_host host b) \<and>
        (case allowed of None \<Rightarrow> True | Some a \<Rightarrow> \<exists>p\<in>a. matches_host host p))"

lemma collect_candidates_exact:
  "collect_candidates env blocked allowed asked rs = Some (cs, ds) \<Longrightarrow>
   map fst cs = filter (eligible env blocked allowed) rs \<and>
   (\<forall>(r, host, score)\<in>set cs. host_for env (dr_url r) = Some host) \<and>
   (\<forall>d\<in>set ds. \<not> de_selected d \<and> de_filtered_reason d \<noteq> Some ''rank_cap'' \<and> \<not> eligible env blocked allowed (de_result d))"
proof (induction rs arbitrary: cs ds)
  case (Cons r rs)
  obtain host cs' ds' where step: "host_for env (dr_url r) = Some host"
      "collect_candidates env blocked allowed asked rs = Some (cs', ds')"
    using Cons.prems by (auto simp: Option.bind_eq_Some_conv)
  then have "(cs, ds) = (if eligible env blocked allowed r then ((r, host, lexical_score asked r) # cs', ds')
      else (cs', filtered (if host = [] then ''invalid_host'' else if \<exists>b\<in>blocked. matches_host host b then ''blocked_domain''
        else ''outside_allowlist'') r 0 # ds'))"
    using Cons.prems by (auto simp: eligible_def split: option.splits if_splits)
  then show ?case using Cons.IH [OF step(2)] step(1) by (auto simp: filtered_def split: if_splits)
qed simp

definition hosts_of :: "url_env \<Rightarrow> string \<Rightarrow> discovery_result list \<Rightarrow> nat" where
  "hosts_of env host rs = length (filter (\<lambda>r. host_for env (dr_url r) = Some host) rs)"

definition sel_inv :: "url_env \<Rightarrow> int \<Rightarrow> int \<Rightarrow> discovery_result set \<Rightarrow> selection_state \<Rightarrow> bool" where
  "sel_inv env max_urls limit pool st \<longleftrightarrow>
     selected_keys st = dr_url ` set (selected st) \<and>
     distinct (map dr_url (selected st)) \<and>
     set (selected st) \<subseteq> pool \<and>
     int (length (selected st)) \<le> max 0 max_urls \<and>
     (\<forall>host. host_count st host = hosts_of env host (selected st) \<and> int (host_count st host) \<le> max 0 limit)"

lemma sel_inv_add:
  assumes "sel_inv env max_urls limit pool st" and "r \<in> pool" and "host_for env (dr_url r) = Some host"
    and "can_select st r host limit" and "int (length (selected st)) < max_urls"
  shows "sel_inv env max_urls limit pool (add_selection r host reason score st)"
  using assms by (auto simp: sel_inv_def add_selection_def can_select_def host_count_def hosts_of_def split: option.splits)

lemma select_pass_inv:
  assumes "\<forall>(r, host, score)\<in>set cs. r \<in> pool \<and> host_for env (dr_url r) = Some host" and "sel_inv env max_urls limit pool st"
  shows "sel_inv env max_urls limit pool (select_pass max_urls limit reason wanted cs st)"
  using assms
proof (induction cs arbitrary: st)
  case (Cons c cs)
  obtain r host score where c: "c = (r, host, score)" by (cases c) auto
  have "sel_inv env max_urls limit pool (if wanted r host st \<and> can_select st r host limit then add_selection r host reason score st else st)"
    if "int (length (selected st)) < max_urls"
    using Cons.prems that c by (auto intro: sel_inv_add)
  then show ?case using Cons c by auto
qed simp

text \<open>Passes only add, and a pass that wants everything leaves out what is full or already there.\<close>

lemma select_pass_grows:
  "selected_keys st \<subseteq> selected_keys (select_pass max_urls limit reason wanted cs st) \<and>
   host_count st host \<le> host_count (select_pass max_urls limit reason wanted cs st) host \<and>
   length (selected st) \<le> length (selected (select_pass max_urls limit reason wanted cs st))"
proof (induction max_urls limit reason wanted cs st rule: select_pass.induct)
  case (2 max_urls limit reason wanted r h score cs st)
  let ?st = "if wanted r h st \<and> can_select st r h limit then add_selection r h reason score st else st"
  have step: "selected_keys st \<subseteq> selected_keys ?st" "host_count st host \<le> host_count ?st host"
      "length (selected st) \<le> length (selected ?st)"
    by (auto simp: add_selection_def host_count_def split: option.split)
  show ?case
  proof (cases "int (length (selected st)) \<ge> max_urls")
    case False
    show ?thesis using 2 [OF False] step order_trans False unfolding select_pass.simps(2) if_not_P [OF False] by meson
  qed simp
qed simp

lemma select_pass_full:
  "(r, host, score) \<in> set cs \<Longrightarrow>
   dr_url r \<in> selected_keys (select_pass max_urls limit reason (\<lambda>r h st. True) cs st) \<or>
   limit \<le> int (host_count (select_pass max_urls limit reason (\<lambda>r h st. True) cs st) host) \<or>
   max_urls \<le> int (length (selected (select_pass max_urls limit reason (\<lambda>r h st. True) cs st)))"
proof (induction cs arbitrary: st)
  case (Cons c cs)
  obtain r' h' s' where c: "c = (r', h', s')" by (cases c) auto
  let ?st = "if can_select st r' h' limit then add_selection r' h' reason s' st else st"
  show ?case
  proof (cases "int (length (selected st)) \<ge> max_urls \<or> (r, host, score) \<in> set cs")
    case True
    then show ?thesis using Cons.IH [of ?st] c by auto
  next
    case False
    then have same: "r' = r" "h' = host" using Cons.prems c by auto
    have "dr_url r \<in> selected_keys ?st \<or> limit \<le> int (host_count ?st host)"
      by (auto simp: same can_select_def add_selection_def)
    moreover have "selected_keys ?st \<subseteq> selected_keys (select_pass max_urls limit reason (\<lambda>r h st. True) cs ?st)"
        "host_count ?st host \<le> host_count (select_pass max_urls limit reason (\<lambda>r h st. True) cs ?st) host"
      using select_pass_grows by blast+
    ultimately show ?thesis using False c by (auto split: if_splits)
  qed
qed simp

text \<open>The decisions that say selected name the selection, in its order.\<close>

definition decisions_true :: "selection_state \<Rightarrow> bool" where
  "decisions_true st \<longleftrightarrow>
     map de_result (filter de_selected (decisions st)) = selected st \<and>
     (\<forall>d\<in>set (decisions st). de_filtered_reason d \<noteq> Some ''rank_cap'')"

lemma decisions_true_pass: "decisions_true st \<Longrightarrow> decisions_true (select_pass max_urls limit reason wanted cs st)"
proof (induction max_urls limit reason wanted cs st rule: select_pass.induct)
  case (2 max_urls limit reason wanted r h score cs st)
  have "decisions_true (add_selection r h reason score st)"
    using 2(2) by (simp add: decisions_true_def add_selection_def)
  then show ?case using 2 by simp
qed simp

lemma filter_unselected: "filter de_selected (map (\<lambda>(r, h, s). filtered (f r h s) r s) cs) = []"
  by (auto simp: filter_empty_conv filtered_def)

lemma selection_passes:
  assumes "select_with_diagnostics env results max_urls blocklist allowlist asked = Some (sel, ds)"
    and "normalized_hosts env blocklist = Some blocked"
    and "allowed = (case allowlist of None \<Rightarrow> None | Some a \<Rightarrow> normalized_hosts env a)"
  obtains cs ds0 where "collect_candidates env blocked allowed asked results = Some (cs, ds0)"
    and "sel = selected (select_passes max_urls (candidate_limit max_urls allowed cs) (ordered_candidates cs) ds0)"
    and "ds = decisions (append_unselected (ordered_candidates cs) (candidate_limit max_urls allowed cs)
           (select_passes max_urls (candidate_limit max_urls allowed cs) (ordered_candidates cs) ds0))"
    and "sel_inv env max_urls (candidate_limit max_urls allowed cs) (set (filter (eligible env blocked allowed) results))
           (select_passes max_urls (candidate_limit max_urls allowed cs) (ordered_candidates cs) ds0)"
    and "\<forall>(r, host, score)\<in>set (ordered_candidates cs). r \<in> set (filter (eligible env blocked allowed) results) \<and>
           host_for env (dr_url r) = Some host"
proof -
  obtain cs ds0 where cs: "collect_candidates env blocked allowed asked results = Some (cs, ds0)"
      and out: "sel = selected (select_passes max_urls (candidate_limit max_urls allowed cs) (ordered_candidates cs) ds0)"
        "ds = decisions (append_unselected (ordered_candidates cs) (candidate_limit max_urls allowed cs)
           (select_passes max_urls (candidate_limit max_urls allowed cs) (ordered_candidates cs) ds0))"
    using assms(1-3) by (auto simp: select_with_diagnostics_def append_unselected_def Let_def Option.bind_eq_Some_conv split: option.splits)
  let ?limit = "candidate_limit max_urls allowed cs" and ?ok = "set (filter (eligible env blocked allowed) results)"
  have pool: "\<forall>(r, host, score)\<in>set (ordered_candidates cs). r \<in> ?ok \<and> host_for env (dr_url r) = Some host"
  proof -
    have "r \<in> ?ok \<and> host_for env (dr_url r) = Some host" if "(r, host, score) \<in> set cs" for r host score
    proof -
      have "r \<in> set (map fst cs)" using that by force
      then show ?thesis using collect_candidates_exact [OF cs] that by auto
    qed
    then show ?thesis by (auto simp: ordered_candidates_def)
  qed
  have "sel_inv env max_urls ?limit ?ok
      \<lparr>selected = [], selected_keys = {}, host_counts = Map.empty, seen_engines = {}, decisions = ds0\<rparr>"
    by (simp add: sel_inv_def host_count_def hosts_of_def)
  then have "sel_inv env max_urls ?limit ?ok (select_passes max_urls ?limit (ordered_candidates cs) ds0)"
    unfolding select_passes_def by (intro select_pass_inv pool)
  then show ?thesis using that [OF cs out] pool by blast
qed

lemma selection_sound:
  assumes "select_with_diagnostics env results max_urls blocklist allowlist asked = Some (sel, ds)"
  shows "\<exists>blocked. normalized_hosts env blocklist = Some blocked \<and> int (length sel) \<le> max 0 max_urls \<and> distinct (map dr_url sel) \<and>
    set sel \<subseteq> set (filter (eligible env blocked (case allowlist of None \<Rightarrow> None | Some a \<Rightarrow> normalized_hosts env a)) results)"
proof -
  obtain blocked where b: "normalized_hosts env blocklist = Some blocked"
    using assms by (auto simp: select_with_diagnostics_def Option.bind_eq_Some_conv)
  let ?ok = "set (filter (eligible env blocked (case allowlist of None \<Rightarrow> None | Some a \<Rightarrow> normalized_hosts env a)) results)"
  have "\<exists>st limit. sel = selected st \<and> sel_inv env max_urls limit ?ok st" by (rule selection_passes [OF assms b refl]) blast
  then show ?thesis using b unfolding sel_inv_def by blast
qed


definition demo_offers :: "discovery_result list" where
  "demo_offers = [demo_found ''http://a/x'' 1, demo_found ''http://b'' 2, demo_found ''http://a'' 3]"

lemma demo_hosts: "host_for demo_urls ''http://a/x'' = Some ''a''" "host_for demo_urls ''http://a'' = Some ''a''"
  "host_for demo_urls ''http://b'' = Some ''b''"
  by code_simp+


end
