(* ===== verification/Evidence_Types.thy ===== *)
theory Evidence_Types
  imports Search_Selection Json
begin

text \<open>
  \<open>orchestrator/types.py\<close>: the data that flows through the search pipeline, from pages over chunks to passages
  and citations.  A dictionary from JSON is the list of its members.
\<close>

record metadata_candidate =
  mc_field :: string
  mc_value :: string
  mc_source :: string
  mc_confidence :: string

record metadata_conflict =
  mx_field :: string
  mx_candidates :: "metadata_candidate list"

record document_metadata =
  dm_selected :: "metadata_candidate list"
  dm_conflicts :: "metadata_conflict list"

definition metadata_get :: "document_metadata \<Rightarrow> string \<Rightarrow> metadata_candidate option" where
  "metadata_get m name = List.find (\<lambda>c. mc_field c = name) (dm_selected m)"

record web_page =
  wp_url :: string
  wp_title :: string
  wp_markdown :: string
  wp_source_id :: "int option"
  wp_original_markdown :: "string option"
  wp_html :: "string option"
  wp_raw_html :: "string option"
  wp_requested_url :: "string option"
  wp_final_url :: "string option"
  wp_status_code :: "int option"
  wp_content_type :: "string option"
  wp_etag :: "string option"
  wp_last_modified :: "string option"
  wp_retry_after :: "string option"
  wp_metadata :: json_object
  wp_links :: json_object
  wp_published_at :: "string option"
  wp_evidence_metadata :: "document_metadata option"

record cleaned_page =
  cl_page :: web_page
  cl_chars_before :: int
  cl_chars_after :: int
  cl_blocks_dropped :: int
  cl_version :: string

record source_chunk =
  ch_text :: string
  ch_token_count :: int
  ch_source_url :: string
  ch_title :: string
  ch_position :: int
  ch_source_id :: "int option"
  ch_strategy :: json
  ch_degraded :: bool
  ch_start :: "int option"
  ch_end :: "int option"
  ch_verbatim :: bool
  ch_document_id :: "string option"
  ch_evidence_id :: "string option"
  ch_final_url :: "string option"
  ch_sha256 :: "string option"
  ch_heading :: "string option"
  ch_metadata :: "document_metadata option"

record score_component =
  sco_name :: string
  sco_score :: pyfloat
  sco_strategy :: string

record scored_chunk =
  sc_chunk :: source_chunk
  sc_score :: pyfloat
  sc_components :: "score_component list"

record telemetry =
  t_batches :: nat
  t_failed :: nat
  t_floor_filled :: bool
  t_scored :: nat

record rerank_outcome =
  ro_scored :: "scored_chunk list"
  ro_telemetry :: telemetry
  ro_strategy :: string

record prefiltered_chunks =
  pf_chunks :: "source_chunk list"
  pf_prefiltered :: nat
  pf_sent :: nat
  pf_strategy :: string

record assembled_passage =
  ap_text :: string
  ap_score :: pyfloat
  ap_token_count :: int
  ap_citation_id :: nat
  ap_start :: "int option"
  ap_end :: "int option"
  ap_verbatim :: bool
  ap_document_id :: "string option"
  ap_evidence_id :: "string option"
  ap_heading :: "string option"
  ap_components :: "score_component list"

record evidence_mark =
  em_start :: "int option"
  em_end :: "int option"
  em_verbatim :: bool
  em_evidence_id :: "string option"
  em_heading :: "string option"

record assembled_citation =
  ac_id :: nat
  ac_url :: string
  ac_title :: string
  ac_source_id :: "int option"
  ac_document_id :: "string option"
  ac_spans :: "evidence_mark list"
  ac_metadata :: "document_metadata option"

text \<open>\<open>a or b\<close> for an optional string: also the empty string is passed over.\<close>

definition or_string :: "string option \<Rightarrow> string \<Rightarrow> string" where
  "or_string a b = (case a of Some s \<Rightarrow> if s = [] then b else s | None \<Rightarrow> b)"

text \<open>The longest prefix whose UTF-8 form has at most \<open>n\<close> octets: encode, cut, and decode without the broken rest.\<close>

fun truncate_utf8 :: "nat \<Rightarrow> string \<Rightarrow> string" where
  "truncate_utf8 n [] = []"
| "truncate_utf8 n (c # s) = (if length (utf8 [c]) \<le> n then c # truncate_utf8 (n - length (utf8 [c])) s else [])"

lemma utf8_Cons: "utf8 (c # s) = utf8 [c] @ utf8 s"
  by (simp add: utf8_def)

lemma truncate_utf8_bound: "length (utf8 (truncate_utf8 n s)) \<le> n"
proof (induction n s rule: truncate_utf8.induct)
  case (2 n c s)
  then show ?case using utf8_Cons [of c "truncate_utf8 (n - length (utf8 [c])) s"] by (auto simp: utf8_def)
qed (simp add: utf8_def)

text \<open>\<open>int(v)\<close> of a JSON value; \<open>None\<close> is the TypeError or ValueError.\<close>

definition json_int :: "json \<Rightarrow> int option" where
  "json_int v = (case v of
       JInt i \<Rightarrow> Some i
     | JBool b \<Rightarrow> Some (if b then 1 else 0)
     | JFloat x \<Rightarrow> Some (if 0 \<le> x then \<lfloor>x\<rfloor> else \<lceil>x\<rceil>)
     | JStr s \<Rightarrow> py_int 10 s
     | _ \<Rightarrow> None)"

text \<open>\<open>float(v)\<close>.\<close>

definition json_float :: "json \<Rightarrow> pyfloat option" where
  "json_float v = (case v of JStr s \<Rightarrow> py_float s | _ \<Rightarrow> py_number v)"

text \<open>The string or the members of a value of that type.\<close>

definition json_string :: "json \<Rightarrow> string option" where
  "json_string v = (case v of JStr s \<Rightarrow> Some s | _ \<Rightarrow> None)"

definition json_members :: "json \<Rightarrow> json_object" where
  "json_members v = (case v of JObj m \<Rightarrow> m | _ \<Rightarrow> [])"

lemma json_string_Some [simp]: "json_string v = Some s \<longleftrightarrow> v = JStr s"
  by (cases v) (auto simp: json_string_def)

text \<open>\<open>d.get(k, dflt)\<close>: a member that is null is not replaced.\<close>

definition jget_or :: "json_object \<Rightarrow> string \<Rightarrow> json \<Rightarrow> json" where
  "jget_or d k dflt = (case map_of d k of None \<Rightarrow> dflt | Some v \<Rightarrow> v)"

end
