(* ===== verification/Chunker_Client.thy ===== *)
theory Chunker_Client
  imports Evidence_Types
begin

text \<open>
  \<open>orchestrator/clients/chunker_client.py\<close>: the pages become chunks.  The service's answers are a parameter; an
  answer that cannot be used, an exception, or a timeout is \<open>None\<close>, which is \<open>ChunkerUnavailable\<close>.  The text of a
  chunk is a string: the code also lets another JSON value through, which a later stage fails on; here it is refused.
\<close>

section \<open>Section headings\<close>

definition is_blank :: "char \<Rightarrow> bool" where
  "is_blank c \<longleftrightarrow> c = CHR '' '' \<or> c = CHR 0x09"

function lines_keepends :: "string \<Rightarrow> string list" where
  "lines_keepends s =
     (if s = [] then []
      else let l = takeWhile (\<lambda>c. c \<notin> set line_breaks) s; r = dropWhile (\<lambda>c. c \<notin> set line_breaks) s in
        (case r of
           [] \<Rightarrow> [l]
         | c # t \<Rightarrow>
             (case t of
                d # u \<Rightarrow> if c = CHR 0x0D \<and> d = CHR 0x0A then (l @ [c, d]) # lines_keepends u else (l @ [c]) # lines_keepends t
              | [] \<Rightarrow> [l @ [c]])))"
  by pat_completeness auto
termination
proof (relation "measure length", simp, goal_cases)
  case (1 s l r c t d u)
  then have "length (c # d # u) \<le> length s" by (metis length_dropWhile_le)
  then show ?case by simp
next
  case (2 s l r c t d u)
  then have "length (c # t) \<le> length s" by (metis length_dropWhile_le)
  then show ?case by simp
qed

declare lines_keepends.simps [simp del]

text \<open>The line after at most three blanks, and \<open>None\<close> when there are more.\<close>

definition after_indent :: "string \<Rightarrow> string option" where
  "after_indent line = (if length (takeWhile is_blank line) \<le> 3 then Some (dropWhile is_blank line) else None)"

text \<open>The match of \<open>_FENCE\<close>: the marker and what follows it.\<close>

definition fence_match :: "string \<Rightarrow> (string \<times> string) option" where
  "fence_match line =
     (case after_indent line of
        Some (c # s) \<Rightarrow>
          if (c = CHR 0x60 \<or> c = CHR ''~'') \<and> 3 \<le> length (takeWhile (\<lambda>d. d = c) (c # s))
          then Some (takeWhile (\<lambda>d. d = c) (c # s), dropWhile (\<lambda>d. d = c) (c # s)) else None
      | _ \<Rightarrow> None)"

type_synonym fence = "(char \<times> nat) option"

definition fence_state :: "string \<Rightarrow> fence \<Rightarrow> fence \<times> bool" where
  "fence_state line fence =
     (case fence of
        None \<Rightarrow> (case fence_match line of None \<Rightarrow> (None, False) | Some (marker, _) \<Rightarrow> (Some (hd marker, length marker), True))
      | Some (c, n) \<Rightarrow>
          (case fence_match line of
             None \<Rightarrow> (fence, True)
           | Some (marker, rest) \<Rightarrow>
               if hd marker = c \<and> length marker \<ge> n \<and> py_strip rest = [] then (None, True) else (fence, True)))"

definition max_section_heading_bytes :: nat where
  "max_section_heading_bytes = 512"

text \<open>
  \<open>_heading\<close>: blanks, one to six number signs, blanks, and the text up to the end of the line.  Where only blanks
  follow, the pattern gives one of them back, and the heading is empty all the same.
\<close>

definition heading_of :: "string \<Rightarrow> string option" where
  "heading_of line =
     (case after_indent line of
        None \<Rightarrow> None
      | Some s \<Rightarrow>
          (let hashes = length (takeWhile (\<lambda>c. c = CHR ''#'') s); rest = dropWhile (\<lambda>c. c = CHR ''#'') s;
               group = takeWhile (\<lambda>c. c \<noteq> CHR 0x0A) (dropWhile is_blank rest) in
           if hashes < 1 \<or> 6 < hashes \<or> rest = [] \<or> \<not> is_blank (hd rest) then None
           else let stripped = rev (dropWhile (\<lambda>c. is_blank c \<or> c = CHR ''#'') (rev group));
                    heading = truncate_utf8 max_section_heading_bytes (join_on '' '' (py_split_ws stripped))
             in if heading = [] then None else Some heading))"

fun headings_from :: "fence \<Rightarrow> nat \<Rightarrow> string list \<Rightarrow> (nat \<times> string) list" where
  "headings_from fence offset [] = []"
| "headings_from fence offset (line # ls) =
     (let (fence', inside) = fence_state line fence in
      (case (if inside then None else heading_of line) of
         None \<Rightarrow> headings_from fence' (offset + length line) ls
       | Some h \<Rightarrow> (offset, h) # headings_from fence' (offset + length line) ls))"

definition section_headings :: "string \<Rightarrow> (nat \<times> string) list" where
  "section_headings document = headings_from None 0 (lines_keepends document)"

text \<open>The list is sorted by its offsets, so \<open>bisect_left\<close> counts the entries before the key.\<close>

definition nearest_section_heading :: "(nat \<times> string) list \<Rightarrow> int \<Rightarrow> string option" where
  "nearest_section_heading headings start =
     (let before = takeWhile (\<lambda>(o', h). int o' < start + 1) headings
      in if before = [] then None else Some (snd (last before)))"

section \<open>The answer of the service\<close>

record chunk_context =
  cx_final_url :: string
  cx_document_id :: string
  cx_sha256 :: string
  cx_strategy :: json
  cx_degraded :: bool
  cx_headings :: "(nat \<times> string) list"

definition exact_span :: "json_object \<Rightarrow> string \<Rightarrow> (int \<times> int) option" where
  "exact_span item document =
     (if jget item ''verbatim'' \<noteq> JBool True then None
      else (case (jget item ''start_index'', jget item ''end_index'', jget item ''text'') of
          (JInt i, JInt j, JStr t) \<Rightarrow>
            if i < 0 \<or> j \<le> i \<or> int (length document) < j then None
            else if py_slice document i j = t then Some (i, j) else None
        | _ \<Rightarrow> None))"

definition chunk_from_item :: "url_env \<Rightarrow> web_page \<Rightarrow> json \<Rightarrow> chunk_context \<Rightarrow> source_chunk option" where
  "chunk_from_item env page item cx =
     (case item of
        JObj d \<Rightarrow>
          (let metadata = json_members (jget d ''metadata'');
               span = exact_span d (wp_markdown page) in
           do {
             eid \<leftarrow> (case span of
                 None \<Rightarrow> Some None
               | Some (i, j) \<Rightarrow> map_option Some (evidence_id_for env (cx_final_url cx) (cx_sha256 cx) i j));
             text \<leftarrow> Option.bind (map_of d ''text'') json_string;
             count \<leftarrow> Option.bind (map_of d ''token_count'') json_int;
             position \<leftarrow> json_int (jget_or d ''position'' (JInt 0));
             Some \<lparr>ch_text = text, ch_token_count = count, ch_source_url = cx_final_url cx, ch_title = wp_title page,
               ch_position = position, ch_source_id = wp_source_id page,
               ch_strategy = jget_or metadata ''chunk_strategy'' (cx_strategy cx),
               ch_degraded = py_truthy (jget_or metadata ''embedding_degraded'' (JBool (cx_degraded cx))),
               ch_start = map_option fst span, ch_end = map_option snd span, ch_verbatim = (span \<noteq> None),
               ch_document_id = Some (cx_document_id cx), ch_evidence_id = eid, ch_final_url = Some (cx_final_url cx),
               ch_sha256 = Some (cx_sha256 cx),
               ch_heading = (case span of None \<Rightarrow> None | Some (i, j) \<Rightarrow> nearest_section_heading (cx_headings cx) i),
               ch_metadata = wp_evidence_metadata page\<rparr>
           })
      | _ \<Rightarrow> None)"

text \<open>What the HTTP client hands back: an exception, or a status and a body, which may not be JSON.\<close>

datatype http_answer =
    Http_Error
  | Http_Response int "json option"

fun chunks_from_items :: "url_env \<Rightarrow> web_page \<Rightarrow> chunk_context \<Rightarrow> json list \<Rightarrow> source_chunk list option" where
  "chunks_from_items env page cx [] = Some []"
| "chunks_from_items env page cx (i # is) =
     do { c \<leftarrow> chunk_from_item env page i cx; cs \<leftarrow> chunks_from_items env page cx is; Some (c # cs) }"

definition page_address :: "web_page \<Rightarrow> string" where
  "page_address page = or_string (wp_final_url page) (wp_url page)"

definition chunk_page :: "url_env \<Rightarrow> http_answer \<Rightarrow> web_page \<Rightarrow> (source_chunk list \<times> int option) option" where
  "chunk_page env answer page =
     do {
       identity \<leftarrow> build_document_identity env (page_address page) (wp_markdown page);
       (case answer of
          Http_Error \<Rightarrow> None
        | Http_Response status body \<Rightarrow>
            if status \<noteq> 200 then (if 400 \<le> status \<and> status < 500 then Some ([], Some status) else None)
            else (case body of
                Some (JObj payload) \<Rightarrow>
                  (case jget_or payload ''chunks'' (JList []) of
                     JList items \<Rightarrow>
                       map_option (\<lambda>cs. (cs, None)) (chunks_from_items env page
                         \<lparr>cx_final_url = page_address page, cx_document_id = doc_id identity, cx_sha256 = doc_sha identity,
                          cx_strategy = (if py_truthy (jget payload ''chunk_strategy'') then jget payload ''chunk_strategy''
                            else jget payload ''strategy_version''),
                          cx_degraded = py_truthy (jget_or payload ''embedding_degraded'' (JBool False)),
                          cx_headings = section_headings (wp_markdown page)\<rparr> items)
                   | _ \<Rightarrow> None)
              | _ \<Rightarrow> None))
     }"

fun chunk_each :: "url_env \<Rightarrow> (web_page \<Rightarrow> http_answer) \<Rightarrow> web_page list \<Rightarrow> (source_chunk list \<times> int option) list option" where
  "chunk_each env post [] = Some []"
| "chunk_each env post (p # ps) = do { r \<leftarrow> chunk_page env (post p) p; rs \<leftarrow> chunk_each env post ps; Some (r # rs) }"

text \<open>\<open>ChunkerClient.chunk\<close>; \<open>late\<close> when its own timeout strikes.  The answers belong to the requests, one for each page.\<close>

definition chunk_pages_client ::
  "url_env \<Rightarrow> bool \<Rightarrow> (web_page \<Rightarrow> http_answer) \<Rightarrow> web_page list \<Rightarrow> source_chunk list option" where
  "chunk_pages_client env late post pages =
     (if late then None
      else do {
        results \<leftarrow> chunk_each env post pages;
        (if pages \<noteq> [] \<and> (\<forall>r\<in>set results. snd r \<noteq> None) then None
         else Some (concat (map fst results)))
      })"

section \<open>What a chunk of an answer is\<close>

text \<open>A chunk that says it is verbatim is the slice of the page's text it names, under the id of that evidence.\<close>

definition chunk_exact :: "url_env \<Rightarrow> web_page \<Rightarrow> source_chunk \<Rightarrow> bool" where
  "chunk_exact env page c \<longleftrightarrow>
     ch_source_url c = page_address page \<and> ch_final_url c = Some (page_address page) \<and>
     ch_sha256 c = Some (cleaned_markdown_sha256 env (wp_markdown page)) \<and>
     ch_document_id c = document_id_for env (page_address page) (wp_markdown page) \<and>
     (\<exists>d. ch_document_id c = Some d \<and> sha256_pattern d) \<and>
     ch_source_id c = wp_source_id page \<and>
     (if ch_verbatim c
      then \<exists>i j. ch_start c = Some i \<and> ch_end c = Some j \<and> 0 \<le> i \<and> i < j \<and> j \<le> int (length (wp_markdown page)) \<and>
             ch_text c = py_slice (wp_markdown page) i j \<and> ch_evidence_id c \<noteq> None \<and>
             ch_evidence_id c = evidence_id_for env (page_address page) (cleaned_markdown_sha256 env (wp_markdown page)) i j
      else ch_start c = None \<and> ch_end c = None \<and> ch_evidence_id c = None)"

lemma exact_span_Some:
  "exact_span d document = Some (i, j) \<Longrightarrow>
   jget d ''text'' = JStr (py_slice document i j) \<and> 0 \<le> i \<and> i < j \<and> j \<le> int (length document)"
  by (auto simp: exact_span_def split: if_splits json.splits)

lemma build_document_identity_doc:
  "build_document_identity env final md = Some d \<Longrightarrow>
   doc_sha d = cleaned_markdown_sha256 env md \<and> document_id_for env final md = Some (doc_id d) \<and> sha256_pattern (doc_id d)"
  by (auto simp: build_document_identity_def Let_def valid_document_def document_id_for_def split: option.splits if_splits)

lemma chunk_from_item_exact:
  assumes "chunk_from_item env page item cx = Some c" and "cx_final_url cx = page_address page"
    and "cx_sha256 cx = cleaned_markdown_sha256 env (wp_markdown page)"
    and "document_id_for env (page_address page) (wp_markdown page) = Some (cx_document_id cx)" and "sha256_pattern (cx_document_id cx)"
  shows "chunk_exact env page c"
proof -
  obtain d where d: "item = JObj d" using assms(1) by (auto simp: chunk_from_item_def split: json.splits)
  show ?thesis
  proof (cases "exact_span d (wp_markdown page)")
    case None
    then show ?thesis using assms d
      by (auto simp: chunk_from_item_def Let_def chunk_exact_def Option.bind_eq_Some_conv)
  next
    case (Some ij)
    obtain i j where ij: "ij = (i, j)" by (cases ij)
    have t: "map_of d ''text'' = Some (JStr t) \<Longrightarrow> t = py_slice (wp_markdown page) i j" for t
      using exact_span_Some [of d "wp_markdown page" i j] Some ij by (simp add: jget_def)
    show ?thesis using assms d Some ij exact_span_Some [of d "wp_markdown page" i j]
      by (auto simp: chunk_from_item_def Let_def chunk_exact_def Option.bind_eq_Some_conv dest!: t split: option.splits)
  qed
qed

lemma chunks_from_items_exact:
  "chunks_from_items env page cx items = Some cs \<Longrightarrow> cx_final_url cx = page_address page \<Longrightarrow>
   cx_sha256 cx = cleaned_markdown_sha256 env (wp_markdown page) \<Longrightarrow>
   document_id_for env (page_address page) (wp_markdown page) = Some (cx_document_id cx) \<Longrightarrow> sha256_pattern (cx_document_id cx) \<Longrightarrow>
   c \<in> set cs \<Longrightarrow> chunk_exact env page c"
  by (induction items arbitrary: cs) (auto simp: Option.bind_eq_Some_conv intro: chunk_from_item_exact)

lemma chunk_page_exact:
  assumes "chunk_page env answer page = Some (cs, status)" and "c \<in> set cs"
  shows "chunk_exact env page c"
proof -
  obtain identity where i: "build_document_identity env (page_address page) (wp_markdown page) = Some identity"
    using assms(1) by (auto simp: chunk_page_def Option.bind_eq_Some_conv)
  show ?thesis using assms i build_document_identity_doc [OF i]
    by (auto simp: chunk_page_def split: http_answer.splits if_splits option.splits json.splits
        elim!: chunks_from_items_exact)
qed

lemma chunk_each_exact:
  "chunk_each env post pages = Some rs \<Longrightarrow> c \<in> set (concat (map fst rs)) \<Longrightarrow> \<exists>p\<in>set pages. chunk_exact env p c"
proof (induction pages arbitrary: rs)
  case (Cons p ps)
  obtain r rs' where r: "chunk_page env (post p) p = Some r" "chunk_each env post ps = Some rs'" "rs = r # rs'"
    using Cons.prems(1) by (auto simp: Option.bind_eq_Some_conv)
  then show ?case using Cons.IH [OF r(2)] Cons.prems(2) chunk_page_exact [of env "post p" p "fst r" "snd r"] by auto
qed simp

lemma chunk_pages_exact:
  assumes "chunk_pages_client env late post pages = Some cs" and "c \<in> set cs"
  shows "\<exists>p\<in>set pages. chunk_exact env p c"
proof -
  obtain results where "chunk_each env post pages = Some results" "cs = concat (map fst results)"
    using assms(1) by (auto simp: chunk_pages_client_def Option.bind_eq_Some_conv split: if_splits)
  then show ?thesis using chunk_each_exact assms(2) by blast
qed

end
