(* ===== verification/Reranker_Client.thy ===== *)
theory Reranker_Client
  imports Chunker_Client "HOL-Library.Multiset"
begin

text \<open>
  \<open>orchestrator/clients/reranker_client.py\<close>: the chunks are scored in batches.  The answer of the service to each
  batch is a parameter.  \<open>scored\<close>, \<open>scored_indexes\<close> and \<open>scored_values\<close> grow together, so they are one list of
  indexes with their scores.  A score that is not a number (NaN) is not a value of the model.
\<close>

type_synonym index_scores = "(nat \<times> pyfloat) list"

definition item_score :: "json_object \<Rightarrow> pyfloat option" where
  "item_score d = json_float (jget_or d ''score'' (jget_or d ''relevance_score'' (jget_or d ''rank_score'' (JFloat 0))))"

fun parse_items :: "nat \<Rightarrow> nat \<Rightarrow> nat \<Rightarrow> json list \<Rightarrow> index_scores \<Rightarrow> index_scores option" where
  "parse_items offset batch_len position [] acc = Some acc"
| "parse_items offset batch_len position (item # items) acc =
     (case item of
        JObj d \<Rightarrow>
          do {
            local \<leftarrow> json_int (jget_or d ''index'' (JInt (int position)));
            (if local < 0 \<or> int batch_len \<le> local \<or> offset + nat local \<in> fst ` set acc
             then parse_items offset batch_len (Suc position) items acc
             else do {
               score \<leftarrow> item_score d;
               parse_items offset batch_len (Suc position) items (acc @ [(offset + nat local, score)])
             })
          }
      | _ \<Rightarrow> None)"

definition parse_payload :: "json \<Rightarrow> nat \<Rightarrow> nat \<Rightarrow> index_scores option" where
  "parse_payload payload offset batch_len =
     (case payload of
        JObj d \<Rightarrow>
          (case jget_or d ''results'' (jget_or d ''data'' (JList [])) of
             JList (i # is) \<Rightarrow> Option.bind (parse_items offset batch_len 0 (i # is) []) (\<lambda>acc. if acc = [] then None else Some acc)
           | _ \<Rightarrow> None)
      | _ \<Rightarrow> None)"

text \<open>One batch: \<open>None\<close> is the exception that only counts the batch as failed.\<close>

definition rerank_batch :: "http_answer \<Rightarrow> nat \<Rightarrow> nat \<Rightarrow> index_scores option" where
  "rerank_batch answer offset batch_len =
     (case answer of
        Http_Response status (Some body) \<Rightarrow> if status \<noteq> 200 then None else parse_payload body offset batch_len
      | _ \<Rightarrow> None)"

text \<open>The batches in turn; the batch size is at least 1, the constructor refuses others.\<close>

function rerank_batches :: "nat \<Rightarrow> (nat \<Rightarrow> http_answer) \<Rightarrow> nat \<Rightarrow> nat \<Rightarrow> nat \<Rightarrow> index_scores \<times> nat \<times> nat" where
  "rerank_batches size' post amount offset batch =
     (if size' = 0 \<or> amount \<le> offset then ([], 0, 0)
      else let (scored, batches, failed) = rerank_batches size' post amount (offset + size') (Suc batch)
        in (case rerank_batch (post batch) offset (min size' (amount - offset)) of
              None \<Rightarrow> (scored, Suc batches, Suc failed)
            | Some new \<Rightarrow> (new @ scored, Suc batches, failed)))"
  by pat_completeness auto
termination by (relation "measure (\<lambda>(size', post, amount, offset, batch). amount - offset)") auto

declare rerank_batches.simps [simp del]

definition reranker_strategy :: string where
  "reranker_strategy = ''external-reranker@1''"

definition floor_chunk :: "pyfloat \<Rightarrow> source_chunk \<Rightarrow> scored_chunk" where
  "floor_chunk score c =
     \<lparr>sc_chunk = c, sc_score = score,
      sc_components = [\<lparr>sco_name = ''reranker_floor'', sco_score = score, sco_strategy = ''reranker-partial-floor@1''\<rparr>]\<rparr>"

text \<open>\<open>Inl\<close> is \<open>RerankerUnavailable\<close> with its telemetry.\<close>

definition rerank_client :: "nat \<Rightarrow> (nat \<Rightarrow> http_answer) \<Rightarrow> source_chunk list \<Rightarrow> telemetry + rerank_outcome" where
  "rerank_client batch_size post chunks =
     (if chunks = [] then
        Inr \<lparr>ro_scored = [], ro_telemetry = \<lparr>t_batches = 0, t_failed = 0, t_floor_filled = False, t_scored = 0\<rparr>,
             ro_strategy = reranker_strategy\<rparr>
      else let (scores, batches, failed) = rerank_batches batch_size post (length chunks) 0 0;
               scored = map (\<lambda>(i, s). \<lparr>sc_chunk = chunks ! i, sc_score = s,
                   sc_components = [\<lparr>sco_name = ''reranker'', sco_score = s, sco_strategy = reranker_strategy\<rparr>]\<rparr>) scores;
               fill = length scored < length chunks
        in if scored = [] then Inl \<lparr>t_batches = batches, t_failed = failed, t_floor_filled = False, t_scored = 0\<rparr>
           else Inr \<lparr>ro_scored = scored @ (if fill
                    then map (\<lambda>(i, c). floor_chunk (Min (set (map snd scores)) - 1) c)
                      (filter (\<lambda>(i, c). i \<notin> fst ` set scores) (enumerate 0 chunks)) else []),
                  ro_telemetry = \<lparr>t_batches = batches, t_failed = failed, t_floor_filled = fill, t_scored = card (fst ` set scores)\<rparr>,
                  ro_strategy = reranker_strategy\<rparr>)"

section \<open>Every chunk is scored once\<close>

lemma parse_items_fresh:
  "parse_items offset n position items acc = Some out \<Longrightarrow> distinct (map fst acc) \<Longrightarrow> \<forall>(i, s)\<in>set acc. offset \<le> i \<and> i < offset + n \<Longrightarrow>
   distinct (map fst out) \<and> (\<forall>(i, s)\<in>set out. offset \<le> i \<and> i < offset + n)"
proof (induction offset n position items acc rule: parse_items.induct)
  case (2 offset n position item items acc)
  obtain d where d: "item = JObj d" using 2(3) by (auto split: json.splits)
  obtain l where l: "json_int (jget_or d ''index'' (JInt (int position))) = Some l"
    using 2(3) d by (auto simp: Option.bind_eq_Some_conv)
  show ?case
  proof (cases "l < 0 \<or> int n \<le> l \<or> offset + nat l \<in> fst ` set acc")
    case True
    then show ?thesis using 2(1) [OF d l True] 2(3-5) d l by simp
  next
    case False
    then obtain score where s: "item_score d = Some score" using 2(3) d l by (auto simp: Option.bind_eq_Some_conv)
    have "parse_items offset n (Suc position) items (acc @ [(offset + nat l, score)]) = Some out"
      using 2(3) d l False s by simp
    moreover have "distinct (map fst (acc @ [(offset + nat l, score)]))"
        "\<forall>(i, s)\<in>set (acc @ [(offset + nat l, score)]). offset \<le> i \<and> i < offset + n"
      using 2(4,5) False by auto
    ultimately show ?thesis by (rule 2(2) [OF d l False s])
  qed
qed simp

lemma rerank_batch_fresh:
  "rerank_batch answer offset n = Some out \<Longrightarrow> distinct (map fst out) \<and> (\<forall>(i, s)\<in>set out. offset \<le> i \<and> i < offset + n)"
proof -
  assume "rerank_batch answer offset n = Some out"
  then obtain items where "parse_items offset n 0 items [] = Some out"
    by (auto simp: rerank_batch_def parse_payload_def Option.bind_eq_Some_conv simp del: parse_items.simps
        split: http_answer.splits option.splits if_splits json.splits list.splits)
  then show ?thesis by (rule parse_items_fresh) simp_all
qed

lemma rerank_batches_fresh:
  "rerank_batches size' post amount offset batch = (out, batches, failed) \<Longrightarrow>
   distinct (map fst out) \<and> (\<forall>(i, s)\<in>set out. offset \<le> i \<and> i < amount)"
proof (induction size' post amount offset batch arbitrary: out batches failed rule: rerank_batches.induct)
  case (1 size' post amount offset batch)
  show ?case
  proof (cases "size' = 0 \<or> amount \<le> offset")
    case False
    obtain scored b f where rest: "rerank_batches size' post amount (offset + size') (Suc batch) = (scored, b, f)"
      by (metis prod_cases3)
    note ih = 1(1) [OF False rest]
    show ?thesis
    proof (cases "rerank_batch (post batch) offset (min size' (amount - offset))")
      case None
      then show ?thesis using 1(2) False rest ih by (auto simp: rerank_batches.simps [of size' post amount offset])
    next
      case (Some new)
      have "out = new @ scored" using 1(2) False rest Some by (auto simp: rerank_batches.simps [of size' post amount offset])
      then show ?thesis using rerank_batch_fresh [OF Some] ih by (fastforce simp: min_def split: if_splits)
    qed
  qed (use 1(2) in \<open>simp add: rerank_batches.simps\<close>)
qed

lemma enumerate_nth: "enumerate 0 xs = map (\<lambda>i. (i, xs ! i)) [0..<length xs]"
  using enumerate_map_upt [of 0 "\<lambda>i. xs ! i" "length xs"] by (simp add: map_nth)

lemma mset_nth_split:
  assumes "distinct js" and "set js \<subseteq> {0..<length xs}"
  shows "mset (map (\<lambda>i. xs ! i) js) + mset (map snd (filter (\<lambda>(i, x). i \<notin> set js) (enumerate 0 xs))) = mset xs"
proof -
  let ?n = "[0..<length xs]"
  have "mset js = mset (filter (\<lambda>i. i \<in> set js) ?n)"
    using assms by (intro set_eq_iff_mset_eq_distinct [THEN iffD1]) auto
  then have "mset (map (\<lambda>i. xs ! i) js) = image_mset (\<lambda>i. xs ! i) (filter_mset (\<lambda>i. i \<in> set js) (mset ?n))"
    by (simp add: mset_filter)
  moreover have "mset (map snd (filter (\<lambda>(i, x). i \<notin> set js) (enumerate 0 xs)))
      = image_mset (\<lambda>i. xs ! i) (filter_mset (\<lambda>i. i \<notin> set js) (mset ?n))"
    by (simp add: enumerate_nth filter_map comp_def mset_filter)
  moreover have "image_mset (\<lambda>i. xs ! i) (mset ?n) = mset xs" by (metis map_nth mset_map)
  ultimately show ?thesis by (metis image_mset_union multiset_partition)
qed

lemma rerank_subset:
  assumes "rerank_client batch_size post chunks = Inr outcome"
  shows "sc_chunk ` set (ro_scored outcome) \<subseteq> set chunks"
proof -
  obtain scores batches failed where b: "rerank_batches batch_size post (length chunks) 0 0 = (scores, batches, failed)"
    by (metis prod_cases3)
  have "chunks ! i \<in> set chunks" if "(i, s) \<in> set scores" for i s using that rerank_batches_fresh [OF b] by auto
  then show ?thesis using assms b
    by (auto simp: rerank_client_def Let_def floor_chunk_def enumerate_nth split: if_splits)
qed

text \<open>
  C36. A reranking that succeeds scores every chunk exactly once, whatever the service answers to the batches:
  the chunks of the outcome are those of the input, and the ones no batch scored stand below all others.
\<close>

theorem rerank_complete:
  assumes "rerank_client batch_size post chunks = Inr outcome"
  shows "mset (map sc_chunk (ro_scored outcome)) = mset chunks
     \<and> (\<forall>a\<in>set (ro_scored outcome). \<forall>b\<in>set (ro_scored outcome).
          map sco_name (sc_components a) = [''reranker_floor''] \<and> map sco_name (sc_components b) = [''reranker''] \<longrightarrow>
          sc_score a < sc_score b)"
proof (cases "chunks = []")
  case False
  obtain scores batches failed where b: "rerank_batches batch_size post (length chunks) 0 0 = (scores, batches, failed)"
    by (metis prod_cases3)
  note fresh = rerank_batches_fresh [OF b]
  have S: "set (map fst scores) \<subseteq> {0..<length chunks}" using fresh by auto
  let ?scored = "map (\<lambda>(i, s). \<lparr>sc_chunk = chunks ! i, sc_score = s,
      sc_components = [\<lparr>sco_name = ''reranker'', sco_score = s, sco_strategy = reranker_strategy\<rparr>]\<rparr>) scores"
  let ?rest = "map (\<lambda>(i, c). floor_chunk (Min (set (map snd scores)) - 1) c)
      (filter (\<lambda>(i, c). i \<notin> fst ` set scores) (enumerate 0 chunks))"
  have out: "ro_scored outcome = ?scored @ (if length scores < length chunks then ?rest else [])"
    using assms False b by (auto simp: rerank_client_def Let_def split: if_splits)
  have chunks: "map sc_chunk ?scored = map (\<lambda>i. chunks ! i) (map fst scores)"
      "map sc_chunk ?rest = map snd (filter (\<lambda>(i, c). i \<notin> set (map fst scores)) (enumerate 0 chunks))"
    by (auto simp: floor_chunk_def)
  have part: "mset (map sc_chunk ?scored) + mset (map sc_chunk ?rest) = mset chunks"
    unfolding chunks using mset_nth_split [OF _ S] fresh by simp
  have "mset (map sc_chunk (ro_scored outcome)) = mset chunks"
  proof (cases "length scores < length chunks")
    case True
    then show ?thesis using part by (simp add: out)
  next
    case False
    have "length chunks = length ?scored + length ?rest"
      using arg_cong [OF part, of size] by (simp only: size_union size_mset length_map)
    then have "?rest = []" using False by (simp only: length_map length_0_conv [symmetric])
    then show ?thesis using part False by (simp add: out)
  qed
  moreover have "Min (set (map snd scores)) - 1 < s" if "(i, s) \<in> set scores" for i s
  proof -
    have "Min (set (map snd scores)) \<le> s" using that by (intro Min_le) force+
    then show ?thesis by simp
  qed
  ultimately show ?thesis by (auto simp: out floor_chunk_def split: if_splits)
qed (use assms in \<open>auto simp: rerank_client_def\<close>)

definition demo_chunk :: "string \<Rightarrow> source_chunk" where
  "demo_chunk t =
     \<lparr>ch_text = t, ch_token_count = 1, ch_source_url = [], ch_title = [], ch_position = 0, ch_source_id = None, ch_strategy = JNull,
      ch_degraded = False, ch_start = None, ch_end = None, ch_verbatim = False, ch_document_id = None, ch_evidence_id = None,
      ch_final_url = None, ch_sha256 = None, ch_heading = None, ch_metadata = None\<rparr>"

definition demo_post :: "nat \<Rightarrow> http_answer" where
  "demo_post b = (if b = 0 then Http_Response 200 (Some (JObj [(''results'', JList [JObj [(''score'', JInt 2)]])])) else Http_Error)"

lemma rerank_complete_witness:
  "\<exists>outcome. rerank_client 1 demo_post [demo_chunk ''a'', demo_chunk ''b''] = Inr outcome
     \<and> mset (map sc_chunk (ro_scored outcome)) = {#demo_chunk ''a'', demo_chunk ''b''#}"
proof -
  obtain outcome where out: "rerank_client 1 demo_post [demo_chunk ''a'', demo_chunk ''b''] = Inr outcome"
    by (simp add: rerank_client_def rerank_batches.simps demo_post_def rerank_batch_def parse_payload_def json_int_def jget_or_def
        item_score_def json_float_def Let_def)
  then show ?thesis using rerank_complete [OF out] by auto
qed

end
