(* ===== verification/Evidence_Filters.thy ===== *)
theory Evidence_Filters
  imports Reranker_Client
begin

text \<open>
  \<open>orchestrator/content_dedup.py\<close>, \<open>prefilter.py\<close> and \<open>evidence_quality.py\<close>: pages with one text are read
  once, the best chunks go to the reranker without losing a source, and boilerplate is dropped.
\<close>

section \<open>Content deduplication\<close>

text \<open>\<open>re.sub(r"\s+", " ", s)\<close>.\<close>

function collapse_spaces :: "string \<Rightarrow> string" where
  "collapse_spaces [] = []"
| "collapse_spaces (c # s) = (if py_isspace c then CHR '' '' # collapse_spaces (dropWhile py_isspace s) else c # collapse_spaces s)"
  by pat_completeness auto
termination by (relation "measure length") (auto simp: length_dropWhile_le less_Suc_eq_le)

definition fingerprint :: "url_env \<Rightarrow> string \<Rightarrow> string" where
  "fingerprint env md = hexdigest (sha256 env (utf8 (py_strip (collapse_spaces md))))"

fun dedup_from :: "url_env \<Rightarrow> string set \<Rightarrow> web_page list \<Rightarrow> web_page list" where
  "dedup_from env seen [] = []"
| "dedup_from env seen (p # ps) =
     (if fingerprint env (wp_markdown p) \<in> seen then dedup_from env seen ps
      else p # dedup_from env (insert (fingerprint env (wp_markdown p)) seen) ps)"

definition content_dedup :: "url_env \<Rightarrow> web_page list \<Rightarrow> web_page list" where
  "content_dedup env pages = dedup_from env {} pages"

lemma dedup_from_set: "set (dedup_from env seen ps) \<subseteq> set ps"
  by (induction env seen ps rule: dedup_from.induct) auto

lemma dedup_from_prints:
  "distinct (map (\<lambda>p. fingerprint env (wp_markdown p)) (dedup_from env seen ps)) \<and>
   (\<lambda>p. fingerprint env (wp_markdown p)) ` set (dedup_from env seen ps) = (\<lambda>p. fingerprint env (wp_markdown p)) ` set ps - seen"
  by (induction env seen ps rule: dedup_from.induct) auto

section \<open>Prefilter\<close>

definition prefilter_tokens :: "string \<Rightarrow> string set" where
  "prefilter_tokens value = tokens value"

definition prefilter_score :: "string set \<Rightarrow> source_chunk \<Rightarrow> pyfloat" where
  "prefilter_score terms c =
     (if terms = {} then 1 / (of_int (ch_position c) + 1)
      else of_nat (card (terms \<inter> prefilter_tokens (ch_text c))) / of_nat (card terms)
         + of_nat (card (terms \<inter> prefilter_tokens (ch_title c))) / of_nat (card terms) * (35 / 100)
         + 1 / ((of_int (ch_position c) + 1) * 100))"

definition source_key :: "source_chunk \<Rightarrow> string" where
  "source_key c = (case ch_source_id c of Some i \<Rightarrow> ''id:'' @ py_str_int i | None \<Rightarrow> ''url:'' @ ch_source_url c)"

text \<open>A chunk with its score and its place in the input.\<close>

type_synonym ranked = "pyfloat \<times> nat \<times> source_chunk"

definition rank_index :: "ranked \<Rightarrow> nat" where
  "rank_index x = fst (snd x)"

definition rank_key :: "ranked \<Rightarrow> pyfloat \<times> nat" where
  "rank_key x = (- fst x, rank_index x)"

definition ranked_source :: "ranked \<Rightarrow> string" where
  "ranked_source x = source_key (snd (snd x))"

text \<open>The dictionary \<open>best_by_source\<close> after the loop: the first entry of each source.\<close>

fun best_by_source :: "string set \<Rightarrow> ranked list \<Rightarrow> ranked list" where
  "best_by_source known [] = []"
| "best_by_source known (x # xs) =
     (if ranked_source x \<in> known then best_by_source known xs else x # best_by_source (insert (ranked_source x) known) xs)"

text \<open>A loop that appends the entries whose index is new, up to the limit.\<close>

fun take_new :: "nat \<Rightarrow> ranked list \<Rightarrow> ranked list \<Rightarrow> ranked list" where
  "take_new limit [] acc = acc"
| "take_new limit (x # xs) acc =
     (if length acc \<ge> limit then acc
      else take_new limit xs (if rank_index x \<in> rank_index ` set acc then acc else acc @ [x]))"

definition prefilter_strategy :: string where
  "prefilter_strategy = ''lexical-source-preserving@1''"

definition scored_candidates :: "string \<Rightarrow> source_chunk list \<Rightarrow> ranked list" where
  "scored_candidates q chunks =
     sort_key rank_key (map (\<lambda>(i, c). (prefilter_score (prefilter_tokens q) c, i, c)) (enumerate 0 chunks))"

definition prefilter_selected :: "nat \<Rightarrow> string \<Rightarrow> source_chunk list \<Rightarrow> ranked list" where
  "prefilter_selected limit q chunks =
     (let scored = scored_candidates q chunks
      in take_new limit scored (take_new limit (sort_key rank_key (best_by_source {} scored)) []))"

text \<open>\<open>max_candidates\<close> is 50 unless given; a position of -1 makes the score divide by zero, which is \<open>None\<close>.\<close>

definition prefilter :: "int \<Rightarrow> string \<Rightarrow> source_chunk list \<Rightarrow> prefiltered_chunks option" where
  "prefilter max_candidates q chunks =
     (let limit = nat (max 1 max_candidates) in
      if length chunks \<le> limit
      then Some \<lparr>pf_chunks = chunks, pf_prefiltered = 0, pf_sent = length chunks, pf_strategy = prefilter_strategy\<rparr>
      else if \<exists>c\<in>set chunks. ch_position c = -1 then None
      else let kept = map (snd \<circ> snd) (sort_key rank_key (prefilter_selected limit q chunks))
        in Some \<lparr>pf_chunks = kept, pf_prefiltered = length chunks - length kept, pf_sent = length kept,
                 pf_strategy = prefilter_strategy\<rparr>)"

lemma best_by_source_exact:
  "set (best_by_source known xs) \<subseteq> set xs \<and> distinct (map ranked_source (best_by_source known xs)) \<and>
   ranked_source ` set (best_by_source known xs) = ranked_source ` set xs - known"
  by (induction known xs rule: best_by_source.induct) auto

lemma take_new_acc: "set acc \<subseteq> set (take_new limit xs acc) \<and> set (take_new limit xs acc) \<subseteq> set acc \<union> set xs"
proof (induction limit xs acc rule: take_new.induct)
  case (2 limit x xs acc)
  show ?case
  proof (cases "length acc \<ge> limit")
    case False
    then show ?thesis using 2 [OF False] by (cases "rank_index x \<in> rank_index ` set acc") auto
  qed auto
qed simp

lemma take_new_distinct:
  "distinct (map rank_index acc) \<Longrightarrow> length acc \<le> limit \<Longrightarrow>
   distinct (map rank_index (take_new limit xs acc)) \<and> length (take_new limit xs acc) \<le> limit"
proof (induction limit xs acc rule: take_new.induct)
  case (2 limit x xs acc)
  show ?case
  proof (cases "length acc \<ge> limit")
    case False
    then show ?thesis using 2(1) [OF False] 2(2,3) by (cases "rank_index x \<in> rank_index ` set acc") auto
  qed (use 2 in simp)
qed simp

lemma take_new_all:
  "x \<in> set xs \<Longrightarrow> rank_index x \<in> rank_index ` set (take_new limit xs acc) \<or> length (take_new limit xs acc) \<ge> limit"
proof (induction limit xs acc rule: take_new.induct)
  case (2 limit y ys acc)
  let ?acc = "if rank_index y \<in> rank_index ` set acc then acc else acc @ [y]"
  show ?case
  proof (cases "length acc \<ge> limit")
    case False
    have "rank_index y \<in> rank_index ` set ?acc" by simp
    then have "rank_index y \<in> rank_index ` set (take_new limit ys ?acc)" using take_new_acc [of ?acc limit ys] by blast
    then show ?thesis using False 2(1) [OF False] 2(2) by (cases "x = y") auto
  qed simp
qed simp

lemma take_new_id:
  "distinct (map rank_index (acc @ xs)) \<Longrightarrow> length acc + length xs \<le> limit \<Longrightarrow> take_new limit xs acc = acc @ xs"
proof (induction xs arbitrary: acc)
  case (Cons x xs)
  then have "take_new limit xs (acc @ [x]) = (acc @ [x]) @ xs" by (intro Cons.IH) auto
  then show ?case using Cons.prems by (auto simp: image_iff)
qed simp

lemma scored_candidates_index:
  "x \<in> set (scored_candidates q chunks) \<longleftrightarrow>
   (\<exists>i<length chunks. x = (prefilter_score (prefilter_tokens q) (chunks ! i), i, chunks ! i))"
  by (auto simp: scored_candidates_def enumerate_nth)

lemma scored_candidates_sources: "ranked_source ` set (scored_candidates q chunks) = source_key ` set chunks"
proof -
  have "set (scored_candidates q chunks) = (\<lambda>i. (prefilter_score (prefilter_tokens q) (chunks ! i), i, chunks ! i)) ` {0..<length chunks}"
    using scored_candidates_index by fastforce
  moreover have "set chunks = (\<lambda>i. chunks ! i) ` {0..<length chunks}" by (auto simp: in_set_conv_nth)
  ultimately show ?thesis by (simp only: image_image ranked_source_def snd_conv)
qed

lemma scored_candidates_distinct: "distinct (map rank_index (scored_candidates q chunks))"
  by (simp add: scored_candidates_def distinct_map distinct_sort enumerate_nth comp_def inj_on_def rank_index_def)

lemma best_by_source_distinct: "distinct (map rank_index xs) \<Longrightarrow> distinct (map rank_index (best_by_source known xs))"
  using best_by_source_exact by (induction known xs rule: best_by_source.induct) (auto, blast)

lemma prefilter_selected_exact:
  assumes "limit < length chunks"
  shows "length (prefilter_selected limit q chunks) = limit"
    and "distinct (map rank_index (prefilter_selected limit q chunks))"
    and "set (prefilter_selected limit q chunks) \<subseteq> set (scored_candidates q chunks)"
    and "card (source_key ` set chunks) \<le> limit \<Longrightarrow>
      ranked_source ` set (prefilter_selected limit q chunks) = source_key ` set chunks"
proof -
  let ?scored = "scored_candidates q chunks" and ?sel = "prefilter_selected limit q chunks"
  let ?best = "sort_key rank_key (best_by_source {} ?scored)"
  let ?first = "take_new limit ?best []"
  note best = best_by_source_exact [of "{}" ?scored]
  have sel: "?sel = take_new limit ?scored ?first" by (simp add: prefilter_selected_def Let_def)
  have idx: "rank_index ` set ?scored = {0..<length chunks}" by (force simp: scored_candidates_index rank_index_def)
  have first: "distinct (map rank_index ?first)" "length ?first \<le> limit" using take_new_distinct [of "[]" limit ?best] by auto
  then show d: "distinct (map rank_index ?sel)" and "set ?sel \<subseteq> set ?scored"
    using take_new_distinct [OF first, of ?scored] take_new_acc [of "[]" limit ?best] take_new_acc [of ?first limit ?scored] best
    unfolding sel by auto
  then have sub: "set ?sel \<subseteq> set ?scored" by simp
  have le: "length ?sel \<le> limit" using take_new_distinct [OF first] unfolding sel by blast
  show "length ?sel = limit"
  proof (rule ccontr)
    assume "length ?sel \<noteq> limit"
    then have "\<not> limit \<le> length ?sel" using le by simp
    then have "{0..<length chunks} \<subseteq> rank_index ` set ?sel" using take_new_all unfolding idx [symmetric] sel by blast
    then have "card {0..<length chunks} \<le> card (rank_index ` set ?sel)" by (intro card_mono) auto
    also have "\<dots> \<le> length ?sel" by (metis card_length length_map list.set_map)
    finally show False using le assms by simp
  qed
  assume few: "card (source_key ` set chunks) \<le> limit"
  have "length (best_by_source {} ?scored) = card (ranked_source ` set (best_by_source {} ?scored))"
    using best by (metis distinct_card length_map list.set_map)
  then have short: "length ?best \<le> limit" using few best scored_candidates_sources by simp
  have "distinct (map rank_index ?best)"
    using best_by_source_distinct [OF scored_candidates_distinct] by (simp add: distinct_map_sort_key)
  then have "?first = ?best" using short take_new_id [of "[]" ?best limit] by simp
  then have "set (best_by_source {} ?scored) \<subseteq> set ?sel" using take_new_acc [of ?first limit ?scored] unfolding sel by simp
  then show "ranked_source ` set ?sel = source_key ` set chunks"
    using best sub scored_candidates_sources by (metis (no_types, lifting) Diff_empty image_mono subset_antisym)
qed

lemma prefilter_subset:
  assumes "prefilter max_candidates q chunks = Some out"
  shows "set (pf_chunks out) \<subseteq> set chunks"
proof (cases "length chunks \<le> nat (max 1 max_candidates)")
  case False
  then have lt: "nat (max 1 max_candidates) < length chunks" by simp
  have "pf_chunks out = map (snd \<circ> snd) (sort_key rank_key (prefilter_selected (nat (max 1 max_candidates)) q chunks))"
    using assms False by (auto simp: prefilter_def Let_def split: if_splits)
  moreover have "snd (snd x) \<in> set chunks" if "x \<in> set (scored_candidates q chunks)" for x
    using that by (auto simp: scored_candidates_index)
  ultimately show ?thesis using prefilter_selected_exact(3) [OF lt, of q] by auto
qed (use assms in \<open>auto simp: prefilter_def Let_def\<close>)

text \<open>
  C37. The prefilter hands the reranker the chunks it was given if they fit, and otherwise exactly as many as
  fit, none of them twice; as long as there are no more sources than places, every source keeps a chunk.
\<close>

theorem prefilter_keeps_sources:
  assumes "prefilter max_candidates q chunks = Some out"
  shows "length (pf_chunks out) = min (length chunks) (nat (max 1 max_candidates))
     \<and> pf_prefiltered out + length (pf_chunks out) = length chunks \<and> mset (pf_chunks out) \<subseteq># mset chunks
     \<and> (card (source_key ` set chunks) \<le> nat (max 1 max_candidates) \<longrightarrow>
          source_key ` set (pf_chunks out) = source_key ` set chunks)"
proof (cases "length chunks \<le> nat (max 1 max_candidates)")
  case False
  let ?limit = "nat (max 1 max_candidates)"
  let ?sel = "prefilter_selected ?limit q chunks"
  have lt: "?limit < length chunks" using False by simp
  note exact = prefilter_selected_exact [OF lt, of q]
  have out: "pf_chunks out = map (snd \<circ> snd) (sort_key rank_key ?sel)"
      "pf_prefiltered out = length chunks - length (pf_chunks out)"
    using assms False by (auto simp: prefilter_def Let_def split: if_splits)
  have "mset (pf_chunks out) = image_mset (\<lambda>i. chunks ! i) (mset (map rank_index ?sel))"
  proof -
    have "snd (snd x) = chunks ! rank_index x" if "x \<in> set ?sel" for x
    proof -
      have "x \<in> set (scored_candidates q chunks)" using that exact(3) by blast
      then show ?thesis by (auto simp: scored_candidates_index rank_index_def)
    qed
    then have "map (snd \<circ> snd) ?sel = map (\<lambda>i. chunks ! i) (map rank_index ?sel)" by simp
    then have "mset (map (snd \<circ> snd) ?sel) = image_mset (\<lambda>i. chunks ! i) (mset (map rank_index ?sel))" by (metis mset_map)
    then show ?thesis unfolding out(1) by (simp only: mset_map mset_sort)
  qed
  moreover have "mset (map rank_index ?sel) \<subseteq># mset [0..<length chunks]"
  proof -
    have "set (map rank_index ?sel) \<subseteq> {0..<length chunks}"
      using exact(3) by (force simp: scored_candidates_index rank_index_def)
    moreover have "mset (map rank_index ?sel) = mset_set (set (map rank_index ?sel))" using exact(2) by (metis mset_set_set)
    ultimately show ?thesis using subset_imp_msubset_mset_set by (metis finite_atLeastLessThan mset_upt)
  qed
  ultimately have "mset (pf_chunks out) \<subseteq># mset chunks"
    by (metis image_mset_subseteq_mono map_nth mset_map)
  moreover have "source_key ` set (pf_chunks out) = ranked_source ` set ?sel"
    by (simp add: out image_image ranked_source_def)
  ultimately show ?thesis using exact lt out by simp
qed (use assms in \<open>auto simp: prefilter_def Let_def\<close>)

lemma prefilter_keeps_sources_witness:
  "\<exists>out. prefilter 1 [] [demo_chunk ''a'', demo_chunk ''b''] = Some out \<and> length (pf_chunks out) = 1"
proof -
  obtain out where out: "prefilter 1 [] [demo_chunk ''a'', demo_chunk ''b''] = Some out"
    by (simp add: prefilter_def demo_chunk_def Let_def)
  then show ?thesis using prefilter_keeps_sources [OF out] by auto
qed

section \<open>Evidence quality\<close>

definition navigation_terms :: "string list" where
  "navigation_terms =
     [''home'', ''menu'', ''search'', ''login'', ''log in'', ''sign in'', ''sign up'', ''register'', ''skip to content'']"

definition footer_terms :: "string list" where
  "footer_terms = [''all rights reserved'', ''copyright'', ''privacy policy'', ''terms of service'', ''cookie policy'']"

definition generic_link_labels :: "string list" where
  "generic_link_labels = navigation_terms @
     [''one'', ''two'', ''three'', ''four'', ''five'', ''six'', ''click here'', ''read more'', ''learn more'', ''next'', ''previous'']"

definition quality_lines :: "string \<Rightarrow> string list" where
  "quality_lines s = map (\<lambda>l. py_lower (py_strip l)) (filter (\<lambda>l. py_strip l \<noteq> []) (py_splitlines s))"

definition navigation_boilerplate :: "string \<Rightarrow> bool" where
  "navigation_boilerplate s \<longleftrightarrow>
     length s \<le> 300 \<and>
     (let ls = quality_lines s; hits = length (filter (\<lambda>l. l \<in> set navigation_terms) ls)
      in 3 \<le> length ls \<and> 3 \<le> hits \<and> real hits / real (length ls) \<ge> 6 / 10)"

definition footer_boilerplate :: "string \<Rightarrow> bool" where
  "footer_boilerplate s \<longleftrightarrow>
     length s \<le> 500 \<and>
     (let ls = quality_lines s; hits = length (filter (\<lambda>l. \<exists>t\<in>set footer_terms. py_contains t l) ls)
      in 3 \<le> length ls \<and> 2 \<le> hits \<and> real (sum_list (map length ls)) / real (length ls) < 60)"

text \<open>A link \<open>[label](target)\<close> at the beginning of the text: its label and what follows it.\<close>

definition link_at :: "string \<Rightarrow> (string \<times> string) option" where
  "link_at s =
     (case s of
        c # t \<Rightarrow>
          (let label = takeWhile (\<lambda>d. d \<noteq> CHR '']'') t in
           if c \<noteq> CHR ''['' \<or> label = [] then None
           else (case dropWhile (\<lambda>d. d \<noteq> CHR '']'') t of
               close # paren # u \<Rightarrow>
                 (let rest = dropWhile (\<lambda>d. d \<noteq> CHR '')'') u in
                  if paren \<noteq> CHR ''('' \<or> takeWhile (\<lambda>d. d \<noteq> CHR '')'') u = [] \<or> rest = [] then None
                  else Some (label, tl rest))
             | _ \<Rightarrow> None))
      | [] \<Rightarrow> None)"

lemma link_at_shorter: "link_at s = Some (label, rest) \<Longrightarrow> length rest < length s"
proof -
  assume a: "link_at s = Some (label, rest)"
  then obtain c t close paren u where p: "s = c # t" "dropWhile (\<lambda>d. d \<noteq> CHR '']'') t = close # paren # u"
      "rest = tl (dropWhile (\<lambda>d. d \<noteq> CHR '')'') u)"
    by (auto simp: link_at_def Let_def split: list.splits if_splits)
  have "length (close # paren # u) \<le> length t" unfolding p(2) [symmetric] by (rule length_dropWhile_le)
  moreover have "length rest \<le> length u" unfolding p(3) using length_dropWhile_le [of "\<lambda>d. d \<noteq> CHR '')''" u] by simp
  ultimately show ?thesis using p(1) by simp
qed

text \<open>\<open>_LINK.findall\<close> and \<open>_LINK.sub\<close> with the label: the labels in order, and the text with the links unwrapped.\<close>

function link_scan :: "string \<Rightarrow> string list \<times> string" where
  "link_scan s =
     (case s of
        [] \<Rightarrow> ([], [])
      | c # t \<Rightarrow>
          (case link_at s of
             None \<Rightarrow> (let (labels, plain) = link_scan t in (labels, c # plain))
           | Some (label, rest) \<Rightarrow> (let (labels, plain) = link_scan rest in (label # labels, label @ plain))))"
  by pat_completeness auto
termination by (relation "measure length") (auto dest: link_at_shorter)

declare link_scan.simps [simp del]

definition link_dominated :: "string \<Rightarrow> bool" where
  "link_dominated s \<longleftrightarrow>
     (let (labels, outside) = link_scan s;
          generic = length (filter (\<lambda>l. py_lower (py_strip l) \<in> set generic_link_labels) labels)
      in 6 \<le> length labels \<and> length (py_strip outside) < 120 \<and> real generic / real (length labels) \<ge> 8 / 10)"

definition drop_reason :: "string \<Rightarrow> string option" where
  "drop_reason s =
     (if navigation_boilerplate s then Some ''navigation_boilerplate''
      else if footer_boilerplate s then Some ''footer_boilerplate''
      else if link_dominated s then Some ''link_dominated'' else None)"

definition evidence_quality_strategy :: string where
  "evidence_quality_strategy = ''evidence-quality@1''"

definition add_one :: "string \<Rightarrow> (string \<times> nat) list \<Rightarrow> (string \<times> nat) list" where
  "add_one k d = AList.update k ((case map_of d k of None \<Rightarrow> 0 | Some n \<Rightarrow> n) + 1) d"

fun filter_evidence_quality :: "scored_chunk list \<Rightarrow> (string \<times> nat) list \<Rightarrow> scored_chunk list \<times> (string \<times> nat) list" where
  "filter_evidence_quality [] dropped = ([], dropped)"
| "filter_evidence_quality (x # xs) dropped =
     (case drop_reason (ch_text (sc_chunk x)) of
        None \<Rightarrow> (let (accepted, d) = filter_evidence_quality xs dropped in (x # accepted, d))
      | Some reason \<Rightarrow> filter_evidence_quality xs (add_one reason dropped))"

lemma distinct_add_one: "distinct (map fst d) \<Longrightarrow> distinct (map fst (add_one k d))"
  by (simp add: add_one_def distinct_update)

lemma sum_add_one: "sum_list (map snd (add_one k d)) = Suc (sum_list (map snd d))"
proof (induction d)
  case (Cons p d)
  then show ?case by (cases p) (auto simp: add_one_def)
qed (simp add: add_one_def)

lemma filter_evidence_quality_exact:
  "filter_evidence_quality xs dropped = (accepted, d) \<Longrightarrow> distinct (map fst dropped) \<Longrightarrow>
   accepted = filter (\<lambda>x. drop_reason (ch_text (sc_chunk x)) = None) xs \<and>
   sum_list (map snd d) + length accepted = sum_list (map snd dropped) + length xs"
proof (induction xs arbitrary: dropped accepted d)
  case (Cons x xs)
  show ?case
  proof (cases "drop_reason (ch_text (sc_chunk x))")
    case None
    then obtain acc where "filter_evidence_quality xs dropped = (acc, d)" "accepted = x # acc"
      using Cons.prems(1) by (auto split: prod.splits)
    then show ?thesis using Cons.IH Cons.prems(2) None by fastforce
  next
    case (Some reason)
    then show ?thesis using Cons.IH [of "add_one reason dropped"] Cons.prems sum_add_one [of reason dropped] distinct_add_one by auto
  qed
qed simp

end
