(* ===== verification/Evidence_Assembly.thy ===== *)
theory Evidence_Assembly
  imports Evidence_Filters
begin

text \<open>
  \<open>orchestrator/assembly.py\<close>: scored chunks become passages within a token budget, and the citations they refer
  to.  A chunk that is too long is cut at a word, and its evidence id is made anew.  \<open>None\<close> around a result is a
  ValueError of the URL functions.
\<close>

section \<open>Cutting\<close>

text \<open>\<open>re.finditer(r"\S+")\<close>: where the words end.\<close>

fun word_ends :: "nat \<Rightarrow> bool \<Rightarrow> string \<Rightarrow> nat list" where
  "word_ends n inside [] = (if inside then [n] else [])"
| "word_ends n inside (c # s) =
     (if py_isspace c then (if inside then [n] else []) @ word_ends (Suc n) False s else word_ends (Suc n) True s)"

definition preserves_identity :: "source_chunk \<Rightarrow> bool" where
  "preserves_identity c \<longleftrightarrow>
     ch_verbatim c \<and> ch_document_id c \<noteq> None \<and> ch_final_url c \<noteq> None \<and> ch_sha256 c \<noteq> None \<and> ch_start c \<noteq> None"

definition truncate_item :: "url_env \<Rightarrow> scored_chunk \<Rightarrow> nat \<Rightarrow> int \<Rightarrow> scored_chunk option" where
  "truncate_item env item relative_end amount =
     (let c = sc_chunk item; keep = preserves_identity c;
          end_index = (if keep then map_option (\<lambda>i. i + int relative_end) (ch_start c) else None)
      in map_option (\<lambda>eid. item\<lparr>sc_chunk := c\<lparr>ch_text := take relative_end (ch_text c), ch_token_count := amount,
             ch_start := (if keep then ch_start c else None), ch_end := end_index, ch_verbatim := keep, ch_evidence_id := eid\<rparr>\<rparr>)
           (if keep then map_option Some (evidence_id_for env (the (ch_final_url c)) (the (ch_sha256 c)) (the (ch_start c)) (the end_index))
            else Some None))"

definition truncate_to_char_count :: "url_env \<Rightarrow> scored_chunk \<Rightarrow> int \<Rightarrow> scored_chunk option option" where
  "truncate_to_char_count env item char_count =
     (if int (length (ch_text (sc_chunk item))) \<le> char_count then Some (Some item)
      else if char_count < 1 then Some None
      else let t = py_rstrip (take (nat char_count) (ch_text (sc_chunk item))); n = length (word_ends 0 False t)
        in if t = [] \<or> n < 1 then Some None else map_option Some (truncate_item env item (length t) (int n)))"

definition truncate_to_budget :: "url_env \<Rightarrow> scored_chunk \<Rightarrow> int \<Rightarrow> scored_chunk option option" where
  "truncate_to_budget env item budget =
     (if ch_token_count (sc_chunk item) \<le> budget then Some (Some item)
      else if budget < 1 then Some None
      else let ends = word_ends 0 False (ch_text (sc_chunk item))
        in if int (length ends) \<noteq> ch_token_count (sc_chunk item) \<or> int (length ends) < budget then Some None
           else map_option Some (truncate_item env item (ends ! nat (budget - 1)) budget))"

section \<open>Citations and passages\<close>

record assembly =
  citation_ids :: "(string \<times> nat) list"
  citations :: "assembled_citation list"
  passages :: "assembled_passage list"
  total_tokens :: int

definition citation_key :: "url_env \<Rightarrow> source_chunk \<Rightarrow> string option" where
  "citation_key env c =
     (case ch_document_id c of
        Some d \<Rightarrow> if d = [] then normalize_url env (ch_source_url c) else Some d
      | None \<Rightarrow> normalize_url env (ch_source_url c))"

definition new_citation :: "source_chunk \<Rightarrow> nat \<Rightarrow> assembled_citation" where
  "new_citation c n =
     \<lparr>ac_id = n, ac_url = ch_source_url c,
      ac_title = (case Option.bind (ch_metadata c) (\<lambda>m. metadata_get m ''title'') of Some v \<Rightarrow> mc_value v | None \<Rightarrow> ch_title c),
      ac_source_id = ch_source_id c, ac_document_id = ch_document_id c, ac_spans = [], ac_metadata = ch_metadata c\<rparr>"

definition citation_id_for :: "url_env \<Rightarrow> source_chunk \<Rightarrow> assembly \<Rightarrow> (nat \<times> assembly) option" where
  "citation_id_for env c a =
     map_option (\<lambda>key.
       (case map_of (citation_ids a) key of
          Some n \<Rightarrow> (n, a)
        | None \<Rightarrow>
            (let n = length (citations a) + 1
             in (n, a\<lparr>citation_ids := AList.update key n (citation_ids a), citations := citations a @ [new_citation c n]\<rparr>))))
       (citation_key env c)"

definition mark_of :: "source_chunk \<Rightarrow> evidence_mark" where
  "mark_of c = \<lparr>em_start = ch_start c, em_end = ch_end c, em_verbatim = ch_verbatim c, em_evidence_id = ch_evidence_id c,
     em_heading = ch_heading c\<rparr>"

definition add_evidence_span :: "assembled_citation \<Rightarrow> source_chunk \<Rightarrow> assembled_citation" where
  "add_evidence_span ct c = (if mark_of c \<in> set (ac_spans ct) then ct else ct\<lparr>ac_spans := ac_spans ct @ [mark_of c]\<rparr>)"

definition passage_of :: "scored_chunk \<Rightarrow> nat \<Rightarrow> assembled_passage" where
  "passage_of item n =
     (let c = sc_chunk item in
      \<lparr>ap_text = ch_text c, ap_score = sc_score item, ap_token_count = ch_token_count c, ap_citation_id = n,
       ap_start = ch_start c, ap_end = ch_end c, ap_verbatim = ch_verbatim c, ap_document_id = ch_document_id c,
       ap_evidence_id = ch_evidence_id c, ap_heading = ch_heading c, ap_components = sc_components item\<rparr>)"

definition assemble_item :: "url_env \<Rightarrow> scored_chunk \<Rightarrow> assembly \<Rightarrow> assembly option" where
  "assemble_item env item a =
     do {
       (n, b) \<leftarrow> citation_id_for env (sc_chunk item) a;
       Some (b\<lparr>citations := (citations b)[n - 1 := add_evidence_span (citations b ! (n - 1)) (sc_chunk item)],
               passages := passages b @ [passage_of item n],
               total_tokens := total_tokens b + ch_token_count (sc_chunk item)\<rparr>)
     }"

fun assemble_loop :: "url_env \<Rightarrow> int \<Rightarrow> int option \<Rightarrow> scored_chunk list \<Rightarrow> assembly \<Rightarrow> assembly option" where
  "assemble_loop env budget max_passages [] a = Some a"
| "assemble_loop env budget max_passages (item # items) a =
     (if (case max_passages of None \<Rightarrow> False | Some n \<Rightarrow> int (length (passages a)) \<ge> n) then Some a
      else do {
        cut \<leftarrow> truncate_to_budget env item (budget - total_tokens a);
        (case cut of
           None \<Rightarrow> assemble_loop env budget max_passages items a
         | Some c \<Rightarrow> do { b \<leftarrow> assemble_item env c a; assemble_loop env budget max_passages items b })
      })"

definition assemble ::
  "url_env \<Rightarrow> scored_chunk list \<Rightarrow> int \<Rightarrow> int option \<Rightarrow> (assembled_passage list \<times> assembled_citation list) option" where
  "assemble env scored budget max_passages =
     map_option (\<lambda>a. (passages a, citations a))
       (assemble_loop env budget max_passages (sort_key (\<lambda>s. - sc_score s) scored)
         \<lparr>citation_ids = [], citations = [], passages = [], total_tokens = 0\<rparr>)"

section \<open>Cuts are prefixes\<close>

text \<open>\<open>b\<close> is \<open>a\<close> or a cut of it: a prefix of its text under the id of that part of the page.\<close>

definition cut_of :: "url_env \<Rightarrow> source_chunk \<Rightarrow> source_chunk \<Rightarrow> bool" where
  "cut_of env a b \<longleftrightarrow>
     b = a \<or>
     (\<exists>n. n \<le> length (ch_text a) \<and> ch_text b = take n (ch_text a) \<and> ch_verbatim b = preserves_identity a \<and>
        ch_source_url b = ch_source_url a \<and> ch_document_id b = ch_document_id a \<and> ch_final_url b = ch_final_url a \<and>
        ch_sha256 b = ch_sha256 a \<and> ch_source_id b = ch_source_id a \<and>
        (if preserves_identity a
         then ch_start b = ch_start a \<and> ch_end b = map_option (\<lambda>i. i + int n) (ch_start a) \<and> ch_evidence_id b \<noteq> None \<and>
           ch_evidence_id b = evidence_id_for env (the (ch_final_url a)) (the (ch_sha256 a)) (the (ch_start a)) (the (ch_start a) + int n)
         else ch_start b = None \<and> ch_end b = None \<and> ch_evidence_id b = None))"

lemma word_ends_bound: "e \<in> set (word_ends n inside s) \<Longrightarrow> e \<le> n + length s"
  by (induction n inside s rule: word_ends.induct) (auto split: if_splits)

lemma py_rstrip_take: "py_rstrip s = take (length (py_rstrip s)) s"
proof -
  have "s = rev (takeWhile py_isspace (rev s) @ dropWhile py_isspace (rev s))" by simp
  also have "\<dots> = py_rstrip s @ rev (takeWhile py_isspace (rev s))" by (simp add: py_rstrip_def del: takeWhile_dropWhile_id)
  finally show ?thesis by (metis append_eq_conv_conj)
qed

lemma truncate_item_cut:
  assumes "truncate_item env item n amount = Some b" and "n \<le> length (ch_text (sc_chunk item))"
  shows "cut_of env (sc_chunk item) (sc_chunk b) \<and> ch_token_count (sc_chunk b) = amount \<and> sc_score b = sc_score item
     \<and> sc_components b = sc_components item"
  using assms by (auto simp: truncate_item_def cut_of_def Let_def preserves_identity_def intro!: exI [of _ n] split: if_splits)

lemma truncate_to_char_count_cut:
  assumes "truncate_to_char_count env item k = Some (Some b)"
  shows "cut_of env (sc_chunk item) (sc_chunk b) \<and> sc_score b = sc_score item \<and> sc_components b = sc_components item"
proof -
  let ?t = "py_rstrip (take (nat k) (ch_text (sc_chunk item)))"
  have "length ?t \<le> length (take (nat k) (ch_text (sc_chunk item)))" by (metis py_rstrip_take length_take min.cobounded1 min.cobounded2)
  then have n: "length ?t \<le> length (ch_text (sc_chunk item))" by simp
  have "b = item \<or> truncate_item env item (length ?t) (int (length (word_ends 0 False ?t))) = Some b"
    using assms by (auto simp: truncate_to_char_count_def Let_def split: if_splits)
  then show ?thesis
  proof
    assume "truncate_item env item (length ?t) (int (length (word_ends 0 False ?t))) = Some b"
    then show ?thesis using truncate_item_cut [OF _ n] by blast
  qed (simp add: cut_of_def)
qed

lemma truncate_to_budget_cut:
  assumes "truncate_to_budget env item budget = Some (Some b)"
  shows "cut_of env (sc_chunk item) (sc_chunk b) \<and> ch_token_count (sc_chunk b) \<le> budget \<and> sc_score b = sc_score item
    \<and> sc_components b = sc_components item"
proof (cases "ch_token_count (sc_chunk item) \<le> budget")
  case False
  let ?ends = "word_ends 0 False (ch_text (sc_chunk item))"
  have b: "1 \<le> budget" "budget \<le> int (length ?ends)" "truncate_item env item (?ends ! nat (budget - 1)) budget = Some b"
    using assms False by (auto simp: truncate_to_budget_def Let_def split: if_splits)
  then have "?ends ! nat (budget - 1) \<in> set ?ends" by (intro nth_mem) linarith
  then show ?thesis using truncate_item_cut [OF b(3)] word_ends_bound [of _ 0 False "ch_text (sc_chunk item)"] by fastforce
qed (use assms in \<open>auto simp: truncate_to_budget_def cut_of_def\<close>)

section \<open>What assembly keeps\<close>

text \<open>Passages cite a citation that is there, of their document or page, and which marks their span.\<close>

definition cites :: "url_env \<Rightarrow> source_chunk set \<Rightarrow> assembled_citation list \<Rightarrow> source_chunk \<Rightarrow> assembled_passage \<Rightarrow> bool" where
  "cites env pool cs c p \<longleftrightarrow>
     1 \<le> ap_citation_id p \<and> ap_citation_id p \<le> length cs \<and>
     mark_of c \<in> set (ac_spans (cs ! (ap_citation_id p - 1))) \<and>
     (\<exists>o'\<in>pool. citation_key env o' = citation_key env c \<and> ac_url (cs ! (ap_citation_id p - 1)) = ch_source_url o' \<and>
        ac_document_id (cs ! (ap_citation_id p - 1)) = ch_document_id o' \<and>
        ac_source_id (cs ! (ap_citation_id p - 1)) = ch_source_id o')"

text \<open>Later citations keep what earlier ones say, and may mark more spans.\<close>

definition citations_extend :: "assembled_citation list \<Rightarrow> assembled_citation list \<Rightarrow> bool" where
  "citations_extend cs ds \<longleftrightarrow>
     length cs \<le> length ds \<and>
     (\<forall>i<length cs. ac_id (ds ! i) = ac_id (cs ! i) \<and> ac_url (ds ! i) = ac_url (cs ! i) \<and>
        ac_document_id (ds ! i) = ac_document_id (cs ! i) \<and> ac_source_id (ds ! i) = ac_source_id (cs ! i) \<and>
        set (ac_spans (cs ! i)) \<subseteq> set (ac_spans (ds ! i)))"

lemma cites_extend: "cites env pool cs c p \<Longrightarrow> citations_extend cs ds \<Longrightarrow> cites env pool ds c p"
proof -
  assume c: "cites env pool cs c p" and e: "citations_extend cs ds"
  then have "ap_citation_id p - 1 < length cs" by (simp add: cites_def) linarith
  then show ?thesis using c e unfolding cites_def citations_extend_def by (smt (verit) order_trans subsetD)
qed

lemma cut_of_same:
  "cut_of env a b \<Longrightarrow> ch_source_url b = ch_source_url a \<and> ch_document_id b = ch_document_id a \<and> ch_source_id b = ch_source_id a
     \<and> citation_key env b = citation_key env a"
proof -
  assume "cut_of env a b"
  then have "ch_source_url b = ch_source_url a" "ch_document_id b = ch_document_id a" "ch_source_id b = ch_source_id a"
    by (auto simp: cut_of_def)
  then show ?thesis by (simp add: citation_key_def split: option.split)
qed

text \<open>The citation of a chunk: the list only grows, and the place named belongs to the chunk's document.\<close>

definition known_citations :: "url_env \<Rightarrow> source_chunk set \<Rightarrow> (string \<times> nat) list \<Rightarrow> assembled_citation list \<Rightarrow> bool" where
  "known_citations env pool ids cs \<longleftrightarrow>
     map ac_id cs = [1..<Suc (length cs)] \<and>
     (\<forall>key n. map_of ids key = Some n \<longrightarrow> 1 \<le> n \<and> n \<le> length cs \<and>
        (\<exists>o'\<in>pool. citation_key env o' = Some key \<and> ac_url (cs ! (n - 1)) = ch_source_url o' \<and>
           ac_document_id (cs ! (n - 1)) = ch_document_id o' \<and> ac_source_id (cs ! (n - 1)) = ch_source_id o'))"

lemma citations_extend_known:
  assumes "known_citations env pool ids cs" and "citations_extend cs ds" and "length ds = length cs"
  shows "known_citations env pool ids ds"
proof -
  have "map ac_id ds = map ac_id cs"
    using assms(2,3) by (intro nth_equalityI) (auto simp: citations_extend_def)
  moreover have "n - 1 < length cs" if "1 \<le> n" "n \<le> length cs" for n using that by simp
  ultimately show ?thesis using assms unfolding known_citations_def citations_extend_def by (smt (verit))
qed

lemma citation_id_for_known:
  assumes "citation_id_for env c a = Some (n, b)" and "known_citations env pool (citation_ids a) (citations a)" and "x \<in> pool"
    and "cut_of env x c"
  shows "known_citations env pool (citation_ids b) (citations b)" and "citations_extend (citations a) (citations b)"
    and "passages b = passages a" and "total_tokens b = total_tokens a"
    and "\<exists>key. map_of (citation_ids b) key = Some n \<and> citation_key env c = Some key"
proof -
  note same = cut_of_same [OF assms(4)]
  obtain key where key: "citation_key env c = Some key" using assms(1) by (auto simp: citation_id_for_def)
  have new: "n = length (citations a) + 1"
      "b = a\<lparr>citation_ids := AList.update key n (citation_ids a), citations := citations a @ [new_citation c n]\<rparr>"
    if "map_of (citation_ids a) key = None"
    using that assms(1) key by (auto simp: citation_id_for_def Let_def)
  have old: "map_of (citation_ids a) key = Some n" "b = a" if "map_of (citation_ids a) key \<noteq> None"
    using that assms(1) key by (auto simp: citation_id_for_def Let_def)
  show "citations_extend (citations a) (citations b)"
    using new(2) old(2) by (cases "map_of (citation_ids a) key") (auto simp: citations_extend_def nth_append)
  show "passages b = passages a" "total_tokens b = total_tokens a"
    using new(2) old(2) by (cases "map_of (citation_ids a) key"; simp)+
  show "\<exists>key. map_of (citation_ids b) key = Some n \<and> citation_key env c = Some key"
    using new(2) old key by (cases "map_of (citation_ids a) key") (auto simp: update_conv)
  show "known_citations env pool (citation_ids b) (citations b)"
  proof (cases "map_of (citation_ids a) key")
    case None
    note b = new [OF None]
    have "map ac_id (citations b) = [1..<Suc (length (citations b))]"
      using assms(2) b by (simp add: known_citations_def new_citation_def)
    moreover have "1 \<le> n' \<and> n' \<le> length (citations b) \<and>
        (\<exists>o'\<in>pool. citation_key env o' = Some k \<and> ac_url (citations b ! (n' - 1)) = ch_source_url o' \<and>
           ac_document_id (citations b ! (n' - 1)) = ch_document_id o' \<and> ac_source_id (citations b ! (n' - 1)) = ch_source_id o')"
      if "map_of (citation_ids b) k = Some n'" for k n'
    proof (cases "k = key")
      case True
      then show ?thesis using that b key same assms(3) by (auto simp: update_conv new_citation_def)
    next
      case False
      then have "map_of (citation_ids a) k = Some n'" using that b by (simp add: update_conv)
      then have old: "1 \<le> n'" "n' \<le> length (citations a)" "\<exists>o'\<in>pool. citation_key env o' = Some k \<and> ac_url (citations a ! (n' - 1)) = ch_source_url o' \<and>
           ac_document_id (citations a ! (n' - 1)) = ch_document_id o' \<and> ac_source_id (citations a ! (n' - 1)) = ch_source_id o'"
        using assms(2) unfolding known_citations_def by blast+
      then have "citations b ! (n' - 1) = citations a ! (n' - 1)" using b by (simp add: nth_append)
      then show ?thesis using old b by simp
    qed
    ultimately show ?thesis unfolding known_citations_def by blast
  next
    case (Some m)
    then show ?thesis using old assms(2) by simp
  qed
qed

definition assembly_ok :: "url_env \<Rightarrow> int \<Rightarrow> int option \<Rightarrow> scored_chunk set \<Rightarrow> assembly \<Rightarrow> bool" where
  "assembly_ok env budget max_passages pool a \<longleftrightarrow>
     known_citations env (sc_chunk ` pool) (citation_ids a) (citations a) \<and>
     total_tokens a = sum_list (map ap_token_count (passages a)) \<and> total_tokens a \<le> max 0 budget \<and>
     (case max_passages of None \<Rightarrow> True | Some n \<Rightarrow> int (length (passages a)) \<le> max 0 n) \<and>
     (\<forall>p\<in>set (passages a). \<exists>item\<in>pool. \<exists>c. cut_of env (sc_chunk item) c \<and>
        p = passage_of (item\<lparr>sc_chunk := c\<rparr>) (ap_citation_id p) \<and> cites env (sc_chunk ` pool) (citations a) c p)"

lemma assemble_item_ok:
  assumes "assemble_item env b a = Some a'" and "assembly_ok env budget max_passages pool a" and "x \<in> pool"
    and "cut_of env (sc_chunk x) (sc_chunk b)" and "b = x\<lparr>sc_chunk := sc_chunk b\<rparr>"
    and "ch_token_count (sc_chunk b) \<le> budget - total_tokens a"
    and "case max_passages of None \<Rightarrow> True | Some n \<Rightarrow> int (length (passages a)) < n"
  shows "assembly_ok env budget max_passages pool a'"
proof -
  let ?c = "sc_chunk b"
  obtain n m where n: "citation_id_for env ?c a = Some (n, m)"
      and a': "a' = m\<lparr>citations := (citations m)[n - 1 := add_evidence_span (citations m ! (n - 1)) ?c],
        passages := passages m @ [passage_of b n], total_tokens := total_tokens m + ch_token_count ?c\<rparr>"
    using assms(1) by (auto simp: assemble_item_def Option.bind_eq_Some_conv)
  have x: "sc_chunk x \<in> sc_chunk ` pool" using assms(3) by simp
  have known: "known_citations env (sc_chunk ` pool) (citation_ids a) (citations a)" using assms(2) by (simp add: assembly_ok_def)
  note m = citation_id_for_known [OF n known x assms(4)]
  obtain key where key: "map_of (citation_ids m) key = Some n" "citation_key env ?c = Some key" using m(5) by blast
  have place: "1 \<le> n" "n \<le> length (citations m)" "\<exists>o'\<in>sc_chunk ` pool. citation_key env o' = Some key \<and> ac_url (citations m ! (n - 1)) = ch_source_url o' \<and>
      ac_document_id (citations m ! (n - 1)) = ch_document_id o' \<and> ac_source_id (citations m ! (n - 1)) = ch_source_id o'"
    using m(1) key(1) unfolding known_citations_def by blast+
  let ?cs = "(citations m)[n - 1 := add_evidence_span (citations m ! (n - 1)) ?c]"
  have more: "citations_extend (citations m) ?cs"
    using place by (auto simp: citations_extend_def nth_list_update add_evidence_span_def)
  have known': "known_citations env (sc_chunk ` pool) (citation_ids m) ?cs" using citations_extend_known [OF m(1) more] by simp
  have "n - 1 < length (citations m)" using place by simp
  then have new: "cites env (sc_chunk ` pool) ?cs ?c (passage_of b n)"
    using place key(2) by (auto simp: cites_def passage_of_def Let_def add_evidence_span_def)
  have "cites env (sc_chunk ` pool) ?cs c p" if "cites env (sc_chunk ` pool) (citations a) c p" for c p
    using cites_extend [OF cites_extend [OF that m(2)] more] .
  then have "\<exists>item\<in>pool. \<exists>c. cut_of env (sc_chunk item) c \<and>
      p = passage_of (item\<lparr>sc_chunk := c\<rparr>) (ap_citation_id p) \<and> cites env (sc_chunk ` pool) ?cs c p" if "p \<in> set (passages a)" for p
    using that assms(2) unfolding assembly_ok_def by blast
  moreover have "\<exists>item\<in>pool. \<exists>c. cut_of env (sc_chunk item) c \<and>
      passage_of b n = passage_of (item\<lparr>sc_chunk := c\<rparr>) (ap_citation_id (passage_of b n)) \<and> cites env (sc_chunk ` pool) ?cs c (passage_of b n)"
  proof (intro bexI [OF _ assms(3)] exI conjI)
    show "cut_of env (sc_chunk x) ?c" by (rule assms(4))
    show "passage_of b n = passage_of (x\<lparr>sc_chunk := ?c\<rparr>) (ap_citation_id (passage_of b n))"
      unfolding assms(5) [symmetric] by (simp add: passage_of_def Let_def)
  qed (rule new)
  ultimately show ?thesis using assms(2,6,7) known' m(3,4) unfolding a' assembly_ok_def
    by (auto simp: passage_of_def Let_def split: option.splits)
qed

lemma truncate_to_budget_item:
  "truncate_to_budget env item budget = Some (Some b) \<Longrightarrow> b = item\<lparr>sc_chunk := sc_chunk b\<rparr>"
  by (auto simp: truncate_to_budget_def truncate_item_def Let_def split: if_splits)

lemma assemble_loop_ok:
  "assemble_loop env budget max_passages items a = Some a' \<Longrightarrow> set items \<subseteq> pool \<Longrightarrow> assembly_ok env budget max_passages pool a \<Longrightarrow>
   assembly_ok env budget max_passages pool a'"
proof (induction items arbitrary: a)
  case (Cons item items)
  show ?case
  proof (cases "case max_passages of None \<Rightarrow> False | Some n \<Rightarrow> int (length (passages a)) \<ge> n")
    case False
    obtain cut where cut: "truncate_to_budget env item (budget - total_tokens a) = Some cut"
      using Cons.prems(1) False by (auto simp: Option.bind_eq_Some_conv)
    show ?thesis
    proof (cases cut)
      case None
      then show ?thesis using Cons cut False by auto
    next
      case (Some c)
      then obtain b where b: "assemble_item env c a = Some b" "assemble_loop env budget max_passages items b = Some a'"
        using Cons.prems(1) cut False by (auto simp: Option.bind_eq_Some_conv)
      have "assembly_ok env budget max_passages pool b"
        using b(1) Cons.prems(2,3) cut Some truncate_to_budget_cut truncate_to_budget_item False
        by (intro assemble_item_ok [of env c a b]) (auto split: option.splits)
      then show ?thesis using Cons.IH b(2) Cons.prems(2) by simp
    qed
  qed (use Cons.prems in simp)
qed simp

lemma assemble_ok:
  assumes "assemble env scored budget max_passages = Some (ps, cs)"
  shows "\<exists>a. assembly_ok env budget max_passages (set scored) a \<and> passages a = ps \<and> citations a = cs"
proof -
  let ?a = "\<lparr>citation_ids = [], citations = [], passages = [], total_tokens = 0\<rparr>"
  obtain a where a: "assemble_loop env budget max_passages (sort_key (\<lambda>s. - sc_score s) scored) ?a = Some a"
      "ps = passages a" "cs = citations a"
    using assms by (auto simp: assemble_def)
  have "assembly_ok env budget max_passages (set scored) ?a"
    by (simp add: assembly_ok_def known_citations_def split: option.split)
  then show ?thesis using assemble_loop_ok [OF a(1)] a(2,3) by (metis order_refl set_sort)
qed

lemma assemble_loop_length:
  "assemble_loop env budget max_passages items a = Some a' \<Longrightarrow> length (passages a') \<le> length (passages a) + length items"
proof (induction items arbitrary: a)
  case (Cons item items)
  have "length (passages b) = Suc (length (passages a))" if "assemble_item env c a = Some b" for b c
    using that by (auto simp: assemble_item_def citation_id_for_def Let_def Option.bind_eq_Some_conv split: option.splits)
  then show ?case using Cons by (fastforce simp: Option.bind_eq_Some_conv split: if_splits option.splits)
qed simp

lemma assemble_length: "assemble env scored budget max_passages = Some (ps, cs) \<Longrightarrow> length ps \<le> length scored"
  using assemble_loop_length by (fastforce simp: assemble_def)

text \<open>A cut of an exact chunk is exact.\<close>

lemma chunk_exact_cut:
  assumes "chunk_exact env page a" and "cut_of env a b"
  shows "chunk_exact env page b"
proof (cases "b = a")
  case False
  then obtain n where n: "n \<le> length (ch_text a)" "ch_text b = take n (ch_text a)" "ch_verbatim b = preserves_identity a"
      "ch_source_url b = ch_source_url a" "ch_document_id b = ch_document_id a" "ch_final_url b = ch_final_url a"
      "ch_sha256 b = ch_sha256 a" "ch_source_id b = ch_source_id a"
      "if preserves_identity a
       then ch_start b = ch_start a \<and> ch_end b = map_option (\<lambda>i. i + int n) (ch_start a) \<and> ch_evidence_id b \<noteq> None \<and>
         ch_evidence_id b = evidence_id_for env (the (ch_final_url a)) (the (ch_sha256 a)) (the (ch_start a)) (the (ch_start a) + int n)
       else ch_start b = None \<and> ch_end b = None \<and> ch_evidence_id b = None"
    using assms(2) by (auto simp: cut_of_def)
  obtain d where d: "ch_document_id a = Some d" "document_id_for env (page_address page) (wp_markdown page) = Some d" "sha256_pattern d"
    using assms(1) unfolding chunk_exact_def by metis
  have a: "ch_source_url a = page_address page" "ch_final_url a = Some (page_address page)" "ch_source_id a = wp_source_id page"
      "ch_sha256 a = Some (cleaned_markdown_sha256 env (wp_markdown page))"
    using assms(1) by (simp_all add: chunk_exact_def)
  have "ch_final_url a \<noteq> None" "ch_sha256 a \<noteq> None" "ch_verbatim a \<Longrightarrow> ch_start a \<noteq> None"
    using assms(1) by (auto simp: chunk_exact_def)
  then have same: "preserves_identity a = ch_verbatim a" using d(1) by (auto simp: preserves_identity_def)
  show ?thesis
  proof (cases "ch_verbatim a")
    case True
    then obtain i j where ij: "ch_start a = Some i" "ch_end a = Some j" "0 \<le> i" "i < j" "j \<le> int (length (wp_markdown page))"
        "ch_text a = py_slice (wp_markdown page) i j"
      using assms(1) by (auto simp: chunk_exact_def)
    have "ch_evidence_id b \<noteq> None \<and> ch_evidence_id b =
        evidence_id_for env (the (ch_final_url a)) (the (ch_sha256 a)) (the (ch_start a)) (the (ch_start a) + int n)"
      using n(9) True unfolding same by argo
    then have e: "ch_evidence_id b \<noteq> None" "ch_evidence_id b = evidence_id_for env (page_address page) (cleaned_markdown_sha256 env (wp_markdown page)) i (i + int n)"
      unfolding ij(1) a option.sel by blast+
    then have "0 < n" by (auto simp: evidence_id_for_def split: if_splits)
    have clamp: "py_clamp (length (wp_markdown page)) k = nat k" if "0 \<le> k" "k \<le> int (length (wp_markdown page))" for k
      using that by (simp add: py_clamp_def)
    have len: "length (ch_text a) = nat j - nat i" using ij clamp by (simp add: py_slice_def Let_def)
    have nj: "i + int n \<le> j" using n(1) len ij by linarith
    have t: "ch_text b = py_slice (wp_markdown page) i (i + int n)"
    proof -
      have "nat (i + int n) - nat i = n" "n \<le> nat j - nat i" using ij nj by linarith+
      then show ?thesis using n(2) ij nj clamp by (simp add: py_slice_def Let_def min_def)
    qed
    show ?thesis unfolding chunk_exact_def using n(3-9) True same ij nj e t \<open>0 < n\<close> a d by simp
  qed (use n same a d in \<open>simp add: chunk_exact_def\<close>)
qed (use assms(1) in simp)

end
