(* ===== verification/Search_Pipeline.thy ===== *)
theory Search_Pipeline
  imports Evidence_Assembly Effects Wire_Models
begin

text \<open>
  \<open>orchestrator/pipeline.py\<close>: the search route, from the request to the response.  The statistics are the state
  the stages change; a stage may raise.  What the stages ask is a \<open>search_world\<close>: the answers of the services, the
  cleaner and the metadata extraction for each page, the sizes of JSON texts, whether a stage's own timeout
  strikes, and at which await the route's deadline does.  Elapsed times and log lines are left out.  Next to the
  statistics the state keeps the URLs that were asked for, which the code does not.
\<close>

section \<open>Requests, configuration and services\<close>

record search_request =
  sq_query :: string
  sq_profile :: "string option"
  sq_token_budget :: "int option"
  sq_max_urls :: "int option"
  sq_max_passages :: "int option"
  sq_decompose :: bool
  sq_freshness :: "string option"
  sq_domains :: "string list option"
  sq_exclude_domains :: "string list option"
  sq_raw_markdown :: bool

record profile_default =
  pd_token_budget :: "int option"
  pd_max_urls :: "int option"
  pd_max_passages :: "int option"

record engine_failure =
  ef_engine :: string
  ef_reason :: string

record discovery_outcome =
  do_results :: "discovery_result list"
  do_unresponsive :: "engine_failure list"

text \<open>What a search for one subquery ends with.\<close>

datatype discovery_answer =
    Discovered discovery_outcome
  | Discovery_Timeout
  | Discovery_Failed string

record fetched =
  fo_requested_url :: string
  fo_final_url :: "string option"
  fo_code :: fetch_outcome
  fo_method :: string
  fo_elapsed_ms :: int
  fo_status :: "int option"
  fo_content_type :: "string option"
  fo_title :: "string option"
  fo_page :: "web_page option"

record raw_markdown =
  rm_citation_id :: nat
  rm_markdown :: string
  rm_cleaned :: string
  rm_document_id :: "string option"

record url_diagnostic =
  ud_url :: string
  ud_title :: string
  ud_engine :: string
  ud_engines :: "string list"
  ud_positions :: "int list"
  ud_subqueries :: "string list"
  ud_contributions :: nat
  ud_subquery_count :: nat
  ud_upstream_score :: pyfloat
  ud_discovery_score :: pyfloat
  ud_lexical_score :: pyfloat
  ud_selected :: bool
  ud_selection_reason :: "string option"
  ud_filtered_reason :: "string option"

record search_world =
  sw_env :: url_env
  sw_default_token_budget :: int
  sw_default_max_urls :: int
  sw_max_subqueries :: int
  sw_max_fanout :: int
  sw_profiles :: "string \<Rightarrow> profile_default option"
  sw_blocklist :: "string set"
  sw_domain_allowlist :: "string set option"
  sw_allowlist_only :: bool
  sw_relevance_floor :: "pyfloat option"
  sw_quality_enabled :: bool
  sw_max_candidates :: int
  sw_rerank_batch_size :: nat
  sw_stage_deadline_ms :: int
  sw_plan :: "string \<Rightarrow> string list option"
  sw_discover :: "nat \<Rightarrow> string \<Rightarrow> string option \<Rightarrow> discovery_answer"
  sw_safety_fails :: bool
  sw_safe :: "string \<Rightarrow> bool"
  sw_typed_fetch :: bool
  sw_fetch :: "string list \<Rightarrow> fetched list option"
  sw_extract :: "string list \<Rightarrow> web_page list"
  sw_clean :: "web_page \<Rightarrow> cleaned_page"
  sw_document_metadata :: "web_page \<Rightarrow> document_metadata"
  sw_chunk_timeout :: bool
  sw_chunk_late :: bool
  sw_chunk_post :: "web_page \<Rightarrow> http_answer"
  sw_rerank_timeout :: bool
  sw_rerank_post :: "nat \<Rightarrow> http_answer"
  sw_passage_bytes :: "passage \<Rightarrow> score_component list \<Rightarrow> nat"
  sw_raw_bytes :: "raw_markdown \<Rightarrow> nat"
  sw_diagnostic_bytes :: "url_diagnostic \<Rightarrow> nat"
  sw_deadline :: "nat \<Rightarrow> bool"

datatype search_error =
    Dependency_Unavailable string string
  | Route_Deadline_Exceeded
  | Validation_Failed
  | Url_Value_Error
  | Division_By_Zero

record subquery_diagnostic =
  sd_query :: string
  sd_ok :: bool
  sd_result_count :: nat
  sd_failure_reason :: "string option"

record fetch_diagnostic =
  fd_requested_url :: string
  fd_final_url :: "string option"
  fd_outcome :: string
  fd_retryable :: bool
  fd_status :: "int option"
  fd_content_type :: "string option"
  fd_title :: "string option"
  fd_method :: "string option"
  fd_elapsed_ms :: int

record search_stats =
  st_sub_queries :: "string list"
  st_subquery_diagnostics :: "subquery_diagnostic list"
  st_discovery_status :: string
  st_unresponsive :: "(string \<times> string) list"
  st_engine_contributions :: "(string \<times> nat) list"
  st_urls_discovered :: nat
  st_urls_selected :: nat
  st_url_diagnostics :: "url_diagnostic list"
  st_url_omitted :: "(string \<times> nat) list"
  st_crawled_ok :: nat
  st_crawled_failed :: nat
  st_fetch_outcomes :: "fetch_diagnostic list"
  st_fetch_counts :: "(string \<times> nat) list"
  st_after_dedup :: nat
  st_deduped :: nat
  st_cleaned :: nat
  st_chars_before :: int
  st_chars_after :: int
  st_blocks_dropped :: int
  st_cleaner_version :: "string option"
  st_chunks_produced :: nat
  st_prefiltered :: nat
  st_sent :: nat
  st_prefilter_strategy :: "string option"
  st_batches :: nat
  st_batches_failed :: nat
  st_floor_filled :: bool
  st_chunks_reranked :: nat
  st_below_threshold :: nat
  st_threshold_policy :: "pyfloat option"
  st_quality_strategy :: "string option"
  st_quality_dropped :: nat
  st_quality_drops :: "(string \<times> nat) list"
  st_evidence_omitted :: nat
  st_evidence_bytes_omitted :: nat
  st_raw_omitted :: nat
  st_chunk_strategy :: json
  st_degraded :: bool
  st_reranked :: bool
  st_tokens_returned :: int
  st_reason :: "string option"

record search_state =
  ss_stats :: search_stats
  ss_requested :: "string list"

record search_response =
  sp_query :: string
  sp_passages :: "(passage \<times> score_component list) list"
  sp_citations :: "citation list"
  sp_stats :: search_stats
  sp_raw_markdown :: "raw_markdown list option"

type_synonym 'a search_eff = "(search_state, search_error, 'a) eff"

definition set_stats :: "(search_stats \<Rightarrow> search_stats) \<Rightarrow> unit search_eff" where
  "set_stats f = modifies (\<lambda>s. s\<lparr>ss_stats := f (ss_stats s)\<rparr>)"

text \<open>An await: the route's deadline may end the search there.\<close>

definition awaited :: "search_world \<Rightarrow> nat \<Rightarrow> unit search_eff" where
  "awaited w k = (if sw_deadline w k then raise Route_Deadline_Exceeded else ret ())"

section \<open>Limits\<close>

text \<open>\<open>a or b\<close> for an optional number.\<close>

definition or_int :: "int option \<Rightarrow> int \<Rightarrow> int" where
  "or_int a b = (case a of Some i \<Rightarrow> if i = 0 then b else i | None \<Rightarrow> b)"

definition profile_of :: "search_world \<Rightarrow> search_request \<Rightarrow> profile_default" where
  "profile_of w req =
     (case sw_profiles w (case sq_profile req of None \<Rightarrow> [] | Some p \<Rightarrow> p) of
        Some p \<Rightarrow> p | None \<Rightarrow> \<lparr>pd_token_budget = None, pd_max_urls = None, pd_max_passages = None\<rparr>)"

definition option_or :: "'a option \<Rightarrow> 'a \<Rightarrow> 'a" where
  "option_or a b = (case a of Some x \<Rightarrow> x | None \<Rightarrow> b)"

definition request_limits :: "search_world \<Rightarrow> search_request \<Rightarrow> int \<times> int \<times> int option" where
  "request_limits w req =
     (let p = profile_of w req in
      (or_int (sq_token_budget req) (option_or (pd_token_budget p) (sw_default_token_budget w)),
       min (or_int (sq_max_urls req) (option_or (pd_max_urls p) (sw_default_max_urls w))) (sw_max_fanout w),
       if sq_max_passages req \<noteq> None then sq_max_passages req else pd_max_passages p))"

section \<open>Discovery\<close>

definition planned_subqueries :: "search_world \<Rightarrow> search_request \<Rightarrow> string list search_eff" where
  "planned_subqueries w req =
     andthen (awaited w 0) (\<lambda>_.
       let planned = (if sq_decompose req then (case sw_plan w (sq_query req) of None \<Rightarrow> [sq_query req] | Some p \<Rightarrow> p)
             else [sq_query req]);
           subqueries = map (take 500) (py_slice (if planned = [] then [sq_query req] else planned) 0
             (min (sw_max_subqueries w) (sw_max_fanout w)))
       in andthen (set_stats (\<lambda>t. t\<lparr>st_sub_queries := subqueries\<rparr>)) (\<lambda>_. ret subqueries))"

definition failure_reason :: "string \<Rightarrow> string" where
  "failure_reason reason =
     (if reason \<in> {''timeout'', ''transport_error'', ''upstream_status_error'', ''malformed_response''} then reason
      else ''unavailable'')"

definition discovery_attempt :: "search_world \<Rightarrow> search_request \<Rightarrow> nat \<Rightarrow> string \<Rightarrow> string \<times> (string + discovery_outcome)" where
  "discovery_attempt w req i q =
     (q, case sw_discover w i q (sq_freshness req) of
           Discovered out \<Rightarrow> Inr out
         | Discovery_Timeout \<Rightarrow> Inl ''timeout''
         | Discovery_Failed reason \<Rightarrow> Inl (failure_reason reason))"

definition result_engine_list :: "discovery_result \<Rightarrow> string list" where
  "result_engine_list r =
     (let es = filter (\<lambda>e. e \<noteq> []) (map con_engine (dr_contributions r))
      in if es = [] \<and> dr_engine r \<noteq> [] then [dr_engine r] else es)"

definition engine_contributions :: "discovery_outcome list \<Rightarrow> (string \<times> nat) list" where
  "engine_contributions outs =
     map (\<lambda>(e, n). (truncate_utf8 128 e, n))
       (take 32 (sort_key (\<lambda>(e, n). (- int n, e))
         (fold add_one (concat (map result_engine_list (concat (map do_results outs)))) [])))"

definition subquery_diagnostic_of :: "string \<times> (string + discovery_outcome) \<Rightarrow> subquery_diagnostic" where
  "subquery_diagnostic_of a =
     (case a of
        (q, Inr out) \<Rightarrow> \<lparr>sd_query = q, sd_ok = True, sd_result_count = length (do_results out), sd_failure_reason = None\<rparr>
      | (q, Inl e) \<Rightarrow> \<lparr>sd_query = q, sd_ok = False, sd_result_count = 0, sd_failure_reason = Some e\<rparr>)"

fun successes :: "(string \<times> (string + discovery_outcome)) list \<Rightarrow> (string \<times> discovery_outcome) list" where
  "successes [] = []"
| "successes ((q, Inr out) # as) = (q, out) # successes as"
| "successes ((q, Inl e) # as) = successes as"

definition engine_failures :: "discovery_outcome list \<Rightarrow> (string \<times> string) list" where
  "engine_failures outs =
     sort (remdups (map (\<lambda>f. (ef_engine f, ef_reason f)) (concat (map do_unresponsive outs))))"

text \<open>At most eight diagnostics pass the validation of the statistics.\<close>

definition discover_results :: "search_world \<Rightarrow> search_request \<Rightarrow> string list \<Rightarrow> discovery_result list search_eff" where
  "discover_results w req subqueries =
     andthen (awaited w 1) (\<lambda>_.
       let attempts = map (\<lambda>(i, q). discovery_attempt w req i q) (enumerate 0 subqueries);
           good = successes attempts; outs = map snd good; failures = engine_failures outs;
           failed = length attempts - length good
       in if 8 < length attempts then raise Validation_Failed
          else andthen (set_stats (\<lambda>t. t\<lparr>st_subquery_diagnostics := map subquery_diagnostic_of attempts\<rparr>)) (\<lambda>_.
            if good = [] then raise (Dependency_Unavailable ''searxng'' ''searxng_unavailable'')
            else andthen (set_stats (\<lambda>t. t\<lparr>
                   st_unresponsive := map (\<lambda>(e, r). (truncate_utf8 128 e, truncate_utf8 256 r)) (take 32 failures),
                   st_discovery_status := (if failures \<noteq> [] \<or> 0 < failed then ''degraded'' else st_discovery_status t),
                   st_engine_contributions := engine_contributions outs\<rparr>)) (\<lambda>_.
              andthen (or_raise Url_Value_Error (merge_dedup (sw_env w) (map do_results outs) (Some (map fst good)))) (\<lambda>merged.
                andthen (set_stats (\<lambda>t. t\<lparr>
                    st_discovery_status := (if merged = [] \<and> (failures \<noteq> [] \<or> 0 < failed) then ''unavailable'' else st_discovery_status t),
                    st_urls_discovered := length merged\<rparr>)) (\<lambda>_. ret merged)))))"

section \<open>Selection\<close>

definition selection_filters :: "search_world \<Rightarrow> search_request \<Rightarrow> string set \<times> string set option" where
  "selection_filters w req =
     (let blocklist = sw_blocklist w \<union> (case sq_exclude_domains req of None \<Rightarrow> {} | Some ds \<Rightarrow> set ds);
          requested = (case sq_domains req of None \<Rightarrow> None | Some ds \<Rightarrow> if ds = [] then None else Some (set ds));
          operator_list = option_or (sw_domain_allowlist w) {}
      in (blocklist,
          if sw_allowlist_only w then Some (case requested of None \<Rightarrow> operator_list | Some a \<Rightarrow> a \<inter> operator_list) else requested))"

text \<open>The asynchronous filter gives what the plain one does (\<open>pool_is_filter\<close>); an exception gives no candidate.\<close>

definition safe_candidates :: "search_world \<Rightarrow> discovery_result list \<Rightarrow> discovery_result list search_eff" where
  "safe_candidates w rs =
     andthen (awaited w 2) (\<lambda>_. ret (if sw_safety_fails w then [] else filter (\<lambda>r. sw_safe w (dr_url r)) rs))"

definition ordered_unique :: "'a list \<Rightarrow> 'a list" where
  "ordered_unique xs = rev (remdups (rev xs))"

definition wire_url_diagnostic :: "decision \<Rightarrow> url_diagnostic" where
  "wire_url_diagnostic d =
     (let r = de_result d; cs = dr_contributions r;
          found = ordered_unique (filter (\<lambda>e. e \<noteq> []) (map con_engine cs));
          engines = (if dr_engine r \<noteq> [] \<and> dr_engine r \<notin> set found then dr_engine r # found else found);
          positions = ordered_unique (concat (map (\<lambda>c. case con_position c of None \<Rightarrow> [] | Some p \<Rightarrow> [p]) cs));
          subqueries = ordered_unique
            (filter (\<lambda>q. q \<noteq> [] \<and> \<not> py_startswith q ''result_set:'') (map con_subquery cs))
      in \<lparr>ud_url = truncate_utf8 2048 (dr_url r), ud_title = truncate_utf8 512 (dr_title r),
          ud_engine = truncate_utf8 128 (dr_engine r), ud_engines = map (truncate_utf8 128) (take 16 engines),
          ud_positions = take 16 positions, ud_subqueries = map (truncate_utf8 500) (take 8 subqueries),
          ud_contributions = max 1 (length cs), ud_subquery_count = length subqueries, ud_upstream_score = dr_score r,
          ud_discovery_score = dr_score r, ud_lexical_score = de_lexical_score d, ud_selected = de_selected d,
          ud_selection_reason = de_selection_reason d, ud_filtered_reason = de_filtered_reason d\<rparr>)"

fun bound_diagnostics ::
  "search_world \<Rightarrow> decision list \<Rightarrow> url_diagnostic list \<Rightarrow> (string \<times> nat) list \<Rightarrow> nat \<Rightarrow>
   url_diagnostic list \<times> (string \<times> nat) list" where
  "bound_diagnostics w [] kept omitted used = (kept, omitted)"
| "bound_diagnostics w (d # ds) kept omitted used =
     (let diag = wire_url_diagnostic d;
          more = sw_diagnostic_bytes w diag + (if kept = [] then 0 else 1)
      in if length kept < 50 \<and> used + more \<le> 65536 then bound_diagnostics w ds (kept @ [diag]) omitted (used + more)
         else bound_diagnostics w ds kept
           (add_one (or_string (de_filtered_reason d) ''selected_over_budget'') omitted) used)"

definition set_bounded_url_diagnostics :: "search_world \<Rightarrow> decision list \<Rightarrow> unit search_eff" where
  "set_bounded_url_diagnostics w ds =
     (let (kept, omitted) = bound_diagnostics w (filter de_selected ds @ filter (\<lambda>d. \<not> de_selected d) ds) [] [] 2
      in set_stats (\<lambda>t. t\<lparr>st_url_diagnostics := kept, st_url_omitted := take 16 (sort omitted)\<rparr>))"

definition select_results :: "search_world \<Rightarrow> search_request \<Rightarrow> discovery_result list \<Rightarrow> int \<Rightarrow> discovery_result list search_eff" where
  "select_results w req candidates max_urls =
     (let (blocklist, allowlist) = selection_filters w req in
      andthen (or_raise Url_Value_Error
          (select_with_diagnostics (sw_env w) candidates max_urls blocklist allowlist (Some (sq_query req)))) (\<lambda>(chosen, ds).
        andthen (set_bounded_url_diagnostics w ds) (\<lambda>_. ret chosen)))"

section \<open>Fetching\<close>

definition retryable_outcomes :: "fetch_outcome list" where
  "retryable_outcomes = [Capacity_Unavailable, Upstream_Timeout, Deadline_Cancelled, Upstream_Failure, Rate_Limited]"

definition fetch_diagnostic_of :: "fetched \<Rightarrow> fetch_diagnostic" where
  "fetch_diagnostic_of o' =
     \<lparr>fd_requested_url = fo_requested_url o', fd_final_url = fo_final_url o', fd_outcome = fetch_outcome_value (fo_code o'),
      fd_retryable = (fo_code o' \<in> set retryable_outcomes), fd_status = fo_status o', fd_content_type = fo_content_type o',
      fd_title = fo_title o', fd_method = (if fo_method o' = [] then None else Some (fo_method o')), fd_elapsed_ms = fo_elapsed_ms o'\<rparr>"

text \<open>A status outside 100 to 599, a negative time or more than 16 different outcomes fail the validation.\<close>

definition set_fetch_diagnostics :: "fetched list \<Rightarrow> unit search_eff" where
  "set_fetch_diagnostics outs =
     (let shown = map fetch_diagnostic_of (take 20 outs);
          counts = fold (\<lambda>o'. add_one (fetch_outcome_value (fo_code o'))) outs []
      in if (\<exists>d\<in>set shown. fd_elapsed_ms d < 0 \<or> (case fd_status d of None \<Rightarrow> False | Some s \<Rightarrow> s < 100 \<or> 599 < s)) \<or> 16 < length counts
         then raise Validation_Failed
         else set_stats (\<lambda>t. t\<lparr>st_fetch_outcomes := shown, st_fetch_counts := sort counts\<rparr>))"

definition page_key :: "web_page \<Rightarrow> string" where
  "page_key p = or_string (wp_requested_url p) (wp_url p)"

text \<open>The page a dictionary over the pages has under a URL: the last one.\<close>

definition page_by_url :: "web_page list \<Rightarrow> string \<Rightarrow> web_page option" where
  "page_by_url pages url = List.find (\<lambda>p. page_key p = url) (rev pages)"

definition legacy_fetched :: "web_page list \<Rightarrow> string \<Rightarrow> fetched" where
  "legacy_fetched pages url =
     (let p = page_by_url pages url in
      \<lparr>fo_requested_url = url, fo_final_url = map_option page_address p,
       fo_code = (if p \<noteq> None then Content else Upstream_Failure), fo_method = ''legacy_extractor'', fo_elapsed_ms = 0,
       fo_status = Option.bind p wp_status_code, fo_content_type = Option.bind p wp_content_type,
       fo_title = map_option wp_title p, fo_page = p\<rparr>)"

definition typed_fetched :: "search_world \<Rightarrow> string list \<Rightarrow> fetched list" where
  "typed_fetched w urls =
     (case sw_fetch w urls of
        Some outs \<Rightarrow> outs
      | None \<Rightarrow> map (\<lambda>url. \<lparr>fo_requested_url = url, fo_final_url = None, fo_code = Deadline_Cancelled, fo_method = ''crawl4ai_browser'',
          fo_elapsed_ms = sw_stage_deadline_ms w, fo_status = None, fo_content_type = None, fo_title = None, fo_page = None\<rparr>) urls)"

definition content_pages :: "fetched list \<Rightarrow> web_page list" where
  "content_pages outs = concat (map (\<lambda>o'. case fo_page o' of Some p \<Rightarrow> if fo_code o' = Content then [p] else [] | None \<Rightarrow> []) outs)"

definition fetch_pages :: "search_world \<Rightarrow> string list \<Rightarrow> web_page list search_eff" where
  "fetch_pages w urls =
     andthen (modifies (\<lambda>s. s\<lparr>ss_requested := urls\<rparr>)) (\<lambda>_.
     andthen (awaited w 3) (\<lambda>_.
       let outs = (if sw_typed_fetch w then typed_fetched w urls else map (legacy_fetched (sw_extract w urls)) urls);
           pages = (if sw_typed_fetch w then content_pages outs else sw_extract w urls);
           good = length (filter (\<lambda>o'. fo_code o' = Content) outs)
       in andthen (set_fetch_diagnostics outs) (\<lambda>_.
          andthen (set_stats (\<lambda>t. t\<lparr>st_crawled_ok := good, st_crawled_failed := length urls - good\<rparr>)) (\<lambda>_. ret pages))))"

definition attach_discovery_metadata :: "web_page list \<Rightarrow> discovery_result list \<Rightarrow> web_page list" where
  "attach_discovery_metadata pages chosen =
     map (\<lambda>p. p\<lparr>wp_published_at :=
       Option.bind (List.find (\<lambda>r. dr_url r = page_key p \<and> dr_published_at r \<noteq> None) (rev chosen)) dr_published_at\<rparr>) pages"

section \<open>From pages to evidence\<close>

definition clean_pages :: "search_world \<Rightarrow> web_page list \<Rightarrow> web_page list search_eff" where
  "clean_pages w pages =
     (let cs = map (sw_clean w) pages in
      if cs = [] then ret pages
      else andthen (set_stats (\<lambda>t. t\<lparr>st_cleaned := length cs, st_chars_before := sum_list (map cl_chars_before cs),
          st_chars_after := sum_list (map cl_chars_after cs), st_blocks_dropped := sum_list (map cl_blocks_dropped cs),
          st_cleaner_version := Some (cl_version (hd cs))\<rparr>)) (\<lambda>_.
        ret (map (\<lambda>c. (cl_page c)\<lparr>wp_evidence_metadata := Some (sw_document_metadata w (cl_page c))\<rparr>) cs)))"

definition dedupe_pages :: "search_world \<Rightarrow> web_page list \<Rightarrow> web_page list search_eff" where
  "dedupe_pages w pages =
     (let kept = map (\<lambda>(i, p). p\<lparr>wp_source_id := Some (int i + 1)\<rparr>) (enumerate 0 (content_dedup (sw_env w) pages))
      in andthen (set_stats (\<lambda>t. t\<lparr>st_after_dedup := length kept, st_deduped := length pages - length kept\<rparr>)) (\<lambda>_. ret kept))"

text \<open>The strategy must be a string to pass the validation of the statistics.\<close>

definition chunk_stage :: "search_world \<Rightarrow> web_page list \<Rightarrow> source_chunk list search_eff" where
  "chunk_stage w pages =
     andthen (awaited w 4) (\<lambda>_.
       if sw_chunk_timeout w then raise (Dependency_Unavailable ''chunker'' ''chunker_timeout'')
       else (case chunk_pages_client (sw_env w) (sw_chunk_late w) (sw_chunk_post w) pages of
           None \<Rightarrow> raise (Dependency_Unavailable ''chunker'' ''chunker_unavailable'')
         | Some chunks \<Rightarrow>
             andthen (set_stats (\<lambda>t. t\<lparr>st_chunks_produced := length chunks\<rparr>)) (\<lambda>_.
               if chunks = [] then ret chunks
               else if ch_strategy (hd chunks) \<noteq> JNull \<and> json_string (ch_strategy (hd chunks)) = None then raise Validation_Failed
               else andthen (set_stats (\<lambda>t. t\<lparr>st_chunk_strategy := ch_strategy (hd chunks),
                   st_degraded := list_ex ch_degraded chunks\<rparr>)) (\<lambda>_. ret chunks))))"

definition prefilter_stage :: "search_world \<Rightarrow> search_request \<Rightarrow> source_chunk list \<Rightarrow> source_chunk list search_eff" where
  "prefilter_stage w req chunks =
     andthen (or_raise Division_By_Zero (prefilter (sw_max_candidates w) (sq_query req) chunks)) (\<lambda>p.
     andthen (set_stats (\<lambda>t. t\<lparr>st_prefiltered := pf_prefiltered p, st_sent := pf_sent p,
       st_prefilter_strategy := Some (pf_strategy p)\<rparr>)) (\<lambda>_. ret (pf_chunks p)))"

definition position_fallback :: "source_chunk list \<Rightarrow> scored_chunk list" where
  "position_fallback chunks =
     map (\<lambda>(i, c). \<lparr>sc_chunk = c, sc_score = 1 / (real i + 1),
       sc_components = [\<lparr>sco_name = ''position_fallback'', sco_score = 1 / (real i + 1), sco_strategy = ''position-fallback@1''\<rparr>]\<rparr>)
       (enumerate 0 chunks)"

definition rerank_stage :: "search_world \<Rightarrow> source_chunk list \<Rightarrow> scored_chunk list search_eff" where
  "rerank_stage w chunks =
     andthen (awaited w 5) (\<lambda>_.
       case (if sw_rerank_timeout w then Inl \<lparr>t_batches = 0, t_failed = 0, t_floor_filled = False, t_scored = 0\<rparr>
             else rerank_client (sw_rerank_batch_size w) (sw_rerank_post w) chunks) of
         Inr out \<Rightarrow>
           andthen (set_stats (\<lambda>t. t\<lparr>st_reranked := True, st_batches := t_batches (ro_telemetry out),
             st_batches_failed := t_failed (ro_telemetry out), st_floor_filled := t_floor_filled (ro_telemetry out),
             st_chunks_reranked := t_scored (ro_telemetry out)\<rparr>)) (\<lambda>_.
           ret (map (\<lambda>x. if sc_components x \<noteq> [] then x
             else x\<lparr>sc_components := [\<lparr>sco_name = ''reranker'', sco_score = sc_score x, sco_strategy = ro_strategy out\<rparr>]\<rparr>) (ro_scored out)))
       | Inl tel \<Rightarrow>
           andthen (set_stats (\<lambda>t. t\<lparr>st_reranked := False, st_batches := t_batches tel, st_batches_failed := t_failed tel,
             st_floor_filled := False, st_chunks_reranked := 0\<rparr>)) (\<lambda>_. ret (position_fallback chunks)))"

definition apply_relevance_floor :: "scored_chunk list \<Rightarrow> bool \<Rightarrow> pyfloat option \<Rightarrow> scored_chunk list \<times> nat \<times> pyfloat option" where
  "apply_relevance_floor scored reranked score_floor =
     (case score_floor of
        None \<Rightarrow> (scored, 0, None)
      | Some f \<Rightarrow> if \<not> reranked then (scored, 0, None)
          else let above = filter (\<lambda>x. f < sc_score x) scored in (above, length scored - length above, Some f))"

definition wire_passage :: "string \<Rightarrow> pyfloat \<Rightarrow> int \<Rightarrow> int \<Rightarrow> int option \<Rightarrow> int option \<Rightarrow> bool \<Rightarrow> string option \<Rightarrow> string option \<Rightarrow>
   string option \<Rightarrow> passage" where
  "wire_passage t score amount cid i j verbatim doc evidence heading =
     \<lparr>passage_text = t, passage_score = score, passage_token_count = amount, passage_citation_id = cid, passage_start = i,
      passage_end = j, passage_verbatim = verbatim, passage_document_id = doc, passage_evidence_id = evidence, passage_heading = heading\<rparr>"

text \<open>What pydantic checks of a passage: the bounds and patterns of its fields, and its validator.\<close>

definition passage_valid :: "passage \<Rightarrow> score_component list \<Rightarrow> bool" where
  "passage_valid p cs \<longleftrightarrow>
     (case passage_start p of None \<Rightarrow> True | Some i \<Rightarrow> 0 \<le> i) \<and> (case passage_end p of None \<Rightarrow> True | Some j \<Rightarrow> 0 < j) \<and>
     (case passage_document_id p of None \<Rightarrow> True | Some d \<Rightarrow> sha256_pattern d) \<and>
     (case passage_evidence_id p of None \<Rightarrow> True | Some d \<Rightarrow> sha256_pattern d) \<and>
     length cs \<le> 4 \<and> (\<forall>c\<in>set cs. length (sco_name c) \<le> 64 \<and> length (sco_strategy c) \<le> 128) \<and>
     passage_validate_evidence p = None"

definition wire_scored_passage :: "scored_chunk \<Rightarrow> (passage \<times> score_component list) option" where
  "wire_scored_passage x =
     (let c = sc_chunk x;
          p = wire_passage (ch_text c) (sc_score x) (ch_token_count c) 50 (ch_start c) (ch_end c) (ch_verbatim c) (ch_document_id c)
            (ch_evidence_id c) (ch_heading c)
      in if passage_valid p (sc_components x) then Some (p, sc_components x) else None)"

definition passage_size :: "search_world \<Rightarrow> scored_chunk \<Rightarrow> nat option" where
  "passage_size w x = map_option (\<lambda>(p, cs). sw_passage_bytes w p cs) (wire_scored_passage x)"

definition max_evidence_item_bytes :: nat where
  "max_evidence_item_bytes = 65536"

text \<open>The search for the longest cut that fits; \<open>None\<close> is an exception, the inner option \<open>best_item\<close>.\<close>

function fit_loop :: "search_world \<Rightarrow> scored_chunk \<Rightarrow> int \<Rightarrow> int \<Rightarrow> (scored_chunk \<times> nat) option \<Rightarrow>
   (scored_chunk \<times> nat) option option" where
  "fit_loop w x lower upper fitting =
     (if upper < lower then Some fitting
      else let midpoint = (lower + upper) div 2 in
        do {
          cut \<leftarrow> truncate_to_char_count (sw_env w) x midpoint;
          (case cut of
             None \<Rightarrow> fit_loop w x (midpoint + 1) upper fitting
           | Some c \<Rightarrow>
               do {
                 n \<leftarrow> passage_size w c;
                 (if n \<le> max_evidence_item_bytes then fit_loop w x (midpoint + 1) upper (Some (c, n))
                  else fit_loop w x lower (midpoint - 1) fitting)
               })
        })"
  by pat_completeness auto
termination by (relation "measure (\<lambda>(w, x, lower, upper, fitting). nat (upper - lower + 1))") auto

declare fit_loop.simps [simp del]

definition fit_evidence_item :: "search_world \<Rightarrow> scored_chunk \<Rightarrow> (scored_chunk option \<times> nat) option" where
  "fit_evidence_item w x =
     do {
       original \<leftarrow> passage_size w x;
       (if original \<le> max_evidence_item_bytes then Some (Some x, original)
        else map_option (\<lambda>fitting. (map_option fst fitting, case fitting of None \<Rightarrow> original | Some (c, n) \<Rightarrow> if n = 0 then original else n))
          (fit_loop w x 1 (int (length (ch_text (sc_chunk x))) - 1) None))
     }"

fun bound_loop :: "search_world \<Rightarrow> scored_chunk list \<Rightarrow> scored_chunk list \<Rightarrow> nat \<Rightarrow> scored_chunk list search_eff" where
  "bound_loop w [] bounded used = ret bounded"
| "bound_loop w (x # xs) bounded used =
     andthen (or_raise Validation_Failed (fit_evidence_item w x)) (\<lambda>(fitted, item_bytes).
       let more = item_bytes + (if bounded = [] then 0 else 1) in
       (case fitted of
          Some c \<Rightarrow>
            if 50 \<le> length bounded \<or> 262144 < used + more
            then andthen (set_stats (\<lambda>t. t\<lparr>st_evidence_omitted := st_evidence_omitted t + 1,
              st_evidence_bytes_omitted := st_evidence_bytes_omitted t + item_bytes\<rparr>)) (\<lambda>_. bound_loop w xs bounded used)
            else bound_loop w xs (bounded @ [c]) (used + more)
        | None \<Rightarrow> andthen (set_stats (\<lambda>t. t\<lparr>st_evidence_omitted := st_evidence_omitted t + 1,
              st_evidence_bytes_omitted := st_evidence_bytes_omitted t + item_bytes\<rparr>)) (\<lambda>_. bound_loop w xs bounded used)))"

definition bound_evidence :: "search_world \<Rightarrow> scored_chunk list \<Rightarrow> scored_chunk list search_eff" where
  "bound_evidence w scored =
     bound_loop w (sort_key (\<lambda>x. (- sc_score x, ch_source_url (sc_chunk x), ch_position (sc_chunk x))) scored) [] 2"

section \<open>The response\<close>

text \<open>Citations are listed by source: the last page with the number, as in a dictionary.\<close>

fun build_raw_loop :: "search_world \<Rightarrow> web_page list \<Rightarrow> assembled_citation list \<Rightarrow> raw_markdown list \<Rightarrow> nat \<Rightarrow> raw_markdown list search_eff" where
  "build_raw_loop w pages [] raw used = ret raw"
| "build_raw_loop w pages (ct # cts) raw used =
     (case (case ac_source_id ct of None \<Rightarrow> None | Some i \<Rightarrow> List.find (\<lambda>p. wp_source_id p = Some i) (rev pages)) of
        None \<Rightarrow> build_raw_loop w pages cts raw used
      | Some page \<Rightarrow>
          (let item = \<lparr>rm_citation_id = ac_id ct, rm_markdown = or_string (wp_original_markdown page) (wp_markdown page),
                 rm_cleaned = wp_markdown page, rm_document_id = ac_document_id ct\<rparr>;
               n = sw_raw_bytes w item; more = n + (if raw = [] then 0 else 1)
           in if 20 \<le> length raw \<or> 262144 < n \<or> 524288 < used + more
              then andthen (set_stats (\<lambda>t. t\<lparr>st_raw_omitted := st_raw_omitted t + 1\<rparr>)) (\<lambda>_. build_raw_loop w pages cts raw used)
              else build_raw_loop w pages cts (raw @ [item]) (used + more)))"

definition build_raw_markdown :: "search_world \<Rightarrow> search_request \<Rightarrow> web_page list \<Rightarrow> assembled_citation list \<Rightarrow> raw_markdown list option search_eff" where
  "build_raw_markdown w req pages cts =
     (if \<not> sq_raw_markdown req then ret None else andthen (build_raw_loop w pages cts [] 2) (\<lambda>raw. ret (Some raw)))"

definition wire_assembled_passage :: "assembled_passage \<Rightarrow> (passage \<times> score_component list) option" where
  "wire_assembled_passage a =
     (let p = wire_passage (ap_text a) (ap_score a) (ap_token_count a) (int (ap_citation_id a)) (ap_start a) (ap_end a) (ap_verbatim a)
            (ap_document_id a) (ap_evidence_id a) (ap_heading a)
      in if passage_valid p (ap_components a) then Some (p, ap_components a) else None)"

definition wire_span :: "evidence_mark \<Rightarrow> evidence_span" where
  "wire_span m = \<lparr>span_start = em_start m, span_end = em_end m, span_verbatim = em_verbatim m, span_evidence_id = em_evidence_id m,
     span_heading = em_heading m\<rparr>"

definition citation_metadata_value :: "assembled_citation \<Rightarrow> string \<Rightarrow> string option" where
  "citation_metadata_value ct name = Option.bind (ac_metadata ct) (\<lambda>m. map_option mc_value (metadata_get m name))"

text \<open>The dictionary of all metadata that a citation carries next to these fields is not modelled.\<close>

definition wire_citation :: "assembled_citation \<Rightarrow> citation option" where
  "wire_citation ct =
     (let spans = map wire_span (ac_spans ct);
          c = \<lparr>citation_id = int (ac_id ct), citation_url = ac_url ct, citation_title = ac_title ct,
            citation_published = citation_metadata_value ct ''published_at'',
            citation_modified_at = citation_metadata_value ct ''modified_at'', citation_document_id = ac_document_id ct,
            citation_spans = spans\<rparr>
      in if (\<forall>s\<in>set spans. span_validate_evidence s = None) \<and> citation_validate_evidence c = None then Some c else None)"

fun map_or_fail :: "('a \<Rightarrow> 'b option) \<Rightarrow> 'a list \<Rightarrow> 'b list option" where
  "map_or_fail f [] = Some []"
| "map_or_fail f (x # xs) = do { y \<leftarrow> f x; ys \<leftarrow> map_or_fail f xs; Some (y # ys) }"

definition assemble_search_response ::
  "search_world \<Rightarrow> search_request \<Rightarrow> web_page list \<Rightarrow> scored_chunk list \<Rightarrow> int \<Rightarrow> int option \<Rightarrow> search_response search_eff" where
  "assemble_search_response w req pages scored token_budget max_passages =
     andthen (or_raise Url_Value_Error (assemble (sw_env w) scored token_budget max_passages)) (\<lambda>(aps, acs).
     andthen (or_raise Validation_Failed (map_or_fail wire_assembled_passage aps)) (\<lambda>ps.
     andthen (or_raise Validation_Failed (map_or_fail wire_citation acs)) (\<lambda>cs.
     andthen (set_stats (\<lambda>t. t\<lparr>st_tokens_returned := sum_list (map (\<lambda>(p, _). passage_token_count p) ps)\<rparr>)) (\<lambda>_.
     andthen (build_raw_markdown w req pages acs) (\<lambda>raw.
     andthen (reads ss_stats) (\<lambda>t.
     ret \<lparr>sp_query = sq_query req, sp_passages = ps, sp_citations = cs, sp_stats = t, sp_raw_markdown = raw\<rparr>))))))"

definition empty_response :: "search_request \<Rightarrow> string \<Rightarrow> search_response search_eff" where
  "empty_response req reason =
     andthen (set_stats (\<lambda>t. t\<lparr>st_reason := Some reason\<rparr>)) (\<lambda>_.
     andthen (reads ss_stats) (\<lambda>t.
     ret \<lparr>sp_query = sq_query req, sp_passages = [], sp_citations = [], sp_stats = t, sp_raw_markdown = None\<rparr>))"

section \<open>The route\<close>

text \<open>\<open>Inl\<close> is the reason there is nothing to go on with.\<close>

definition search_pages :: "search_world \<Rightarrow> search_request \<Rightarrow> int \<Rightarrow> (string + web_page list) search_eff" where
  "search_pages w req max_urls =
     andthen (planned_subqueries w req) (\<lambda>subqueries.
     andthen (discover_results w req subqueries) (\<lambda>merged.
       if merged = [] then
         andthen (reads (\<lambda>s. st_discovery_status (ss_stats s))) (\<lambda>status.
           ret (Inl (if status = ''unavailable'' then ''search_provider_unavailable'' else ''no_results_from_discovery'')))
       else
         andthen (safe_candidates w merged) (\<lambda>candidates.
         andthen (select_results w req candidates max_urls) (\<lambda>chosen.
         andthen (set_stats (\<lambda>t. t\<lparr>st_urls_selected := length chosen\<rparr>)) (\<lambda>_.
           if chosen = [] then ret (Inl ''no_urls_after_selection'')
           else andthen (fetch_pages w (map dr_url chosen)) (\<lambda>pages.
             ret (if pages = [] then Inl ''all_crawls_failed'' else Inr (attach_discovery_metadata pages chosen))))))))"

definition quality_stage :: "search_world \<Rightarrow> scored_chunk list \<Rightarrow> scored_chunk list search_eff" where
  "quality_stage w scored =
     (if \<not> sw_quality_enabled w then ret scored
      else let (accepted, dropped) = filter_evidence_quality scored []
        in andthen (set_stats (\<lambda>t. t\<lparr>st_quality_strategy := Some evidence_quality_strategy,
             st_quality_dropped := sum_list (map snd dropped), st_quality_drops := sort dropped\<rparr>)) (\<lambda>_. ret accepted))"

text \<open>The last part of \<open>_scored_evidence\<close>, from the relevance floor on, and the part from the prefilter on.\<close>

definition evidence_gates :: "search_world \<Rightarrow> scored_chunk list \<Rightarrow> (string + scored_chunk list) search_eff" where
  "evidence_gates w ranked =
     andthen (reads (\<lambda>s. st_reranked (ss_stats s))) (\<lambda>reranked.
       let (above, dropped, policy) = apply_relevance_floor ranked reranked (sw_relevance_floor w) in
       andthen (set_stats (\<lambda>t. t\<lparr>st_below_threshold := dropped, st_threshold_policy := policy\<rparr>)) (\<lambda>_.
         if above = [] then ret (Inl ''no_chunks_after_rerank'')
         else andthen (quality_stage w above) (\<lambda>good.
           if good = [] then ret (Inl ''no_evidence_after_quality_gate'')
           else andthen (bound_evidence w good) (\<lambda>bounded.
             ret (if bounded = [] then Inl ''no_evidence_after_output_budget'' else Inr bounded)))))"

definition ranked_evidence :: "search_world \<Rightarrow> search_request \<Rightarrow> source_chunk list \<Rightarrow> (string + scored_chunk list) search_eff" where
  "ranked_evidence w req produced =
     andthen (prefilter_stage w req produced) (\<lambda>chunks.
       if chunks = [] then ret (Inl ''no_chunks_after_dedup'')
       else andthen (rerank_stage w chunks) (\<lambda>ranked.
         if ranked = [] then ret (Inl ''no_chunks_after_rerank'') else evidence_gates w ranked))"

definition scored_evidence :: "search_world \<Rightarrow> search_request \<Rightarrow> web_page list \<Rightarrow> (web_page list \<times> (string + scored_chunk list)) search_eff" where
  "scored_evidence w req pages0 =
     andthen (clean_pages w pages0) (\<lambda>cleaned.
     andthen (dedupe_pages w cleaned) (\<lambda>pages.
     andthen (chunk_stage w pages) (\<lambda>produced.
       if produced = [] then ret (pages, Inl ''no_chunks_after_dedup'')
       else andthen (ranked_evidence w req produced) (\<lambda>r. ret (pages, r)))))"

definition start_stats :: search_stats where
  "start_stats =
     \<lparr>st_sub_queries = [], st_subquery_diagnostics = [], st_discovery_status = ''ok'', st_unresponsive = [],
      st_engine_contributions = [], st_urls_discovered = 0, st_urls_selected = 0, st_url_diagnostics = [], st_url_omitted = [],
      st_crawled_ok = 0, st_crawled_failed = 0, st_fetch_outcomes = [], st_fetch_counts = [], st_after_dedup = 0, st_deduped = 0,
      st_cleaned = 0, st_chars_before = 0, st_chars_after = 0, st_blocks_dropped = 0, st_cleaner_version = None,
      st_chunks_produced = 0, st_prefiltered = 0, st_sent = 0, st_prefilter_strategy = None, st_batches = 0, st_batches_failed = 0,
      st_floor_filled = False, st_chunks_reranked = 0, st_below_threshold = 0, st_threshold_policy = None,
      st_quality_strategy = None, st_quality_dropped = 0, st_quality_drops = [], st_evidence_omitted = 0,
      st_evidence_bytes_omitted = 0, st_raw_omitted = 0, st_chunk_strategy = JNull, st_degraded = False, st_reranked = False,
      st_tokens_returned = 0, st_reason = None\<rparr>"

definition run_search :: "search_world \<Rightarrow> search_request \<Rightarrow> search_response search_eff" where
  "run_search w req =
     (let (token_budget, max_urls, max_passages) = request_limits w req in
      andthen (search_pages w req max_urls) (\<lambda>found.
        case found of
          Inl reason \<Rightarrow> empty_response req reason
        | Inr pages0 \<Rightarrow>
            andthen (scored_evidence w req pages0) (\<lambda>(pages, evidence).
              case evidence of
                Inl reason \<Rightarrow> empty_response req reason
              | Inr scored \<Rightarrow> assemble_search_response w req pages scored token_budget max_passages)))"

definition search_run :: "search_world \<Rightarrow> search_request \<Rightarrow> (search_response, search_error) ending \<times> search_state" where
  "search_run w req = run_search w req \<lparr>ss_stats = start_stats, ss_requested = []\<rparr>"

end
