(* ===== verification/Search_Guarantees.thy ===== *)
theory Search_Guarantees
  imports Search_Pipeline
begin

text \<open>
  What the search route promises: which URLs it asks for, where the passages of its answer come from, and how
  large the answer is.
\<close>

section \<open>Which URLs are fetched\<close>

interpretation quiet: preorder_run "\<lambda>s t. ss_requested t = ss_requested s"
  by unfold_locales auto

abbreviation quiet_run :: "'a search_eff \<Rightarrow> bool" where
  "quiet_run m \<equiv> obeys (\<lambda>s t. ss_requested t = ss_requested s) m"

lemma quiet_sum:
  "(\<And>a. v = Inl a \<Longrightarrow> quiet_run (f a)) \<Longrightarrow> (\<And>b. v = Inr b \<Longrightarrow> quiet_run (g b)) \<Longrightarrow>
   quiet_run (case v of Inl a \<Rightarrow> f a | Inr b \<Rightarrow> g b)"
  by (cases v) simp_all

lemma quiet_set_stats: "quiet_run (set_stats f)"
  unfolding set_stats_def by (simp add: quiet.obeys_modifies)

lemmas quiet_rules = quiet.obeys_andthen quiet.obeys_if quiet.obeys_option quiet.obeys_pair quiet_sum quiet.obeys_ret
  quiet.obeys_raise quiet.obeys_reads quiet.obeys_or_raise quiet_set_stats

lemma quiet_awaited: "quiet_run (awaited w k)"
  unfolding awaited_def by (intro quiet_rules)

lemma triple_pure: "(b \<Longrightarrow> triple P m Q E) \<Longrightarrow> triple (\<lambda>s. P s \<and> b) m Q E"
  by (auto simp: triple_def)

lemma quiet_stages:
  "quiet_run (planned_subqueries w req)" "quiet_run (discover_results w req qs)" "quiet_run (safe_candidates w rs)"
  "quiet_run (set_bounded_url_diagnostics w ds)" "quiet_run (set_fetch_diagnostics outs)" "quiet_run (clean_pages w ps)"
  "quiet_run (dedupe_pages w ps)" "quiet_run (chunk_stage w ps)" "quiet_run (prefilter_stage w req cs)"
  "quiet_run (quality_stage w xs)" "quiet_run (empty_response req reason)" "quiet_run (rerank_stage w cs)"
  unfolding planned_subqueries_def discover_results_def safe_candidates_def set_bounded_url_diagnostics_def
    set_fetch_diagnostics_def clean_pages_def dedupe_pages_def chunk_stage_def prefilter_stage_def quality_stage_def
    empty_response_def rerank_stage_def Let_def
  by (intro quiet_rules quiet_awaited)+

lemma quiet_select: "quiet_run (select_results w req rs n)"
  unfolding select_results_def Let_def by (intro quiet_rules quiet_stages)

lemma quiet_bound_loop: "quiet_run (bound_loop w xs bounded used)"
  by (induction xs arbitrary: bounded used) (simp_all only: bound_loop.simps Let_def, (intro quiet_rules | assumption)+)

lemma quiet_raw_loop: "quiet_run (build_raw_loop w pages cts raw used)"
  by (induction cts arbitrary: raw used) (simp_all only: build_raw_loop.simps Let_def, (intro quiet_rules | assumption)+)

lemma quiet_assemble: "quiet_run (assemble_search_response w req pages xs b m)"
  unfolding assemble_search_response_def build_raw_markdown_def by (intro quiet_rules quiet_raw_loop)

lemma quiet_evidence: "quiet_run (scored_evidence w req pages)"
  unfolding scored_evidence_def ranked_evidence_def evidence_gates_def bound_evidence_def Let_def by (intro quiet_rules quiet_stages quiet_bound_loop)

lemma quiet_triple:
  "quiet_run m \<Longrightarrow> triple (\<lambda>s. F (ss_requested s)) m (\<lambda>_ s. F (ss_requested s)) (\<lambda>_ s. F (ss_requested s))"
  unfolding obeys_def triple_def by (auto split: prod.split ending.split) (metis snd_conv)+

text \<open>The URL is that of a result some search gave, it passed the safety check, and its host may be read.\<close>

definition search_target_ok :: "search_world \<Rightarrow> search_request \<Rightarrow> string \<Rightarrow> bool" where
  "search_target_ok w req u \<longleftrightarrow>
     sw_safe w u \<and>
     (\<exists>i q out r. sw_discover w i q (sq_freshness req) = Discovered out \<and> r \<in> set (do_results out) \<and> dr_url r = u) \<and>
     (\<exists>blocked r. normalized_hosts (sw_env w) (fst (selection_filters w req)) = Some blocked \<and> dr_url r = u \<and>
        eligible (sw_env w) blocked
          (case snd (selection_filters w req) of None \<Rightarrow> None | Some a \<Rightarrow> normalized_hosts (sw_env w) a) r)"

definition targets_ok :: "search_world \<Rightarrow> search_request \<Rightarrow> string list \<Rightarrow> bool" where
  "targets_ok w req urls \<longleftrightarrow>
     int (length urls) \<le> max 0 (fst (snd (request_limits w req))) \<and> distinct urls \<and> (\<forall>u\<in>set urls. search_target_ok w req u)"

lemma targets_ok_Nil [simp]: "targets_ok w req []"
  by (simp add: targets_ok_def)

definition discovered_url :: "search_world \<Rightarrow> search_request \<Rightarrow> string \<Rightarrow> bool" where
  "discovered_url w req u \<longleftrightarrow>
     (\<exists>i q out r. sw_discover w i q (sq_freshness req) = Discovered out \<and> r \<in> set (do_results out) \<and> dr_url r = u)"

lemma successes_attempt: "(q, out) \<in> set (successes as) \<Longrightarrow> (q, Inr out) \<in> set as"
  by (induction as rule: successes.induct) auto

lemma discover_urls:
  "triple (\<lambda>s. ss_requested s = []) (discover_results w req qs)
     (\<lambda>merged s. ss_requested s = [] \<and> (\<forall>r\<in>set merged. discovered_url w req (dr_url r))) (\<lambda>_ s. ss_requested s = [])"
proof -
  have "\<forall>r\<in>set merged. discovered_url w req (dr_url r)" if run: "discover_results w req qs s = (Returned merged, t)" for merged s t
  proof -
    let ?attempts = "map (\<lambda>(i, q). discovery_attempt w req i q) (enumerate 0 qs)"
    let ?outs = "map snd (successes ?attempts)"
    have m: "merge_dedup (sw_env w) (map do_results ?outs) (Some (map fst (successes ?attempts))) = Some merged"
      using run by (auto simp: discover_results_def andthen_Returned set_stats_def awaited_def Let_def eff_defs split: if_splits option.splits)
    have "discovered_url w req (dr_url r)" if r: "r \<in> set (concat (map do_results ?outs))" for r
    proof -
      obtain q out where o': "(q, out) \<in> set (successes ?attempts)" "r \<in> set (do_results out)" using r by auto
      then obtain i where "discovery_attempt w req i q = (q, Inr out)"
        using successes_attempt [OF o'(1)] by (auto simp: discovery_attempt_def)
      then show ?thesis using o'(2) by (auto simp: discovery_attempt_def discovered_url_def split: discovery_answer.splits)
    qed
    then have "u \<in> dr_url ` set (concat (map do_results ?outs)) \<Longrightarrow> discovered_url w req u" for u by blast
    then show ?thesis using merge_dedup_urls [OF m] by blast
  qed
  then show ?thesis using quiet_triple [OF quiet_stages(2), of "\<lambda>u. u = []"] unfolding triple_def
    by (fastforce split: prod.splits ending.splits)
qed

lemma safe_urls:
  "triple (\<lambda>s. ss_requested s = []) (safe_candidates w rs)
     (\<lambda>cs s. ss_requested s = [] \<and> set cs \<subseteq> {r \<in> set rs. sw_safe w (dr_url r)}) (\<lambda>_ s. ss_requested s = [])"
  by (auto simp: triple_def safe_candidates_def andthen_def awaited_def eff_defs)

lemma select_urls_ok:
  assumes "set cs \<subseteq> {r. discovered_url w req (dr_url r) \<and> sw_safe w (dr_url r)}"
  shows "triple (\<lambda>s. ss_requested s = []) (select_results w req cs (fst (snd (request_limits w req))))
     (\<lambda>chosen s. ss_requested s = [] \<and> targets_ok w req (map dr_url chosen)) (\<lambda>_ s. ss_requested s = [])"
proof -
  have "targets_ok w req (map dr_url chosen)"
    if run: "select_results w req cs (fst (snd (request_limits w req))) s = (Returned chosen, t)" for chosen s t
  proof -
    obtain ds where sel: "select_with_diagnostics (sw_env w) cs (fst (snd (request_limits w req)))
        (fst (selection_filters w req)) (snd (selection_filters w req)) (Some (sq_query req)) = Some (chosen, ds)"
      using run by (auto simp: select_results_def andthen_Returned set_bounded_url_diagnostics_def set_stats_def Let_def eff_defs
          split: if_splits option.splits prod.splits)
    obtain blocked where s: "normalized_hosts (sw_env w) (fst (selection_filters w req)) = Some blocked"
        "int (length chosen) \<le> max 0 (fst (snd (request_limits w req)))" "distinct (map dr_url chosen)"
        "set chosen \<subseteq> set (filter (eligible (sw_env w) blocked
           (case snd (selection_filters w req) of None \<Rightarrow> None | Some a \<Rightarrow> normalized_hosts (sw_env w) a)) cs)"
      using selection_sound [OF sel] by blast
    have "search_target_ok w req (dr_url r)" if r: "r \<in> set chosen" for r
    proof -
      have e: "eligible (sw_env w) blocked (case snd (selection_filters w req) of None \<Rightarrow> None | Some a \<Rightarrow> normalized_hosts (sw_env w) a) r"
          "r \<in> set cs" using s(4) r by auto
      then show ?thesis using assms s(1) unfolding search_target_ok_def discovered_url_def by blast
    qed
    then show ?thesis using s(2,3) by (auto simp: targets_ok_def)
  qed
  then show ?thesis using quiet_triple [OF quiet_select, of "\<lambda>u. u = []"] unfolding triple_def
    by (fastforce split: prod.splits ending.splits)
qed

lemma fetch_targets:
  assumes "targets_ok w req urls"
  shows "triple (\<lambda>s. ss_requested s = []) (fetch_pages w urls)
     (\<lambda>_ s. targets_ok w req (ss_requested s)) (\<lambda>_ s. targets_ok w req (ss_requested s))"
  unfolding fetch_pages_def Let_def
  by (rule triple_andthen [where M = "\<lambda>_ s. targets_ok w req (ss_requested s)"])
    (rule triple_modifies, simp add: assms, rule quiet_triple, intro quiet_rules quiet_awaited quiet_stages)

lemma search_pages_targets:
  "triple (\<lambda>s. ss_requested s = []) (search_pages w req (fst (snd (request_limits w req))))
     (\<lambda>_ s. targets_ok w req (ss_requested s)) (\<lambda>_ s. targets_ok w req (ss_requested s))"
  (is "triple ?P _ _ ?E")
proof -
  have weak: "triple ?P m Q (\<lambda>_. ?P) \<Longrightarrow> triple ?P m Q ?E" for m and Q :: "'a \<Rightarrow> search_state \<Rightarrow> bool"
    by (erule triple_weaken) auto
  have fetch: "triple (\<lambda>s. ?P s \<and> targets_ok w req (map dr_url chosen))
      (andthen (fetch_pages w (map dr_url chosen)) (\<lambda>pages. ret (f pages))) (\<lambda>_ s. targets_ok w req (ss_requested s)) ?E"
    for chosen and f :: "web_page list \<Rightarrow> string + web_page list"
  proof (rule triple_andthen [where M = "\<lambda>_ s. targets_ok w req (ss_requested s)"])
    show "triple (\<lambda>s. ?P s \<and> targets_ok w req (map dr_url chosen)) (fetch_pages w (map dr_url chosen))
        (\<lambda>_ s. targets_ok w req (ss_requested s)) ?E"
      by (rule triple_pure) (rule triple_weaken [OF fetch_targets], auto)
  qed (rule triple_ret, simp)
  show ?thesis
    unfolding search_pages_def
  proof (rule triple_andthen [OF weak [OF quiet_triple [OF quiet_stages(1), of "\<lambda>u. u = []"]]], rule triple_andthen [OF weak [OF discover_urls]],
      rule triple_if)
    show "triple (\<lambda>s. ?P s \<and> (\<forall>r\<in>set merged. discovered_url w req (dr_url r)))
        (andthen (reads (\<lambda>s. st_discovery_status (ss_stats s))) (\<lambda>status.
           ret (Inl (if status = ''unavailable'' then ''search_provider_unavailable'' else ''no_results_from_discovery''))))
        (\<lambda>_ s. targets_ok w req (ss_requested s)) ?E" for merged :: "discovery_result list"
      by (auto simp: triple_def andthen_def eff_defs)
    fix merged
    show "triple (\<lambda>s. ?P s \<and> (\<forall>r\<in>set merged. discovered_url w req (dr_url r)))
        (andthen (safe_candidates w merged) (\<lambda>candidates.
         andthen (select_results w req candidates (fst (snd (request_limits w req)))) (\<lambda>chosen.
         andthen (set_stats (\<lambda>t. t\<lparr>st_urls_selected := length chosen\<rparr>)) (\<lambda>_.
           if chosen = [] then ret (Inl ''no_urls_after_selection'')
           else andthen (fetch_pages w (map dr_url chosen)) (\<lambda>pages.
             ret (if pages = [] then Inl ''all_crawls_failed'' else Inr (attach_discovery_metadata pages chosen)))))))
        (\<lambda>_ s. targets_ok w req (ss_requested s)) ?E"
    proof (rule triple_andthen [where M = "\<lambda>cs s. ?P s \<and> set cs \<subseteq> {r. discovered_url w req (dr_url r) \<and> sw_safe w (dr_url r)}"],
        goal_cases)
      case 1
      show ?case by (auto simp: triple_def safe_candidates_def andthen_def awaited_def eff_defs)
    next
      case (2 cs)
      show ?case
      proof (rule triple_andthen [where M = "\<lambda>chosen s. ?P s \<and> targets_ok w req (map dr_url chosen)"], goal_cases)
        case 1
        show ?case
          by (rule triple_pure) (rule weak [OF select_urls_ok])
      next
        case (2 chosen)
        show ?case
        proof (rule triple_andthen [where M = "\<lambda>_ s. ?P s \<and> targets_ok w req (map dr_url chosen)"], goal_cases)
          case 1
          show ?case by (auto simp: triple_def set_stats_def eff_defs)
        next
          case 2
          show ?case by (rule triple_if) (auto intro: triple_ret fetch)
        qed
      qed
    qed
  qed
qed

text \<open>
  C38. Whatever the services answer and however it ends, a search asks for at most the allowed number of URLs, none
  twice, each of which one of its searches found, the safety check accepted, and the block and allow lists admit.
\<close>

theorem search_fetches_allowed:
  assumes "search_run w req = (ending, s)"
  shows "int (length (ss_requested s)) \<le> max 0 (fst (snd (request_limits w req))) \<and> distinct (ss_requested s)
     \<and> (\<forall>u\<in>set (ss_requested s). search_target_ok w req u)"
proof -
  have "triple (\<lambda>s. ss_requested s = []) (run_search w req) (\<lambda>_ s. targets_ok w req (ss_requested s)) (\<lambda>_ s. targets_ok w req (ss_requested s))"
    unfolding run_search_def Let_def case_prod_beta
  proof (rule triple_andthen [OF search_pages_targets], goal_cases)
    case (1 found)
    show ?case
    proof (cases found)
      case (Inl reason)
      then show ?thesis using quiet_triple [OF quiet_stages(11)] by simp
    next
      case (Inr pages0)
      have "quiet_run (case found of Inl reason \<Rightarrow> empty_response req reason
          | Inr pages0 \<Rightarrow> andthen (scored_evidence w req pages0) (\<lambda>p. case snd p of Inl reason \<Rightarrow> empty_response req reason
              | Inr scored \<Rightarrow> assemble_search_response w req (fst p) scored (fst (request_limits w req)) (snd (snd (request_limits w req)))))"
        by (intro quiet_rules quiet_stages quiet_evidence quiet_assemble)
      then show ?thesis by (rule quiet_triple)
    qed
  qed
  note run = this
  have "targets_ok w req (ss_requested s)"
  proof (cases ending)
    case (Returned resp)
    then show ?thesis using assms by (intro tripleD(1) [OF run]) (simp_all add: search_run_def)
  next
    case (Raised e)
    then show ?thesis using assms by (intro tripleD(2) [OF run]) (simp_all add: search_run_def)
  qed
  then show ?thesis by (simp add: targets_ok_def)
qed

section \<open>Where the answer comes from\<close>

text \<open>The pages the extractor gave for the URLs asked for.\<close>

definition source_pages :: "search_world \<Rightarrow> string list \<Rightarrow> web_page list" where
  "source_pages w urls = (if sw_typed_fetch w then content_pages (typed_fetched w urls) else sw_extract w urls)"

lemmas returned_simps = andthen_Returned set_stats_def awaited_def Let_def ret_def raise_def reads_def modifies_def or_raise_def

lemma fetch_pages_returned:
  "fetch_pages w urls s = (Returned ps, t) \<Longrightarrow> ps = source_pages w urls \<and> ss_requested t = urls"
  by (auto simp: fetch_pages_def returned_simps set_fetch_diagnostics_def source_pages_def split: if_splits)

lemma search_pages_returned:
  assumes "search_pages w req n s = (Returned (Inr pages0), t)" and "p \<in> set pages0"
  shows "\<exists>p0\<in>set (source_pages w (ss_requested t)). \<exists>pub. p = p0\<lparr>wp_published_at := pub\<rparr>"
proof -
  obtain chosen u pages where f: "fetch_pages w (map dr_url chosen) u = (Returned pages, t)" "pages0 = attach_discovery_metadata pages chosen"
    using assms(1) by (auto simp: search_pages_def andthen_Returned ret_def reads_def split: if_splits)
  then show ?thesis using assms(2) fetch_pages_returned [OF f(1)] by (auto simp: attach_discovery_metadata_def)
qed

lemma fit_loop_cut:
  "fit_loop w x lower upper fitting = Some (Some (d, n)) \<Longrightarrow>
   (\<forall>e m. fitting = Some (e, m) \<longrightarrow> cut_of (sw_env w) (sc_chunk x) (sc_chunk e)) \<Longrightarrow>
   cut_of (sw_env w) (sc_chunk x) (sc_chunk d)"
proof (induction w x lower upper fitting arbitrary: d n rule: fit_loop.induct)
  case (1 w x lower upper fitting)
  show ?case
  proof (cases "upper < lower")
    case False
    obtain cut where cut: "truncate_to_char_count (sw_env w) x ((lower + upper) div 2) = Some cut"
      using 1(4) False by (subst (asm) fit_loop.simps) (auto simp: Let_def Option.bind_eq_Some_conv)
    show ?thesis
    proof (cases cut)
      case None
      then show ?thesis using 1(1) [OF False refl cut None] 1(4,5) False cut
        by (subst (asm) fit_loop.simps [of w x lower]) (simp add: Let_def)
    next
      case (Some c)
      have c: "cut_of (sw_env w) (sc_chunk x) (sc_chunk c)" using truncate_to_char_count_cut cut Some by blast
      obtain m where m: "passage_size w c = Some m"
        using 1(4) False cut Some by (subst (asm) fit_loop.simps) (auto simp: Let_def Option.bind_eq_Some_conv)
      show ?thesis
      proof (cases "m \<le> max_evidence_item_bytes")
        case True
        then show ?thesis using 1(2) [OF False refl cut Some m True] 1(4) False cut Some m c
          by (subst (asm) fit_loop.simps [of w x lower]) (simp add: Let_def)
      next
        case big: False
        then show ?thesis using 1(3) [OF False refl cut Some m big] 1(4,5) False cut Some m
          by (subst (asm) fit_loop.simps [of w x lower]) (simp add: Let_def)
      qed
    qed
  qed (use 1(4,5) in \<open>auto simp: fit_loop.simps\<close>)
qed

lemma cut_of_refl: "cut_of env c c"
  by (simp add: cut_of_def)

lemma fit_evidence_item_cut:
  assumes "fit_evidence_item w x = Some (Some c, n)"
  shows "cut_of (sw_env w) (sc_chunk x) (sc_chunk c)"
  using assms fit_loop_cut [of w x 1 _ None c] by (auto simp: fit_evidence_item_def Option.bind_eq_Some_conv cut_of_refl split: if_splits)

lemma bound_loop_returned:
  "bound_loop w xs bounded used s = (Returned ys, t) \<Longrightarrow> length bounded \<le> 50 \<Longrightarrow>
   length ys \<le> 50 \<and> (\<forall>y\<in>set ys. y \<in> set bounded \<or> (\<exists>x\<in>set xs. cut_of (sw_env w) (sc_chunk x) (sc_chunk y)))"
proof (induction xs arbitrary: bounded used s)
  case (Cons x xs)
  obtain fitted item_bytes where fit: "fit_evidence_item w x = Some (fitted, item_bytes)"
    using Cons.prems(1) by (auto simp: andthen_Returned or_raise_def raise_def ret_def split: option.splits)
  have fits: "cut_of (sw_env w) (sc_chunk x) (sc_chunk c)" if "fitted = Some c" for c
  proof -
    show ?thesis using fit that fit_evidence_item_cut by blast
  qed
  show ?case
  proof (cases "\<exists>c. fitted = Some c \<and> \<not> (50 \<le> length bounded \<or> 262144 < used + (item_bytes + (if bounded = [] then 0 else 1)))")
    case True
    then obtain c where c: "fitted = Some c" "\<not> 50 \<le> length bounded"
        "bound_loop w xs (bounded @ [c]) (used + (item_bytes + (if bounded = [] then 0 else 1))) s = (Returned ys, t)"
      using Cons.prems(1) fit by (auto simp: andthen_Returned or_raise_def ret_def Let_def)
    then show ?thesis using Cons.IH [OF c(3)] fits [OF c(1)] by auto
  next
    case False
    then obtain u where "bound_loop w xs bounded used u = (Returned ys, t)"
      using Cons.prems(1) fit by (cases fitted) (auto simp: returned_simps split: if_splits)
    then show ?thesis using Cons.IH Cons.prems(2) by auto
  qed
qed (auto simp: ret_def)

lemma chunk_stage_returned:
  "chunk_stage w pages s = (Returned cs, t) \<Longrightarrow> c \<in> set cs \<Longrightarrow> \<exists>p\<in>set pages. chunk_exact (sw_env w) p c"
  using chunk_pages_exact by (fastforce simp: chunk_stage_def returned_simps split: if_splits option.splits)

lemma prefilter_stage_returned: "prefilter_stage w req chunks s = (Returned cs, t) \<Longrightarrow> set cs \<subseteq> set chunks"
  using prefilter_subset by (fastforce simp: prefilter_stage_def returned_simps split: option.splits)

lemma rerank_stage_returned: "rerank_stage w chunks s = (Returned xs, t) \<Longrightarrow> sc_chunk ` set xs \<subseteq> set chunks"
  using rerank_subset [of "sw_rerank_batch_size w" "sw_rerank_post w" chunks]
  by (fastforce simp: rerank_stage_def returned_simps position_fallback_def enumerate_nth split: if_splits sum.splits)

lemma quality_stage_returned: "quality_stage w xs s = (Returned ys, t) \<Longrightarrow> set ys \<subseteq> set xs"
  using filter_evidence_quality_exact [of xs "[]"] by (fastforce simp: quality_stage_def returned_simps split: if_splits prod.splits)

lemma relevance_floor_subset: "set (fst (apply_relevance_floor xs b f)) \<subseteq> set xs"
  by (auto simp: apply_relevance_floor_def Let_def split: option.splits)

text \<open>What the chunker is given of a page.\<close>

definition prepared :: "search_world \<Rightarrow> web_page \<Rightarrow> web_page \<Rightarrow> bool" where
  "prepared w p0 p \<longleftrightarrow>
     wp_markdown p = wp_markdown (cl_page (sw_clean w p0)) \<and> page_address p = page_address (cl_page (sw_clean w p0))"

lemma clean_dedupe_returned:
  assumes "clean_pages w pages0 s = (Returned cleaned, u)" and "dedupe_pages w cleaned u = (Returned pages, t)" and "p \<in> set pages"
  shows "\<exists>p0\<in>set pages0. prepared w p0 p"
proof -
  obtain i q where q: "q \<in> set cleaned" "p = q\<lparr>wp_source_id := i\<rparr>"
    using assms(2,3) dedup_from_set [of "sw_env w" "{}" cleaned] nth_mem
    by (fastforce simp: dedupe_pages_def returned_simps enumerate_nth content_dedup_def)
  obtain p0 m where "p0 \<in> set pages0" "q = (cl_page (sw_clean w p0))\<lparr>wp_evidence_metadata := m\<rparr>"
    using assms(1) q(1) by (auto simp: clean_pages_def returned_simps split: if_splits)
  then show ?thesis using q(2) by (auto simp: prepared_def page_address_def)
qed

lemma bound_evidence_returned:
  "bound_evidence w xs s = (Returned ys, t) \<Longrightarrow>
   length ys \<le> 50 \<and> (\<forall>y\<in>set ys. \<exists>x\<in>set xs. cut_of (sw_env w) (sc_chunk x) (sc_chunk y))"
proof -
  assume "bound_evidence w xs s = (Returned ys, t)"
  from bound_loop_returned [OF this [unfolded bound_evidence_def]] show ?thesis by simp
qed

lemma evidence_gates_returned:
  assumes "evidence_gates w ranked s = (Returned (Inr scored), t)"
  shows "length scored \<le> 50 \<and> (\<forall>y\<in>set scored. \<exists>x\<in>set ranked. cut_of (sw_env w) (sc_chunk x) (sc_chunk y))"
proof -
  obtain above dropped policy where ar:
      "apply_relevance_floor ranked (st_reranked (ss_stats s)) (sw_relevance_floor w) = (above, dropped, policy)"
    by (metis prod_cases3)
  then obtain u good v where q: "quality_stage w above u = (Returned good, v)" "bound_evidence w good v = (Returned scored, t)"
    using assms by (auto simp: evidence_gates_def returned_simps split: if_splits)
  have "set above \<subseteq> set ranked" using relevance_floor_subset [of ranked "st_reranked (ss_stats s)" "sw_relevance_floor w"] ar by simp
  then show ?thesis using bound_evidence_returned [OF q(2)] quality_stage_returned [OF q(1)] by blast
qed

lemma ranked_evidence_returned:
  assumes "ranked_evidence w req produced s = (Returned (Inr scored), t)"
  shows "length scored \<le> 50 \<and> (\<forall>y\<in>set scored. \<exists>c\<in>set produced. cut_of (sw_env w) c (sc_chunk y))"
proof -
  obtain chunks u ranked v where q: "prefilter_stage w req produced s = (Returned chunks, u)"
      "rerank_stage w chunks u = (Returned ranked, v)" "evidence_gates w ranked v = (Returned (Inr scored), t)"
    using assms by (auto simp: ranked_evidence_def andthen_Returned ret_def split: if_splits)
  show ?thesis
    using evidence_gates_returned [OF q(3)] rerank_stage_returned [OF q(2)] prefilter_stage_returned [OF q(1)] by blast
qed

lemma scored_evidence_returned:
  assumes "scored_evidence w req pages0 s = (Returned (pages, Inr scored), t)"
  shows "length scored \<le> 50 \<and> (\<forall>x\<in>set scored. \<exists>p0\<in>set pages0. \<exists>p. prepared w p0 p \<and> chunk_exact (sw_env w) p (sc_chunk x))"
proof -
  obtain cleaned s1 s2 produced s3 where run: "clean_pages w pages0 s = (Returned cleaned, s1)"
      "dedupe_pages w cleaned s1 = (Returned pages, s2)" "chunk_stage w pages s2 = (Returned produced, s3)"
      "ranked_evidence w req produced s3 = (Returned (Inr scored), t)"
    using assms by (auto simp: scored_evidence_def andthen_Returned ret_def split: if_splits)
  note r = ranked_evidence_returned [OF run(4)]
  have "\<exists>p0\<in>set pages0. \<exists>p. prepared w p0 p \<and> chunk_exact (sw_env w) p (sc_chunk x)" if x: "x \<in> set scored" for x
  proof -
    obtain c where c: "c \<in> set produced" "cut_of (sw_env w) c (sc_chunk x)" using r x by blast
    then obtain p where p: "p \<in> set pages" "chunk_exact (sw_env w) p c" using chunk_stage_returned [OF run(3)] by blast
    obtain p0 where "p0 \<in> set pages0" "prepared w p0 p" using clean_dedupe_returned [OF run(1,2) p(1)] by blast
    then show ?thesis using chunk_exact_cut [OF p(2) c(2)] by blast
  qed
  then show ?thesis using r by blast
qed

lemma map_or_fail_all: "map_or_fail f xs = Some ys \<Longrightarrow> list_all2 (\<lambda>x y. f x = Some y) xs ys"
  by (induction xs arbitrary: ys) (auto simp: Option.bind_eq_Some_conv)

lemma raw_loop_returned:
  "build_raw_loop w pages cts raw used s = (Returned out, t) \<Longrightarrow> length raw \<le> 20 \<Longrightarrow>
   used = 1 + (if raw = [] then 1 else 0) + sum_list (map (\<lambda>r. sw_raw_bytes w r + 1) raw) \<Longrightarrow> used \<le> 524288 \<Longrightarrow>
   length out \<le> 20 \<and> 1 + (if out = [] then 1 else 0) + sum_list (map (\<lambda>r. sw_raw_bytes w r + 1) out) \<le> 524288"
proof (induction cts arbitrary: raw used s)
  case (Cons ct cts)
  show ?case
  proof (cases "case ac_source_id ct of None \<Rightarrow> None | Some i \<Rightarrow> List.find (\<lambda>p. wp_source_id p = Some i) (rev pages)")
    case None
    then show ?thesis using Cons by simp
  next
    case (Some page)
    let ?item = "\<lparr>rm_citation_id = ac_id ct, rm_markdown = or_string (wp_original_markdown page) (wp_markdown page),
                 rm_cleaned = wp_markdown page, rm_document_id = ac_document_id ct\<rparr>"
    let ?n = "sw_raw_bytes w ?item"
    let ?more = "?n + (if raw = [] then 0 else 1)"
    show ?thesis
    proof (cases "20 \<le> length raw \<or> 262144 < ?n \<or> 524288 < used + ?more")
      case True
      then obtain u where "build_raw_loop w pages cts raw used u = (Returned out, t)"
        using Cons.prems(1) Some by (auto simp: returned_simps)
      then show ?thesis using Cons.IH Cons.prems(2-4) by blast
    next
      case False
      then have "build_raw_loop w pages cts (raw @ [?item]) (used + ?more) s = (Returned out, t)"
        using Cons.prems(1) Some by (auto simp: Let_def)
      then show ?thesis by (rule Cons.IH) (use False Cons.prems(3) in auto)
    qed
  qed
qed (auto simp: ret_def)

lemma assemble_response_returned:
  assumes "assemble_search_response w req pages scored budget m s = (Returned resp, t)"
  shows "\<exists>aps acs. assemble (sw_env w) scored budget m = Some (aps, acs) \<and>
    list_all2 (\<lambda>a p. wire_assembled_passage a = Some p) aps (sp_passages resp) \<and>
    list_all2 (\<lambda>a c. wire_citation a = Some c) acs (sp_citations resp) \<and>
    (\<forall>raw. sp_raw_markdown resp = Some raw \<longrightarrow>
       length raw \<le> 20 \<and> 1 + (if raw = [] then 1 else 0) + sum_list (map (\<lambda>r. sw_raw_bytes w r + 1) raw) \<le> 524288)"
proof -
  obtain aps acs ps cs raw u v where run: "assemble (sw_env w) scored budget m = Some (aps, acs)"
      "map_or_fail wire_assembled_passage aps = Some ps" "map_or_fail wire_citation acs = Some cs"
      "build_raw_markdown w req pages acs u = (Returned raw, v)"
      "sp_passages resp = ps" "sp_citations resp = cs" "sp_raw_markdown resp = raw"
    using assms by (auto simp: assemble_search_response_def returned_simps split: option.splits)
  have "length r \<le> 20 \<and> 1 + (if r = [] then 1 else 0) + sum_list (map (\<lambda>r. sw_raw_bytes w r + 1) r) \<le> 524288" if "raw = Some r" for r
  proof -
    have "build_raw_loop w pages acs [] 2 u = (Returned r, v)"
      using run(4) that by (auto simp: build_raw_markdown_def returned_simps split: if_splits)
    from raw_loop_returned [OF this] show ?thesis by simp
  qed
  then show ?thesis using run(1) map_or_fail_all [OF run(2)] map_or_fail_all [OF run(3)] unfolding run(5-7) by blast
qed

lemma search_run_returned:
  assumes "search_run w req = (Returned resp, s)"
  obtains (empty) "sp_passages resp = []" "sp_citations resp = []" "sp_raw_markdown resp = None"
    | (answer) pages0 pages scored t u where
        "\<forall>p\<in>set pages0. \<exists>p0\<in>set (source_pages w (ss_requested s)). \<exists>pub. p = p0\<lparr>wp_published_at := pub\<rparr>"
        "scored_evidence w req pages0 t = (Returned (pages, Inr scored), u)"
        "assemble_search_response w req pages scored (fst (request_limits w req)) (snd (snd (request_limits w req))) u = (Returned resp, s)"
proof -
  obtain b n m where lim: "request_limits w req = (b, n, m)" by (metis prod_cases3)
  let ?s0 = "\<lparr>ss_stats = start_stats, ss_requested = []\<rparr>"
  obtain found t where found: "search_pages w req n ?s0 = (Returned found, t)"
      "(case found of Inl reason \<Rightarrow> empty_response req reason
        | Inr pages0 \<Rightarrow> andthen (scored_evidence w req pages0) (\<lambda>(pages, evidence).
            case evidence of Inl reason \<Rightarrow> empty_response req reason
            | Inr scored \<Rightarrow> assemble_search_response w req pages scored b m)) t = (Returned resp, s)"
    using assms lim by (auto simp: search_run_def run_search_def andthen_Returned)
  have none: thesis if "empty_response req reason v = (Returned resp, s)" for reason v
    using that empty by (auto simp: empty_response_def returned_simps)
  show thesis
  proof (cases found)
    case (Inl reason)
    then show ?thesis using found(2) none by simp
  next
    case (Inr pages0)
    then obtain pages evidence u where ev: "scored_evidence w req pages0 t = (Returned (pages, evidence), u)"
        "(case evidence of Inl reason \<Rightarrow> empty_response req reason
            | Inr scored \<Rightarrow> assemble_search_response w req pages scored b m) u = (Returned resp, s)"
      using found(2) by (auto simp: andthen_Returned)
    show ?thesis
    proof (cases evidence)
      case (Inl reason)
      then show ?thesis using ev(2) none by simp
    next
      case (Inr scored)
      then have a: "assemble_search_response w req pages scored b m u = (Returned resp, s)" using ev(2) by simp
      have "ss_requested s = ss_requested t" using obeysD [OF quiet_assemble a] obeysD [OF quiet_evidence ev(1)] by simp
      then have "\<forall>p\<in>set pages0. \<exists>p0\<in>set (source_pages w (ss_requested s)). \<exists>pub. p = p0\<lparr>wp_published_at := pub\<rparr>"
        using search_pages_returned [OF found(1) [unfolded \<open>found = Inr pages0\<close>]] by metis
      then show ?thesis using answer ev(1) a Inr lim by simp
    qed
  qed
qed

text \<open>
  The passage is a part of the page's cleaned text: it carries the id of that document, and when it is verbatim, it
  is the slice it names, under the evidence id of that slice.
\<close>

definition passage_from :: "url_env \<Rightarrow> web_page \<Rightarrow> passage \<Rightarrow> bool" where
  "passage_from env page p \<longleftrightarrow>
     passage_document_id p = document_id_for env (page_address page) (wp_markdown page) \<and> passage_document_id p \<noteq> None \<and>
     (if passage_verbatim p
      then \<exists>i j. passage_start p = Some i \<and> passage_end p = Some j \<and> 0 \<le> i \<and> i < j \<and> j \<le> int (length (wp_markdown page)) \<and>
        passage_text p = py_slice (wp_markdown page) i j \<and> passage_evidence_id p \<noteq> None \<and>
        passage_evidence_id p = evidence_id_for env (page_address page) (cleaned_markdown_sha256 env (wp_markdown page)) i j
      else passage_start p = None \<and> passage_end p = None \<and> passage_evidence_id p = None)"

definition span_of :: "passage \<Rightarrow> evidence_span" where
  "span_of p = \<lparr>span_start = passage_start p, span_end = passage_end p, span_verbatim = passage_verbatim p,
     span_evidence_id = passage_evidence_id p, span_heading = passage_heading p\<rparr>"

lemma wire_passage_from:
  assumes "wire_assembled_passage (passage_of x n) = Some (p, cs)" and "chunk_exact env page (sc_chunk x)"
  shows "passage_from env page p \<and> passage_document_id p = ch_document_id (sc_chunk x) \<and> passage_citation_id p = int n
     \<and> span_of p = wire_span (mark_of (sc_chunk x)) \<and> passage_token_count p = ch_token_count (sc_chunk x)"
proof -
  have p: "passage_document_id p = ch_document_id (sc_chunk x)" "passage_start p = ch_start (sc_chunk x)" "passage_end p = ch_end (sc_chunk x)"
      "passage_verbatim p = ch_verbatim (sc_chunk x)" "passage_evidence_id p = ch_evidence_id (sc_chunk x)"
      "passage_text p = ch_text (sc_chunk x)" "passage_citation_id p = int n" "passage_heading p = ch_heading (sc_chunk x)"
      "passage_token_count p = ch_token_count (sc_chunk x)"
    using assms(1) by (auto simp: wire_assembled_passage_def passage_of_def wire_passage_def Let_def split: if_splits)
  have "passage_from env page p" using assms(2) unfolding passage_from_def chunk_exact_def p by (metis option.distinct(1))
  then show ?thesis using p by (simp add: span_of_def wire_span_def mark_of_def)
qed

lemma list_all2_right: "list_all2 P xs ys \<Longrightarrow> y \<in> set ys \<Longrightarrow> \<exists>x\<in>set xs. P x y"
  by (induction rule: list_all2_induct) auto

lemma wire_citation_Some:
  "wire_citation ct = Some c \<Longrightarrow>
   citation_id c = int (ac_id ct) \<and> citation_document_id c = ac_document_id ct \<and> citation_spans c = map wire_span (ac_spans ct)"
  by (auto simp: wire_citation_def Let_def split: if_splits)

lemma exact_citation_key:
  assumes "chunk_exact env page c" and "citation_key env o' = citation_key env c" and "chunk_exact env page' o'"
  shows "ch_document_id o' = ch_document_id c"
proof -
  have key: "citation_key env x = ch_document_id x" if "chunk_exact env q x" for x q
  proof -
    have "\<exists>d. ch_document_id x = Some d \<and> sha256_pattern d" using that unfolding chunk_exact_def by blast
    then show ?thesis by (auto simp: citation_key_def sha256_pattern_def)
  qed
  show ?thesis using key [OF assms(1)] key [OF assms(3)] assms(2) by simp
qed


text \<open>
  C40. The answer of a search is bounded whatever the services deliver: its passages together have at most the
  tokens of the budget, there are at most 50 of them and at most as many as asked for, citations are numbered from
  1, and the raw pages are at most 20 and, as JSON, at most 524288 octets.
\<close>

theorem search_answer_bounded:
  assumes "search_run w req = (Returned resp, s)"
  shows "sum_list (map (\<lambda>(p, cs). passage_token_count p) (sp_passages resp)) \<le> max 0 (fst (request_limits w req))
     \<and> length (sp_passages resp) \<le> 50
     \<and> (\<forall>m. snd (snd (request_limits w req)) = Some m \<longrightarrow> int (length (sp_passages resp)) \<le> max 0 m)
     \<and> map citation_id (sp_citations resp) = map int [1..<Suc (length (sp_citations resp))]
     \<and> (\<forall>raw. sp_raw_markdown resp = Some raw \<longrightarrow>
          length raw \<le> 20 \<and> 1 + (if raw = [] then 1 else 0) + sum_list (map (\<lambda>r. sw_raw_bytes w r + 1) raw) \<le> 524288)"
proof (cases rule: search_run_returned [OF assms])
  case 1
  then show ?thesis by simp
next
  case (2 pages0 pages scored t u)
  note answer = this
  note ev = scored_evidence_returned [OF answer(2)]
  obtain aps acs where a: "assemble (sw_env w) scored (fst (request_limits w req)) (snd (snd (request_limits w req))) = Some (aps, acs)"
      "list_all2 (\<lambda>a p. wire_assembled_passage a = Some p) aps (sp_passages resp)"
      "list_all2 (\<lambda>a c. wire_citation a = Some c) acs (sp_citations resp)"
      "\<forall>raw. sp_raw_markdown resp = Some raw \<longrightarrow>
          length raw \<le> 20 \<and> 1 + (if raw = [] then 1 else 0) + sum_list (map (\<lambda>r. sw_raw_bytes w r + 1) raw) \<le> 524288"
    using assemble_response_returned [OF answer(3)] by blast
  obtain st where st: "assembly_ok (sw_env w) (fst (request_limits w req)) (snd (snd (request_limits w req))) (set scored) st"
      "passages st = aps" "citations st = acs"
    using assemble_ok [OF a(1)] by blast
  have "map (\<lambda>(p, cs). passage_token_count p) (sp_passages resp) = map ap_token_count aps"
    using a(2) by (induction rule: list_all2_induct) (auto simp: wire_assembled_passage_def wire_passage_def Let_def split: if_splits)
  moreover have "map citation_id (sp_citations resp) = map (int \<circ> ac_id) acs"
    using a(3) by (induction rule: list_all2_induct) (auto simp: wire_citation_def Let_def split: if_splits)
  moreover have "length (sp_passages resp) = length aps" "length (sp_citations resp) = length acs"
    using list_all2_lengthD a(2,3) by metis+
  moreover have "length aps \<le> 50" using assemble_length [OF a(1)] ev by simp
  moreover have "map ac_id acs = [1..<Suc (length acs)]" using st unfolding assembly_ok_def known_citations_def by blast
  moreover have "sum_list (map ap_token_count aps) \<le> max 0 (fst (request_limits w req))" using st unfolding assembly_ok_def by metis
  moreover have "int (length aps) \<le> max 0 m" if "snd (snd (request_limits w req)) = Some m" for m
    using st that by (simp add: assembly_ok_def)
  ultimately show ?thesis using a(4) by (simp only: map_map [symmetric] simp_thms) simp
qed

section \<open>A search that answers\<close>

definition demo_digest :: url_env where
  "demo_digest = \<lparr>idna_uts46 = Some, idna_2003 = Some, ipv6_string = (\<lambda>w. []), sha256 = (\<lambda>b. replicate 32 (CHR 0x00))\<rparr>"

definition zeros :: string where
  "zeros = replicate 64 (CHR ''0'')"

definition demo_page :: web_page where
  "demo_page =
     \<lparr>wp_url = ''http://a'', wp_title = ''T'', wp_markdown = ''Hi'', wp_source_id = None, wp_original_markdown = None, wp_html = None,
      wp_raw_html = None, wp_requested_url = None, wp_final_url = None, wp_status_code = Some 200, wp_content_type = None,
      wp_etag = None, wp_last_modified = None, wp_retry_after = None, wp_metadata = [], wp_links = [], wp_published_at = None,
      wp_evidence_metadata = None\<rparr>"

definition demo_fetched :: fetched where
  "demo_fetched =
     \<lparr>fo_requested_url = ''http://a'', fo_final_url = None, fo_code = Content, fo_method = [], fo_elapsed_ms = 1, fo_status = Some 200,
      fo_content_type = None, fo_title = None, fo_page = Some demo_page\<rparr>"

definition demo_answer :: http_answer where
  "demo_answer = Http_Response 200 (Some (JObj [(''chunks'', JList [JObj
     [(''text'', JStr ''Hi''), (''token_count'', JInt 1), (''verbatim'', JBool True), (''start_index'', JInt 0), (''end_index'', JInt 2)]])]))"

definition demo_world :: search_world where
  "demo_world =
     \<lparr>sw_env = demo_digest, sw_default_token_budget = 100, sw_default_max_urls = 5, sw_max_subqueries = 4, sw_max_fanout = 20,
      sw_profiles = (\<lambda>p. None), sw_blocklist = {}, sw_domain_allowlist = None, sw_allowlist_only = False, sw_relevance_floor = None,
      sw_quality_enabled = False, sw_max_candidates = 50, sw_rerank_batch_size = 8, sw_stage_deadline_ms = 1000, sw_plan = (\<lambda>q. None),
      sw_discover = (\<lambda>i q f. Discovered \<lparr>do_results = [demo_found ''http://a'' 1], do_unresponsive = []\<rparr>), sw_safety_fails = False,
      sw_safe = (\<lambda>u. True), sw_typed_fetch = True, sw_fetch = (\<lambda>urls. Some [demo_fetched]), sw_extract = (\<lambda>urls. []),
      sw_clean = (\<lambda>p. \<lparr>cl_page = p, cl_chars_before = 2, cl_chars_after = 2, cl_blocks_dropped = 0, cl_version = ''1''\<rparr>),
      sw_document_metadata = (\<lambda>p. \<lparr>dm_selected = [], dm_conflicts = []\<rparr>), sw_chunk_timeout = False, sw_chunk_late = False,
      sw_chunk_post = (\<lambda>p. demo_answer), sw_rerank_timeout = True, sw_rerank_post = (\<lambda>b. Http_Error),
      sw_passage_bytes = (\<lambda>p cs. 1), sw_raw_bytes = (\<lambda>r. 1), sw_diagnostic_bytes = (\<lambda>d. 1), sw_deadline = (\<lambda>k. False)\<rparr>"

definition demo_request :: search_request where
  "demo_request =
     \<lparr>sq_query = ''q'', sq_profile = None, sq_token_budget = None, sq_max_urls = None, sq_max_passages = None, sq_decompose = False,
      sq_freshness = None, sq_domains = None, sq_exclude_domains = None, sq_raw_markdown = True\<rparr>"

lemma demo_digest_urls:
  "normalize_url demo_digest ''http://a'' = Some ''http://a''" "host_for demo_digest ''http://a'' = Some ''a''"
  "build_document_identity demo_digest ''http://a'' ''Hi'' = Some \<lparr>doc_url = ''http://a'', doc_sha = zeros, doc_id = zeros\<rparr>"
  "evidence_id_for demo_digest ''http://a'' zeros 0 2 = Some zeros" "sha256_pattern zeros"
  "matching_runs lower_or_digit (py_lower ''q'') = [''q'']"
  by code_simp+

lemma demo_merge: "merge_dedup demo_digest [[demo_found ''http://a'' 1]] (Some [''q'']) = Some [(demo_found ''http://a'' 1)\<lparr>dr_contributions :=
    [\<lparr>con_subquery = ''q'', con_engine = ''e'', con_position = None, con_score = 1\<rparr>]\<rparr>]"
  by (simp add: merge_dedup_def tagged_results_def merge_result_def demo_digest_urls demo_found_def merged_result_def contributions_of_def
      keep_contribution_def contribution_key_def)

definition demo_result :: discovery_result where
  "demo_result = (demo_found ''http://a'' 1)\<lparr>dr_contributions :=
    [\<lparr>con_subquery = ''q'', con_engine = ''e'', con_position = None, con_score = 1\<rparr>]\<rparr>"

lemma demo_select: "\<exists>ds. select_with_diagnostics demo_digest [demo_result] 5 {} None (Some ''q'') = Some ([demo_result], ds)"
  by (simp add: select_with_diagnostics_def normalized_hosts_def demo_result_def demo_found_def demo_digest_urls Let_def candidate_limit_def
      lexical_score_def tokens_def ordered_candidates_def select_passes_def append_unselected_def can_select_def host_count_def
      new_engine_def result_engines_def add_selection_def)

definition demo_prepared :: web_page where
  "demo_prepared = demo_page\<lparr>wp_source_id := Some 1, wp_evidence_metadata := Some \<lparr>dm_selected = [], dm_conflicts = []\<rparr>\<rparr>"

definition demo_source_chunk :: source_chunk where
  "demo_source_chunk =
     \<lparr>ch_text = ''Hi'', ch_token_count = 1, ch_source_url = ''http://a'', ch_title = ''T'', ch_position = 0, ch_source_id = Some 1,
      ch_strategy = JNull, ch_degraded = False, ch_start = Some 0, ch_end = Some 2, ch_verbatim = True, ch_document_id = Some zeros,
      ch_evidence_id = Some zeros, ch_final_url = Some ''http://a'', ch_sha256 = Some zeros, ch_heading = None,
      ch_metadata = Some \<lparr>dm_selected = [], dm_conflicts = []\<rparr>\<rparr>"

lemma demo_headings: "section_headings ''Hi'' = []"
  by code_simp

lemma demo_chunks: "chunk_pages_client demo_digest False (\<lambda>p. demo_answer) [demo_prepared] = Some [demo_source_chunk]"
  by (simp add: chunk_pages_client_def chunk_page_def demo_prepared_def demo_page_def page_address_def or_string_def demo_digest_urls
      demo_answer_def jget_or_def jget_def chunk_from_item_def Let_def exact_span_def py_slice_def py_clamp_def json_members_def json_int_def
      demo_source_chunk_def nearest_section_heading_def demo_headings json_string_def)

lemma demo_passage_valid:
  "length cs \<le> 4 \<Longrightarrow> \<forall>c\<in>set cs. length (sco_name c) \<le> 64 \<and> length (sco_strategy c) \<le> 128 \<Longrightarrow>
   passage_valid (wire_passage ''Hi'' x 1 n (Some 0) (Some 2) True (Some zeros) (Some zeros) None) cs"
  by (simp add: wire_passage_def passage_valid_def demo_digest_urls passage_validate_evidence_def span_bad_def)

lemmas stage_defs = ret_def raise_def andthen_def reads_def modifies_def or_raise_def Let_def set_stats_def awaited_def
  demo_world_def demo_request_def

lemma demo_filters: "selection_filters demo_world demo_request = ({}, None)" "sw_env demo_world = demo_digest"
  "sq_query demo_request = ''q''"
  by (simp_all add: selection_filters_def demo_world_def demo_request_def Let_def)

lemma raw_loop_returns: "\<exists>out v. build_raw_loop w pages cts raw used s = (Returned out, v)"
  by (induction cts arbitrary: raw used s)
    (auto simp: ret_def set_stats_def modifies_def andthen_def Let_def split: option.split)

lemma demo_pages: "\<exists>t. search_pages demo_world demo_request 5 s = (Returned (Inr [demo_page]), t)"
proof -
  obtain t1 where 1: "planned_subqueries demo_world demo_request s = (Returned [''q''], t1)"
    by (simp add: planned_subqueries_def stage_defs py_slice_def py_clamp_def)
  have m: "merge_dedup demo_digest [[demo_found ''http://a'' 1]] (Some [''q'']) = Some [demo_result]"
    using demo_merge by (simp add: demo_result_def)
  obtain t2 where 2: "discover_results demo_world demo_request [''q''] t1 = (Returned [demo_result], t2)"
    by (simp add: discover_results_def discovery_attempt_def engine_failures_def stage_defs m)
  obtain t3 where 3: "safe_candidates demo_world [demo_result] t2 = (Returned [demo_result], t3)"
    by (simp add: safe_candidates_def stage_defs)
  obtain ds where ds: "select_with_diagnostics demo_digest [demo_result] 5 {} None (Some ''q'') = Some ([demo_result], ds)"
    using demo_select by blast
  obtain kept omitted where "bound_diagnostics demo_world (filter de_selected ds @ filter (\<lambda>d. \<not> de_selected d) ds) [] [] 2 = (kept, omitted)"
    by (metis surj_pair)
  then obtain t4 where "set_bounded_url_diagnostics demo_world ds t3 = (Returned (), t4)"
    by (simp add: set_bounded_url_diagnostics_def set_stats_def modifies_def)
  then have 4: "select_results demo_world demo_request [demo_result] 5 t3 = (Returned [demo_result], t4)"
    using ds by (simp add: select_results_def demo_filters andthen_def or_raise_def ret_def)
  obtain u where u: "set_stats (\<lambda>t. t\<lparr>st_urls_selected := length [demo_result]\<rparr>) t4 = (Returned (), u)"
    by (simp add: set_stats_def modifies_def)
  have url: "dr_url demo_result = ''http://a''" by (simp add: demo_result_def demo_found_def)
  obtain t5 where 5: "fetch_pages demo_world [''http://a''] u = (Returned [demo_page], t5)"
    by (simp add: fetch_pages_def typed_fetched_def set_fetch_diagnostics_def content_pages_def fetch_diagnostic_of_def demo_fetched_def
        add_one_def stage_defs)
  have "attach_discovery_metadata [demo_page] [demo_result] = [demo_page]"
    by (simp add: attach_discovery_metadata_def demo_result_def demo_found_def demo_page_def page_key_def or_string_def)
  then show ?thesis
    using u by (simp add: search_pages_def andthen_def 1 2 3 4 url 5 ret_def)
qed

lemma demo_evidence:
  "\<exists>pages x t. scored_evidence demo_world demo_request [demo_page] s = (Returned (pages, Inr [x]), t) \<and> sc_chunk x = demo_source_chunk \<and>
     length (sc_components x) \<le> 4 \<and> (\<forall>c\<in>set (sc_components x). length (sco_name c) \<le> 64 \<and> length (sco_strategy c) \<le> 128)"
proof -
  let ?x = "\<lparr>sc_chunk = demo_source_chunk, sc_score = 1,
      sc_components = [\<lparr>sco_name = ''position_fallback'', sco_score = 1, sco_strategy = ''position-fallback@1''\<rparr>]\<rparr>"
  obtain t1 where 1: "clean_pages demo_world [demo_page] s
      = (Returned [demo_page\<lparr>wp_evidence_metadata := Some \<lparr>dm_selected = [], dm_conflicts = []\<rparr>\<rparr>], t1)"
    by (simp add: clean_pages_def stage_defs)
  obtain t2 where 2: "dedupe_pages demo_world [demo_page\<lparr>wp_evidence_metadata := Some \<lparr>dm_selected = [], dm_conflicts = []\<rparr>\<rparr>] t1
      = (Returned [demo_prepared], t2)"
    by (simp add: dedupe_pages_def content_dedup_def demo_prepared_def demo_page_def stage_defs)
  obtain t3 where 3: "chunk_stage demo_world [demo_prepared] t2 = (Returned [demo_source_chunk], t3)"
    using demo_chunks by (simp add: chunk_stage_def stage_defs demo_source_chunk_def)
  obtain t4 where 4: "prefilter_stage demo_world demo_request [demo_source_chunk] t3 = (Returned [demo_source_chunk], t4)"
    by (simp add: prefilter_stage_def prefilter_def stage_defs)
  obtain t5 where 5: "rerank_stage demo_world [demo_source_chunk] t4 = (Returned [?x], t5)"
    by (simp add: rerank_stage_def position_fallback_def stage_defs)
  have fit: "fit_evidence_item demo_world ?x = Some (Some ?x, 1)"
    using demo_passage_valid [of "sc_components ?x" 1 50]
    by (simp add: fit_evidence_item_def passage_size_def wire_scored_passage_def max_evidence_item_bytes_def demo_source_chunk_def Let_def)
      (simp add: demo_world_def)
  obtain t6 where 6: "evidence_gates demo_world [?x] t5 = (Returned (Inr [?x]), t6)"
    using fit by (simp add: evidence_gates_def apply_relevance_floor_def quality_stage_def bound_evidence_def stage_defs)
  have "ranked_evidence demo_world demo_request [demo_source_chunk] t3 = (Returned (Inr [?x]), t6)"
    by (simp add: ranked_evidence_def andthen_def 4 5 6)
  then have "scored_evidence demo_world demo_request [demo_page] s = (Returned ([demo_prepared], Inr [?x]), t6)"
    by (simp add: scored_evidence_def andthen_def 1 2 3 ret_def)
  moreover have "sc_chunk ?x = demo_source_chunk" "length (sc_components ?x) \<le> 4"
      "\<forall>c\<in>set (sc_components ?x). length (sco_name c) \<le> 64 \<and> length (sco_strategy c) \<le> 128"
    by simp_all
  ultimately show ?thesis by blast
qed

lemma demo_search: "\<exists>resp s p cs. search_run demo_world demo_request = (Returned resp, s) \<and> (p, cs) \<in> set (sp_passages resp)"
proof -
  obtain t where t: "search_pages demo_world demo_request 5 \<lparr>ss_stats = start_stats, ss_requested = []\<rparr> = (Returned (Inr [demo_page]), t)"
    using demo_pages by blast
  obtain pages x u where x: "scored_evidence demo_world demo_request [demo_page] t = (Returned (pages, Inr [x]), u)"
      "sc_chunk x = demo_source_chunk" "length (sc_components x) \<le> 4"
      "\<forall>c\<in>set (sc_components x). length (sco_name c) \<le> 64 \<and> length (sco_strategy c) \<le> 128"
    using demo_evidence by blast
  have lim: "request_limits demo_world demo_request = (100, 5, None)"
    by (simp add: request_limits_def or_int_def option_or_def profile_of_def demo_world_def demo_request_def)
  let ?a = "\<lparr>ac_id = 1, ac_url = ''http://a'', ac_title = ''T'', ac_source_id = Some 1, ac_document_id = Some zeros,
      ac_spans = [mark_of demo_source_chunk], ac_metadata = Some \<lparr>dm_selected = [], dm_conflicts = []\<rparr>\<rparr>"
  have as: "assemble demo_digest [x] 100 None = Some ([passage_of x 1], [?a])"
    using x(2) by (simp add: assemble_def truncate_to_budget_def demo_source_chunk_def assemble_item_def citation_id_for_def citation_key_def
        zeros_def new_citation_def metadata_get_def add_evidence_span_def Let_def)
  obtain p where p: "wire_assembled_passage (passage_of x 1) = Some p"
    using demo_passage_valid [OF x(3,4)] x(2) by (simp add: wire_assembled_passage_def passage_of_def demo_source_chunk_def Let_def)
  obtain c where c: "wire_citation ?a = Some c"
    by (simp add: wire_citation_def wire_span_def mark_of_def demo_source_chunk_def span_validate_evidence_def span_bad_def
        citation_validate_evidence_def Let_def)
  have env: "sw_env demo_world = demo_digest" by (simp add: demo_world_def)
  obtain raw v where raw: "build_raw_loop demo_world pages [?a] [] 2
      (u\<lparr>ss_stats := (ss_stats u)\<lparr>st_tokens_returned := sum_list (map (\<lambda>(p, _). passage_token_count p) [p])\<rparr>\<rparr>) = (Returned raw, v)"
    using raw_loop_returns by blast
  have "\<exists>resp s. assemble_search_response demo_world demo_request pages [x] 100 None u = (Returned resp, s) \<and> sp_passages resp = [p]"
    using raw by (simp add: assemble_search_response_def env as p c build_raw_markdown_def ret_def andthen_def reads_def modifies_def or_raise_def
        set_stats_def demo_request_def del: build_raw_loop.simps One_nat_def)
  then obtain resp s where r: "assemble_search_response demo_world demo_request pages [x] 100 None u = (Returned resp, s)" "sp_passages resp = [p]"
    by blast
  have "search_run demo_world demo_request = (Returned resp, s)"
    by (simp add: search_run_def run_search_def lim andthen_def t x(1) r(1))
  then show ?thesis using r(2) by (intro exI [of _ resp] exI [of _ s] exI [of _ "fst p"] exI [of _ "snd p"]) simp
qed


lemma search_answer_bounded_witness:
  "\<exists>resp s. search_run demo_world demo_request = (Returned resp, s) \<and> 0 < length (sp_passages resp) \<and> length (sp_passages resp) \<le> 50"
proof -
  obtain resp s p cs where run: "search_run demo_world demo_request = (Returned resp, s)" "(p, cs) \<in> set (sp_passages resp)"
    using demo_search by blast
  then show ?thesis using search_answer_bounded [OF run(1)] by (auto simp: length_pos_if_in_set)
qed

lemma search_fetches_allowed_witness:
  "\<exists>ending s. search_run demo_world demo_request = (ending, s) \<and> distinct (ss_requested s)"
  using search_fetches_allowed [of demo_world demo_request] by (metis surj_pair)

end
