(* ===== verification/Spec2Isabelle.thy ===== *)
theory Spec2Isabelle
  imports Prelude PyText Recursive_Splitter Cluster_Semantic Json Schema_Contract Wire_Models Chunk_Service Job_Guarantees
    Robots_Guarantees Egress_Guarantees Identity_Guarantees Cursor_Guarantees Job_Run_Guarantees Posix_Glob Crawl_Policy Crawl_Frontier Crawl_Guarantees
    Politeness Sitemap_Policy Site_Guarantees Site_Budget Search_Guarantees
begin

text \<open>
  Thorondor is a self-hosted search, fetch and crawl service for agents.  The orchestrator (\<open>src/orchestrator\<close>)
  answers four routes: \<open>/search\<close> finds pages with a meta search engine, reads them with a browser service, cuts
  them into chunks and returns the best passages with their sources; \<open>/fetch\<close> reads given URLs; \<open>/map\<close> and
  \<open>/crawl\<close> walk one site; crawl jobs do so in the background.  The chunking service
  (\<open>src/semantic-chunking-service\<close>) cuts texts by the similarity of embeddings.  The egress proxy
  (\<open>src/ssrf-proxy\<close>) stands between the browser and the network.  This library models their logic and proves what
  makes it correct.  Sections below: the parts, the conventions, the bounds, what is left out.

  Foundations.  \<open>Prelude\<close> and \<open>PyText\<close> (Python strings and lists), \<open>Py_Strings\<close> (case, splitting, numbers),
  \<open>Json\<close> (values, \<open>dumps\<close>), \<open>Json_Text\<close> (\<open>loads\<close>, base64), \<open>Ip_Address\<close>, \<open>Url\<close> (\<open>urllib.parse\<close>),
  \<open>Effects\<close> (code that changes a state and may raise, with the rules \<open>obeys\<close> and \<open>triple\<close>),
  \<open>Posix_Glob\<close> (\<open>fnmatch\<close> and \<open>PurePosixPath\<close>).

  Chunking service.  \<open>Recursive_Splitter\<close> is \<open>recursive_splitter.py\<close>: its pieces put together again are the text.
  \<open>Cluster_Semantic\<close> is \<open>cluster_semantic.py\<close> and \<open>base.py\<close>: the dynamic programme is optimal among the admissible
  groupings, chunks respect the token bound, and with offsets they are slices that cover the text.
  \<open>Chunk_Service\<close> is \<open>strategies.py\<close>, \<open>textprep.py\<close>, \<open>embedding_function.py\<close> and the \<open>/chunk\<close> handler of
  \<open>app.py\<close>: which requests get which answer.

  Contracts and identities.  \<open>Schema_Contract\<close> is \<open>schema_contract.py\<close>: the visitor of schemas against a declarative
  dialect, the visitor of values against validity.  \<open>Wire_Models\<close> is the part of \<open>models.py\<close>, \<open>outcome_codes.py\<close>
  and \<open>thorondor_contracts.py\<close> with checks of its own.  \<open>Url_Identity\<close> and \<open>Identity_Guarantees\<close> are
  \<open>url_identity.py\<close> with the hosts of \<open>normalize.py\<close>.

  Egress.  \<open>Url_Safety\<close> is \<open>url_safety.py\<close>, the check of the orchestrator with its pool of workers;
  \<open>Ssrf_Proxy\<close> is \<open>ssrf-proxy/proxy.py\<close>.  \<open>Egress_Guarantees\<close>: the pool computes the plain filter however it
  interleaves, embedded IPv4 addresses are looked through, the proxy only connects to safe addresses, and the two
  checks agree when configured alike.

  Crawl jobs.  \<open>Job_Store\<close> is \<open>crawl_job_store.py\<close>, every operation a transaction over three tables;
  \<open>Job_Invariants\<close> and \<open>Job_Lifecycle\<close> prove the invariant and the life cycle over all histories,
  \<open>Job_Guarantees\<close> states the properties.  \<open>Job_Manager\<close> is \<open>crawl_jobs.py\<close>: the API and the worker with its
  retries; \<open>Cursor_Guarantees\<close> shows that paging delivers everything once, \<open>Job_Run_Guarantees\<close> that a claimed job
  settles and that scopes are isolated.

  Sites.  \<open>Robots_Policy\<close> and \<open>Robots_Guarantees\<close> are \<open>robots_policy.py\<close>: the backtracking matcher against the
  meaning of a pattern, the choice of a rule, the cache.  \<open>Sitemap_Policy\<close> is \<open>sitemap_policy.py\<close>, \<open>Politeness\<close>
  \<open>politeness.py\<close> as a step relation.  \<open>Crawl_Policy\<close> and \<open>Crawl_Frontier\<close> are \<open>crawl_policy.py\<close>, with
  \<open>Crawl_Guarantees\<close> for the invariant of the frontier and the scope.  \<open>Site_Pipeline\<close> is \<open>site_pipeline.py\<close>, one
  definition per method; \<open>Site_Progress\<close> gives the measure on which the loops of \<open>Site_Run\<close> end;
  \<open>Site_Guarantees\<close> proves which requests a map or crawl makes and \<open>Site_Budget\<close> how many.

  Search.  \<open>Search_Merge\<close> is \<open>merge.py\<close> with \<open>normalize_url\<close>, \<open>Search_Selection\<close> \<open>selection.py\<close>,
  \<open>Evidence_Types\<close> \<open>types.py\<close>, \<open>Chunker_Client\<close> and \<open>Reranker_Client\<close> the clients of those names,
  \<open>Evidence_Filters\<close> \<open>content_dedup.py\<close>, \<open>prefilter.py\<close> and \<open>evidence_quality.py\<close>, \<open>Evidence_Assembly\<close>
  \<open>assembly.py\<close>.  \<open>Search_Pipeline\<close> is \<open>pipeline.py\<close>, which composes them; \<open>Search_Guarantees\<close> proves of whole
  searches which URLs are asked for, where the passages of the answer come from and how large it is.

  Conventions.  A Python float is a real, so rounding, NaN and the infinities are outside the model; an int is an
  \<open>int\<close> or \<open>nat\<close>; a string is a list of the characters 0 to 255.  A dictionary is a map, or the list of its members
  where the order matters; a table of the database is the list of its rows.  A raise is a value: an option where there
  is one kind of error, a sum or the monad of \<open>Effects\<close> where there are several.  What is not under \<open>src/\<close>, or
  depends on data of the platform (IDNA, name resolution, address categories, IPv6 text, SHA-256, random identifiers,
  XML and HTML parsers, dates, the answers and the timing of the services, the sizes of JSON texts), is a parameter.  Where
  other tasks run between two steps, the answers are indexed by the number of calls made before, so that nothing
  is assumed to stay the same, or the tasks are a step relation.

  Bounds and termination.  Recursion is structural or has a measure, so the loops return: the splitter's position
  in the text, the distance to the end for the matchers, the work left in a frontier (records still allowed and records
  queued) for the page loop, the sitemap candidates still allowed and the sitemaps queued for the sitemap loop, the token
  budget for evidence items that are cut down.  The one loop of the program that may not end, the segmentation with a
  size of 0, is a \<open>partial_function (option)\<close>; \<open>None\<close> is not returning.  The fuel of \<open>Json_Text\<close> is the length of
  the text, and every call shortens it.

  Not modelled.  The fetch route (\<open>fetch_pipeline.py\<close>) with the page cache, target watches, diffs and structured
  extraction from HTML; the HTTP clients of the browser, the search engine and the planner; the extraction of metadata
  from HTML and the call of the boilerplate remover, which the search pipeline takes as parameters; environment settings,
  logging, FastAPI and MCP wiring; the command line installer, the scripts and the test doubles.  Within the modelled
  parts, elapsed times and log lines are left out.
\<close>

end
